(* ===== verification/Plank_Prelude.thy ===== *)
theory Plank_Prelude
  imports Main "HOL-Library.Word"
begin

text \<open>
  Shared vocabulary of the development: the C integer types at their width, byte buffers and the
  stores the C code makes into them, big-endian and little-endian fields, C strings, and the lemma
  collections the component theories use.
\<close>

unbundle bit_operations_syntax

section \<open>Machine types\<close>

type_synonym u8 = "8 word"
type_synonym u16 = "16 word"
type_synonym u32 = "32 word"
type_synonym u64 = "64 word"
type_synonym i32 = "32 word" \<comment> \<open>two's complement, read with \<^const>\<open>sint\<close>\<close>
type_synonym size_t = "64 word"
type_synonym bytes = "8 word list"

named_theorems wire_simps \<open>rewriting of field stores and loads in byte buffers\<close>
named_theorems codec_defs \<open>definitions of encoders and decoders\<close>

lemma unat_of_nat_eq: "n < 2 ^ LENGTH('a) \<Longrightarrow> unat (of_nat n :: 'a::len word) = n"
  by (simp add: unat_of_nat)

lemma unat_bound: "unat w < 2 ^ LENGTH('a)" for w :: "'a::len word"
  by (rule unsigned_less)

lemma unat_ucast_up:
  fixes w :: "'a::len word"
  assumes "LENGTH('a) \<le> LENGTH('b)"
  shows "unat (ucast w :: 'b::len word) = unat w"
proof -
  have "(2::nat) ^ LENGTH('a) \<le> 2 ^ LENGTH('b)"
    using assms by (intro power_increasing) auto
  then have "unat w < 2 ^ LENGTH('b)"
    using unat_bound [of w] by linarith
  then show ?thesis by (simp add: unsigned_ucast_eq take_bit_nat_eq_self)
qed

lemma of_nat_unat_id: "of_nat (unat w) = w" for w :: "'a::len word"
  by simp

section \<open>Byte buffers\<close>

text \<open>
  A pointer into a buffer is the buffer and an offset. \<open>store buf off xs\<close> is the buffer after the
  bytes \<open>xs\<close> have been written from \<open>off\<close> on; \<open>memcpy_at buf off src n\<close> is
  \<^verbatim>\<open>memcpy(buf + off, src, n)\<close>; \<open>load buf off n\<close> reads \<open>n\<close> bytes.
\<close>

definition store :: "'a list \<Rightarrow> nat \<Rightarrow> 'a list \<Rightarrow> 'a list" where
  "store buf off xs = take off buf @ xs @ drop (off + length xs) buf"

definition memcpy_at :: "'a list \<Rightarrow> nat \<Rightarrow> 'a list \<Rightarrow> nat \<Rightarrow> 'a list" where
  "memcpy_at buf off src n = store buf off (take n src)"

definition load :: "'a list \<Rightarrow> nat \<Rightarrow> nat \<Rightarrow> 'a list" where
  "load buf off n = take n (drop off buf)"

lemma length_store [simp]: "off + length xs \<le> length buf \<Longrightarrow> length (store buf off xs) = length buf"
  by (simp add: store_def)

lemma store_Nil [simp]: "store buf off [] = buf"
  by (simp add: store_def)

lemma store_store [wire_simps]:
  assumes "off' = off + length xs" and "off' + length ys \<le> length buf"
  shows "store (store buf off xs) off' ys = store buf off (xs @ ys)"
proof -
  have "off \<le> length buf" using assms by simp
  then show ?thesis using assms by (simp add: store_def ac_simps)
qed

lemma store_update1 [wire_simps]: "off < length buf \<Longrightarrow> buf[off := a] = store buf off [a]"
  by (simp add: store_def upd_conv_take_nth_drop)

lemma store_update2:
  "Suc off < length buf \<Longrightarrow> buf[off := a, Suc off := b] = store buf off [a, b]"
  by (simp add: store_update1 store_store)

lemma store_update4:
  "off + 3 < length buf \<Longrightarrow>
   buf[off := a, off + 1 := b, off + 2 := c, off + 3 := d] = store buf off [a, b, c, d]"
  by (simp add: store_update1 store_store)

lemma load_store [simp]:
  "off + length xs \<le> length buf \<Longrightarrow> length xs = n \<Longrightarrow> load (store buf off xs) off n = xs"
  by (simp add: load_def store_def)

lemma take_store0: "length xs = n \<Longrightarrow> take n (store buf 0 xs) = xs"
  by (simp add: store_def)

lemma take_store_prefix: "n \<le> off \<Longrightarrow> off \<le> length buf \<Longrightarrow> take n (store buf off xs) = take n buf"
  by (simp add: store_def min_def)

lemma drop_store_suffix:
  "off + length xs \<le> n \<Longrightarrow> off \<le> length buf \<Longrightarrow> drop n (store buf off xs) = drop n buf"
  by (auto simp: store_def min_def drop_append)

lemma length_load [simp]: "off + n \<le> length buf \<Longrightarrow> length (load buf off n) = n"
  by (simp add: load_def)

lemma load_append_load:
  "load buf off m @ load buf (off + m) n = load buf off (m + n)"
  by (simp add: load_def take_add add.commute)

lemma load_append1: "off + n \<le> length xs \<Longrightarrow> load (xs @ ys) off n = load xs off n"
  by (simp add: load_def)

lemma load_append2: "length xs \<le> off \<Longrightarrow> load (xs @ ys) off n = load ys (off - length xs) n"
  by (simp add: load_def)

lemma load2: "off + 2 \<le> length buf \<Longrightarrow> load buf off 2 = [buf ! off, buf ! (off + 1)]"
  by (simp add: load_def numeral_2_eq_2 Cons_nth_drop_Suc [symmetric])

lemma load4:
  "off + 4 \<le> length buf \<Longrightarrow>
   load buf off 4 = [buf ! off, buf ! (off + 1), buf ! (off + 2), buf ! (off + 3)]"
proof -
  assume "off + 4 \<le> length buf"
  then have "load buf off 2 @ load buf (off + 2) 2
      = [buf ! off, buf ! (off + 1), buf ! (off + 2), buf ! (off + 2 + 1)]"
    by (simp only: load2) (simp add: load2)
  moreover have "off + 2 + 1 = off + 3" by simp
  ultimately show ?thesis
    using load_append_load [of buf off 2 2] by (simp only: numeral_plus_numeral semiring_norm)
qed

section \<open>Big-endian fields\<close>

definition be16 :: "u16 \<Rightarrow> bytes" where
  "be16 v = [ucast (drop_bit 8 v), ucast v]"

definition be32 :: "u32 \<Rightarrow> bytes" where
  "be32 v = [ucast (drop_bit 24 v), ucast (drop_bit 16 v), ucast (drop_bit 8 v), ucast v]"

text \<open>
  The reads, with the C promotions: a shifted byte is an \<open>int\<close>, here its 32-bit pattern.
\<close>

definition of_be16 :: "u8 \<Rightarrow> u8 \<Rightarrow> u16" where
  "of_be16 a b = ucast (push_bit 8 (ucast a :: u32) OR (ucast b :: u32))"

definition of_be32 :: "u8 \<Rightarrow> u8 \<Rightarrow> u8 \<Rightarrow> u8 \<Rightarrow> u32" where
  "of_be32 a b c d =
     push_bit 24 (ucast a) OR push_bit 16 (ucast b) OR push_bit 8 (ucast c) OR ucast d"

lemma length_be16 [simp]: "length (be16 v) = 2"
  by (simp add: be16_def)

lemma length_be32 [simp]: "length (be32 v) = 4"
  by (simp add: be32_def)

lemma of_be16_be16: "of_be16 (ucast (drop_bit 8 v)) (ucast v) = v"
proof (rule bit_word_eqI)
  fix n assume "n < LENGTH(16)"
  then show "bit (of_be16 (ucast (drop_bit 8 v)) (ucast v)) n = bit v n"
    by (cases "n < 8")
      (auto simp: of_be16_def bit_simps dest: bit_imp_le_length)
qed

lemma be16_of_be16: "be16 (of_be16 a b) = [a, b]"
proof -
  have "ucast (drop_bit 8 (of_be16 a b)) = a"
    by (rule bit_word_eqI) (auto simp: of_be16_def bit_simps dest: bit_imp_le_length)
  moreover have "ucast (of_be16 a b) = b"
    by (rule bit_word_eqI) (auto simp: of_be16_def bit_simps dest: bit_imp_le_length)
  ultimately show ?thesis by (simp add: be16_def)
qed

lemma of_be32_be32:
  "of_be32 (ucast (drop_bit 24 v)) (ucast (drop_bit 16 v)) (ucast (drop_bit 8 v)) (ucast v) = v"
proof (rule bit_word_eqI)
  fix n assume "n < LENGTH(32)"
  then show "bit (of_be32 (ucast (drop_bit 24 v)) (ucast (drop_bit 16 v)) (ucast (drop_bit 8 v))
      (ucast v)) n = bit v n"
    by (cases "n < 8"; cases "n < 16"; cases "n < 24") (auto simp: of_be32_def bit_simps dest: bit_imp_le_length)
qed

lemma be32_of_be32: "be32 (of_be32 a b c d) = [a, b, c, d]"
proof -
  have "ucast (drop_bit 24 (of_be32 a b c d)) = a"
    by (rule bit_word_eqI) (auto simp: of_be32_def bit_simps dest: bit_imp_le_length)
  moreover have "ucast (drop_bit 16 (of_be32 a b c d)) = b"
    by (rule bit_word_eqI) (auto simp: of_be32_def bit_simps dest: bit_imp_le_length)
  moreover have "ucast (drop_bit 8 (of_be32 a b c d)) = c"
    by (rule bit_word_eqI) (auto simp: of_be32_def bit_simps dest: bit_imp_le_length)
  moreover have "ucast (of_be32 a b c d) = d"
    by (rule bit_word_eqI) (auto simp: of_be32_def bit_simps dest: bit_imp_le_length)
  ultimately show ?thesis by (simp add: be32_def)
qed

end
