(* ===== verification/Transport_Wire.thy ===== *)
theory Transport_Wire
  imports Plank_Prelude
begin

text \<open>
  The interfaces the four transport headers share. Each header has its own copies of the big-endian
  field accessors; \<open>be_wire\<close> states what the packet code relies on, and its lemmas give the layout of
  the 8-byte header (control and event packets) and of the 20-byte header (setup packets) once.
  \<open>framed_codec\<close> is the contract of a decoder with respect to the set of well-formed packets.
\<close>

lemma be16_inject [simp]: "be16 v = be16 w \<longleftrightarrow> v = w"
proof
  assume "be16 v = be16 w"
  then have "of_be16 (ucast (drop_bit 8 v)) (ucast v) = of_be16 (ucast (drop_bit 8 w)) (ucast w)"
    by (simp add: be16_def)
  then show "v = w" by (simp add: of_be16_be16)
qed simp

lemma be32_inject [simp]: "be32 v = be32 w \<longleftrightarrow> v = w"
proof
  assume "be32 v = be32 w"
  then have "of_be32 (ucast (drop_bit 24 v)) (ucast (drop_bit 16 v)) (ucast (drop_bit 8 v)) (ucast v)
    = of_be32 (ucast (drop_bit 24 w)) (ucast (drop_bit 16 w)) (ucast (drop_bit 8 w)) (ucast w)"
    by (simp add: be32_def)
  then show "v = w" by (simp add: of_be32_be32)
qed simp

lemma take_split: "n \<le> m \<Longrightarrow> take m xs = take n xs @ load xs n (m - n)"
  by (metis add_diff_inverse_nat load_def not_le take_add)

lemma take_eq_append_iff:
  "length ys + n \<le> length p \<Longrightarrow> length zs = n \<Longrightarrow>
   take (length ys + n) p = ys @ zs \<longleftrightarrow> take (length ys) p = ys \<and> load p (length ys) n = zs"
  by (auto simp: load_def take_add)

lemma size_t_sum_eq:
  fixes n :: "'a::len word"
  assumes "LENGTH('a) \<le> 32" and "len < 2 ^ 64" and "k < 2 ^ 32"
  shows "(of_nat len :: size_t) = of_nat k + ucast n \<longleftrightarrow> len = k + unat n"
proof -
  have "(2::nat) ^ LENGTH('a) \<le> 2 ^ 32"
    using assms(1) by (intro power_increasing) auto
  then have n: "unat n < 2 ^ 32"
    using unat_bound [of n] by linarith
  have "of_nat k + ucast n = (of_nat (k + unat n) :: size_t)"
    by simp
  then have "unat (of_nat k + ucast n :: size_t) = k + unat n"
    using n assms(3) by (simp only:) (subst unat_of_nat_eq, auto)
  moreover have "unat (of_nat len :: size_t) = len"
    using assms(2) by (simp add: unat_of_nat_eq)
  ultimately show ?thesis by (metis word_unat_eq_iff)
qed

section \<open>Big-endian field access\<close>

text \<open>The field accesses as the headers spell them, one byte at a time.\<close>

lemma bytewise_write_u16 [wire_simps]:
  "off + 2 \<le> length buf \<Longrightarrow>
   buf[off := ucast (drop_bit 8 (v :: u16)), Suc off := ucast v] = store buf off (be16 v)"
  by (simp add: be16_def store_update2)

lemma bytewise_write_u32 [wire_simps]:
  "off + 4 \<le> length buf \<Longrightarrow>
   buf[off := ucast (drop_bit 24 (v :: u32)), off + 1 := ucast (drop_bit 16 v),
       off + 2 := ucast (drop_bit 8 v), off + 3 := ucast v] = store buf off (be32 v)"
  unfolding be32_def by (rule store_update4) simp

lemma bytewise_read_u16 [wire_simps]:
  "off + 2 \<le> length buf \<Longrightarrow>
   be16 (ucast (push_bit 8 (ucast (buf ! off) :: u32) OR (ucast (buf ! (off + 1)) :: u32)))
   = load buf off 2"
  by (simp add: be16_of_be16 [unfolded of_be16_def] load2)

lemma bytewise_read_u32 [wire_simps]:
  "off + 4 \<le> length buf \<Longrightarrow>
   be32 (push_bit 24 (ucast (buf ! off)) OR push_bit 16 (ucast (buf ! (off + 1))) OR
         push_bit 8 (ucast (buf ! (off + 2))) OR ucast (buf ! (off + 3))) = load buf off 4"
  by (simp add: be32_of_be32 [unfolded of_be32_def] load4)

locale be_wire =
  fixes write_u16 :: "bytes \<Rightarrow> nat \<Rightarrow> u16 \<Rightarrow> bytes"
    and write_u32 :: "bytes \<Rightarrow> nat \<Rightarrow> u32 \<Rightarrow> bytes"
    and read_u16 :: "bytes \<Rightarrow> nat \<Rightarrow> u16"
    and read_u32 :: "bytes \<Rightarrow> nat \<Rightarrow> u32"
  assumes write_u16: "off + 2 \<le> length buf \<Longrightarrow> write_u16 buf off v = store buf off (be16 v)"
    and write_u32: "off + 4 \<le> length buf \<Longrightarrow> write_u32 buf off w = store buf off (be32 w)"
    and read_u16: "off + 2 \<le> length buf \<Longrightarrow> be16 (read_u16 buf off) = load buf off 2"
    and read_u32: "off + 4 \<le> length buf \<Longrightarrow> be32 (read_u32 buf off) = load buf off 4"
begin

lemma read_u16_eq: "off + 2 \<le> length buf \<Longrightarrow> read_u16 buf off = v \<longleftrightarrow> load buf off 2 = be16 v"
  using read_u16 by (metis be16_inject)

lemma read_u32_eq: "off + 4 \<le> length buf \<Longrightarrow> read_u32 buf off = v \<longleftrightarrow> load buf off 4 = be32 v"
  using read_u32 by (metis be32_inject)

lemma read_write_u16: "off + 2 \<le> length buf \<Longrightarrow> read_u16 (write_u16 buf off v) off = v"
  by (simp add: write_u16 read_u16_eq)

lemma read_write_u32: "off + 4 \<le> length buf \<Longrightarrow> read_u32 (write_u32 buf off v) off = v"
  by (simp add: write_u32 read_u32_eq)

lemma write_header8:
  "8 \<le> length buf \<Longrightarrow>
   write_u16 (write_u16 (write_u32 buf 0 m) 4 t) 6 n = store buf 0 (be32 m @ be16 t @ be16 n)"
  by (simp add: write_u16 write_u32 store_store)

lemma read_header8:
  assumes "8 \<le> length p"
  shows "read_u32 p 0 = m \<and> read_u16 p 4 = t \<and> read_u16 p 6 = n \<longleftrightarrow>
         take 8 p = be32 m @ be16 t @ be16 n"
proof -
  have "take 8 p = load p 0 4 @ load p 4 2 @ load p 6 2"
    using take_split [of 4 8 p] take_split [of 6 8 p] take_split [of 4 6 p]
    by (simp add: load_def)
  with assms show ?thesis
    by (simp add: read_u16_eq read_u32_eq)
qed

lemma frame8_iff:
  assumes "8 \<le> length p"
  shows "length pl < 2 ^ 16 \<and> p = be32 m @ be16 t @ be16 (of_nat (length pl)) @ pl \<longleftrightarrow>
         read_u32 p 0 = m \<and> read_u16 p 4 = t \<and> length p = 8 + unat (read_u16 p 6) \<and> pl = drop 8 p"
    (is "?lhs \<longleftrightarrow> ?rhs")
proof
  assume ?lhs
  then have pl: "pl = drop 8 p" and len: "length p = 8 + length pl" "length pl < 2 ^ 16"
    and hd: "take 8 p = be32 m @ be16 t @ be16 (of_nat (length pl))"
    by auto
  from hd read_header8 [OF assms]
  have rd: "read_u32 p 0 = m \<and> read_u16 p 4 = t \<and> read_u16 p 6 = of_nat (length pl)" by metis
  moreover have "unat (read_u16 p 6) = length pl"
    using rd len(2) by (simp only:) (subst unat_of_nat_eq, auto)
  ultimately show ?rhs using pl len(1) by metis
next
  assume r: ?rhs
  then have "length pl = unat (read_u16 p 6)" by simp
  with unat_bound [of "read_u16 p 6"]
  have n: "length pl < 2 ^ 16" "read_u16 p 6 = of_nat (length pl)"
    by auto
  with r read_header8 [OF assms] have "take 8 p = be32 m @ be16 t @ be16 (of_nat (length pl))" by metis
  then have "p = (be32 m @ be16 t @ be16 (of_nat (length pl))) @ pl"
    using r by (metis append_take_drop_id)
  with n(1) show ?lhs by (metis append.assoc)
qed

lemma write_header20:
  "20 \<le> length buf \<Longrightarrow>
   write_u32 (write_u32 (write_u16 (write_u16 (write_u16 (write_u16 (write_u32 buf 0 m)
     4 v) 6 t) 8 f) 10 s) 12 r) 16 n
   = store buf 0 (be32 m @ be16 v @ be16 t @ be16 f @ be16 s @ be32 r @ be32 n)"
  by (simp add: write_u16 write_u32 store_store)

lemma read_header20:
  assumes "20 \<le> length p"
  shows "read_u32 p 0 = m \<and> read_u16 p 4 = v \<and> read_u16 p 6 = t \<and> read_u16 p 8 = f \<and>
         read_u16 p 10 = s \<and> read_u32 p 12 = r \<and> read_u32 p 16 = n \<longleftrightarrow>
         take 20 p = be32 m @ be16 v @ be16 t @ be16 f @ be16 s @ be32 r @ be32 n"
proof -
  have "take 20 p = load p 0 4 @ load p 4 2 @ load p 6 2 @ load p 8 2 @ load p 10 2 @ load p 12 4
    @ load p 16 4"
    using take_split [of 16 20 p] take_split [of 12 16 p] take_split [of 10 12 p]
      take_split [of 8 10 p] take_split [of 6 8 p] take_split [of 4 6 p]
    by (simp add: load_def)
  with assms show ?thesis
    by (simp add: read_u16_eq read_u32_eq)
qed

lemma write_words:
  assumes "off + 4 * length vs \<le> length buf" and "n \<le> length vs"
  shows "fold (\<lambda>i out. write_u32 out (off + i * 4) (vs ! i)) [0..<n] buf
         = store buf off (concat (map be32 (take n vs)))"
  using assms(2)
proof (induction n)
  case 0
  then show ?case by simp
next
  case (Suc n)
  have len: "length (concat (map be32 (take n vs))) = n * 4"
    using Suc.prems by (simp add: length_concat comp_def sum_list_triv)
  have "write_u32 (store buf off (concat (map be32 (take n vs)))) (off + n * 4) (vs ! n)
      = store buf off (concat (map be32 (take n vs)) @ be32 (vs ! n))"
    using assms(1) Suc.prems len by (subst write_u32) (simp_all add: store_store)
  with Suc show ?case
    by (simp add: take_Suc_conv_app_nth)
qed

end

section \<open>Decoders and the packets they accept\<close>

text \<open>
  \<open>frame\<close> lays a message out, \<open>parse\<close> is what the decoder makes of a buffer that a
  \<^verbatim>\<open>size_t\<close> can measure. The two laws say that the decoder accepts exactly the frames of valid
  messages: nothing valid is refused, and nothing else, no padding, truncation or second spelling,
  is accepted.
\<close>

locale framed_codec =
  fixes valid :: "'a \<Rightarrow> bool"
    and frame :: "'a \<Rightarrow> bytes"
    and parse :: "bytes \<Rightarrow> 'a option"
  assumes parse_frame: "valid a \<Longrightarrow> parse (frame a) = Some a"
    and frame_parse: "length bs < 2 ^ 64 \<Longrightarrow> parse bs = Some a \<Longrightarrow> valid a \<and> frame a = bs"
    and frame_size: "valid a \<Longrightarrow> length (frame a) < 2 ^ 64"
begin

lemma parse_iff:
  "length bs < 2 ^ 64 \<Longrightarrow> parse bs = Some a \<longleftrightarrow> valid a \<and> bs = frame a"
  using parse_frame frame_parse by blast

lemma frame_inj: "valid a \<Longrightarrow> valid b \<Longrightarrow> frame a = frame b \<Longrightarrow> a = b"
  using parse_frame by (metis option.inject)

lemma parse_rejects: "length bs < 2 ^ 64 \<Longrightarrow> parse bs = None \<longleftrightarrow> (\<nexists>a. valid a \<and> bs = frame a)"
  using parse_iff by (metis not_Some_eq)

end

end
