(* ===== verification/Transport_Control.thy ===== *)
theory Transport_Control
  imports Transport_Wire
begin

text \<open>
  \<^verbatim>\<open>protocol/plank-transport/include/plank_transport_control.h\<close>: the native data/control protocol
  "PLD1". The encoder and the decoder are translated with their null checks; a pointer argument is an
  option, a pointer into a packet is the rest of the packet from there.
\<close>

section \<open>Constants and types\<close>

definition PLANK_TRANSPORT_CONTROL_MAGIC :: u32 where
  "PLANK_TRANSPORT_CONTROL_MAGIC = 0x504c4431"

definition PLANK_TRANSPORT_CONTROL_HEADER_SIZE :: size_t where
  "PLANK_TRANSPORT_CONTROL_HEADER_SIZE = 8"

definition PLANK_TRANSPORT_CONTROL_MAX_PACKET_SIZE :: size_t where
  "PLANK_TRANSPORT_CONTROL_MAX_PACKET_SIZE = 20"

definition PLANK_TRANSPORT_TERMINATION_GRACEFUL :: u32 where
  "PLANK_TRANSPORT_TERMINATION_GRACEFUL = 0x80030023"

definition PLANK_TRANSPORT_TERMINATION_SESSION_TAKEN_OVER :: u32 where
  "PLANK_TRANSPORT_TERMINATION_SESSION_TAKEN_OVER = 0x80030024"

datatype PlankTransportControlType =
    CONTROL_CLIENT_DISCONNECT | CONTROL_HOST_TERMINATE | CONTROL_REQUEST_IDR
  | CONTROL_INVALIDATE_REFERENCE_FRAMES | CONTROL_SET_VIDEO_BITRATE
  | CONTROL_VIDEO_BITRATE_APPLIED | CONTROL_HOST_DESKTOP_HANDOFF

primrec control_type_value :: "PlankTransportControlType \<Rightarrow> u16" where
  "control_type_value CONTROL_CLIENT_DISCONNECT = 1"
| "control_type_value CONTROL_HOST_TERMINATE = 2"
| "control_type_value CONTROL_REQUEST_IDR = 3"
| "control_type_value CONTROL_INVALIDATE_REFERENCE_FRAMES = 4"
| "control_type_value CONTROL_SET_VIDEO_BITRATE = 5"
| "control_type_value CONTROL_VIDEO_BITRATE_APPLIED = 6"
| "control_type_value CONTROL_HOST_DESKTOP_HANDOFF = 7"

record PlankTransportControlPacket =
  control_type :: u16
  control_payload :: bytes
  control_payload_size :: u16

section \<open>Field access\<close>

definition plank_transport_control_write_u16 :: "bytes \<Rightarrow> nat \<Rightarrow> u16 \<Rightarrow> bytes" where
  "plank_transport_control_write_u16 output off value =
     output[off := ucast (drop_bit 8 value), Suc off := ucast value]"

definition plank_transport_control_write_u32 :: "bytes \<Rightarrow> nat \<Rightarrow> u32 \<Rightarrow> bytes" where
  "plank_transport_control_write_u32 output off value =
     output[off := ucast (drop_bit 24 value), off + 1 := ucast (drop_bit 16 value),
            off + 2 := ucast (drop_bit 8 value), off + 3 := ucast value]"

definition plank_transport_control_read_u16 :: "bytes \<Rightarrow> nat \<Rightarrow> u16" where
  "plank_transport_control_read_u16 input off =
     ucast (push_bit 8 (ucast (input ! off) :: u32) OR (ucast (input ! (off + 1)) :: u32))"

definition plank_transport_control_read_u32 :: "bytes \<Rightarrow> nat \<Rightarrow> u32" where
  "plank_transport_control_read_u32 input off =
     push_bit 24 (ucast (input ! off)) OR push_bit 16 (ucast (input ! (off + 1))) OR
     push_bit 8 (ucast (input ! (off + 2))) OR ucast (input ! (off + 3))"

section \<open>Encoder and decoder\<close>

text \<open>Both return the C status and what the pointed-to objects hold afterwards.\<close>

definition plank_transport_control_encode ::
  "u16 \<Rightarrow> u32 list option \<Rightarrow> size_t \<Rightarrow> bytes option \<Rightarrow> size_t \<Rightarrow> size_t option
   \<Rightarrow> int \<times> bytes option \<times> size_t option" where
  "plank_transport_control_encode type values value_count output output_capacity output_size =
     (if output = None \<or> output_size = None \<or> value_count > 3 \<or>
         (value_count \<noteq> 0 \<and> values = None)
      then (- 1, output, output_size)
      else
        let payload_size = value_count * 4;
            packet_size = PLANK_TRANSPORT_CONTROL_HEADER_SIZE + payload_size
        in if output_capacity < packet_size then (- 1, output, output_size)
           else
             let out = the output;
                 out = plank_transport_control_write_u32 out 0 PLANK_TRANSPORT_CONTROL_MAGIC;
                 out = plank_transport_control_write_u16 out 4 type;
                 out = plank_transport_control_write_u16 out 6 (ucast payload_size);
                 out = fold (\<lambda>index out. plank_transport_control_write_u32 out
                               (unat PLANK_TRANSPORT_CONTROL_HEADER_SIZE + index * 4)
                               (the values ! index))
                         [0..<unat value_count] out
             in (0, Some out, Some packet_size))"

definition plank_transport_control_decode ::
  "bytes option \<Rightarrow> size_t \<Rightarrow> PlankTransportControlPacket option
   \<Rightarrow> int \<times> PlankTransportControlPacket option" where
  "plank_transport_control_decode packet packet_size decoded =
     (if packet = None \<or> decoded = None \<or>
         packet_size < PLANK_TRANSPORT_CONTROL_HEADER_SIZE \<or>
         plank_transport_control_read_u32 (the packet) 0 \<noteq> PLANK_TRANSPORT_CONTROL_MAGIC
      then (- 1, decoded)
      else
        let p = the packet; payload_size = plank_transport_control_read_u16 p 6
        in if packet_size \<noteq> PLANK_TRANSPORT_CONTROL_HEADER_SIZE + ucast payload_size
           then (- 1, decoded)
           else (0, Some \<lparr>control_type = plank_transport_control_read_u16 p 4,
                          control_payload = drop (unat PLANK_TRANSPORT_CONTROL_HEADER_SIZE) p,
                          control_payload_size = payload_size\<rparr>))"

section \<open>The packets of the protocol\<close>

text \<open>A message is its type and payload; \<open>control_frame\<close> is its one spelling on the wire.\<close>

type_synonym control_message = "u16 \<times> bytes"

definition control_valid :: "control_message \<Rightarrow> bool" where
  "control_valid m \<longleftrightarrow> length (snd m) < 2 ^ 16"

definition control_frame :: "control_message \<Rightarrow> bytes" where
  "control_frame m =
     be32 PLANK_TRANSPORT_CONTROL_MAGIC @ be16 (fst m) @ be16 (of_nat (length (snd m))) @ snd m"

definition control_blank :: PlankTransportControlPacket where
  "control_blank = \<lparr>control_type = 0, control_payload = [], control_payload_size = 0\<rparr>"

definition control_parse :: "bytes \<Rightarrow> control_message option" where
  "control_parse p =
     (case plank_transport_control_decode (Some p) (of_nat (length p)) (Some control_blank) of
        (st, d) \<Rightarrow> if st = 0
          then map_option (\<lambda>d. (control_type d, take (unat (control_payload_size d)) (control_payload d))) d
          else None)"

section \<open>Layout\<close>

interpretation control_wire: be_wire plank_transport_control_write_u16
  plank_transport_control_write_u32 plank_transport_control_read_u16
  plank_transport_control_read_u32
  by unfold_locales
    (simp_all only: plank_transport_control_write_u16_def plank_transport_control_write_u32_def
      plank_transport_control_read_u16_def plank_transport_control_read_u32_def
      bytewise_write_u16 bytewise_write_u32 bytewise_read_u16 bytewise_read_u32)


lemma control_header_size [simp]: "unat PLANK_TRANSPORT_CONTROL_HEADER_SIZE = 8"
  by (simp add: PLANK_TRANSPORT_CONTROL_HEADER_SIZE_def)

lemma length_control_frame [simp]: "length (control_frame m) = 8 + length (snd m)"
  by (simp add: control_frame_def)

lemma control_packet_size:
  "value_count \<le> 3 \<Longrightarrow>
   unat (PLANK_TRANSPORT_CONTROL_HEADER_SIZE + value_count * 4) = 8 + 4 * unat value_count"
  for value_count :: size_t
proof -
  assume "value_count \<le> 3"
  then have "unat value_count \<le> 3" by (simp add: word_le_nat_alt)
  then show ?thesis
    by (simp add: PLANK_TRANSPORT_CONTROL_HEADER_SIZE_def unat_word_ariths)
qed

lemma control_payload_field:
  "value_count \<le> 3 \<Longrightarrow> ucast (value_count * 4) = (of_nat (4 * unat value_count) :: u16)"
  for value_count :: size_t
proof -
  assume "value_count \<le> 3"
  then have "unat value_count \<le> 3" by (simp add: word_le_nat_alt)
  then have "unat (value_count * 4) = 4 * unat value_count"
    by (simp add: unat_word_ariths)
  then show ?thesis by (metis of_nat_unat)
qed

text \<open>
  What a successful call writes: the frame of the message, at the start of the output buffer, and
  nothing after it.
\<close>

lemma control_encode_frame:
  assumes "value_count \<le> 3" and "unat value_count \<le> length vs"
    and "unat output_capacity \<le> length out"
    and "8 + 4 * unat value_count \<le> unat output_capacity"
  shows "plank_transport_control_encode type (Some vs) value_count (Some out) output_capacity (Some sz)
    = (0, Some (store out 0 (control_frame (type, concat (map be32 (take (unat value_count) vs))))),
          Some (of_nat (8 + 4 * unat value_count)))"
proof -
  let ?n = "unat value_count"
  let ?vs = "concat (map be32 (take ?n vs))"
  have size: "unat (PLANK_TRANSPORT_CONTROL_HEADER_SIZE + value_count * 4) = 8 + 4 * ?n"
    using assms(1) by (rule control_packet_size)
  then have cap: "\<not> output_capacity < PLANK_TRANSPORT_CONTROL_HEADER_SIZE + value_count * 4"
    using assms(4) by (simp add: word_less_nat_alt)
  from size have size': "PLANK_TRANSPORT_CONTROL_HEADER_SIZE + value_count * 4 = of_nat (8 + 4 * ?n)"
    by (metis of_nat_unat ucast_id)
  have len: "length ?vs = 4 * ?n"
    using assms(2) by (simp add: length_concat comp_def sum_list_triv)
  let ?hd = "store out 0 (be32 PLANK_TRANSPORT_CONTROL_MAGIC @ be16 type @ be16 (of_nat (4 * ?n)))"
  have hd: "plank_transport_control_write_u16 (plank_transport_control_write_u16
      (plank_transport_control_write_u32 out 0 PLANK_TRANSPORT_CONTROL_MAGIC) 4 type) 6
      (ucast (value_count * 4)) = ?hd"
    using assms by (simp add: control_wire.write_header8 control_payload_field)
  have body: "fold (\<lambda>i out. plank_transport_control_write_u32 out (8 + i * 4) (vs ! i)) [0..<?n] ?hd
      = store out 0 (control_frame (type, ?vs))"
  proof -
    have "fold (\<lambda>i out. plank_transport_control_write_u32 out (8 + i * 4) (vs ! i)) [0..<?n] ?hd
      = fold (\<lambda>i out. plank_transport_control_write_u32 out (8 + i * 4) (take ?n vs ! i)) [0..<?n] ?hd"
      by (rule fold_cong) auto
    also have "\<dots> = store ?hd 8 (concat (map be32 (take ?n (take ?n vs))))"
      using assms by (intro control_wire.write_words) auto
    also have "\<dots> = store out 0 (control_frame (type, ?vs))"
      using assms len by (simp add: store_store control_frame_def)
    finally show ?thesis .
  qed
  show ?thesis
    unfolding plank_transport_control_encode_def
    using assms(1) cap hd body by (simp add: Let_def size')
qed

text \<open>Every other call fails and leaves both outputs as they were.\<close>

lemma control_encode_status:
  "fst (plank_transport_control_encode type values value_count output output_capacity output_size) = 0
   \<longleftrightarrow> output \<noteq> None \<and> output_size \<noteq> None \<and> value_count \<le> 3 \<and>
       (value_count \<noteq> 0 \<longrightarrow> values \<noteq> None) \<and>
       8 + 4 * unat value_count \<le> unat output_capacity"
  unfolding plank_transport_control_encode_def
  using control_packet_size [of value_count]
  by (auto simp: Let_def word_less_nat_alt word_le_nat_alt not_less)

lemma control_encode_failure:
  "fst (plank_transport_control_encode type values value_count output output_capacity output_size) \<noteq> 0
   \<Longrightarrow> plank_transport_control_encode type values value_count output output_capacity output_size
       = (- 1, output, output_size)"
  unfolding plank_transport_control_encode_def by (auto simp: Let_def split: if_splits)

text \<open>What the decoder accepts.\<close>

lemma control_parse_iff:
  assumes "length p < 2 ^ 64"
  shows "control_parse p = Some m \<longleftrightarrow> control_valid m \<and> p = control_frame m"
proof (cases "8 \<le> length p")
  case False
  then have "(of_nat (length p) :: size_t) < PLANK_TRANSPORT_CONTROL_HEADER_SIZE"
    using assms by (simp add: word_less_nat_alt unat_of_nat_eq)
  then have "control_parse p = None"
    by (simp add: control_parse_def plank_transport_control_decode_def)
  with False show ?thesis by (metis length_control_frame le_add1 option.distinct(1))
next
  case True
  let ?n = "plank_transport_control_read_u16 p 6"
  have short: "\<not> (of_nat (length p) :: size_t) < 8"
    using True assms by (simp add: word_less_nat_alt unat_of_nat_eq)
  have size: "(of_nat (length p) :: size_t) = 8 + ucast ?n \<longleftrightarrow> length p = 8 + unat ?n"
    using size_t_sum_eq [of "length p" 8 ?n] assms by simp
  have "control_parse p = (if plank_transport_control_read_u32 p 0 = PLANK_TRANSPORT_CONTROL_MAGIC
      \<and> length p = 8 + unat ?n then Some (plank_transport_control_read_u16 p 4, drop 8 p) else None)"
    using short size
    by (simp add: control_parse_def plank_transport_control_decode_def Let_def
        PLANK_TRANSPORT_CONTROL_HEADER_SIZE_def)
  then show ?thesis
    using control_wire.frame8_iff [OF True, of "snd m" PLANK_TRANSPORT_CONTROL_MAGIC "fst m"]
    by (cases m) (auto simp: control_valid_def control_frame_def)
qed

interpretation control_codec: framed_codec control_valid control_frame control_parse
  by unfold_locales (auto simp: control_parse_iff control_valid_def)

section \<open>Properties\<close>

text \<open>
  C24. A control packet that \<open>plank_transport_control_encode\<close> writes is decoded by
  \<open>plank_transport_control_decode\<close> to the same type and the big-endian spelling of the same values.
  The bytes of the caller's buffer behind the packet are unchanged, and the packet is no longer than
  \<open>PLANK_TRANSPORT_CONTROL_MAX_PACKET_SIZE\<close>.
\<close>

theorem control_encode_decode:
  assumes "plank_transport_control_encode type (Some vs) n (Some out) cap (Some sz)
           = (0, Some out', Some sz')"
    and "unat n \<le> length vs" and "unat cap \<le> length out"
  shows "control_parse (take (unat sz') out') = Some (type, concat (map be32 (take (unat n) vs)))
       \<and> drop (unat sz') out' = drop (unat sz') out \<and> length out' = length out
       \<and> sz' \<le> PLANK_TRANSPORT_CONTROL_MAX_PACKET_SIZE"
proof -
  let ?m = "(type, concat (map be32 (take (unat n) vs)))"
  have ok: "n \<le> 3 \<and> 8 + 4 * unat n \<le> unat cap"
    using control_encode_status [of type "Some vs" n "Some out" cap "Some sz"] assms(1) by simp
  then have n3: "unat n \<le> 3" by (simp add: word_le_nat_alt)
  have len: "length (control_frame ?m) = 8 + 4 * unat n"
    using assms(2) by (simp add: length_concat comp_def sum_list_triv)
  have out': "out' = store out 0 (control_frame ?m)" and sz': "sz' = of_nat (8 + 4 * unat n)"
    using control_encode_frame [of n vs cap out type sz] ok assms by auto
  have usz: "unat sz' = 8 + 4 * unat n"
    unfolding sz' using n3 by (subst unat_of_nat_eq) auto
  have "take (unat sz') out' = control_frame ?m"
    using out' usz len by (simp add: take_store0)
  moreover have "control_parse (control_frame ?m) = Some ?m"
    using len n3 by (intro control_codec.parse_frame) (simp add: control_valid_def)
  moreover have "drop (unat sz') out' = drop (unat sz') out"
    unfolding out' usz using len by (simp add: drop_store_suffix)
  moreover have "length out' = length out"
    using out' len ok assms(3) by simp
  moreover have "sz' \<le> PLANK_TRANSPORT_CONTROL_MAX_PACKET_SIZE"
    using usz n3 by (simp add: word_le_nat_alt PLANK_TRANSPORT_CONTROL_MAX_PACKET_SIZE_def)
  ultimately show ?thesis by simp
qed

subsection \<open>Examples\<close>

theorem control_encode_decode_witness:
  "control_parse [0x50, 0x4c, 0x44, 0x31, 0, 2, 0, 4, 0x80, 3, 0, 0x23] = Some (2, [0x80, 3, 0, 0x23])"
proof -
  have "plank_transport_control_encode 2 (Some [PLANK_TRANSPORT_TERMINATION_GRACEFUL]) 1
      (Some (replicate 16 0xaa)) 16 (Some 0)
    = (0, Some [0x50, 0x4c, 0x44, 0x31, 0, 2, 0, 4, 0x80, 3, 0, 0x23, 0xaa, 0xaa, 0xaa, 0xaa], Some 12)"
    by code_simp
  from control_encode_decode [OF this] show ?thesis
    by (simp add: be32_def PLANK_TRANSPORT_TERMINATION_GRACEFUL_def)
qed

end
