(* ===== verification/Transport_Event.thy ===== *)
theory Transport_Event
  imports Transport_Wire
begin

text \<open>
  \<^verbatim>\<open>protocol/plank-transport/include/plank_transport_event.h\<close>: the Host-to-Client event protocol
  "PLE1", with the same 8-byte header as the control protocol and an opaque payload.
\<close>

section \<open>Constants and types\<close>

definition PLANK_TRANSPORT_EVENT_MAGIC :: u32 where
  "PLANK_TRANSPORT_EVENT_MAGIC = 0x504c4531"

definition PLANK_TRANSPORT_EVENT_HEADER_SIZE :: size_t where
  "PLANK_TRANSPORT_EVENT_HEADER_SIZE = 8"

definition PLANK_TRANSPORT_EVENT_MAX_PACKET_SIZE :: size_t where
  "PLANK_TRANSPORT_EVENT_MAX_PACKET_SIZE = 65535"

definition PLANK_TRANSPORT_EVENT_HDR_MODE_SIZE :: size_t where
  "PLANK_TRANSPORT_EVENT_HDR_MODE_SIZE = 28"

datatype PlankTransportEventType =
    EVENT_HDR_MODE | EVENT_RAW_HID_WACOM | EVENT_CURSOR_SHAPE | EVENT_CURSOR_POSITION
  | EVENT_CLIPBOARD_OFFER

primrec event_type_value :: "PlankTransportEventType \<Rightarrow> u16" where
  "event_type_value EVENT_HDR_MODE = 1"
| "event_type_value EVENT_RAW_HID_WACOM = 2"
| "event_type_value EVENT_CURSOR_SHAPE = 3"
| "event_type_value EVENT_CURSOR_POSITION = 4"
| "event_type_value EVENT_CLIPBOARD_OFFER = 5"

record PlankTransportEventPacket =
  event_type :: u16
  event_payload :: bytes
  event_payload_size :: u16

section \<open>Field access\<close>

definition plank_transport_event_write_u16 :: "bytes \<Rightarrow> nat \<Rightarrow> u16 \<Rightarrow> bytes" where
  "plank_transport_event_write_u16 output off value =
     output[off := ucast (drop_bit 8 value), Suc off := ucast value]"

definition plank_transport_event_write_u32 :: "bytes \<Rightarrow> nat \<Rightarrow> u32 \<Rightarrow> bytes" where
  "plank_transport_event_write_u32 output off value =
     output[off := ucast (drop_bit 24 value), off + 1 := ucast (drop_bit 16 value),
            off + 2 := ucast (drop_bit 8 value), off + 3 := ucast value]"

definition plank_transport_event_read_u16 :: "bytes \<Rightarrow> nat \<Rightarrow> u16" where
  "plank_transport_event_read_u16 input off =
     ucast (push_bit 8 (ucast (input ! off) :: u32) OR (ucast (input ! (off + 1)) :: u32))"

definition plank_transport_event_read_u32 :: "bytes \<Rightarrow> nat \<Rightarrow> u32" where
  "plank_transport_event_read_u32 input off =
     push_bit 24 (ucast (input ! off)) OR push_bit 16 (ucast (input ! (off + 1))) OR
     push_bit 8 (ucast (input ! (off + 2))) OR ucast (input ! (off + 3))"

section \<open>Encoder and decoder\<close>

text \<open>
  The packet size is computed in \<^verbatim>\<open>size_t\<close> before any check; the payload bound that follows
  refuses every size for which that sum wraps around.
\<close>

definition plank_transport_event_encode ::
  "u16 \<Rightarrow> bytes option \<Rightarrow> size_t \<Rightarrow> bytes option \<Rightarrow> size_t \<Rightarrow> size_t option
   \<Rightarrow> int \<times> bytes option \<times> size_t option" where
  "plank_transport_event_encode type payload payload_size output output_capacity output_size =
     (let packet_size = PLANK_TRANSPORT_EVENT_HEADER_SIZE + payload_size in
      if output = None \<or> output_size = None \<or> (payload_size \<noteq> 0 \<and> payload = None) \<or>
         payload_size > 0xffff \<or> output_capacity < packet_size
      then (- 1, output, output_size)
      else
        let out = the output;
            out = plank_transport_event_write_u32 out 0 PLANK_TRANSPORT_EVENT_MAGIC;
            out = plank_transport_event_write_u16 out 4 type;
            out = plank_transport_event_write_u16 out 6 (ucast payload_size);
            out = (if payload_size \<noteq> 0
                   then memcpy_at out (unat PLANK_TRANSPORT_EVENT_HEADER_SIZE) (the payload)
                          (unat payload_size)
                   else out)
        in (0, Some out, Some packet_size))"

definition plank_transport_event_decode ::
  "bytes option \<Rightarrow> size_t \<Rightarrow> PlankTransportEventPacket option
   \<Rightarrow> int \<times> PlankTransportEventPacket option" where
  "plank_transport_event_decode packet packet_size decoded =
     (if packet = None \<or> decoded = None \<or> packet_size < PLANK_TRANSPORT_EVENT_HEADER_SIZE \<or>
         plank_transport_event_read_u32 (the packet) 0 \<noteq> PLANK_TRANSPORT_EVENT_MAGIC
      then (- 1, decoded)
      else
        let p = the packet; payload_size = plank_transport_event_read_u16 p 6
        in if packet_size \<noteq> PLANK_TRANSPORT_EVENT_HEADER_SIZE + ucast payload_size
           then (- 1, decoded)
           else (0, Some \<lparr>event_type = plank_transport_event_read_u16 p 4,
                          event_payload = drop (unat PLANK_TRANSPORT_EVENT_HEADER_SIZE) p,
                          event_payload_size = payload_size\<rparr>))"

section \<open>The packets of the protocol\<close>

type_synonym event_message = "u16 \<times> bytes"

definition event_valid :: "event_message \<Rightarrow> bool" where
  "event_valid m \<longleftrightarrow> length (snd m) < 2 ^ 16"

definition event_frame :: "event_message \<Rightarrow> bytes" where
  "event_frame m =
     be32 PLANK_TRANSPORT_EVENT_MAGIC @ be16 (fst m) @ be16 (of_nat (length (snd m))) @ snd m"

definition event_blank :: PlankTransportEventPacket where
  "event_blank = \<lparr>event_type = 0, event_payload = [], event_payload_size = 0\<rparr>"

definition event_parse :: "bytes \<Rightarrow> event_message option" where
  "event_parse p =
     (case plank_transport_event_decode (Some p) (of_nat (length p)) (Some event_blank) of
        (st, d) \<Rightarrow> if st = 0
          then map_option (\<lambda>d. (event_type d, take (unat (event_payload_size d)) (event_payload d))) d
          else None)"

section \<open>Layout\<close>

interpretation event_wire: be_wire plank_transport_event_write_u16
  plank_transport_event_write_u32 plank_transport_event_read_u16
  plank_transport_event_read_u32
  by unfold_locales
    (simp_all only: plank_transport_event_write_u16_def plank_transport_event_write_u32_def
      plank_transport_event_read_u16_def plank_transport_event_read_u32_def
      bytewise_write_u16 bytewise_write_u32 bytewise_read_u16 bytewise_read_u32)

lemma length_event_frame [simp]: "length (event_frame m) = 8 + length (snd m)"
  by (simp add: event_frame_def)

lemma event_header_size [simp]: "unat PLANK_TRANSPORT_EVENT_HEADER_SIZE = 8"
  by (simp add: PLANK_TRANSPORT_EVENT_HEADER_SIZE_def)

lemma event_packet_size:
  "payload_size \<le> 0xffff \<Longrightarrow>
   unat (PLANK_TRANSPORT_EVENT_HEADER_SIZE + payload_size) = 8 + unat payload_size"
  for payload_size :: size_t
  by (simp add: PLANK_TRANSPORT_EVENT_HEADER_SIZE_def unat_word_ariths word_le_nat_alt)

lemma event_encode_status:
  "fst (plank_transport_event_encode type payload payload_size output output_capacity output_size) = 0
   \<longleftrightarrow> output \<noteq> None \<and> output_size \<noteq> None \<and> (payload_size \<noteq> 0 \<longrightarrow> payload \<noteq> None) \<and>
       unat payload_size < 2 ^ 16 \<and> 8 + unat payload_size \<le> unat output_capacity"
  unfolding plank_transport_event_encode_def
  using event_packet_size [of payload_size]
  by (auto simp: Let_def word_less_nat_alt word_le_nat_alt not_less)

lemma event_encode_frame:
  assumes "unat payload_size < 2 ^ 16" and "unat payload_size = length pl"
    and "unat output_capacity \<le> length out"
    and "8 + unat payload_size \<le> unat output_capacity"
  shows "plank_transport_event_encode type (Some pl) payload_size (Some out) output_capacity (Some sz)
    = (0, Some (store out 0 (event_frame (type, pl))), Some (of_nat (8 + length pl)))"
proof -
  have le: "payload_size \<le> 0xffff"
    using assms(1) by (simp add: word_le_nat_alt)
  have size: "unat (PLANK_TRANSPORT_EVENT_HEADER_SIZE + payload_size) = 8 + length pl"
    using le assms(2) by (simp add: event_packet_size)
  then have size': "PLANK_TRANSPORT_EVENT_HEADER_SIZE + payload_size = of_nat (8 + length pl)"
    by (metis of_nat_unat ucast_id)
  have cap: "\<not> output_capacity < PLANK_TRANSPORT_EVENT_HEADER_SIZE + payload_size"
    using size assms(2,4) by (simp add: word_less_nat_alt)
  have field: "ucast payload_size = (of_nat (length pl) :: u16)"
    using assms(2) by (metis of_nat_unat)
  have hd: "plank_transport_event_write_u16 (plank_transport_event_write_u16
      (plank_transport_event_write_u32 out 0 PLANK_TRANSPORT_EVENT_MAGIC) 4 type) 6
      (ucast payload_size)
      = store out 0 (be32 PLANK_TRANSPORT_EVENT_MAGIC @ be16 type @ be16 (of_nat (length pl)))"
    using assms by (simp add: event_wire.write_header8 field)
  have zero: "payload_size = 0 \<longleftrightarrow> pl = []"
    using assms(2) by (metis length_0_conv unsigned_eq_0_iff)
  have body: "(if payload_size \<noteq> 0 then memcpy_at (store out 0 (be32 PLANK_TRANSPORT_EVENT_MAGIC @
      be16 type @ be16 (of_nat (length pl)))) 8 pl (unat payload_size)
      else store out 0 (be32 PLANK_TRANSPORT_EVENT_MAGIC @ be16 type @ be16 (of_nat (length pl))))
      = store out 0 (event_frame (type, pl))"
    using assms zero by (auto simp: memcpy_at_def store_store event_frame_def)
  have "\<not> (Some out = None \<or> Some sz = None \<or> (payload_size \<noteq> 0 \<and> Some pl = None) \<or>
      payload_size > 0xffff \<or> output_capacity < PLANK_TRANSPORT_EVENT_HEADER_SIZE + payload_size)"
    using le cap by auto
  then show ?thesis
    unfolding plank_transport_event_encode_def Let_def
    by (simp only: if_False hd body size' event_header_size option.sel)
qed

lemma event_parse_iff:
  assumes "length p < 2 ^ 64"
  shows "event_parse p = Some m \<longleftrightarrow> event_valid m \<and> p = event_frame m"
proof (cases "8 \<le> length p")
  case False
  then have "(of_nat (length p) :: size_t) < PLANK_TRANSPORT_EVENT_HEADER_SIZE"
    using assms by (simp add: word_less_nat_alt unat_of_nat_eq PLANK_TRANSPORT_EVENT_HEADER_SIZE_def)
  then have "event_parse p = None"
    by (simp add: event_parse_def plank_transport_event_decode_def)
  with False show ?thesis by (metis length_event_frame le_add1 option.distinct(1))
next
  case True
  let ?n = "plank_transport_event_read_u16 p 6"
  have short: "\<not> (of_nat (length p) :: size_t) < 8"
    using True assms by (simp add: word_less_nat_alt unat_of_nat_eq)
  have size: "(of_nat (length p) :: size_t) = 8 + ucast ?n \<longleftrightarrow> length p = 8 + unat ?n"
    using size_t_sum_eq [of "length p" 8 ?n] assms by simp
  have "event_parse p = (if plank_transport_event_read_u32 p 0 = PLANK_TRANSPORT_EVENT_MAGIC
      \<and> length p = 8 + unat ?n then Some (plank_transport_event_read_u16 p 4, drop 8 p) else None)"
    using short size
    by (simp add: event_parse_def plank_transport_event_decode_def Let_def
        PLANK_TRANSPORT_EVENT_HEADER_SIZE_def)
  then show ?thesis
    using event_wire.frame8_iff [OF True, of "snd m" PLANK_TRANSPORT_EVENT_MAGIC "fst m"]
    by (cases m) (auto simp: event_valid_def event_frame_def)
qed

interpretation event_codec: framed_codec event_valid event_frame event_parse
  by unfold_locales (auto simp: event_parse_iff event_valid_def)

section \<open>Properties\<close>

text \<open>
  An event packet that \<open>plank_transport_event_encode\<close> writes is decoded to the same type and
  payload, and the bytes behind it in the caller's buffer are unchanged.
\<close>

theorem event_encode_decode:
  assumes "plank_transport_event_encode type (Some pl) n (Some out) cap (Some sz)
           = (0, Some out', Some sz')"
    and "unat n = length pl" and "unat cap \<le> length out"
  shows "event_parse (take (unat sz') out') = Some (type, pl)
       \<and> drop (unat sz') out' = drop (unat sz') out \<and> length out' = length out"
proof -
  have ok: "unat n < 2 ^ 16 \<and> 8 + unat n \<le> unat cap"
    using event_encode_status [of type "Some pl" n "Some out" cap "Some sz"] assms(1) by simp
  have out': "out' = store out 0 (event_frame (type, pl))" and sz': "sz' = of_nat (8 + length pl)"
    using event_encode_frame [of n pl cap out type sz] ok assms by auto
  have usz: "unat sz' = 8 + length pl"
    unfolding sz' using ok assms(2) by (subst unat_of_nat_eq) auto
  have "take (unat sz') out' = event_frame (type, pl)"
    using out' usz by (simp add: take_store0)
  moreover have "event_parse (event_frame (type, pl)) = Some (type, pl)"
    using ok assms(2) by (intro event_codec.parse_frame) (simp add: event_valid_def)
  moreover have "drop (unat sz') out' = drop (unat sz') out"
    unfolding out' usz by (simp add: drop_store_suffix)
  moreover have "length out' = length out"
    using out' ok assms(2,3) by simp
  ultimately show ?thesis by simp
qed

subsection \<open>Examples\<close>

theorem event_encode_decode_witness:
  "event_parse [0x50, 0x4c, 0x45, 0x31, 0, 2, 0, 3, 1, 2, 3] = Some (2, [1, 2, 3])"
proof -
  have "plank_transport_event_encode 2 (Some [1, 2, 3]) 3 (Some (replicate 12 0xaa)) 12 (Some 0)
    = (0, Some [0x50, 0x4c, 0x45, 0x31, 0, 2, 0, 3, 1, 2, 3, 0xaa], Some 11)"
    by code_simp
  from event_encode_decode [OF this] show ?thesis by simp
qed

text \<open>
  The encoder bounds the payload and not the packet: the largest payload gives a packet above the maximum
  the header declares, which no function of it reads.
\<close>

theorem event_encoder_exceeds_maximum:
  "\<exists>out'. plank_transport_event_encode type (Some pl) 65535 (Some out) 65543 (Some 0) = (0, Some out', Some 65543) \<and>
     PLANK_TRANSPORT_EVENT_MAX_PACKET_SIZE < 65543"
  by (simp add: plank_transport_event_encode_def PLANK_TRANSPORT_EVENT_HEADER_SIZE_def
      PLANK_TRANSPORT_EVENT_MAX_PACKET_SIZE_def Let_def)

end
