(* ===== verification/Transport_Setup.thy ===== *)
theory Transport_Setup
  imports Transport_Wire
begin

text \<open>
  \<^verbatim>\<open>protocol/plank-transport/include/plank_transport_setup.h\<close>: the pre-session setup protocol
  "PLS1", with a 20-byte header that carries version, type, flags, status and a request id.
\<close>

section \<open>Constants and types\<close>

definition PLANK_TRANSPORT_SETUP_MAGIC :: u32 where
  "PLANK_TRANSPORT_SETUP_MAGIC = 0x504c5331"

definition PLANK_TRANSPORT_SETUP_VERSION :: u16 where
  "PLANK_TRANSPORT_SETUP_VERSION = 1"

definition PLANK_TRANSPORT_SETUP_HEADER_SIZE :: size_t where
  "PLANK_TRANSPORT_SETUP_HEADER_SIZE = 20"

definition PLANK_TRANSPORT_SETUP_MAX_PACKET_SIZE :: size_t where
  "PLANK_TRANSPORT_SETUP_MAX_PACKET_SIZE = 65536"

definition PLANK_TRANSPORT_SETUP_MAX_PAYLOAD_SIZE :: size_t where
  "PLANK_TRANSPORT_SETUP_MAX_PAYLOAD_SIZE =
     PLANK_TRANSPORT_SETUP_MAX_PACKET_SIZE - PLANK_TRANSPORT_SETUP_HEADER_SIZE"

datatype PlankTransportSetupType =
    SETUP_SERVER_INFO_REQUEST | SETUP_SERVER_INFO_RESPONSE | SETUP_PAM_START
  | SETUP_PAM_CHALLENGE | SETUP_PAM_RESPOND | SETUP_PAM_RESULT | SETUP_TOPOLOGY_REQUEST
  | SETUP_TOPOLOGY_RESPONSE | SETUP_LAUNCH_REQUEST | SETUP_LAUNCH_RESPONSE
  | SETUP_SESSION_READY | SETUP_ERROR

primrec setup_type_value :: "PlankTransportSetupType \<Rightarrow> u16" where
  "setup_type_value SETUP_SERVER_INFO_REQUEST = 1"
| "setup_type_value SETUP_SERVER_INFO_RESPONSE = 2"
| "setup_type_value SETUP_PAM_START = 3"
| "setup_type_value SETUP_PAM_CHALLENGE = 4"
| "setup_type_value SETUP_PAM_RESPOND = 5"
| "setup_type_value SETUP_PAM_RESULT = 6"
| "setup_type_value SETUP_TOPOLOGY_REQUEST = 7"
| "setup_type_value SETUP_TOPOLOGY_RESPONSE = 8"
| "setup_type_value SETUP_LAUNCH_REQUEST = 9"
| "setup_type_value SETUP_LAUNCH_RESPONSE = 10"
| "setup_type_value SETUP_SESSION_READY = 11"
| "setup_type_value SETUP_ERROR = 12"

definition PLANK_TRANSPORT_SETUP_FLAG_RESPONSE :: u16 where
  "PLANK_TRANSPORT_SETUP_FLAG_RESPONSE = 0x0001"

definition PLANK_TRANSPORT_SETUP_FLAG_SENSITIVE :: u16 where
  "PLANK_TRANSPORT_SETUP_FLAG_SENSITIVE = 0x0002"

datatype PlankTransportSetupStatus =
    SETUP_STATUS_OK | SETUP_STATUS_CONTINUE | SETUP_STATUS_INVALID_REQUEST
  | SETUP_STATUS_AUTHENTICATION_FAILED | SETUP_STATUS_AUTHORIZATION_FAILED
  | SETUP_STATUS_BUSY | SETUP_STATUS_UNSUPPORTED | SETUP_STATUS_INTERNAL_ERROR

primrec setup_status_value :: "PlankTransportSetupStatus \<Rightarrow> u16" where
  "setup_status_value SETUP_STATUS_OK = 0"
| "setup_status_value SETUP_STATUS_CONTINUE = 1"
| "setup_status_value SETUP_STATUS_INVALID_REQUEST = 2"
| "setup_status_value SETUP_STATUS_AUTHENTICATION_FAILED = 3"
| "setup_status_value SETUP_STATUS_AUTHORIZATION_FAILED = 4"
| "setup_status_value SETUP_STATUS_BUSY = 5"
| "setup_status_value SETUP_STATUS_UNSUPPORTED = 6"
| "setup_status_value SETUP_STATUS_INTERNAL_ERROR = 7"

record PlankTransportSetupPacket =
  setup_type :: u16
  setup_flags :: u16
  setup_status :: u16
  setup_request_id :: u32
  setup_payload :: bytes
  setup_payload_size :: u32

section \<open>Field access\<close>

definition plank_transport_setup_write_u16 :: "bytes \<Rightarrow> nat \<Rightarrow> u16 \<Rightarrow> bytes" where
  "plank_transport_setup_write_u16 output off value =
     output[off := ucast (drop_bit 8 value), Suc off := ucast value]"

definition plank_transport_setup_write_u32 :: "bytes \<Rightarrow> nat \<Rightarrow> u32 \<Rightarrow> bytes" where
  "plank_transport_setup_write_u32 output off value =
     output[off := ucast (drop_bit 24 value), off + 1 := ucast (drop_bit 16 value),
            off + 2 := ucast (drop_bit 8 value), off + 3 := ucast value]"

definition plank_transport_setup_read_u16 :: "bytes \<Rightarrow> nat \<Rightarrow> u16" where
  "plank_transport_setup_read_u16 input off =
     ucast (push_bit 8 (ucast (input ! off) :: u32) OR (ucast (input ! (off + 1)) :: u32))"

definition plank_transport_setup_read_u32 :: "bytes \<Rightarrow> nat \<Rightarrow> u32" where
  "plank_transport_setup_read_u32 input off =
     push_bit 24 (ucast (input ! off)) OR push_bit 16 (ucast (input ! (off + 1))) OR
     push_bit 8 (ucast (input ! (off + 2))) OR ucast (input ! (off + 3))"

section \<open>Encoder and decoder\<close>

definition plank_transport_setup_encode ::
  "u16 \<Rightarrow> u16 \<Rightarrow> u16 \<Rightarrow> u32 \<Rightarrow> bytes option \<Rightarrow> size_t \<Rightarrow> bytes option \<Rightarrow> size_t \<Rightarrow> size_t option
   \<Rightarrow> int \<times> bytes option \<times> size_t option" where
  "plank_transport_setup_encode type flags status request_id payload payload_size
       output output_capacity output_size =
     (let packet_size = PLANK_TRANSPORT_SETUP_HEADER_SIZE + payload_size in
      if type = 0 \<or> request_id = 0 \<or> output = None \<or> output_size = None \<or>
         flags AND NOT (PLANK_TRANSPORT_SETUP_FLAG_RESPONSE OR PLANK_TRANSPORT_SETUP_FLAG_SENSITIVE) \<noteq> 0 \<or>
         (payload_size \<noteq> 0 \<and> payload = None) \<or>
         payload_size > PLANK_TRANSPORT_SETUP_MAX_PAYLOAD_SIZE \<or>
         output_capacity < packet_size
      then (- 1, output, output_size)
      else
        let out = the output;
            out = plank_transport_setup_write_u32 out 0 PLANK_TRANSPORT_SETUP_MAGIC;
            out = plank_transport_setup_write_u16 out 4 PLANK_TRANSPORT_SETUP_VERSION;
            out = plank_transport_setup_write_u16 out 6 type;
            out = plank_transport_setup_write_u16 out 8 flags;
            out = plank_transport_setup_write_u16 out 10 status;
            out = plank_transport_setup_write_u32 out 12 request_id;
            out = plank_transport_setup_write_u32 out 16 (ucast payload_size);
            out = (if payload_size \<noteq> 0
                   then memcpy_at out (unat PLANK_TRANSPORT_SETUP_HEADER_SIZE) (the payload)
                          (unat payload_size)
                   else out)
        in (0, Some out, Some packet_size))"

definition plank_transport_setup_decode ::
  "bytes option \<Rightarrow> size_t \<Rightarrow> PlankTransportSetupPacket option
   \<Rightarrow> int \<times> PlankTransportSetupPacket option" where
  "plank_transport_setup_decode packet packet_size decoded =
     (if packet = None \<or> decoded = None \<or>
         packet_size < PLANK_TRANSPORT_SETUP_HEADER_SIZE \<or>
         packet_size > PLANK_TRANSPORT_SETUP_MAX_PACKET_SIZE \<or>
         plank_transport_setup_read_u32 (the packet) 0 \<noteq> PLANK_TRANSPORT_SETUP_MAGIC \<or>
         plank_transport_setup_read_u16 (the packet) 4 \<noteq> PLANK_TRANSPORT_SETUP_VERSION \<or>
         plank_transport_setup_read_u16 (the packet) 6 = 0 \<or>
         plank_transport_setup_read_u32 (the packet) 12 = 0
      then (- 1, decoded)
      else
        let p = the packet; flags = plank_transport_setup_read_u16 p 8 in
        if flags AND NOT (PLANK_TRANSPORT_SETUP_FLAG_RESPONSE OR PLANK_TRANSPORT_SETUP_FLAG_SENSITIVE) \<noteq> 0
        then (- 1, decoded)
        else
          let payload_size = plank_transport_setup_read_u32 p 16 in
          if ucast payload_size > PLANK_TRANSPORT_SETUP_MAX_PAYLOAD_SIZE \<or>
             packet_size \<noteq> PLANK_TRANSPORT_SETUP_HEADER_SIZE + ucast payload_size
          then (- 1, decoded)
          else (0, Some \<lparr>setup_type = plank_transport_setup_read_u16 p 6,
                         setup_flags = flags,
                         setup_status = plank_transport_setup_read_u16 p 10,
                         setup_request_id = plank_transport_setup_read_u32 p 12,
                         setup_payload = drop (unat PLANK_TRANSPORT_SETUP_HEADER_SIZE) p,
                         setup_payload_size = payload_size\<rparr>))"

section \<open>The packets of the protocol\<close>

record setup_message =
  msg_type :: u16
  msg_flags :: u16
  msg_status :: u16
  msg_request_id :: u32
  msg_payload :: bytes

definition setup_flags_known :: "u16 \<Rightarrow> bool" where
  "setup_flags_known flags \<longleftrightarrow>
     flags AND NOT (PLANK_TRANSPORT_SETUP_FLAG_RESPONSE OR PLANK_TRANSPORT_SETUP_FLAG_SENSITIVE) = 0"

definition setup_valid :: "setup_message \<Rightarrow> bool" where
  "setup_valid m \<longleftrightarrow> msg_type m \<noteq> 0 \<and> msg_request_id m \<noteq> 0 \<and> setup_flags_known (msg_flags m) \<and>
     length (msg_payload m) \<le> 65516"

definition setup_frame :: "setup_message \<Rightarrow> bytes" where
  "setup_frame m =
     be32 PLANK_TRANSPORT_SETUP_MAGIC @ be16 PLANK_TRANSPORT_SETUP_VERSION @ be16 (msg_type m) @
     be16 (msg_flags m) @ be16 (msg_status m) @ be32 (msg_request_id m) @
     be32 (of_nat (length (msg_payload m))) @ msg_payload m"

definition setup_blank :: PlankTransportSetupPacket where
  "setup_blank = \<lparr>setup_type = 0, setup_flags = 0, setup_status = 0, setup_request_id = 0,
                  setup_payload = [], setup_payload_size = 0\<rparr>"

definition setup_parse :: "bytes \<Rightarrow> setup_message option" where
  "setup_parse p =
     (case plank_transport_setup_decode (Some p) (of_nat (length p)) (Some setup_blank) of
        (st, d) \<Rightarrow> if st = 0
          then map_option (\<lambda>d. \<lparr>msg_type = setup_type d, msg_flags = setup_flags d,
                 msg_status = setup_status d, msg_request_id = setup_request_id d,
                 msg_payload = take (unat (setup_payload_size d)) (setup_payload d)\<rparr>) d
          else None)"

section \<open>Layout\<close>

interpretation setup_wire: be_wire plank_transport_setup_write_u16
  plank_transport_setup_write_u32 plank_transport_setup_read_u16
  plank_transport_setup_read_u32
  by unfold_locales
    (simp_all only: plank_transport_setup_write_u16_def plank_transport_setup_write_u32_def
      plank_transport_setup_read_u16_def plank_transport_setup_read_u32_def
      bytewise_write_u16 bytewise_write_u32 bytewise_read_u16 bytewise_read_u32)

lemmas setup_size_defs = PLANK_TRANSPORT_SETUP_HEADER_SIZE_def
  PLANK_TRANSPORT_SETUP_MAX_PACKET_SIZE_def PLANK_TRANSPORT_SETUP_MAX_PAYLOAD_SIZE_def

lemma length_setup_frame [simp]: "length (setup_frame m) = 20 + length (msg_payload m)"
  by (simp add: setup_frame_def)

lemma setup_packet_size:
  "payload_size \<le> 65516 \<Longrightarrow> unat (20 + payload_size) = 20 + unat payload_size"
  for payload_size :: size_t
  by (simp add: unat_word_ariths word_le_nat_alt)

lemma setup_encode_status:
  "fst (plank_transport_setup_encode type flags status request_id payload payload_size
          output output_capacity output_size) = 0
   \<longleftrightarrow> type \<noteq> 0 \<and> request_id \<noteq> 0 \<and> setup_flags_known flags \<and> output \<noteq> None \<and> output_size \<noteq> None \<and>
       (payload_size \<noteq> 0 \<longrightarrow> payload \<noteq> None) \<and> unat payload_size \<le> 65516 \<and>
       20 + unat payload_size \<le> unat output_capacity"
  unfolding plank_transport_setup_encode_def setup_flags_known_def
  using setup_packet_size [of payload_size]
  by (auto simp: Let_def word_less_nat_alt word_le_nat_alt not_less setup_size_defs)

lemma setup_encode_failure:
  "fst (plank_transport_setup_encode type flags status request_id payload payload_size
          output output_capacity output_size) \<noteq> 0
   \<Longrightarrow> plank_transport_setup_encode type flags status request_id payload payload_size
         output output_capacity output_size = (- 1, output, output_size)"
  unfolding plank_transport_setup_encode_def by (auto simp: Let_def split: if_splits)

lemma setup_encode_frame:
  assumes "setup_valid m" and "unat payload_size = length (msg_payload m)"
    and "unat output_capacity \<le> length out"
    and "20 + unat payload_size \<le> unat output_capacity"
  shows "plank_transport_setup_encode (msg_type m) (msg_flags m) (msg_status m) (msg_request_id m)
      (Some (msg_payload m)) payload_size (Some out) output_capacity (Some sz)
    = (0, Some (store out 0 (setup_frame m)), Some (of_nat (20 + length (msg_payload m))))"
proof -
  let ?pl = "msg_payload m"
  let ?hd = "be32 PLANK_TRANSPORT_SETUP_MAGIC @ be16 PLANK_TRANSPORT_SETUP_VERSION @
      be16 (msg_type m) @ be16 (msg_flags m) @ be16 (msg_status m) @ be32 (msg_request_id m) @
      be32 (of_nat (length ?pl))"
  have h20 [simp]: "unat PLANK_TRANSPORT_SETUP_HEADER_SIZE = 20"
    by (simp add: setup_size_defs)
  have le: "payload_size \<le> 65516"
    using assms(1,2) by (simp add: word_le_nat_alt setup_valid_def)
  have size: "unat (PLANK_TRANSPORT_SETUP_HEADER_SIZE + payload_size) = 20 + length ?pl"
    using setup_packet_size [OF le] assms(2) by (simp add: PLANK_TRANSPORT_SETUP_HEADER_SIZE_def)
  then have size': "PLANK_TRANSPORT_SETUP_HEADER_SIZE + payload_size = of_nat (20 + length ?pl)"
    by (metis of_nat_unat ucast_id)
  have cap: "\<not> output_capacity < PLANK_TRANSPORT_SETUP_HEADER_SIZE + payload_size"
    using size assms(2,4) by (simp add: word_less_nat_alt)
  have field: "ucast payload_size = (of_nat (length ?pl) :: u32)"
    using assms(2) by (metis of_nat_unat)
  have hd: "plank_transport_setup_write_u32 (plank_transport_setup_write_u32
      (plank_transport_setup_write_u16 (plank_transport_setup_write_u16 (plank_transport_setup_write_u16
      (plank_transport_setup_write_u16 (plank_transport_setup_write_u32 out 0
      PLANK_TRANSPORT_SETUP_MAGIC) 4 PLANK_TRANSPORT_SETUP_VERSION) 6 (msg_type m)) 8 (msg_flags m))
      10 (msg_status m)) 12 (msg_request_id m)) 16 (ucast payload_size) = store out 0 ?hd"
    using assms by (simp add: setup_wire.write_header20 field)
  have zero: "payload_size = 0 \<longleftrightarrow> ?pl = []"
    using assms(2) by (metis length_0_conv unsigned_eq_0_iff)
  have body: "(if payload_size \<noteq> 0 then memcpy_at (store out 0 ?hd) 20 ?pl (unat payload_size)
      else store out 0 ?hd) = store out 0 (setup_frame m)"
    using assms zero by (auto simp: memcpy_at_def store_store setup_frame_def)
  have "\<not> (msg_type m = 0 \<or> msg_request_id m = 0 \<or> Some out = None \<or> Some sz = None \<or>
      msg_flags m AND NOT (PLANK_TRANSPORT_SETUP_FLAG_RESPONSE OR
        PLANK_TRANSPORT_SETUP_FLAG_SENSITIVE) \<noteq> 0 \<or>
      (payload_size \<noteq> 0 \<and> Some ?pl = None) \<or>
      payload_size > PLANK_TRANSPORT_SETUP_MAX_PAYLOAD_SIZE \<or>
      output_capacity < PLANK_TRANSPORT_SETUP_HEADER_SIZE + payload_size)"
    using le cap assms(1) by (auto simp: setup_valid_def setup_flags_known_def setup_size_defs)
  then show ?thesis
    unfolding plank_transport_setup_encode_def Let_def
    by (simp only: if_False hd body size' h20 option.sel)
qed

lemma setup_frame_iff:
  assumes "20 \<le> length p" and "length p < 2 ^ 64"
  shows "length (msg_payload m) \<le> 65516 \<and> p = setup_frame m \<longleftrightarrow>
    plank_transport_setup_read_u32 p 0 = PLANK_TRANSPORT_SETUP_MAGIC \<and>
    plank_transport_setup_read_u16 p 4 = PLANK_TRANSPORT_SETUP_VERSION \<and>
    plank_transport_setup_read_u16 p 6 = msg_type m \<and>
    plank_transport_setup_read_u16 p 8 = msg_flags m \<and>
    plank_transport_setup_read_u16 p 10 = msg_status m \<and>
    plank_transport_setup_read_u32 p 12 = msg_request_id m \<and>
    length p = 20 + unat (plank_transport_setup_read_u32 p 16) \<and>
    unat (plank_transport_setup_read_u32 p 16) \<le> 65516 \<and> msg_payload m = drop 20 p"
    (is "?lhs \<longleftrightarrow> ?rhs")
proof
  note rd = setup_wire.read_header20 [OF assms(1), of PLANK_TRANSPORT_SETUP_MAGIC
      PLANK_TRANSPORT_SETUP_VERSION "msg_type m" "msg_flags m" "msg_status m" "msg_request_id m"]
  {
    assume l: ?lhs
    then have pl: "msg_payload m = drop 20 p" and len: "length p = 20 + length (msg_payload m)"
      and hd: "take 20 p = be32 PLANK_TRANSPORT_SETUP_MAGIC @ be16 PLANK_TRANSPORT_SETUP_VERSION @
        be16 (msg_type m) @ be16 (msg_flags m) @ be16 (msg_status m) @ be32 (msg_request_id m) @
        be32 (of_nat (length (msg_payload m)))"
      by (auto simp: setup_frame_def)
    note fields = rd [THEN iffD2, OF hd]
    have "unat (plank_transport_setup_read_u32 p 16) = length (msg_payload m)"
      using fields l by (simp only:) (subst unat_of_nat_eq, auto)
    with fields pl len l show ?rhs by metis
  next
    assume r: ?rhs
    then have len: "length (msg_payload m) = unat (plank_transport_setup_read_u32 p 16)" by simp
    then have "plank_transport_setup_read_u32 p 16 = of_nat (length (msg_payload m))" by simp
    with r rd have "take 20 p = be32 PLANK_TRANSPORT_SETUP_MAGIC @ be16 PLANK_TRANSPORT_SETUP_VERSION @
        be16 (msg_type m) @ be16 (msg_flags m) @ be16 (msg_status m) @ be32 (msg_request_id m) @
        be32 (of_nat (length (msg_payload m)))"
      by metis
    then have "setup_frame m = take 20 p @ msg_payload m" by (simp add: setup_frame_def)
    also have "\<dots> = p" using r by (metis append_take_drop_id)
    finally show ?lhs using r len by metis
  }
qed

lemma setup_parse_iff:
  assumes "length p < 2 ^ 64"
  shows "setup_parse p = Some m \<longleftrightarrow> setup_valid m \<and> p = setup_frame m"
proof (cases "20 \<le> length p")
  case False
  then have "(of_nat (length p) :: size_t) < PLANK_TRANSPORT_SETUP_HEADER_SIZE"
    using assms by (simp add: word_less_nat_alt unat_of_nat_eq PLANK_TRANSPORT_SETUP_HEADER_SIZE_def)
  then have "setup_parse p = None"
    by (simp add: setup_parse_def plank_transport_setup_decode_def)
  with False show ?thesis by (metis length_setup_frame le_add1 option.distinct(1))
next
  case True
  let ?n = "plank_transport_setup_read_u32 p 16"
  let ?f = "plank_transport_setup_read_u16 p 8"
  let ?ok = "plank_transport_setup_read_u32 p 0 = PLANK_TRANSPORT_SETUP_MAGIC \<and>
      plank_transport_setup_read_u16 p 4 = PLANK_TRANSPORT_SETUP_VERSION \<and>
      plank_transport_setup_read_u16 p 6 \<noteq> 0 \<and> plank_transport_setup_read_u32 p 12 \<noteq> 0 \<and>
      setup_flags_known ?f \<and> length p = 20 + unat ?n \<and> unat ?n \<le> 65516"
  have up: "unat (of_nat (length p) :: size_t) = length p"
    using assms by (simp add: unat_of_nat_eq)
  have size: "(of_nat (length p) :: size_t) = 20 + ucast ?n \<longleftrightarrow> length p = 20 + unat ?n"
    using size_t_sum_eq [of "length p" 20 ?n] assms by simp
  have big: "ucast ?n > (65516 :: size_t) \<longleftrightarrow> unat ?n > 65516"
    by (simp add: word_less_nat_alt unat_ucast_up)
  have parse: "setup_parse p = (if ?ok then Some \<lparr>msg_type = plank_transport_setup_read_u16 p 6,
      msg_flags = ?f, msg_status = plank_transport_setup_read_u16 p 10,
      msg_request_id = plank_transport_setup_read_u32 p 12, msg_payload = drop 20 p\<rparr> else None)"
    using True up size big
    by (auto simp: setup_parse_def plank_transport_setup_decode_def Let_def setup_size_defs
        setup_flags_known_def word_less_nat_alt)
  then show ?thesis
    using setup_frame_iff [OF True assms, of m]
    by (cases m) (auto simp: setup_valid_def)
qed

interpretation setup_codec: framed_codec setup_valid setup_frame setup_parse
  by unfold_locales (auto simp: setup_parse_iff setup_valid_def)

section \<open>Properties\<close>

text \<open>
  C4. A setup packet that \<open>plank_transport_setup_encode\<close> writes is decoded to the same type, flags,
  status, request id and payload; the bytes behind it in the caller's buffer are unchanged, and the
  packet is no longer than \<open>PLANK_TRANSPORT_SETUP_MAX_PACKET_SIZE\<close>.
\<close>

theorem setup_encode_decode:
  assumes "plank_transport_setup_encode type flags status request_id (Some pl) n (Some out) cap (Some sz)
           = (0, Some out', Some sz')"
    and "unat n = length pl" and "unat cap \<le> length out"
  shows "setup_parse (take (unat sz') out') = Some \<lparr>msg_type = type, msg_flags = flags,
           msg_status = status, msg_request_id = request_id, msg_payload = pl\<rparr>
       \<and> drop (unat sz') out' = drop (unat sz') out \<and> length out' = length out
       \<and> sz' \<le> PLANK_TRANSPORT_SETUP_MAX_PACKET_SIZE"
proof -
  let ?m = "\<lparr>msg_type = type, msg_flags = flags, msg_status = status, msg_request_id = request_id,
    msg_payload = pl\<rparr>"
  have ok: "type \<noteq> 0 \<and> request_id \<noteq> 0 \<and> setup_flags_known flags \<and> unat n \<le> 65516 \<and>
      20 + unat n \<le> unat cap"
    using setup_encode_status [of type flags status request_id "Some pl" n "Some out" cap "Some sz"]
      assms(1) by simp
  then have v: "setup_valid ?m" using assms(2) by (simp add: setup_valid_def)
  have out': "out' = store out 0 (setup_frame ?m)" and sz': "sz' = of_nat (20 + length pl)"
    using setup_encode_frame [OF v, of n cap out sz] ok assms by auto
  have usz: "unat sz' = 20 + length pl"
    unfolding sz' using ok assms(2) by (subst unat_of_nat_eq) auto
  have "take (unat sz') out' = setup_frame ?m"
    using out' usz by (simp add: take_store0)
  moreover have "setup_parse (setup_frame ?m) = Some ?m"
    using v by (rule setup_codec.parse_frame)
  moreover have "drop (unat sz') out' = drop (unat sz') out"
    unfolding out' usz by (simp add: drop_store_suffix)
  moreover have "length out' = length out"
    using out' ok assms(2,3) by simp
  moreover have "sz' \<le> PLANK_TRANSPORT_SETUP_MAX_PACKET_SIZE"
    using usz ok assms(2) by (simp add: word_le_nat_alt setup_size_defs)
  ultimately show ?thesis by simp
qed

subsection \<open>Examples\<close>

theorem setup_encode_decode_witness:
  "setup_parse [0x50, 0x4c, 0x53, 0x31, 0, 1, 0, 3, 0, 1, 0, 0, 0, 0, 0, 7, 0, 0, 0, 2, 0x7b, 0x7d]
   = Some \<lparr>msg_type = 3, msg_flags = 1, msg_status = 0, msg_request_id = 7, msg_payload = [0x7b, 0x7d]\<rparr>"
proof -
  have "plank_transport_setup_encode 3 1 0 7 (Some [0x7b, 0x7d]) 2 (Some (replicate 24 0xaa)) 24 (Some 0)
    = (0, Some [0x50, 0x4c, 0x53, 0x31, 0, 1, 0, 3, 0, 1, 0, 0, 0, 0, 0, 7, 0, 0, 0, 2, 0x7b, 0x7d,
                0xaa, 0xaa], Some 22)"
    by code_simp
  from setup_encode_decode [OF this] show ?thesis by simp
qed

end
