(* ===== verification/Transport_Input.thy ===== *)
theory Transport_Input
  imports Transport_Wire
begin

text \<open>
  \<^verbatim>\<open>protocol/plank-transport/include/plank_transport_input.h\<close>: the payloads of native input
  messages. A C \<^verbatim>\<open>float\<close> is its IEEE bit pattern here: the header only copies it with
  \<^verbatim>\<open>memcpy\<close> into and out of a \<^verbatim>\<open>uint32_t\<close>.
\<close>

section \<open>Constants\<close>

type_synonym float_bits = u32

datatype PlankTransportInputType =
    INPUT_ABSOLUTE_MOUSE | INPUT_MOUSE_BUTTON | INPUT_VERTICAL_SCROLL | INPUT_HORIZONTAL_SCROLL
  | INPUT_KEYBOARD | INPUT_UTF8_TEXT | INPUT_PEN | INPUT_RAW_HID_WACOM | INPUT_CLIPBOARD_OFFER

primrec input_type_value :: "PlankTransportInputType \<Rightarrow> u8" where
  "input_type_value INPUT_ABSOLUTE_MOUSE = 1"
| "input_type_value INPUT_MOUSE_BUTTON = 2"
| "input_type_value INPUT_VERTICAL_SCROLL = 3"
| "input_type_value INPUT_HORIZONTAL_SCROLL = 4"
| "input_type_value INPUT_KEYBOARD = 5"
| "input_type_value INPUT_UTF8_TEXT = 6"
| "input_type_value INPUT_PEN = 7"
| "input_type_value INPUT_RAW_HID_WACOM = 8"
| "input_type_value INPUT_CLIPBOARD_OFFER = 9"

definition PLANK_TRANSPORT_INPUT_ABSOLUTE_MOUSE_SIZE :: nat where
  "PLANK_TRANSPORT_INPUT_ABSOLUTE_MOUSE_SIZE = 8"

definition PLANK_TRANSPORT_INPUT_PEN_SIZE :: nat where
  "PLANK_TRANSPORT_INPUT_PEN_SIZE = 32"

section \<open>Field access\<close>

definition plank_transport_input_write_u16 :: "bytes \<Rightarrow> nat \<Rightarrow> u16 \<Rightarrow> bytes" where
  "plank_transport_input_write_u16 output off value =
     output[off := ucast (drop_bit 8 value), Suc off := ucast value]"

definition plank_transport_input_write_u32 :: "bytes \<Rightarrow> nat \<Rightarrow> u32 \<Rightarrow> bytes" where
  "plank_transport_input_write_u32 output off value =
     output[off := ucast (drop_bit 24 value), off + 1 := ucast (drop_bit 16 value),
            off + 2 := ucast (drop_bit 8 value), off + 3 := ucast value]"

definition plank_transport_input_read_u16 :: "bytes \<Rightarrow> nat \<Rightarrow> u16" where
  "plank_transport_input_read_u16 input off =
     ucast (push_bit 8 (ucast (input ! off) :: u32) OR (ucast (input ! (off + 1)) :: u32))"

definition plank_transport_input_read_u32 :: "bytes \<Rightarrow> nat \<Rightarrow> u32" where
  "plank_transport_input_read_u32 input off =
     push_bit 24 (ucast (input ! off)) OR push_bit 16 (ucast (input ! (off + 1))) OR
     push_bit 8 (ucast (input ! (off + 2))) OR ucast (input ! (off + 3))"

definition plank_transport_input_write_float :: "bytes \<Rightarrow> nat \<Rightarrow> float_bits \<Rightarrow> bytes" where
  "plank_transport_input_write_float output off value =
     (let bits = value in plank_transport_input_write_u32 output off bits)"

definition plank_transport_input_read_float :: "bytes \<Rightarrow> nat \<Rightarrow> float_bits" where
  "plank_transport_input_read_float input off =
     (let bits = plank_transport_input_read_u32 input off; value = bits in value)"

section \<open>Payload encoders\<close>

definition plank_transport_input_encode_absolute_mouse ::
  "bytes \<Rightarrow> u16 \<Rightarrow> u16 \<Rightarrow> u16 \<Rightarrow> u16 \<Rightarrow> bytes" where
  "plank_transport_input_encode_absolute_mouse output x y maximum_x maximum_y =
     (let output = plank_transport_input_write_u16 output 0 x;
          output = plank_transport_input_write_u16 output 2 y;
          output = plank_transport_input_write_u16 output 4 maximum_x;
          output = plank_transport_input_write_u16 output 6 maximum_y
      in output)"

definition plank_transport_input_encode_pen ::
  "bytes \<Rightarrow> u8 \<Rightarrow> u8 \<Rightarrow> u8 \<Rightarrow> u8 \<Rightarrow> u16 \<Rightarrow> float_bits \<Rightarrow> float_bits \<Rightarrow> float_bits \<Rightarrow> float_bits
   \<Rightarrow> float_bits \<Rightarrow> bytes" where
  "plank_transport_input_encode_pen output event_type tool_type buttons tilt rotation x y
       pressure_or_distance contact_area_major contact_area_minor =
     (let output = output[0 := event_type];
          output = output[1 := tool_type];
          output = output[2 := buttons];
          output = output[3 := tilt];
          output = plank_transport_input_write_u16 output 4 rotation;
          output = output[6 := 0];
          output = output[7 := 0];
          output = plank_transport_input_write_float output 8 x;
          output = plank_transport_input_write_float output 12 y;
          output = plank_transport_input_write_float output 16 pressure_or_distance;
          output = plank_transport_input_write_float output 20 contact_area_major;
          output = plank_transport_input_write_float output 24 contact_area_minor;
          output = plank_transport_input_write_u32 output 28 0
      in output)"

section \<open>Layout\<close>

interpretation input_wire: be_wire plank_transport_input_write_u16
  plank_transport_input_write_u32 plank_transport_input_read_u16
  plank_transport_input_read_u32
  by unfold_locales
    (simp_all only: plank_transport_input_write_u16_def plank_transport_input_write_u32_def
      plank_transport_input_read_u16_def plank_transport_input_read_u32_def
      bytewise_write_u16 bytewise_write_u32 bytewise_read_u16 bytewise_read_u32)

lemma mouse_layout:
  "8 \<le> length output \<Longrightarrow>
   plank_transport_input_encode_absolute_mouse output x y mx my
   = store output 0 (be16 x @ be16 y @ be16 mx @ be16 my)"
  by (simp add: plank_transport_input_encode_absolute_mouse_def input_wire.write_u16 store_store)

lemma pen_layout:
  "32 \<le> length output \<Longrightarrow>
   plank_transport_input_encode_pen output ev tool buttons tilt rotation x y p major minor
   = store output 0 ([ev, tool, buttons, tilt] @ be16 rotation @ [0, 0] @ be32 x @ be32 y @ be32 p @
       be32 major @ be32 minor @ be32 0)"
  by (cases "output = []")
    (simp_all add: plank_transport_input_encode_pen_def plank_transport_input_write_float_def
      input_wire.write_u16 input_wire.write_u32 store_update1 store_store)

section \<open>Properties\<close>

text \<open>
  The receiver reads back from an absolute-mouse payload the four coordinates the sender put in,
  at the offsets 0, 2, 4 and 6, and nothing behind the 8-byte payload is written.
\<close>

theorem mouse_round_trip:
  assumes "PLANK_TRANSPORT_INPUT_ABSOLUTE_MOUSE_SIZE \<le> length output"
    and "payload = plank_transport_input_encode_absolute_mouse output x y maximum_x maximum_y"
  shows "plank_transport_input_read_u16 payload 0 = x \<and> plank_transport_input_read_u16 payload 2 = y \<and>
    plank_transport_input_read_u16 payload 4 = maximum_x \<and>
    plank_transport_input_read_u16 payload 6 = maximum_y \<and>
    length payload = length output \<and> drop 8 payload = drop 8 output"
proof -
  have len: "8 \<le> length output"
    using assms(1) by (simp add: PLANK_TRANSPORT_INPUT_ABSOLUTE_MOUSE_SIZE_def)
  have p: "payload = store output 0 (be16 x @ be16 y @ be16 maximum_x @ be16 maximum_y)"
    using assms(2) mouse_layout [OF len] by simp
  then have "length payload = length output" and "drop 8 payload = drop 8 output"
    using len by (simp_all add: drop_store_suffix)
  moreover have "load payload 0 2 = be16 x" "load payload 2 2 = be16 y"
    "load payload 4 2 = be16 maximum_x" "load payload 6 2 = be16 maximum_y"
    by (simp_all add: p store_def load_append1 load_append2) (simp_all add: load_def)
  ultimately show ?thesis
    using len by (simp add: input_wire.read_u16_eq)
qed

text \<open>
  C37. The receiver reads back from a pen payload every field the sender put in, the reserved bytes
  are zero, and nothing behind the 32-byte payload is written.
\<close>

theorem pen_round_trip:
  assumes "PLANK_TRANSPORT_INPUT_PEN_SIZE \<le> length output"
    and "payload = plank_transport_input_encode_pen output event_type tool_type buttons tilt rotation
           x y pressure_or_distance contact_area_major contact_area_minor"
  shows "payload ! 0 = event_type \<and> payload ! 1 = tool_type \<and> payload ! 2 = buttons \<and>
    payload ! 3 = tilt \<and> plank_transport_input_read_u16 payload 4 = rotation \<and>
    plank_transport_input_read_u16 payload 6 = 0 \<and>
    plank_transport_input_read_float payload 8 = x \<and>
    plank_transport_input_read_float payload 12 = y \<and>
    plank_transport_input_read_float payload 16 = pressure_or_distance \<and>
    plank_transport_input_read_float payload 20 = contact_area_major \<and>
    plank_transport_input_read_float payload 24 = contact_area_minor \<and>
    plank_transport_input_read_u32 payload 28 = 0 \<and>
    length payload = length output \<and> drop 32 payload = drop 32 output"
proof -
  have len: "32 \<le> length output"
    using assms(1) by (simp add: PLANK_TRANSPORT_INPUT_PEN_SIZE_def)
  have p: "payload = store output 0 ([event_type, tool_type, buttons, tilt] @ be16 rotation @ [0, 0] @
      be32 x @ be32 y @ be32 pressure_or_distance @ be32 contact_area_major @
      be32 contact_area_minor @ be32 0)"
    using assms(2) pen_layout [OF len] by simp
  then have "length payload = length output" and "drop 32 payload = drop 32 output"
    using len by (simp_all add: drop_store_suffix)
  moreover have "payload ! 0 = event_type" "payload ! 1 = tool_type" "payload ! 2 = buttons"
    "payload ! 3 = tilt"
    by (simp_all add: p store_def)
  moreover have "be16 0 = [0, 0]" by (simp add: be16_def)
  moreover have "load payload 4 2 = be16 rotation" "load payload 6 2 = [0, 0]"
    "load payload 8 4 = be32 x" "load payload 12 4 = be32 y"
    "load payload 16 4 = be32 pressure_or_distance" "load payload 20 4 = be32 contact_area_major"
    "load payload 24 4 = be32 contact_area_minor" "load payload 28 4 = be32 0"
    by (simp_all add: p store_def load_append1 load_append2) (simp_all add: load_def)
  ultimately show ?thesis
    using len by (simp add: input_wire.read_u16_eq input_wire.read_u32_eq
        plank_transport_input_read_float_def)
qed

subsection \<open>Examples\<close>

theorem mouse_round_trip_witness:
  "plank_transport_input_read_u16
     (plank_transport_input_encode_absolute_mouse (replicate 9 0xaa) 1919 1079 1920 1080) 4 = 1920"
  using mouse_round_trip [OF _ refl, of "replicate 9 0xaa" 1919 1079 1920 1080]
  by (simp add: PLANK_TRANSPORT_INPUT_ABSOLUTE_MOUSE_SIZE_def)

theorem pen_round_trip_witness:
  "plank_transport_input_read_float
     (plank_transport_input_encode_pen (replicate 32 0xaa) 2 1 0 30 90 0x3f000000 0x3e800000 0x3f800000 0 0) 16
   = 0x3f800000"
  using pen_round_trip [OF _ refl, of "replicate 32 0xaa" 2 1 0 30 90 "0x3f000000" "0x3e800000" "0x3f800000" 0 0]
  by (simp add: PLANK_TRANSPORT_INPUT_PEN_SIZE_def)

end
