(* ===== verification/Account_Policy.thy ===== *)
theory Account_Policy
  imports Plank_Prelude
begin

text \<open>
  \<^verbatim>\<open>apps/host/macos/auth/account-policy.h\<close>: which verified account may attach to which graphical
  scope. Snapshots come from the trusted session owner, one before and one after verification.
\<close>

section \<open>Identities and scopes\<close>

record PLANKMacAccountIdentity =
  uid :: u32
  uuid :: bytes \<comment> \<open>16 bytes\<close>

datatype PLANKMacGraphicalPhase =
  PLANKMacScopeUnavailable | PLANKMacScopeSignIn | PLANKMacScopeDesktop

record PLANKMacGraphicalIdentity =
  active :: bool
  generation :: u64
  account :: PLANKMacAccountIdentity
  phase :: PLANKMacGraphicalPhase

text \<open>\<^verbatim>\<open>memcmp(a, b, n) == 0\<close>\<close>

definition memcmp_equal :: "bytes \<Rightarrow> bytes \<Rightarrow> nat \<Rightarrow> bool" where
  "memcmp_equal a b n \<longleftrightarrow> take n a = take n b"

definition empty_uuid :: bytes where
  "empty_uuid = replicate 16 0"

definition plank_macos_account_identity_valid :: "PLANKMacAccountIdentity \<Rightarrow> bool" where
  "plank_macos_account_identity_valid acct \<longleftrightarrow>
     uid acct \<noteq> 0 \<and> uid acct \<noteq> 0xffffffff \<and> \<not> memcmp_equal (uuid acct) empty_uuid 16"

definition plank_macos_graphical_identity_valid :: "PLANKMacGraphicalIdentity \<Rightarrow> bool" where
  "plank_macos_graphical_identity_valid scope \<longleftrightarrow>
     (if \<not> active scope \<or> generation scope = 0 then False
      else if phase scope = PLANKMacScopeDesktop
      then plank_macos_account_identity_valid (account scope)
      else phase scope = PLANKMacScopeSignIn \<and> uid (account scope) = 0 \<and>
           memcmp_equal (uuid (account scope)) empty_uuid 16)"

definition plank_macos_same_graphical_scope ::
  "PLANKMacGraphicalIdentity \<Rightarrow> PLANKMacGraphicalIdentity \<Rightarrow> bool" where
  "plank_macos_same_graphical_scope before after \<longleftrightarrow>
     plank_macos_graphical_identity_valid before \<and> plank_macos_graphical_identity_valid after \<and>
     generation before = generation after \<and> phase before = phase after \<and>
     uid (account before) = uid (account after) \<and>
     memcmp_equal (uuid (account before)) (uuid (account after)) 16"

definition plank_macos_account_may_attach ::
  "PLANKMacAccountIdentity \<Rightarrow> PLANKMacGraphicalIdentity \<Rightarrow> PLANKMacGraphicalIdentity \<Rightarrow> bool" where
  "plank_macos_account_may_attach verified before after \<longleftrightarrow>
     plank_macos_account_identity_valid verified \<and> plank_macos_same_graphical_scope before after \<and>
     (phase after = PLANKMacScopeSignIn \<or>
      (uid verified = uid (account after) \<and>
       memcmp_equal (uuid verified) (uuid (account after)) 16))"

section \<open>Scope equality\<close>

text \<open>The arrays of the C structs have exactly 16 bytes.\<close>

definition account_wf :: "PLANKMacAccountIdentity \<Rightarrow> bool" where
  "account_wf a \<longleftrightarrow> length (uuid a) = 16"

lemmas account_policy_defs = plank_macos_account_identity_valid_def
  plank_macos_graphical_identity_valid_def plank_macos_same_graphical_scope_def
  plank_macos_account_may_attach_def memcmp_equal_def

lemma memcmp_equal_iff: "length a = n \<Longrightarrow> length b = n \<Longrightarrow> memcmp_equal a b n \<longleftrightarrow> a = b"
  by (simp add: memcmp_equal_def)

lemma account_eq_iff:
  fixes a b :: PLANKMacAccountIdentity
  shows "account_wf a \<Longrightarrow> account_wf b \<Longrightarrow>
    a = b \<longleftrightarrow> uid a = uid b \<and> memcmp_equal (uuid a) (uuid b) 16"
  by (cases a; cases b) (auto simp: account_wf_def memcmp_equal_def)

lemma same_scope_refl_iff:
  "plank_macos_same_graphical_scope s s \<longleftrightarrow> plank_macos_graphical_identity_valid s"
  by (auto simp: plank_macos_same_graphical_scope_def memcmp_equal_def)

lemma valid_phase:
  "plank_macos_graphical_identity_valid s \<Longrightarrow>
   phase s = PLANKMacScopeDesktop \<or> phase s = PLANKMacScopeSignIn"
  by (auto simp: plank_macos_graphical_identity_valid_def split: if_splits)

section \<open>Properties\<close>

text \<open>
  Being the same graphical scope is a partial equivalence: it is symmetric and transitive, and a
  snapshot is in it exactly when it is a valid scope. Two checks of the same scope can therefore be
  chained without weakening what was established.
\<close>

theorem same_scope_partial_equivalence:
  "(plank_macos_same_graphical_scope a b \<longleftrightarrow> plank_macos_same_graphical_scope b a) \<and>
   (plank_macos_same_graphical_scope a b \<and> plank_macos_same_graphical_scope b c
      \<longrightarrow> plank_macos_same_graphical_scope a c) \<and>
   ((\<exists>d. plank_macos_same_graphical_scope a d) \<longleftrightarrow> plank_macos_graphical_identity_valid a)"
proof (intro conjI)
  show "plank_macos_same_graphical_scope a b \<longleftrightarrow> plank_macos_same_graphical_scope b a"
    by (auto simp: plank_macos_same_graphical_scope_def memcmp_equal_def)
  show "plank_macos_same_graphical_scope a b \<and> plank_macos_same_graphical_scope b c
      \<longrightarrow> plank_macos_same_graphical_scope a c"
    by (auto simp: plank_macos_same_graphical_scope_def memcmp_equal_def)
  show "(\<exists>d. plank_macos_same_graphical_scope a d) \<longleftrightarrow> plank_macos_graphical_identity_valid a"
    using same_scope_refl_iff by (auto simp: plank_macos_same_graphical_scope_def)
qed

text \<open>
  C3. An account that may attach is a verified non-root account, the scope did not change between the
  two snapshots (same generation, same phase, still active), and on a desktop the account is the
  owner of that desktop. The sign-in scope has no owner account.
\<close>

theorem may_attach_sound:
  assumes "plank_macos_account_may_attach verified before after"
    and "account_wf verified" and "account_wf (account before)" and "account_wf (account after)"
  shows "uid verified \<noteq> 0 \<and> active before \<and> active after \<and> generation after \<noteq> 0 \<and>
    generation before = generation after \<and> phase before = phase after \<and>
    account before = account after \<and>
    (phase after = PLANKMacScopeDesktop \<and> account after = verified \<or>
     phase after = PLANKMacScopeSignIn \<and> uid (account after) = 0 \<and> account after \<noteq> verified)"
proof -
  have v: "plank_macos_account_identity_valid verified"
    and s: "plank_macos_same_graphical_scope before after"
    and owner: "phase after = PLANKMacScopeSignIn \<or>
      (uid verified = uid (account after) \<and> memcmp_equal (uuid verified) (uuid (account after)) 16)"
    using assms(1) by (auto simp: plank_macos_account_may_attach_def)
  have same: "account before = account after"
    using s assms(3,4) by (simp add: account_eq_iff plank_macos_same_graphical_scope_def)
  have valid: "plank_macos_graphical_identity_valid after"
    using s by (simp add: plank_macos_same_graphical_scope_def)
  consider "phase after = PLANKMacScopeDesktop" | "phase after = PLANKMacScopeSignIn"
    using valid_phase [OF valid] by blast
  then have "phase after = PLANKMacScopeDesktop \<and> account after = verified \<or>
      phase after = PLANKMacScopeSignIn \<and> uid (account after) = 0 \<and> account after \<noteq> verified"
  proof cases
    case 1
    with owner assms(2,4) show ?thesis by (simp add: account_eq_iff memcmp_equal_def)
  next
    case 2
    with valid have "uid (account after) = 0"
      by (auto simp: plank_macos_graphical_identity_valid_def split: if_splits)
    with 2 v show ?thesis by (auto simp: plank_macos_account_identity_valid_def)
  qed
  with same s v show ?thesis
    by (auto simp: plank_macos_same_graphical_scope_def plank_macos_account_identity_valid_def
        plank_macos_graphical_identity_valid_def split: if_splits)
qed

text \<open>
  A desktop admits one account: two verified accounts that may both attach to one desktop
  snapshot are the same account.
\<close>

theorem desktop_admits_one_account:
  assumes "plank_macos_account_may_attach a before1 after"
    and "plank_macos_account_may_attach b before2 after"
    and "phase after = PLANKMacScopeDesktop" and "account_wf a" and "account_wf b"
  shows "a = b"
  using assms by (simp add: account_eq_iff plank_macos_account_may_attach_def memcmp_equal_def)

subsection \<open>Examples\<close>

definition example_account :: PLANKMacAccountIdentity where
  "example_account = \<lparr>uid = 501, uuid = replicate 16 7\<rparr>"

definition example_desktop :: PLANKMacGraphicalIdentity where
  "example_desktop = \<lparr>active = True, generation = 3, account = example_account,
     phase = PLANKMacScopeDesktop\<rparr>"

lemma example_may_attach:
  "plank_macos_account_may_attach example_account example_desktop example_desktop"
  by code_simp

theorem same_scope_partial_equivalence_witness:
  "plank_macos_same_graphical_scope example_desktop example_desktop"
proof -
  have "plank_macos_graphical_identity_valid example_desktop" by code_simp
  with same_scope_partial_equivalence [of example_desktop] show ?thesis by blast
qed

theorem may_attach_sound_witness:
  "account example_desktop = example_account"
  using may_attach_sound [OF example_may_attach]
  by (simp add: account_wf_def example_account_def example_desktop_def)

theorem desktop_admits_one_account_witness:
  "{a. account_wf a \<and> plank_macos_account_may_attach a example_desktop example_desktop} = {example_account}"
  using desktop_admits_one_account [OF example_may_attach] example_may_attach
  by (auto simp: example_desktop_def example_account_def account_wf_def)

end
