(* ===== verification/Boot_Sign_In.thy ===== *)
theory Boot_Sign_In
  imports Complex_Main Plank_Prelude
begin

text \<open>
  \<^verbatim>\<open>apps/host/macos/auth/boot-sign-in.h\<close>: recognising the anonymous WindowServer session of a
  freshly booted Mac from the console record of the operating system, and
  \<^verbatim>\<open>probes/macos/session-boundary.h\<close>, the session identity the probes compare.

  A property-list object is a \<open>cf_value\<close>; \<^verbatim>\<open>nil\<close> is \<open>None\<close>. How CoreFoundation reads a
  number is a parameter: \<open>get_sint64\<close> is \<^verbatim>\<open>CFNumberGetValue(.., kCFNumberSInt64Type, ..)\<close>
  (\<open>None\<close> when it returns false) and \<open>double_value\<close> is \<^verbatim>\<open>doubleValue\<close>.
\<close>

section \<open>Property-list objects\<close>

datatype 'n cf_value =
    CFNumber 'n
  | CFBoolean bool
  | CFString string
  | CFArray "'n cf_value list"
  | CFDictionary "(string \<times> 'n cf_value) list"

definition subscript :: "'n cf_value option \<Rightarrow> string \<Rightarrow> 'n cf_value option" where
  "subscript d key = (case d of Some (CFDictionary kvs) \<Rightarrow> map_of kvs key | _ \<Rightarrow> None)"

definition is_dictionary :: "'n cf_value option \<Rightarrow> bool" where
  "is_dictionary d \<longleftrightarrow> (case d of Some (CFDictionary _) \<Rightarrow> True | _ \<Rightarrow> False)"

section \<open>The boot sign-in check\<close>

definition PLANKMacScopeNumber ::
  "('n \<Rightarrow> int option) \<Rightarrow> ('n \<Rightarrow> rat) \<Rightarrow> 'n cf_value option \<Rightarrow> u32 option" where
  "PLANKMacScopeNumber get_sint64 double_value value =
     (case value of
        Some (CFNumber n) \<Rightarrow>
          (case get_sint64 n of
             None \<Rightarrow> None
           | Some number \<Rightarrow>
               if number < 0 \<or> number > 0xffffffff \<or> double_value n \<noteq> of_int number then None
               else Some (of_int number))
      | _ \<Rightarrow> None)"

definition PLANKMacBootSignInRecord ::
  "('n \<Rightarrow> int option) \<Rightarrow> ('n \<Rightarrow> rat) \<Rightarrow> 'n cf_value option \<Rightarrow> u32 \<Rightarrow> u32 \<Rightarrow> bool" where
  "PLANKMacBootSignInRecord get_sint64 double_value rec audit windowServerUID \<longleftrightarrow>
     is_dictionary rec \<and> audit \<noteq> 0 \<and> audit \<noteq> 0xffffffff \<and>
     windowServerUID \<noteq> 0 \<and> windowServerUID \<noteq> 0xffffffff \<and>
     subscript rec ''kCGSSessionOnConsoleKey'' = Some (CFBoolean True) \<and>
     subscript rec ''kCGSessionLoginDoneKey'' = Some (CFBoolean False) \<and>
     subscript rec ''kCGSSessionUserNameKey'' = Some (CFString ''unknown'') \<and>
     PLANKMacScopeNumber get_sint64 double_value (subscript rec ''kCGSSessionUserIDKey'')
       = Some windowServerUID \<and>
     PLANKMacScopeNumber get_sint64 double_value (subscript rec ''kCGSSessionAuditIDKey'')
       = Some audit \<and>
     PLANKMacScopeNumber get_sint64 double_value (subscript rec ''kSCSecuritySessionID'')
       = Some audit"

text \<open>
  The loop over \<^verbatim>\<open>SessionInfo\<close>: \<open>None\<close> is its \<^verbatim>\<open>return NO\<close>, \<open>Some active\<close> the
  value of \<^verbatim>\<open>active\<close> when the loop ends.
\<close>

fun boot_sign_in_scan :: "'n cf_value option \<Rightarrow> 'n cf_value list \<Rightarrow> 'n cf_value option option" where
  "boot_sign_in_scan active [] = Some active"
| "boot_sign_in_scan active (rec # sessions) =
     (if \<not> is_dictionary (Some rec) then None
      else if subscript (Some rec) ''kCGSSessionOnConsoleKey'' = Some (CFBoolean True)
      then (if active \<noteq> None then None else boot_sign_in_scan (Some rec) sessions)
      else boot_sign_in_scan active sessions)"

definition PLANKMacBootSignInConsole ::
  "('n \<Rightarrow> int option) \<Rightarrow> ('n \<Rightarrow> rat) \<Rightarrow> 'n cf_value option \<Rightarrow> u32 \<Rightarrow> u32 \<Rightarrow> bool" where
  "PLANKMacBootSignInConsole get_sint64 double_value console audit windowServerUID \<longleftrightarrow>
     (if \<not> is_dictionary console \<or> subscript console ''Name'' \<noteq> None \<or>
         subscript console ''UID'' \<noteq> None
      then False
      else case subscript console ''SessionInfo'' of
        Some (CFArray sessions) \<Rightarrow>
          if sessions = [] \<or> length sessions > 32 then False
          else (case boot_sign_in_scan None sessions of
                  None \<Rightarrow> False
                | Some active \<Rightarrow>
                    PLANKMacBootSignInRecord get_sint64 double_value active audit windowServerUID)
      | _ \<Rightarrow> False)"

text \<open>
  \<open>PLANKMacWindowServerUID\<close> caches its first lookup (\<^verbatim>\<open>dispatch_once\<close>). The state is the
  cached uid, \<open>None\<close> before the first call; \<open>getpwnam_r\<close> is a parameter that gives the uid of
  \<^verbatim>\<open>_windowserver\<close>, or \<open>None\<close> when the call fails or finds no entry.
\<close>

definition PLANKMacWindowServerUID :: "(string \<Rightarrow> u32 option) \<Rightarrow> u32 option \<Rightarrow> u32 \<times> u32 option" where
  "PLANKMacWindowServerUID getpwnam_r once =
     (case once of
        Some uid \<Rightarrow> (uid, once)
      | None \<Rightarrow>
          let uid = (case getpwnam_r ''_windowserver'' of Some pw_uid \<Rightarrow> pw_uid | None \<Rightarrow> 0xffffffff)
          in (uid, Some uid))"

definition PLANKMacBootSignInSession ::
  "('n \<Rightarrow> int option) \<Rightarrow> ('n \<Rightarrow> rat) \<Rightarrow> (string \<Rightarrow> 'n cf_value option) \<Rightarrow> (string \<Rightarrow> u32 option)
   \<Rightarrow> u32 option \<Rightarrow> u32 \<Rightarrow> bool \<times> u32 option" where
  "PLANKMacBootSignInSession get_sint64 double_value store_copy_value getpwnam_r once audit =
     (let console = store_copy_value ''State:/Users/ConsoleUser'';
          (windowServerUID, once) = PLANKMacWindowServerUID getpwnam_r once
      in (PLANKMacBootSignInConsole get_sint64 double_value console audit windowServerUID, once))"

section \<open>The session identity of the probes\<close>

datatype PLANKSessionPhase =
  PLANKSessionUnavailable | PLANKSessionLoginWindow | PLANKSessionDesktop

record PLANKGraphicalSession =
  session_phase :: PLANKSessionPhase
  session_user :: u32
  securitySession :: u32

definition PLANKSessionNumber ::
  "('n \<Rightarrow> int option) \<Rightarrow> 'n cf_value option \<Rightarrow> string \<Rightarrow> u32 option" where
  "PLANKSessionNumber get_sint64 dict key =
     (case subscript dict key of
        Some (CFNumber n) \<Rightarrow>
          (case get_sint64 n of
             None \<Rightarrow> None
           | Some number \<Rightarrow>
               if number < 0 \<or> number > 0xffffffff then None else Some (of_int number))
      | _ \<Rightarrow> None)"

text \<open>
  What the operating system answers is the first argument: \<open>SessionGetInfo\<close> (the security session
  and whether it has graphic access, \<open>None\<close> on error), the current session dictionary, the
  effective user id and the console user with its name (\<open>None\<close> when no name is returned). The
  dictionary keys are the constants of the framework, written by their names.
\<close>

record 'n session_os =
  SessionGetInfo :: "(u32 \<times> bool) option"
  CGSessionCopyCurrentDictionary :: "'n cf_value option"
  geteuid :: u32
  SCDynamicStoreCopyConsoleUser :: "(string \<times> u32) option"

definition PLANKReadGraphicalSession ::
  "('n \<Rightarrow> int option) \<Rightarrow> 'n session_os \<Rightarrow> PLANKGraphicalSession" where
  "PLANKReadGraphicalSession get_sint64 os =
     (let state = \<lparr>session_phase = PLANKSessionUnavailable, session_user = 0, securitySession = 0\<rparr> in
      case SessionGetInfo os of
        None \<Rightarrow> state
      | Some (identity, graphic) \<Rightarrow>
          if identity = 0 \<or> \<not> graphic then state
          else
            let state = state\<lparr>securitySession := identity\<rparr>;
                session = CGSessionCopyCurrentDictionary os
            in if session = None \<or>
                  subscript session ''kCGSessionOnConsoleKey'' \<noteq> Some (CFBoolean True)
               then state
               else case PLANKSessionNumber get_sint64 session ''kCGSessionUserIDKey'' of
                 None \<Rightarrow> state
               | Some user \<Rightarrow>
                   let state = state\<lparr>session_user := user\<rparr>;
                       login_done = subscript session ''kCGSessionLoginDoneKey''
                   in case SCDynamicStoreCopyConsoleUser os of
                        None \<Rightarrow> state
                      | Some (name, consoleUser) \<Rightarrow>
                          if login_done = Some (CFBoolean True) \<and> session_user state = geteuid os \<and>
                             session_user state \<noteq> 0 \<and> consoleUser = session_user state
                          then state\<lparr>session_phase := PLANKSessionDesktop\<rparr>
                          else if login_done = Some (CFBoolean False) \<and> geteuid os = 0 \<and>
                                  session_user state = 0 \<and> consoleUser = 0 \<and> name = ''loginwindow''
                          then state\<lparr>session_phase := PLANKSessionLoginWindow\<rparr>
                          else state)"

definition PLANKSessionMatches :: "PLANKGraphicalSession \<Rightarrow> PLANKGraphicalSession \<Rightarrow> bool" where
  "PLANKSessionMatches initial current \<longleftrightarrow>
     session_phase initial \<noteq> PLANKSessionUnavailable \<and>
     session_phase initial = session_phase current \<and>
     session_user initial = session_user current \<and>
     securitySession initial = securitySession current"

primrec PLANKSessionName :: "PLANKSessionPhase \<Rightarrow> string" where
  "PLANKSessionName PLANKSessionLoginWindow = ''sign-in''"
| "PLANKSessionName PLANKSessionDesktop = ''desktop''"
| "PLANKSessionName PLANKSessionUnavailable = ''unavailable''"

section \<open>The scan finds the one session on the console\<close>

definition on_console :: "'n cf_value \<Rightarrow> bool" where
  "on_console rec \<longleftrightarrow> subscript (Some rec) ''kCGSSessionOnConsoleKey'' = Some (CFBoolean True)"

lemma boot_sign_in_scan_eq:
  "boot_sign_in_scan active sessions =
     (if list_all (\<lambda>r. is_dictionary (Some r)) sessions \<and>
         length (filter on_console sessions) + (if active = None then 0 else 1) \<le> 1
      then Some (case filter on_console sessions of [] \<Rightarrow> active | r # _ \<Rightarrow> Some r)
      else None)"
  by (induction active sessions rule: boot_sign_in_scan.induct)
    (auto simp flip: on_console_def split: list.splits)

section \<open>Properties\<close>


text \<open>
  The session identity a probe reads is a desktop only for the effective user of the process,
  who is not root and owns the console, and is the login window only for root with the console
  reported as \<^verbatim>\<open>loginwindow\<close>; a missing console name gives neither.
\<close>

theorem graphical_session_phase:
  "(session_phase (PLANKReadGraphicalSession get_sint64 os) = PLANKSessionDesktop \<longrightarrow>
      geteuid os \<noteq> 0 \<and> session_user (PLANKReadGraphicalSession get_sint64 os) = geteuid os \<and>
      (\<exists>name. SCDynamicStoreCopyConsoleUser os = Some (name, geteuid os)) \<and>
      securitySession (PLANKReadGraphicalSession get_sint64 os) \<noteq> 0) \<and>
   (session_phase (PLANKReadGraphicalSession get_sint64 os) = PLANKSessionLoginWindow \<longrightarrow>
      geteuid os = 0 \<and> session_user (PLANKReadGraphicalSession get_sint64 os) = 0 \<and>
      SCDynamicStoreCopyConsoleUser os = Some (''loginwindow'', 0) \<and>
      securitySession (PLANKReadGraphicalSession get_sint64 os) \<noteq> 0)"
  unfolding PLANKReadGraphicalSession_def
  by (auto simp: Let_def split: option.splits if_splits)

subsection \<open>Examples\<close>

definition example_os :: "int session_os" where
  "example_os = \<lparr>SessionGetInfo = Some (100005, True),
     CGSessionCopyCurrentDictionary = Some (CFDictionary
       [(''kCGSessionOnConsoleKey'', CFBoolean True), (''kCGSessionUserIDKey'', CFNumber 501),
        (''kCGSessionLoginDoneKey'', CFBoolean True)]),
     geteuid = 501, SCDynamicStoreCopyConsoleUser = Some (''artist'', 501)\<rparr>"

theorem graphical_session_phase_witness:
  "session_phase (PLANKReadGraphicalSession Some example_os) = PLANKSessionDesktop \<and>
   session_user (PLANKReadGraphicalSession Some example_os) = 501"
proof -
  have "session_phase (PLANKReadGraphicalSession Some example_os) = PLANKSessionDesktop"
    by code_simp
  with graphical_session_phase [of Some example_os] show ?thesis
    by (simp add: example_os_def)
qed

end
