(* ===== verification/Native_Video.thy ===== *)
theory Native_Video
  imports Plank_Prelude
begin

text \<open>
  \<^verbatim>\<open>apps/host/macos/media/video-recovery.h\<close> and its one owner
  \<^verbatim>\<open>apps/host/macos/media/native-video.m\<close>: conversion of an encoded HEVC sample to Annex B, and
  the submission of frames to the native transport with key-frame recovery. What CoreMedia and the
  transport library answer are arguments: a sample is the record of what its accessors return, and
  \<open>send_env\<close> holds the answers to the calls \<^verbatim>\<open>sendSample\<close> makes.
\<close>

section \<open>Transport types used here (plank\_transport.h)\<close>

datatype PlankTransportState =
    PLANK_TRANSPORT_STATE_INVALID | PLANK_TRANSPORT_STATE_IDLE | PLANK_TRANSPORT_STATE_STARTING
  | PLANK_TRANSPORT_STATE_PEER_VALIDATION | PLANK_TRANSPORT_STATE_SETUP_READY
  | PLANK_TRANSPORT_STATE_READY | PLANK_TRANSPORT_STATE_STOPPING | PLANK_TRANSPORT_STATE_STOPPED
  | PLANK_TRANSPORT_STATE_FAILED

datatype PlankTransportResult =
    PLANK_TRANSPORT_OK | PLANK_TRANSPORT_TIMEOUT | PLANK_TRANSPORT_DROPPED
  | PLANK_TRANSPORT_ERROR_INVALID_ARGUMENT | PLANK_TRANSPORT_ERROR_INVALID_STATE
  | PLANK_TRANSPORT_ERROR_RUNTIME | PLANK_TRANSPORT_ERROR_PANIC
  | PLANK_TRANSPORT_ERROR_BUFFER_TOO_SMALL

definition PLANK_TRANSPORT_NATIVE_VIDEO_CODEC_HEVC :: u32 where
  "PLANK_TRANSPORT_NATIVE_VIDEO_CODEC_HEVC = 0x48455643"

definition PLANK_TRANSPORT_NATIVE_VIDEO_FLAG_KEY :: u32 where
  "PLANK_TRANSPORT_NATIVE_VIDEO_FLAG_KEY = 1"

record PlankTransportNativeVideoFrameInfo =
  info_struct_size :: u32
  info_codec :: u32
  info_flags :: u32
  info_reserved :: u32
  info_frame_number :: u64
  info_pts :: u64
  info_host_processing_latency :: u16
  info_reserved2 :: bytes \<comment> \<open>6 bytes\<close>

section \<open>Recovery state (video-recovery.h)\<close>

record PLANKMacVideoRecovery =
  requested :: bool
  encoding :: bool

definition PLANKMacVideoRecoveryBegin :: "PLANKMacVideoRecovery \<Rightarrow> bool \<times> PLANKMacVideoRecovery" where
  "PLANKMacVideoRecoveryBegin state =
     (if \<not> requested state \<or> encoding state then (False, state)
      else (True, state\<lparr>encoding := True\<rparr>))"

definition PLANKMacVideoRecoverySent ::
  "PLANKMacVideoRecovery \<Rightarrow> bool \<Rightarrow> bool \<Rightarrow> bool \<Rightarrow> PLANKMacVideoRecovery" where
  "PLANKMacVideoRecoverySent state key accepted evicted =
     (if key \<and> accepted then state\<lparr>requested := False\<rparr>
      else if \<not> accepted \<or> evicted then state\<lparr>requested := True\<rparr>
      else state)"

section \<open>Annex B conversion\<close>

definition maximumFrameBytes :: nat where
  "maximumFrameBytes = 64 * 1024 * 1024"

definition start_code :: bytes where
  "start_code = [0, 0, 0, 1]"

record cm_time =
  cmt_numeric :: bool
  cmt_epoch :: int
  cmt_value :: int

record cm_format =
  fmt_video :: bool \<comment> \<open>media type is \<^verbatim>\<open>kCMMediaType_Video\<close>\<close>
  fmt_hevc :: bool \<comment> \<open>media subtype is \<^verbatim>\<open>kCMVideoCodecType_HEVC\<close>\<close>
  fmt_width :: int
  fmt_height :: int
  fmt_parameter_info :: "(nat \<times> int) option" \<comment> \<open>count and NAL header length, \<open>None\<close> on error\<close>
  fmt_parameter_set :: "nat \<Rightarrow> bytes option" \<comment> \<open>\<open>None\<close> on error or a null pointer\<close>

datatype attachment_value = AttachmentBoolean bool | AttachmentOther

record cm_sample =
  smp_valid :: bool
  smp_ready :: bool
  smp_count :: int
  smp_format :: "cm_format option"
  smp_pts :: cm_time
  smp_attachments :: "attachment_value option list option"
    \<comment> \<open>per sample, the value under \<^verbatim>\<open>kCMSampleAttachmentKey_NotSync\<close>\<close>
  smp_data :: "bytes option"
  smp_copy_ok :: bool

text \<open>The loop over the parameter sets of a key frame; \<open>None\<close> is \<^verbatim>\<open>return nil\<close>.\<close>

fun annexb_parameter_sets :: "(nat \<Rightarrow> bytes option) \<Rightarrow> nat list \<Rightarrow> u32 \<Rightarrow> bytes \<Rightarrow> (u32 \<times> bytes) option" where
  "annexb_parameter_sets get [] parameterTypes output = Some (parameterTypes, output)"
| "annexb_parameter_sets get (i # is) parameterTypes output =
     (case get i of
        None \<Rightarrow> None
      | Some bs \<Rightarrow>
          let size = length bs in
          if size < 2 \<or> size > maximumFrameBytes - 4 \<or>
             length output > maximumFrameBytes - 4 - size
          then None
          else
            let type = unat (drop_bit 1 (bs ! 0) AND 63) in
            if bs ! 0 AND 0x80 \<noteq> 0 \<or> bs ! 1 AND 7 = 0 \<or> type < 32 \<or> type > 34 then None
            else annexb_parameter_sets get is (parameterTypes OR push_bit (type - 32) 1)
                   (output @ start_code @ bs))"

text \<open>
  The loop over the length-prefixed NAL units, which replaces each length by a start code in place.
  The result is the rewritten data and the two flags.
\<close>

function annexb_rewrite :: "bytes \<Rightarrow> nat \<Rightarrow> bool \<Rightarrow> bool \<Rightarrow> (bytes \<times> bool \<times> bool) option" where
  "annexb_rewrite data offset hasPicture hasRandomAccessPicture =
     (if offset < length data then
        (if length data - offset < 4 then None
         else
           let nal = unat (of_be32 (data ! offset) (data ! (offset + 1)) (data ! (offset + 2))
                             (data ! (offset + 3)))
           in if nal < 2 \<or> nal > length data - offset - 4 then None
              else
                let h0 = data ! (offset + 4); h1 = data ! (offset + 5) in
                if h0 AND 0x80 \<noteq> 0 \<or> h1 AND 7 = 0 then None
                else
                  let type = unat (drop_bit 1 h0 AND 63) in
                  annexb_rewrite (store data offset start_code) (offset + 4 + nal)
                    (hasPicture \<or> type < 32)
                    (hasRandomAccessPicture \<or> type \<ge> 16 \<and> type \<le> 21))
      else Some (data, hasPicture, hasRandomAccessPicture))"
  by pat_completeness auto
termination
  by (relation "measure (\<lambda>(data, offset, _). length data - offset)") (auto simp: start_code_def)

declare annexb_rewrite.simps [simp del]

text \<open>
  \<open>convert_scale\<close> is \<^verbatim>\<open>CMTimeConvertScale(pts, 90000, RoundTowardZero)\<close>. The first component is
  the returned data (\<open>None\<close> for \<^verbatim>\<open>nil\<close>), then \<^verbatim>\<open>*keyFrame\<close> and \<^verbatim>\<open>*pts90Khz\<close>.
\<close>

definition PLANKMacHEVCAnnexB ::
  "(cm_time \<Rightarrow> cm_time) \<Rightarrow> cm_sample option \<Rightarrow> int \<Rightarrow> int \<Rightarrow> bytes option \<times> bool \<times> u64" where
  "PLANKMacHEVCAnnexB convert_scale sample width height =
     (case sample of None \<Rightarrow> (None, False, 0) | Some s \<Rightarrow>
      if width \<le> 0 \<or> height \<le> 0 \<or> width > 8192 \<or> height > 8192 \<or> odd width \<or> odd height \<or>
         \<not> smp_valid s \<or> \<not> smp_ready s \<or> smp_count s \<noteq> 1
      then (None, False, 0)
      else case smp_format s of None \<Rightarrow> (None, False, 0) | Some format \<Rightarrow>
      if \<not> fmt_video format \<or> \<not> fmt_hevc format then (None, False, 0)
      else if fmt_width format \<noteq> width \<or> fmt_height format \<noteq> height then (None, False, 0)
      else
        let pts = smp_pts s in
        if \<not> cmt_numeric pts \<or> cmt_epoch pts \<noteq> 0 \<or> cmt_value pts < 0 then (None, False, 0)
        else
          let pts = convert_scale pts in
          if \<not> cmt_numeric pts \<or> cmt_value pts < 0 then (None, False, 0)
          else if (case smp_attachments s of None \<Rightarrow> False | Some as \<Rightarrow> length as \<noteq> 1)
          then (None, False, 0)
          else
            let notSync = (case smp_attachments s of Some (v # _) \<Rightarrow> v | _ \<Rightarrow> None) in
            if notSync = Some AttachmentOther then (None, False, 0)
            else
              let key = (notSync \<noteq> Some (AttachmentBoolean True)) in
              case fmt_parameter_info format of None \<Rightarrow> (None, False, 0) | Some (count, headerLength) \<Rightarrow>
              if headerLength \<noteq> 4 \<or> count < 3 \<or> count > 8 then (None, False, 0)
              else
                case (if key
                      then (case annexb_parameter_sets (fmt_parameter_set format) [0..<count] 0 [] of
                              None \<Rightarrow> None
                            | Some (types, output) \<Rightarrow> if types \<noteq> 7 then None else Some output)
                      else Some []) of
                  None \<Rightarrow> (None, False, 0)
                | Some output \<Rightarrow>
                    (case smp_data s of None \<Rightarrow> (None, False, 0) | Some data \<Rightarrow>
                     if data = [] \<or> length data > maximumFrameBytes - length output then (None, False, 0)
                     else if \<not> smp_copy_ok s then (None, False, 0)
                     else case annexb_rewrite data 0 False False of
                       None \<Rightarrow> (None, False, 0)
                     | Some (data, hasPicture, hasRandomAccessPicture) \<Rightarrow>
                         if \<not> hasPicture \<or> key \<noteq> hasRandomAccessPicture then (None, False, 0)
                         else (Some (output @ data), key, of_int (cmt_value pts))))"

section \<open>The frame sender (native-video.m)\<close>

record PLANKMacNativeVideo =
  nv_width :: int
  nv_height :: int
  nv_hasTimestamp :: bool
  nv_recovery :: PLANKMacVideoRecovery
  nv_lastPTS :: u64
  nv_frameNumber :: u64

text \<open>\<open>None\<close> when the initializer refuses; the flag says whether the object arguments are all set.\<close>

definition nv_init :: "bool \<Rightarrow> int \<Rightarrow> int \<Rightarrow> PLANKMacNativeVideo option" where
  "nv_init arguments_set width height =
     (if \<not> arguments_set \<or> width \<le> 0 \<or> height \<le> 0 \<or> width > 8192 \<or> height > 8192 \<or>
         odd width \<or> odd height
      then None
      else Some \<lparr>nv_width = width, nv_height = height, nv_hasTimestamp = False,
                 nv_recovery = \<lparr>requested = True, encoding = False\<rparr>,
                 nv_lastPTS = 0, nv_frameNumber = 0\<rparr>)"

definition needsKeyFrame :: "PLANKMacNativeVideo \<Rightarrow> bool" where
  "needsKeyFrame v = requested (nv_recovery v)"

definition lastFrameNumber :: "PLANKMacNativeVideo \<Rightarrow> u64" where
  "lastFrameNumber v = nv_frameNumber v"

definition requestKeyFrame :: "PLANKMacNativeVideo \<Rightarrow> PLANKMacNativeVideo" where
  "requestKeyFrame v = v\<lparr>nv_recovery := (nv_recovery v)\<lparr>requested := True\<rparr>\<rparr>"

definition beginKeyFrameRequest :: "PLANKMacNativeVideo \<Rightarrow> bool \<times> PLANKMacNativeVideo" where
  "beginKeyFrameRequest v =
     (let (ok, r) = PLANKMacVideoRecoveryBegin (nv_recovery v) in (ok, v\<lparr>nv_recovery := r\<rparr>))"

definition completeKeyFrameRequest :: "PLANKMacNativeVideo \<Rightarrow> PLANKMacNativeVideo" where
  "completeKeyFrameRequest v = v\<lparr>nv_recovery := (nv_recovery v)\<lparr>encoding := False\<rparr>\<rparr>"

text \<open>
  The answers of one \<^verbatim>\<open>sendSample\<close> call: the lease check, the validity block before conversion
  and inside the serialized action, the endpoint state, whether the action ran, and what
  \<^verbatim>\<open>plank_transport_native_video_send\<close> returns for the frame it is given.
\<close>

record send_env =
  env_authorized :: bool
  env_valid :: bool
  env_state :: PlankTransportState
  env_performed :: bool
  env_valid_in_action :: bool
  env_send :: "PlankTransportNativeVideoFrameInfo \<Rightarrow> bytes \<Rightarrow> PlankTransportResult"

text \<open>
  The result is the returned status, the new state, and the frame handed to the transport with the
  transport's answer, when the call was made.
\<close>

definition sendSample ::
  "(cm_time \<Rightarrow> cm_time) \<Rightarrow> PLANKMacNativeVideo \<Rightarrow> send_env \<Rightarrow> cm_sample option \<Rightarrow> u16
   \<Rightarrow> PlankTransportResult \<times> PLANKMacNativeVideo \<times>
      (PlankTransportNativeVideoFrameInfo \<times> bytes \<times> PlankTransportResult) option" where
  "sendSample convert_scale v env sample latency =
     (if \<not> env_authorized env \<or> \<not> env_valid env \<or> env_state env \<noteq> PLANK_TRANSPORT_STATE_READY
      then (PLANK_TRANSPORT_ERROR_INVALID_STATE, v, None)
      else
        let (payload, key, pts) = PLANKMacHEVCAnnexB convert_scale sample (nv_width v) (nv_height v) in
        if payload = None \<or> (nv_hasTimestamp v \<and> pts \<le> nv_lastPTS v) \<or>
           nv_frameNumber v = 0xffffffffffffffff
        then (PLANK_TRANSPORT_ERROR_INVALID_ARGUMENT, v, None)
        else
          let counted = v\<lparr>nv_lastPTS := pts, nv_hasTimestamp := True,
                          nv_frameNumber := nv_frameNumber v + 1\<rparr> in
          if requested (nv_recovery v) \<and> \<not> key
          then (PLANK_TRANSPORT_DROPPED, counted, None)
          else
            let info = \<lparr>info_struct_size = 40, info_codec = PLANK_TRANSPORT_NATIVE_VIDEO_CODEC_HEVC,
                        info_flags = (if key then PLANK_TRANSPORT_NATIVE_VIDEO_FLAG_KEY else 0),
                        info_reserved = 0,
                        info_frame_number = nv_frameNumber v + 1, info_pts = pts,
                        info_host_processing_latency = latency,
                        info_reserved2 = replicate 6 0\<rparr> in
            if \<not> env_performed env then (PLANK_TRANSPORT_ERROR_INVALID_STATE, v, None)
            else
              let result = (if env_valid_in_action env then env_send env info (the payload)
                            else PLANK_TRANSPORT_ERROR_INVALID_STATE);
                  sent = (if env_valid_in_action env then Some (info, the payload, result) else None)
              in (result,
                  counted\<lparr>nv_recovery := PLANKMacVideoRecoverySent (nv_recovery v) key
                    (result = PLANK_TRANSPORT_OK \<or> result = PLANK_TRANSPORT_DROPPED)
                    (result = PLANK_TRANSPORT_DROPPED)\<rparr>,
                  sent))"


section \<open>What the conversion computes\<close>

definition nal_type :: "bytes \<Rightarrow> nat" where
  "nal_type n = unat (drop_bit 1 (n ! 0) AND 63)"

definition nal_ok :: "bytes \<Rightarrow> bool" where
  "nal_ok n \<longleftrightarrow> 2 \<le> length n \<and> length n < 2 ^ 32 \<and> n ! 0 AND 0x80 = 0 \<and> n ! 1 AND 7 \<noteq> 0"

definition length_prefixed :: "bytes list \<Rightarrow> bytes" where
  "length_prefixed ns = concat (map (\<lambda>n. be32 (of_nat (length n)) @ n) ns)"

definition annexb :: "bytes list \<Rightarrow> bytes" where
  "annexb ns = concat (map (\<lambda>n. start_code @ n) ns)"

lemma length_prefixed_simps [simp]:
  "length_prefixed [] = []"
  "length_prefixed (n # ns) = be32 (of_nat (length n)) @ n @ length_prefixed ns"
  by (simp_all add: length_prefixed_def)

lemma annexb_simps [simp]:
  "annexb [] = []" "annexb (n # ns) = start_code @ n @ annexb ns"
  "annexb (ms @ ns) = annexb ms @ annexb ns"
  by (simp_all add: annexb_def)

lemma length_start_code [simp]: "length start_code = 4"
  by (simp add: start_code_def)

lemma annexb_rewrite_done [simp]:
  "annexb_rewrite data (length data) p r = Some (data, p, r)"
  by (subst annexb_rewrite.simps) simp

lemma annexb_rewrite_step:
  assumes "nal_ok n"
  shows "annexb_rewrite (pre @ be32 (of_nat (length n)) @ n @ rest) (length pre) p r
    = annexb_rewrite (pre @ start_code @ n @ rest) (length pre + 4 + length n)
        (p \<or> nal_type n < 32) (r \<or> nal_type n \<ge> 16 \<and> nal_type n \<le> 21)"
proof -
  let ?w = "of_nat (length n) :: u32"
  let ?d = "pre @ be32 ?w @ n @ rest"
  have be: "?d ! length pre = ucast (drop_bit 24 ?w)" "?d ! (length pre + 1) = ucast (drop_bit 16 ?w)"
    "?d ! (length pre + 2) = ucast (drop_bit 8 ?w)" "?d ! (length pre + 3) = ucast ?w"
    by (simp_all add: be32_def nth_append)
  have nal: "unat (of_be32 (?d ! length pre) (?d ! (length pre + 1)) (?d ! (length pre + 2))
      (?d ! (length pre + 3))) = length n"
    unfolding be of_be32_be32 using assms by (subst unat_of_nat_eq) (auto simp: nal_ok_def)
  have n2: "2 \<le> length n" using assms by (simp add: nal_ok_def)
  have h: "?d ! (length pre + 4) = n ! 0" "?d ! (length pre + 5) = n ! 1"
    using n2 by (auto simp: nth_append)
  have st: "store ?d (length pre) start_code = pre @ start_code @ n @ rest"
    by (simp add: store_def)
  show ?thesis
    by (subst annexb_rewrite.simps, simp only: Let_def nal h st)
      (use assms n2 in \<open>simp add: nal_ok_def nal_type_def\<close>)
qed

lemma annexb_rewrite_head:
  assumes "annexb_rewrite (pre @ rest) (length pre) p r \<noteq> None" and "rest \<noteq> []"
  shows "\<exists>n rest'. nal_ok n \<and> rest = be32 (of_nat (length n)) @ n @ rest'"
proof -
  let ?nal = "unat (of_be32 (rest ! 0) (rest ! 1) (rest ! 2) (rest ! 3))"
  let ?n = "take ?nal (drop 4 rest)"
  note unfolded = annexb_rewrite.simps [of "pre @ rest" "length pre" p r]
  have len: "4 \<le> length rest"
    using assms unfolded by (auto split: if_splits)
  then have at: "(pre @ rest) ! (length pre + k) = rest ! k" for k
    by (simp add: nth_append)
  have at0: "(pre @ rest) ! length pre = rest ! 0"
    "(pre @ rest) ! Suc (length pre) = rest ! Suc 0"
    "(pre @ rest) ! Suc (Suc (length pre)) = rest ! 2"
    using at [of 0] at [of 1] at [of 2] by simp_all
  have "\<not> (?nal < 2 \<or> ?nal > length rest - 4)"
    using assms unfolded len by (auto simp: at at0 Let_def)
  then have nal: "2 \<le> ?nal" "?nal \<le> length rest - 4" by auto
  have hd: "rest ! 4 AND 0x80 = 0 \<and> rest ! 5 AND 7 \<noteq> 0"
  proof (rule ccontr)
    assume "\<not> (rest ! 4 AND 0x80 = 0 \<and> rest ! 5 AND 7 \<noteq> 0)"
    then have "rest ! 4 AND 0x80 \<noteq> 0 \<or> rest ! 5 AND 7 = 0" by blast
    with assms unfolded len nal show False by (simp add: at at0 Let_def)
  qed
  have ln: "length ?n = ?nal" using nal(2) by simp
  have "?nal < 2 ^ 32" using unat_bound [of "of_be32 (rest ! 0) (rest ! 1) (rest ! 2) (rest ! 3)"] by simp
  then have "nal_ok ?n"
    using nal ln len hd by (simp add: nal_ok_def)
  moreover have "rest = be32 (of_nat (length ?n)) @ ?n @ drop (4 + ?nal) rest"
  proof -
    have hd4: "be32 (of_nat (length ?n)) = take 4 rest"
      using load4 [of 0 rest] len unfolding ln by (simp add: be32_of_be32 load_def numeral_2_eq_2)
    have "?n @ drop (4 + ?nal) rest = drop 4 rest"
      using append_take_drop_id [of ?nal "drop 4 rest"] by (simp add: add.commute)
    then show ?thesis
      unfolding hd4 by (simp only: append_take_drop_id)
  qed
  ultimately show ?thesis by blast
qed

lemma annexb_rewrite_complete:
  "list_all nal_ok ns \<Longrightarrow>
   annexb_rewrite (pre @ length_prefixed ns) (length pre) p r
   = Some (pre @ annexb ns, p \<or> (\<exists>n\<in>set ns. nal_type n < 32),
           r \<or> (\<exists>n\<in>set ns. nal_type n \<ge> 16 \<and> nal_type n \<le> 21))"
proof (induction ns arbitrary: pre p r)
  case Nil
  then show ?case by simp
next
  case (Cons n ns)
  have "annexb_rewrite (pre @ length_prefixed (n # ns)) (length pre) p r
      = annexb_rewrite ((pre @ start_code @ n) @ length_prefixed ns) (length (pre @ start_code @ n))
          (p \<or> nal_type n < 32) (r \<or> nal_type n \<ge> 16 \<and> nal_type n \<le> 21)"
    using annexb_rewrite_step [of n pre "length_prefixed ns" p r] Cons.prems
    by (simp add: add.assoc)
  also have "\<dots> = Some ((pre @ start_code @ n) @ annexb ns,
      (p \<or> nal_type n < 32) \<or> (\<exists>n\<in>set ns. nal_type n < 32),
      (r \<or> nal_type n \<ge> 16 \<and> nal_type n \<le> 21) \<or> (\<exists>n\<in>set ns. nal_type n \<ge> 16 \<and> nal_type n \<le> 21))"
    using Cons.prems by (intro Cons.IH) simp
  finally show ?case by (simp add: disj_assoc)
qed

lemma annexb_rewrite_sound:
  "annexb_rewrite (pre @ rest) (length pre) p r \<noteq> None \<Longrightarrow>
   \<exists>ns. list_all nal_ok ns \<and> rest = length_prefixed ns"
proof (induction "length rest" arbitrary: pre rest p r rule: less_induct)
  case less
  show ?case
  proof (cases "rest = []")
    case True
    then show ?thesis by (intro exI [of _ "[]"]) simp
  next
    case False
    then obtain n rest' where n: "nal_ok n" and rest: "rest = be32 (of_nat (length n)) @ n @ rest'"
      using annexb_rewrite_head less.prems by blast
    have "annexb_rewrite ((pre @ start_code @ n) @ rest') (length (pre @ start_code @ n))
        (p \<or> nal_type n < 32) (r \<or> nal_type n \<ge> 16 \<and> nal_type n \<le> 21) \<noteq> None"
      using less.prems annexb_rewrite_step [OF n, of pre rest' p r] by (simp add: rest add.assoc)
    moreover have "length rest' < length rest" by (simp add: rest)
    ultimately obtain ns where "list_all nal_ok ns" "rest' = length_prefixed ns"
      using less.hyps by blast
    with n rest show ?thesis by (intro exI [of _ "n # ns"]) simp
  qed
qed

lemma annexb_parameter_sets_sound:
  assumes "annexb_parameter_sets get ks t out = Some (t', out')"
    and "length out \<le> maximumFrameBytes"
  shows "\<exists>ps. out' = out @ annexb ps \<and> list_all nal_ok ps \<and>
    length out' \<le> maximumFrameBytes \<and> (\<forall>n\<in>set ps. nal_type n \<in> {32..34}) \<and>
    (\<forall>k. bit t' k \<longrightarrow> bit t k \<or> 32 + k \<in> nal_type ` set ps)"
  using assms
proof (induction get ks t out rule: annexb_parameter_sets.induct)
  case (1 get t out)
  then show ?case by (intro exI [of _ "[]"]) simp
next
  case (2 get i ks t out)
  then obtain bs where bs: "get i = Some bs" by (auto split: option.splits)
  let ?t = "t OR push_bit (nal_type bs - 32) 1"
  have ok: "\<not> (length bs < 2 \<or> length bs > maximumFrameBytes - 4 \<or>
      length out > maximumFrameBytes - 4 - length bs)"
    and hd: "\<not> (bs ! 0 AND 0x80 \<noteq> 0 \<or> bs ! 1 AND 7 = 0 \<or> nal_type bs < 32 \<or> nal_type bs > 34)"
    and rec: "annexb_parameter_sets get ks ?t (out @ start_code @ bs) = Some (t', out')"
    using "2.prems"(1) by (auto simp: bs Let_def nal_type_def split: if_splits)
  have nal: "nal_ok bs"
    using ok hd by (auto simp: nal_ok_def maximumFrameBytes_def)
  have len: "length (out @ start_code @ bs) \<le> maximumFrameBytes"
    using ok by (simp add: maximumFrameBytes_def) linarith
  obtain ps where ps: "out' = (out @ start_code @ bs) @ annexb ps" "list_all nal_ok ps"
    "length out' \<le> maximumFrameBytes" "\<forall>n\<in>set ps. nal_type n \<in> {32..34}"
    "\<forall>k. bit t' k \<longrightarrow> bit ?t k \<or> 32 + k \<in> nal_type ` set ps"
    using "2.IH" [OF bs refl _ refl] ok hd rec len by (auto simp: nal_type_def)
  have "bit ?t k \<Longrightarrow> bit t k \<or> 32 + k = nal_type bs" for k
    using hd by (auto simp: bit_simps)
  with ps nal hd show ?case
    by (intro exI [of _ "bs # ps"]) auto
qed

section \<open>Runs of the sender\<close>

text \<open>
  A run is a sequence of the calls the capture owner makes on its serial queue. The log has what the
  receiver and the transport can observe: a recovery request, a frame handed to the transport with
  its answer, and a serialized action that refused to hand its frame over.
\<close>

datatype nv_op = OpRequest | OpBegin | OpComplete | OpSend send_env "cm_sample option" u16

datatype nv_event =
    Requested
  | Handed PlankTransportNativeVideoFrameInfo bytes PlankTransportResult
  | NotHanded

definition nv_step ::
  "(cm_time \<Rightarrow> cm_time) \<Rightarrow> PLANKMacNativeVideo \<Rightarrow> nv_op \<Rightarrow> PLANKMacNativeVideo \<times> nv_event list" where
  "nv_step conv v op =
     (case op of
        OpRequest \<Rightarrow> (requestKeyFrame v, [Requested])
      | OpBegin \<Rightarrow> (snd (beginKeyFrameRequest v), [])
      | OpComplete \<Rightarrow> (completeKeyFrameRequest v, [])
      | OpSend env sample latency \<Rightarrow>
          (case sendSample conv v env sample latency of
             (_, v', Some (info, payload, result)) \<Rightarrow> (v', [Handed info payload result])
           | (_, v', None) \<Rightarrow>
               (v', if needsKeyFrame v' \<and> \<not> needsKeyFrame v then [NotHanded] else [])))"

fun nv_run ::
  "(cm_time \<Rightarrow> cm_time) \<Rightarrow> PLANKMacNativeVideo \<Rightarrow> nv_op list \<Rightarrow> PLANKMacNativeVideo \<times> nv_event list" where
  "nv_run conv v [] = (v, [])"
| "nv_run conv v (op # ops) =
     (let (v1, es1) = nv_step conv v op; (v2, es2) = nv_run conv v1 ops in (v2, es1 @ es2))"

definition is_key :: "PlankTransportNativeVideoFrameInfo \<Rightarrow> bool" where
  "is_key info \<longleftrightarrow> info_flags info = PLANK_TRANSPORT_NATIVE_VIDEO_FLAG_KEY"

definition accepted :: "PlankTransportResult \<Rightarrow> bool" where
  "accepted r \<longleftrightarrow> r = PLANK_TRANSPORT_OK \<or> r = PLANK_TRANSPORT_DROPPED"

text \<open>The receiver's view: does it need a key frame after these events?\<close>

fun need_key :: "bool \<Rightarrow> nv_event \<Rightarrow> bool" where
  "need_key b Requested = True"
| "need_key b NotHanded = True"
| "need_key b (Handed info payload r) =
     (if is_key info \<and> accepted r then False
      else if \<not> accepted r \<or> r = PLANK_TRANSPORT_DROPPED then True else b)"

definition need_key_after :: "bool \<Rightarrow> nv_event list \<Rightarrow> bool" where
  "need_key_after b es = foldl need_key b es"

fun deltas_decodable :: "bool \<Rightarrow> nv_event list \<Rightarrow> bool" where
  "deltas_decodable b [] = True"
| "deltas_decodable b (e # es) =
     ((case e of Handed info _ _ \<Rightarrow> is_key info \<or> \<not> b | _ \<Rightarrow> True) \<and>
      deltas_decodable (need_key b e) es)"

lemma need_key_after_simps [simp]:
  "need_key_after b [] = b" "need_key_after b (e # es) = need_key_after (need_key b e) es"
  "need_key_after b (es @ fs) = need_key_after (need_key_after b es) fs"
  by (simp_all add: need_key_after_def)

lemma deltas_decodable_append:
  "deltas_decodable b (es @ fs) \<longleftrightarrow> deltas_decodable b es \<and> deltas_decodable (need_key_after b es) fs"
  by (induction es arbitrary: b) (auto split: nv_event.splits)

lemma deltas_decodable_delta:
  "deltas_decodable b (es @ Handed info payload r # fs) \<Longrightarrow> \<not> is_key info \<Longrightarrow> \<not> need_key_after b es"
  by (simp add: deltas_decodable_append)

lemma not_need_keyD:
  "\<not> need_key_after True es \<Longrightarrow>
   \<exists>es1 info payload r es2. es = es1 @ Handed info payload r # es2 \<and> is_key info \<and> accepted r \<and>
     Requested \<notin> set es2 \<and> NotHanded \<notin> set es2 \<and>
     (\<forall>i p r. Handed i p r \<in> set es2 \<longrightarrow> r = PLANK_TRANSPORT_OK)"
proof (induction es rule: rev_induct)
  case Nil
  then show ?case by simp
next
  case (snoc e es)
  show ?case
  proof (cases "\<exists>info payload r. e = Handed info payload r \<and> is_key info \<and> accepted r")
    case True
    then show ?thesis by fastforce
  next
    case False
    have "\<not> need_key_after True es \<and> (\<exists>i p. e = Handed i p PLANK_TRANSPORT_OK)"
      using snoc.prems False by (cases e) (auto simp: accepted_def split: if_splits)
    then obtain es1 info payload r es2 i p where
        "es = es1 @ Handed info payload r # es2" "is_key info" "accepted r"
        "Requested \<notin> set es2" "NotHanded \<notin> set es2"
        "\<forall>i p r. Handed i p r \<in> set es2 \<longrightarrow> r = PLANK_TRANSPORT_OK"
        "e = Handed i p PLANK_TRANSPORT_OK"
      using snoc.IH by blast
    then show ?thesis
      by (intro exI [of _ es1] exI [of _ info] exI [of _ payload] exI [of _ r] exI [of _ "es2 @ [e]"]) auto
  qed
qed

lemma flag_key [simp]:
  "PLANK_TRANSPORT_NATIVE_VIDEO_FLAG_KEY \<noteq> 0" "0 \<noteq> PLANK_TRANSPORT_NATIVE_VIDEO_FLAG_KEY"
  by (simp_all add: PLANK_TRANSPORT_NATIVE_VIDEO_FLAG_KEY_def)

lemma u64_succ: "n \<noteq> 0xffffffffffffffff \<Longrightarrow> n < n + 1" for n :: u64
proof -
  assume "n \<noteq> 0xffffffffffffffff"
  then have "unat n \<noteq> 0xffffffffffffffff" by (metis of_nat_unat_id of_nat_numeral)
  then have "unat (n + 1) = unat n + 1"
    using unat_bound [of n] by (simp add: unat_word_ariths)
  then show ?thesis by (simp add: word_less_nat_alt)
qed

lemma sendSample_handed:
  assumes "sendSample conv v env sample latency = (result, v', Some (info, payload, r))"
  shows "(is_key info \<or> \<not> needsKeyFrame v) \<and>
    needsKeyFrame v' = need_key (needsKeyFrame v) (Handed info payload r) \<and>
    info_frame_number info = nv_frameNumber v' \<and> nv_frameNumber v < nv_frameNumber v' \<and>
    info_pts info = nv_lastPTS v' \<and> nv_hasTimestamp v' \<and>
    (nv_hasTimestamp v \<longrightarrow> nv_lastPTS v < nv_lastPTS v')"
  using assms u64_succ
  by (auto simp: sendSample_def Let_def needsKeyFrame_def is_key_def accepted_def
      PLANKMacVideoRecoverySent_def not_le split: if_splits prod.splits)

lemma sendSample_not_handed:
  assumes "sendSample conv v env sample latency = (result, v', None)"
  shows "(needsKeyFrame v \<longrightarrow> needsKeyFrame v') \<and> nv_frameNumber v \<le> nv_frameNumber v' \<and>
    (nv_hasTimestamp v \<longrightarrow> nv_hasTimestamp v' \<and> nv_lastPTS v \<le> nv_lastPTS v')"
  using assms less_imp_le [OF u64_succ]
  by (auto simp: sendSample_def Let_def needsKeyFrame_def
      PLANKMacVideoRecoverySent_def not_le split: if_splits prod.splits)

lemma nv_step_recovery:
  assumes "nv_step conv v op = (v', es)"
  shows "needsKeyFrame v' = need_key_after (needsKeyFrame v) es \<and> deltas_decodable (needsKeyFrame v) es"
proof (cases op)
  case (OpSend env sample latency)
  obtain result v1 sent where send: "sendSample conv v env sample latency = (result, v1, sent)"
    by (metis prod_cases3)
  show ?thesis
  proof (cases sent)
    case None
    with send sendSample_not_handed assms OpSend show ?thesis
      by (fastforce simp: nv_step_def split: if_splits)
  next
    case (Some h)
    then obtain info payload r where "sent = Some (info, payload, r)" by (cases h) auto
    with send sendSample_handed assms OpSend show ?thesis
      by (fastforce simp: nv_step_def)
  qed
qed (use assms in \<open>auto simp: nv_step_def requestKeyFrame_def completeKeyFrameRequest_def
      beginKeyFrameRequest_def PLANKMacVideoRecoveryBegin_def needsKeyFrame_def split: prod.splits if_splits\<close>)

lemma nv_run_recovery:
  "nv_run conv v ops = (v', es) \<Longrightarrow>
   needsKeyFrame v' = need_key_after (needsKeyFrame v) es \<and> deltas_decodable (needsKeyFrame v) es"
proof (induction ops arbitrary: v es)
  case Nil
  then show ?case by simp
next
  case (Cons op ops)
  obtain v1 es1 where step: "nv_step conv v op = (v1, es1)" by fastforce
  obtain v2 es2 where run: "nv_run conv v1 ops = (v2, es2)" by fastforce
  from Cons.prems step run have es: "v' = v2" "es = es1 @ es2" by auto
  show ?case
    using nv_step_recovery [OF step] Cons.IH [OF run [folded es(1)]] run es
    by (simp add: deltas_decodable_append)
qed

text \<open>The frames handed over, in order.\<close>

fun handed :: "nv_event list \<Rightarrow> PlankTransportNativeVideoFrameInfo list" where
  "handed [] = []"
| "handed (Handed info _ _ # es) = info # handed es"
| "handed (_ # es) = handed es"

lemma handed_append [simp]: "handed (es @ fs) = handed es @ handed fs"
  by (induction es rule: handed.induct) auto

definition nv_later :: "PLANKMacNativeVideo \<Rightarrow> PLANKMacNativeVideo \<Rightarrow> bool" where
  "nv_later v v' \<longleftrightarrow> nv_frameNumber v \<le> nv_frameNumber v' \<and>
     (nv_hasTimestamp v \<longrightarrow> nv_hasTimestamp v' \<and> nv_lastPTS v \<le> nv_lastPTS v')"

definition nv_before :: "PLANKMacNativeVideo \<Rightarrow> PlankTransportNativeVideoFrameInfo \<Rightarrow> bool" where
  "nv_before v info \<longleftrightarrow> nv_frameNumber v < info_frame_number info \<and>
     (nv_hasTimestamp v \<longrightarrow> nv_lastPTS v < info_pts info)"

lemma nv_later_trans: "nv_later u v \<Longrightarrow> nv_before v i \<Longrightarrow> nv_before u i"
  by (auto simp: nv_later_def nv_before_def intro: order.strict_trans1)

lemma nv_step_order:
  assumes "nv_step conv v op = (v', es)"
  shows "nv_later v v' \<and> (\<forall>i\<in>set (handed es). nv_before v i \<and> length (handed es) = 1 \<and>
    nv_hasTimestamp v' \<and> info_frame_number i = nv_frameNumber v' \<and> info_pts i = nv_lastPTS v')"
proof (cases op)
  case (OpSend env sample latency)
  obtain result v1 sent where send: "sendSample conv v env sample latency = (result, v1, sent)"
    by (metis prod_cases3)
  show ?thesis
  proof (cases sent)
    case None
    with send sendSample_not_handed assms OpSend show ?thesis
      by (fastforce simp: nv_step_def nv_later_def split: if_splits)
  next
    case (Some h)
    then obtain info payload r where s: "sent = Some (info, payload, r)" by (cases h) auto
    with send have h: "sendSample conv v env sample latency = (result, v1, Some (info, payload, r))" by simp
    with assms OpSend have "v' = v1" "es = [Handed info payload r]"
      by (auto simp: nv_step_def)
    with sendSample_handed [OF h] show ?thesis
      by (auto simp: nv_later_def nv_before_def)
  qed
qed (use assms in \<open>auto simp: nv_step_def requestKeyFrame_def completeKeyFrameRequest_def
      beginKeyFrameRequest_def nv_later_def split: prod.splits\<close>)

lemma nv_run_order:
  "nv_run conv v ops = (v', es) \<Longrightarrow>
   (\<forall>i\<in>set (handed es). nv_before v i) \<and>
   sorted_wrt (\<lambda>a b. info_frame_number a < info_frame_number b \<and> info_pts a < info_pts b) (handed es)"
proof (induction ops arbitrary: v es)
  case Nil
  then show ?case by simp
next
  case (Cons op ops)
  obtain v1 es1 where step: "nv_step conv v op = (v1, es1)" by fastforce
  obtain v2 es2 where run: "nv_run conv v1 ops = (v2, es2)" by fastforce
  from Cons.prems step run have es: "v' = v2" "es = es1 @ es2" by auto
  note o = nv_step_order [OF step] and ih = Cons.IH [OF run [folded es(1)]]
  have "nv_before v i" if "i \<in> set (handed es)" for i
    using that o ih nv_later_trans by (auto simp: es)
  moreover have "info_frame_number a < info_frame_number b \<and> info_pts a < info_pts b"
    if "a \<in> set (handed es1)" "b \<in> set (handed es2)" for a b
    using that o ih by (auto simp: nv_before_def)
  moreover have "sorted_wrt (\<lambda>a b. info_frame_number a < info_frame_number b \<and> info_pts a < info_pts b)
      (handed es1)"
    using o by (cases "handed es1") auto
  ultimately show ?case
    using ih by (auto simp: es sorted_wrt_append)
qed

definition annexb_prefix :: "bool \<Rightarrow> cm_format \<Rightarrow> nat \<Rightarrow> bytes \<Rightarrow> bool" where
  "annexb_prefix key format count out =
     (if key then annexb_parameter_sets (fmt_parameter_set format) [0..<count] 0 [] = Some (7, out)
      else out = [])"

lemma PLANKMacHEVCAnnexB_SomeD:
  assumes "PLANKMacHEVCAnnexB conv (Some s) width height = (Some out, key, pts)"
  shows "\<exists>format count data prefix_bytes rewritten. smp_format s = Some format \<and>
    fmt_parameter_info format = Some (count, 4) \<and> count \<le> 8 \<and> smp_copy_ok s \<and>
    smp_data s = Some data \<and> data \<noteq> [] \<and>
    \<not> length data > maximumFrameBytes - length prefix_bytes \<and> annexb_prefix key format count prefix_bytes \<and>
    annexb_rewrite data 0 False False = Some (rewritten, True, key) \<and> out = prefix_bytes @ rewritten"
  using assms unfolding PLANKMacHEVCAnnexB_def annexb_prefix_def
  by (cases key; clarsimp simp: Let_def split: option.splits if_splits prod.splits; auto)

section \<open>Properties\<close>

text \<open>
  C5. When \<open>PLANKMacHEVCAnnexB\<close> returns data, the sample held a sequence of well-formed
  length-prefixed NAL units and the data is those units in Annex B, preceded on a key frame by
  parameter sets among which are a VPS, an SPS and a PPS. The key flag is set exactly when a unit is
  a random access picture, at least one unit is a picture, and the whole is at most
  \<open>maximumFrameBytes\<close> long.
\<close>

theorem annexb_conversion:
  assumes "PLANKMacHEVCAnnexB conv (Some s) width height = (Some out, key, pts)"
  shows "\<exists>ps ns. smp_data s = Some (length_prefixed ns) \<and> out = annexb (ps @ ns) \<and>
    list_all nal_ok (ps @ ns) \<and> length out \<le> maximumFrameBytes \<and>
    (key \<longleftrightarrow> (\<exists>n\<in>set ns. nal_type n \<in> {16..21})) \<and> (\<exists>n\<in>set ns. nal_type n < 32) \<and>
    (if key then {32, 33, 34} \<subseteq> nal_type ` set ps else ps = [])"
proof -
  obtain format count data prefix_bytes rewritten where data: "smp_data s = Some data"
    and size: "\<not> length data > maximumFrameBytes - length prefix_bytes"
    and sets: "annexb_prefix key format count prefix_bytes"
    and rewrite: "annexb_rewrite data 0 False False = Some (rewritten, True, key)"
    and out: "out = prefix_bytes @ rewritten"
    using PLANKMacHEVCAnnexB_SomeD [OF assms] by blast
  have "\<exists>ns. list_all nal_ok ns \<and> data = length_prefixed ns"
    using annexb_rewrite_sound [of "[]" data False False] rewrite by simp
  then obtain ns where ns: "list_all nal_ok ns" "data = length_prefixed ns" by blast
  with annexb_rewrite_complete [OF ns(1), of "[]" False False] rewrite
  have out2: "rewritten = annexb ns" and pic: "\<exists>n\<in>set ns. nal_type n < 32"
    and key: "key \<longleftrightarrow> (\<exists>n\<in>set ns. nal_type n \<ge> 16 \<and> nal_type n \<le> 21)"
    by auto
  have len_ns: "length (annexb ms) = length (length_prefixed ms)" for ms
    by (induction ms) auto
  show ?thesis
  proof (cases key)
    case True
    with sets have "annexb_parameter_sets (fmt_parameter_set format) [0..<count] 0 []
        = Some (7, prefix_bytes)" by (simp add: annexb_prefix_def)
    then obtain ps where ps: "prefix_bytes = annexb ps" "list_all nal_ok ps" "length prefix_bytes \<le> maximumFrameBytes"
      "\<forall>k. bit (7::u32) k \<longrightarrow> 32 + k \<in> nal_type ` set ps"
      using annexb_parameter_sets_sound [of _ _ 0 "[]" 7 prefix_bytes] by fastforce
    have "bit (7::u32) 0" "bit (7::u32) 1" "bit (7::u32) 2"
      by (simp_all add: bit_numeral_rec numeral_2_eq_2)
    with ps(4) have "32 + 0 \<in> nal_type ` set ps" "32 + 1 \<in> nal_type ` set ps" "32 + 2 \<in> nal_type ` set ps"
      by blast+
    then have "{32, 33, 34} \<subseteq> nal_type ` set ps" by simp
    moreover have "out = annexb (ps @ ns)" using out out2 ps(1) by simp
    moreover from this have "length out \<le> maximumFrameBytes"
      using size ps(1,3) ns(2) len_ns [of ns] by simp
    ultimately show ?thesis
      using True data ns ps(2) pic key by (intro exI [of _ ps] exI [of _ ns]) auto
  next
    case False
    with sets have "prefix_bytes = []" by (simp add: annexb_prefix_def)
    with False data ns pic key out out2 size len_ns [of ns] show ?thesis
      by (intro exI [of _ "[]"] exI [of _ ns]) auto
  qed
qed


text \<open>
  C6. In every run, the frames handed to the transport have strictly increasing frame numbers and
  strictly increasing timestamps.
\<close>

theorem handed_frames_ordered:
  assumes "nv_run conv v ops = (v', es)"
  shows "sorted_wrt (\<lambda>a b. info_frame_number a < info_frame_number b \<and> info_pts a < info_pts b) (handed es)"
  using nv_run_order [OF assms] by simp

subsection \<open>Examples\<close>

definition example_format :: cm_format where
  "example_format = \<lparr>fmt_video = True, fmt_hevc = True, fmt_width = 1920, fmt_height = 1080,
     fmt_parameter_info = Some (3, 4),
     fmt_parameter_set = (\<lambda>i. if i < 3 then Some ([[0x40, 1], [0x42, 1], [0x44, 1]] ! i) else None)\<rparr>"

definition example_sample :: "bool \<Rightarrow> int \<Rightarrow> cm_sample" where
  "example_sample key time = \<lparr>smp_valid = True, smp_ready = True, smp_count = 1,
     smp_format = Some example_format,
     smp_pts = \<lparr>cmt_numeric = True, cmt_epoch = 0, cmt_value = time\<rparr>,
     smp_attachments = Some [Some (AttachmentBoolean (\<not> key))],
     smp_data = Some [0, 0, 0, 2, if key then 0x26 else 0x02, 1], smp_copy_ok = True\<rparr>"

definition example_env :: send_env where
  "example_env = \<lparr>env_authorized = True, env_valid = True, env_state = PLANK_TRANSPORT_STATE_READY,
     env_performed = True, env_valid_in_action = True, env_send = (\<lambda>_ _. PLANK_TRANSPORT_OK)\<rparr>"

lemma example_key_sample:
  "PLANKMacHEVCAnnexB id (Some (example_sample True 100)) 1920 1080 =
    (Some [0, 0, 0, 1, 0x40, 1, 0, 0, 0, 1, 0x42, 1, 0, 0, 0, 1, 0x44, 1, 0, 0, 0, 1, 0x26, 1], True, 100)"
  by (simp add: PLANKMacHEVCAnnexB_def example_sample_def example_format_def annexb_rewrite.simps
      start_code_def store_def maximumFrameBytes_def upt_rec of_be32_def)

lemma example_delta_sample:
  "PLANKMacHEVCAnnexB id (Some (example_sample False 200)) 1920 1080 =
    (Some [0, 0, 0, 1, 0x02, 1], False, 200)"
  by (simp add: PLANKMacHEVCAnnexB_def example_sample_def example_format_def annexb_rewrite.simps
      start_code_def store_def maximumFrameBytes_def upt_rec of_be32_def)

definition example_ops :: "nv_op list" where
  "example_ops = [OpSend example_env (Some (example_sample True 100)) 0,
                  OpSend example_env (Some (example_sample False 200)) 0]"

definition example_info :: "bool \<Rightarrow> u64 \<Rightarrow> u64 \<Rightarrow> PlankTransportNativeVideoFrameInfo" where
  "example_info key number pts = \<lparr>info_struct_size = 40, info_codec = PLANK_TRANSPORT_NATIVE_VIDEO_CODEC_HEVC,
     info_flags = (if key then 1 else 0), info_reserved = 0, info_frame_number = number,
     info_pts = pts, info_host_processing_latency = 0, info_reserved2 = replicate 6 0\<rparr>"

lemma example_run:
  "nv_run id (the (nv_init True 1920 1080)) example_ops =
    (\<lparr>nv_width = 1920, nv_height = 1080, nv_hasTimestamp = True,
      nv_recovery = \<lparr>requested = False, encoding = False\<rparr>, nv_lastPTS = 200, nv_frameNumber = 2\<rparr>,
     [Handed (example_info True 1 100)
        [0, 0, 0, 1, 0x40, 1, 0, 0, 0, 1, 0x42, 1, 0, 0, 0, 1, 0x44, 1, 0, 0, 0, 1, 0x26, 1] PLANK_TRANSPORT_OK,
      Handed (example_info False 2 200) [0, 0, 0, 1, 0x02, 1] PLANK_TRANSPORT_OK])"
  by (simp add: example_ops_def nv_step_def sendSample_def nv_init_def example_key_sample
      example_delta_sample example_env_def example_info_def PLANKMacVideoRecoverySent_def
      PLANK_TRANSPORT_NATIVE_VIDEO_FLAG_KEY_def Let_def)

theorem annexb_conversion_witness:
  "\<exists>ps ns. [0, 0, 0, 2, 0x26, 1] = length_prefixed ns \<and> list_all nal_ok (ps @ ns) \<and>
     {32, 33, 34} \<subseteq> nal_type ` set ps"
  using annexb_conversion [OF example_key_sample] by (auto simp: example_sample_def)


theorem handed_frames_ordered_witness:
  "sorted_wrt (\<lambda>a b. info_frame_number a < info_frame_number b \<and> info_pts a < info_pts b)
     [example_info True 1 100, example_info False 2 200]"
  using handed_frames_ordered [OF example_run] by simp

end
