(* ===== verification/Bounded_Queue.thy ===== *)
theory Bounded_Queue
  imports Plank_Prelude "HOL-Library.Sublist"
begin

text \<open>
  Runs of step relations with their traces, and the bounded first-in first-out queue as an abstract
  specification: an implementation whose every step is a step of the queue never loses, repeats or
  reorders what it was given, except for what it reports as dropped.
\<close>

section \<open>A bounded queue and what implements it\<close>

datatype ('a, 'v) queue_event =
  Silent | Called 'a | Published 'v | Saw 'v | Taken 'v | Dropped "'v list"

inductive queue_step :: "nat \<Rightarrow> 'v list \<Rightarrow> ('a, 'v) queue_event \<Rightarrow> 'v list \<Rightarrow> bool" for cap where
  silent: "queue_step cap q Silent q"
| called: "queue_step cap q (Called a) q"
| published: "length q < cap \<Longrightarrow> queue_step cap q (Published v) (q @ [v])"
| saw: "queue_step cap (v # q) (Saw v) (v # q)"
| taken: "queue_step cap (v # q) (Taken v) q"
| dropped: "queue_step cap (vs @ q) (Dropped vs) q"

inductive_cases queue_sawE: "queue_step cap q (Saw v) q'"

fun added :: "('a, 'v) queue_event list \<Rightarrow> 'v list" where
  "added [] = []"
| "added (Published v # t) = v # added t"
| "added (_ # t) = added t"

fun removed :: "('a, 'v) queue_event list \<Rightarrow> 'v list" where
  "removed [] = []"
| "removed (Taken v # t) = v # removed t"
| "removed (Dropped vs # t) = vs @ removed t"
| "removed (_ # t) = removed t"

fun taken_views :: "('a, 'v) queue_event list \<Rightarrow> 'v list" where
  "taken_views [] = []"
| "taken_views (Taken v # t) = v # taken_views t"
| "taken_views (_ # t) = taken_views t"

fun calls :: "('a, 'v) queue_event list \<Rightarrow> 'a list" where
  "calls [] = []"
| "calls (Called a # t) = a # calls t"
| "calls (_ # t) = calls t"

lemma calls_append [simp]: "calls (t @ u) = calls t @ calls u"
  by (induction t rule: calls.induct) auto

lemma added_append [simp]: "added (t @ u) = added t @ added u"
  by (induction t rule: added.induct) auto

lemma removed_append [simp]: "removed (t @ u) = removed t @ removed u"
  by (induction t rule: removed.induct) auto

lemma taken_subseq_removed: "subseq (taken_views t) (removed t)"
  by (induction t rule: removed.induct) (auto intro: list_emb_append2)

lemma queue_step_balance:
  "queue_step cap q e q' \<Longrightarrow> q @ added [e] = removed [e] @ q' \<and> (length q \<le> cap \<longrightarrow> length q' \<le> cap)"
  by (induction rule: queue_step.induct) auto

text \<open>The runs of a step relation, with their traces.\<close>

inductive trace_run :: "('s \<Rightarrow> 'e \<Rightarrow> 's \<Rightarrow> bool) \<Rightarrow> 's \<Rightarrow> 'e list \<Rightarrow> 's \<Rightarrow> bool" for step s where
  start: "trace_run step s [] s"
| snoc: "trace_run step s t s' \<Longrightarrow> step s' e s'' \<Longrightarrow> trace_run step s (t @ [e]) s''"

lemma trace_run_prefix:
  "trace_run step s t s' \<Longrightarrow> t = t1 @ e # t2 \<Longrightarrow> \<exists>s1 s2. trace_run step s t1 s1 \<and> step s1 e s2"
proof (induction arbitrary: t2 rule: trace_run.induct)
  case start
  then show ?case by simp
next
  case (snoc t s' e' s'')
  show ?case
  proof (cases t2 rule: rev_cases)
    case Nil
    with snoc show ?thesis by auto
  next
    case (snoc u x)
    with snoc.prems snoc.IH [of u] show ?thesis by auto
  qed
qed

text \<open>
  The contract of a bounded queue: every step of the implementation is a step of the abstract queue
  on what the implementation's state holds.
\<close>

locale bounded_queue =
  fixes cap :: nat
    and step :: "'s \<Rightarrow> ('a, 'v) queue_event \<Rightarrow> 's \<Rightarrow> bool"
    and inv :: "'s \<Rightarrow> bool"
    and held :: "'s \<Rightarrow> 'v list"
  assumes inv_step: "inv s \<Longrightarrow> step s e s' \<Longrightarrow> inv s'"
    and held_step: "inv s \<Longrightarrow> step s e s' \<Longrightarrow> queue_step cap (held s) e (held s')"
begin

lemma run_inv: "trace_run step s t s' \<Longrightarrow> inv s \<Longrightarrow> inv s'"
  by (induction rule: trace_run.induct) (auto intro: inv_step)

lemma run_fifo:
  assumes "trace_run step s t s'" and "inv s" and "held s = []"
  shows "added t = removed t @ held s'"
  using assms(1)
proof (induction rule: trace_run.induct)
  case start
  then show ?case using assms(3) by simp
next
  case (snoc t s' e s'')
  have "queue_step cap (held s') e (held s'')"
    using snoc.hyps run_inv assms(2) held_step by blast
  then show ?case using snoc.IH queue_step_balance [of cap "held s'" e "held s''"] by simp
qed

lemma run_taken:
  assumes "trace_run step s t s'" and "inv s" and "held s = []"
  shows "subseq (taken_views t) (added t)"
  using run_fifo [OF assms] taken_subseq_removed [of t]
  by (metis list_emb_append2 subseq_order.order_trans subseq_append_le_same_iff append_Nil2 list_emb_prefix)

lemma run_saw:
  assumes "trace_run step s (t1 @ Saw v # t2) s'" and "inv s" and "held s = []"
  shows "\<exists>rest. added t1 = removed t1 @ v # rest"
proof -
  obtain s1 s2 where r: "trace_run step s t1 s1" and st: "step s1 (Saw v) s2"
    using trace_run_prefix [OF assms(1) refl] by blast
  obtain q where "held s1 = v # q"
    using held_step [OF run_inv [OF r assms(2)] st] by (auto elim: queue_sawE)
  then show ?thesis using run_fifo [OF r assms(2,3)] by simp
qed

end

end
