(* ===== verification/Tap_Buffer.thy ===== *)
theory Tap_Buffer
  imports Bounded_Queue
begin

text \<open>
  \<^verbatim>\<open>apps/host/macos/media/audio-tap-buffer.h\<close>: the ring between the one HAL producer and the one
  session-queue consumer of captured audio. A float is its 32-bit pattern. The operations come first
  as single calls, then as the atomic steps of the two threads, interleaved in every order. Atomic
  loads and stores take effect in one order; the producer's use of a stale \<^verbatim>\<open>readIndex\<close> is part
  of the model because the load and its use are different steps.
\<close>

section \<open>State and operations\<close>

definition PLANKTapSlots :: nat where
  "PLANKTapSlots = 16"

definition PLANKTapMaxFrames :: nat where
  "PLANKTapMaxFrames = 8192"

record PLANKTapBlock =
  frames :: u32
  hostTime :: u64
  samples :: "u32 list" \<comment> \<open>\<open>PLANKTapMaxFrames * 2\<close> floats\<close>

record PLANKTapBuffer =
  readIndex :: u32
  writeIndex :: u32
  failed :: int
  overruns :: u32
  stopped :: bool
  blocks :: "PLANKTapBlock list" \<comment> \<open>\<open>PLANKTapSlots\<close> blocks\<close>

text \<open>\<^verbatim>\<open>isfinite\<close> of a float: the exponent is not all ones.\<close>

definition isfinite_bits :: "u32 \<Rightarrow> bool" where
  "isfinite_bits f \<longleftrightarrow> f AND 0x7f800000 \<noteq> 0x7f800000"

definition PLANKTapBufferInit :: "PLANKTapBuffer \<Rightarrow> PLANKTapBuffer" where
  "PLANKTapBufferInit buffer =
     buffer\<lparr>readIndex := 0, writeIndex := 0, failed := 0, stopped := False, overruns := 0\<rparr>"

definition tap_left :: "u32 list \<Rightarrow> u32 list option \<Rightarrow> nat \<Rightarrow> u32" where
  "tap_left left right i = left ! (if right \<noteq> None then i else i * 2)"

definition tap_right :: "u32 list \<Rightarrow> u32 list option \<Rightarrow> nat \<Rightarrow> u32" where
  "tap_right left right i = (case right of Some r \<Rightarrow> r ! i | None \<Rightarrow> left ! (i * 2 + 1))"

definition slot :: "u32 \<Rightarrow> nat" where
  "slot index = unat index mod PLANKTapSlots"

definition tap_put :: "PLANKTapBuffer \<Rightarrow> nat \<Rightarrow> (PLANKTapBlock \<Rightarrow> PLANKTapBlock) \<Rightarrow> PLANKTapBuffer" where
  "tap_put buffer k f = buffer\<lparr>blocks := (blocks buffer)[k := f (blocks buffer ! k)]\<rparr>"

text \<open>The loop of \<open>PLANKTapPush\<close> over the frames \<open>is\<close>; false when a sample is not finite.\<close>

fun tap_fill ::
  "PLANKTapBuffer \<Rightarrow> nat \<Rightarrow> u32 list \<Rightarrow> u32 list option \<Rightarrow> nat list \<Rightarrow> bool \<times> PLANKTapBuffer" where
  "tap_fill buffer k left right [] = (True, buffer)"
| "tap_fill buffer k left right (i # is) =
     (let l = tap_left left right i; r = tap_right left right i in
      if \<not> isfinite_bits l \<or> \<not> isfinite_bits r then (False, buffer\<lparr>failed := 1\<rparr>)
      else tap_fill
             (tap_put buffer k (\<lambda>b. b\<lparr>samples := (samples b)[i * 2 := l, i * 2 + 1 := r]\<rparr>))
             k left right is)"

definition PLANKTapPush ::
  "PLANKTapBuffer \<Rightarrow> u32 list option \<Rightarrow> u32 list option \<Rightarrow> u32 \<Rightarrow> u64 \<Rightarrow> bool \<times> PLANKTapBuffer" where
  "PLANKTapPush buffer left right count host_time =
     (if stopped buffer then (False, buffer)
      else
        let write = writeIndex buffer; read = readIndex buffer;
            error = (if left = None \<or> count = 0 \<or> unat count > PLANKTapMaxFrames \<or> host_time = 0
                     then 1 else 0)
        in if error \<noteq> 0 then (False, buffer\<lparr>failed := error\<rparr>)
           else if unat (write - read) \<ge> PLANKTapSlots
           then (False, buffer\<lparr>overruns := overruns buffer + 1\<rparr>)
           else
             let buffer = tap_put buffer (slot write) (\<lambda>b. b\<lparr>frames := count, hostTime := host_time\<rparr>);
                 (ok, buffer) = tap_fill buffer (slot write) (the left) right [0..<unat count]
             in if ok then (True, buffer\<lparr>writeIndex := write + 1\<rparr>) else (False, buffer))"

text \<open>A returned pointer is the slot it points to.\<close>

definition PLANKTapPeek :: "PLANKTapBuffer \<Rightarrow> nat option" where
  "PLANKTapPeek buffer =
     (let read = readIndex buffer in
      if read = writeIndex buffer then None else Some (slot read))"

definition PLANKTapPop :: "PLANKTapBuffer \<Rightarrow> PLANKTapBuffer" where
  "PLANKTapPop buffer = buffer\<lparr>readIndex := readIndex buffer + 1\<rparr>"

definition PLANKTapDiscardOverrun :: "PLANKTapBuffer \<Rightarrow> u32 \<times> PLANKTapBuffer" where
  "PLANKTapDiscardOverrun buffer =
     (let count = overruns buffer; buffer = buffer\<lparr>overruns := 0\<rparr> in
      if count \<noteq> 0 then (count, buffer\<lparr>readIndex := writeIndex buffer\<rparr>) else (count, buffer))"

section \<open>The queue the ring holds\<close>

text \<open>What the consumer may read of a block, and the published blocks from the oldest on.\<close>

type_synonym tap_view = "u32 \<times> u64 \<times> u32 list"

definition block_view :: "PLANKTapBlock \<Rightarrow> tap_view" where
  "block_view b = (frames b, hostTime b, take (2 * unat (frames b)) (samples b))"

definition tap_count :: "PLANKTapBuffer \<Rightarrow> nat" where
  "tap_count buffer = unat (writeIndex buffer - readIndex buffer)"

definition tap_queue :: "PLANKTapBuffer \<Rightarrow> tap_view list" where
  "tap_queue buffer =
     map (\<lambda>k. block_view (blocks buffer ! slot (readIndex buffer + of_nat k))) [0..<tap_count buffer]"

definition tap_wf :: "PLANKTapBuffer \<Rightarrow> bool" where
  "tap_wf buffer \<longleftrightarrow>
     length (blocks buffer) = PLANKTapSlots \<and> tap_count buffer \<le> PLANKTapSlots \<and>
     list_all (\<lambda>b. length (samples b) = PLANKTapMaxFrames * 2) (blocks buffer)"

definition tap_interleave :: "u32 list \<Rightarrow> u32 list option \<Rightarrow> nat \<Rightarrow> u32 list" where
  "tap_interleave left right n =
     concat (map (\<lambda>i. [tap_left left right i, tap_right left right i]) [0..<n])"

lemma slot_less [simp]: "slot i < PLANKTapSlots"
  by (simp add: slot_def PLANKTapSlots_def)

lemma slot_less_16 [simp]: "slot i < 16"
  using slot_less [of i] by (simp add: PLANKTapSlots_def)

lemma slot_add: "slot (i + of_nat k) = (slot i + k) mod 16"
proof -
  have "unat (i + of_nat k) = (unat i + k) mod 2 ^ 32"
    by (simp add: unat_word_ariths unat_of_nat mod_simps)
  moreover have "(m mod 2 ^ 32) mod 16 = m mod (16 :: nat)" for m
    by (rule mod_mod_cancel) (simp add: dvd_def)
  ultimately show ?thesis
    by (simp add: slot_def PLANKTapSlots_def mod_simps)
qed

text \<open>Fewer than 16 apart, two indices share a slot only when they are equal.\<close>

lemma mod_16_cancel:
  assumes "(m + j) mod 16 = (m + k) mod (16 :: nat)" and "j \<le> k" and "k < 16"
  shows "j = k"
proof -
  have "16 dvd (m + k) - (m + j)"
    using assms(1,2) by (metis add_le_mono1 add.commute mod_eq_dvd_iff_nat)
  then have "16 dvd k - j" by simp
  then show ?thesis using assms(2,3) by (auto dest: dvd_imp_le)
qed

lemma slot_inj:
  assumes "j < 16" and "k < 16" and "slot (i + of_nat j) = slot (i + of_nat k)"
  shows "j = k"
  using mod_16_cancel [of "slot i" j k] mod_16_cancel [of "slot i" k j] assms
  by (cases "j \<le> k") (simp_all add: slot_add)

section \<open>Each operation on the queue\<close>

lemmas tap_size_defs = PLANKTapSlots_def PLANKTapMaxFrames_def

lemma tap_put_simps [simp]:
  "readIndex (tap_put b k f) = readIndex b" "writeIndex (tap_put b k f) = writeIndex b"
  "stopped (tap_put b k f) = stopped b" "overruns (tap_put b k f) = overruns b"
  "failed (tap_put b k f) = failed b" "length (blocks (tap_put b k f)) = length (blocks b)"
  "tap_count (tap_put b k f) = tap_count b"
  "k < length (blocks b) \<Longrightarrow> blocks (tap_put b k f) ! k = f (blocks b ! k)"
  "j \<noteq> k \<Longrightarrow> blocks (tap_put b k f) ! j = blocks b ! j"
  by (simp_all add: tap_put_def tap_count_def)

lemma write_index_eq: "writeIndex b = readIndex b + of_nat (tap_count b)"
  by (simp add: tap_count_def of_nat_unat_id)

text \<open>The producer's slot is not a published one while the ring is not full.\<close>

lemma write_slot_free:
  "tap_count b < 16 \<Longrightarrow> k < tap_count b \<Longrightarrow> slot (readIndex b + of_nat k) \<noteq> slot (writeIndex b)"
  using slot_inj [of k "tap_count b" "readIndex b"] write_index_eq [of b] by auto

lemma tap_queue_cong:
  assumes "readIndex b' = readIndex b" "writeIndex b' = writeIndex b"
    and "\<And>k. k < tap_count b \<Longrightarrow>
      blocks b' ! slot (readIndex b + of_nat k) = blocks b ! slot (readIndex b + of_nat k)"
  shows "tap_queue b' = tap_queue b"
  using assms by (auto simp: tap_queue_def tap_count_def)

lemma tap_queue_put:
  "tap_count b < 16 \<Longrightarrow> tap_queue (tap_put b (slot (writeIndex b)) f) = tap_queue b"
  by (rule tap_queue_cong) (use write_slot_free in auto)

lemma length_tap_queue [simp]: "length (tap_queue b) = tap_count b"
  by (simp add: tap_queue_def)

lemma tap_queue_update [simp]:
  "tap_queue (b\<lparr>failed := x\<rparr>) = tap_queue b" "tap_queue (b\<lparr>overruns := y\<rparr>) = tap_queue b"
  "tap_queue (b\<lparr>stopped := z\<rparr>) = tap_queue b"
  by (simp_all add: tap_queue_def tap_count_def)

lemma tap_count_publish:
  "tap_count b < 16 \<Longrightarrow> tap_count (b\<lparr>writeIndex := writeIndex b + 1\<rparr>) = Suc (tap_count b)"
proof -
  assume "tap_count b < 16"
  then have "unat (writeIndex b - readIndex b + 1) = Suc (unat (writeIndex b - readIndex b))"
    by (simp add: tap_count_def unat_word_ariths)
  then show ?thesis by (simp add: tap_count_def algebra_simps)
qed

lemma tap_queue_publish:
  "tap_count b < 16 \<Longrightarrow> tap_queue (b\<lparr>writeIndex := writeIndex b + 1\<rparr>)
     = tap_queue b @ [block_view (blocks b ! slot (writeIndex b))]"
  using tap_count_publish [of b] write_index_eq [of b] by (simp add: tap_queue_def)

lemma tap_count_0_iff: "tap_count b = 0 \<longleftrightarrow> readIndex b = writeIndex b"
  by (auto simp: tap_count_def unsigned_eq_0_iff)

lemma tap_count_pop:
  assumes "tap_count b \<noteq> 0"
  shows "tap_count (PLANKTapPop b) = tap_count b - 1"
proof -
  have "writeIndex b - (readIndex b + 1) = of_nat (tap_count b - 1)"
    using write_index_eq [of b] assms by simp
  moreover have "unat (of_nat (tap_count b - 1) :: u32) = tap_count b - 1"
    using unat_bound [of "writeIndex b - readIndex b"]
    by (intro unat_of_nat_eq) (simp add: tap_count_def)
  ultimately show ?thesis
    by (simp add: PLANKTapPop_def tap_count_def)
qed

lemma tap_queue_pop:
  assumes "tap_count b \<noteq> 0"
  shows "tap_queue b = block_view (blocks b ! slot (readIndex b)) # tap_queue (PLANKTapPop b)"
proof -
  have "[0..<tap_count b] = 0 # map Suc [0..<tap_count (PLANKTapPop b)]"
    using assms by (simp add: tap_count_pop map_Suc_upt upt_conv_Cons)
  then show ?thesis
    by (simp add: tap_queue_def PLANKTapPop_def algebra_simps)
qed

text \<open>Moving \<open>readIndex\<close> forward to \<open>w\<close> removes the blocks before it.\<close>

lemma tap_count_skip:
  assumes "unat (writeIndex b - w) \<le> tap_count b"
  shows "tap_count (b\<lparr>readIndex := w\<rparr>) = unat (writeIndex b - w)"
    "w = readIndex b + of_nat (tap_count b - unat (writeIndex b - w))"
proof -
  show "tap_count (b\<lparr>readIndex := w\<rparr>) = unat (writeIndex b - w)"
    by (simp add: tap_count_def)
  have "(of_nat (tap_count b - unat (writeIndex b - w)) :: u32)
      = of_nat (unat (writeIndex b - readIndex b)) - of_nat (unat (writeIndex b - w))"
    using assms by (simp only: of_nat_diff tap_count_def)
  then show "w = readIndex b + of_nat (tap_count b - unat (writeIndex b - w))"
    by (simp only: of_nat_unat_id) simp
qed

lemma drop_upt_shift: "d \<le> n \<Longrightarrow> drop d [0..<n] = map (\<lambda>k. k + d) [0..<n - d]"
  by (simp add: map_add_upt)

lemma tap_queue_skip:
  assumes "unat (writeIndex b - w) \<le> tap_count b"
  shows "tap_queue (b\<lparr>readIndex := w\<rparr>)
    = drop (tap_count b - unat (writeIndex b - w)) (tap_queue b)"
proof -
  define d where "d = tap_count b - unat (writeIndex b - w)"
  note w = tap_count_skip [OF assms, folded d_def]
  have n: "tap_count b - d = unat (writeIndex b - w)" "d \<le> tap_count b"
    using assms by (simp_all add: d_def)
  have "w + of_nat k = readIndex b + of_nat (k + d)" for k
    by (subst w(2)) (simp only: of_nat_add ac_simps)
  then show ?thesis
    unfolding tap_queue_def d_def [symmetric] drop_map drop_upt_shift [OF n(2)]
    by (simp add: w(1) n(1) del: of_nat_add)
qed

text \<open>Filling the frames \<open>i..<n\<close> of a slot.\<close>

definition tap_sample ::
  "u32 list \<Rightarrow> u32 list option \<Rightarrow> nat \<Rightarrow> PLANKTapBlock \<Rightarrow> PLANKTapBlock" where
  "tap_sample left right i b =
     b\<lparr>samples := (samples b)[i * 2 := tap_left left right i, i * 2 + 1 := tap_right left right i]\<rparr>"

lemma tap_sample_simps [simp]:
  "frames (tap_sample l r i b) = frames b" "hostTime (tap_sample l r i b) = hostTime b"
  "length (samples (tap_sample l r i b)) = length (samples b)"
  by (simp_all add: tap_sample_def)

lemma tap_interleave_Suc:
  "tap_interleave l r (Suc i) = tap_interleave l r i @ [tap_left l r i, tap_right l r i]"
  by (simp add: tap_interleave_def)

lemma take_tap_sample:
  assumes "take (2 * i) (samples b) = tap_interleave l r i" and "2 * i + 2 \<le> length (samples b)"
  shows "take (2 * Suc i) (samples (tap_sample l r i b)) = tap_interleave l r (Suc i)"
proof -
  have "take (Suc (Suc (2 * i))) (samples (tap_sample l r i b))
      = take (2 * i) (samples b) @ [tap_left l r i, tap_right l r i]"
    using assms(2) by (simp add: tap_sample_def take_Suc_conv_app_nth mult.commute)
  then show ?thesis using assms(1) by (simp add: tap_interleave_Suc)
qed

lemma tap_put_id: "k < length (blocks b) \<Longrightarrow> f (blocks b ! k) = blocks b ! k \<Longrightarrow> tap_put b k f = b"
  by (simp add: tap_put_def list_update_same_conv)

section \<open>The two threads\<close>

record tap_args =
  arg_left :: "u32 list option"
  arg_right :: "u32 list option"
  arg_frames :: u32
  arg_time :: u64

text \<open>
  Where the producer is in \<open>PLANKTapPush\<close>: outside it with the last result, past the check of
  \<^verbatim>\<open>stopped\<close>, past the loads of \<^verbatim>\<open>writeIndex\<close> and \<^verbatim>\<open>readIndex\<close>, or before
  frame \<open>i\<close> of the copy. Where the consumer is: between calls, between \<open>PLANKTapPeek\<close> and
  \<open>PLANKTapPop\<close> with the slot it holds, or in \<open>PLANKTapDiscardOverrun\<close> before and after
  the load of \<^verbatim>\<open>writeIndex\<close>.
\<close>

datatype tap_producer =
  PIdle bool | PStarted tap_args | PLoaded tap_args u32 u32 | PFilling tap_args u32 nat

datatype tap_consumer = CIdle | CHolding nat | CDiscarding | CLoaded u32

record tap_system =
  buf :: PLANKTapBuffer
  prod :: tap_producer
  cons :: tap_consumer

fun producer_next ::
  "tap_producer \<Rightarrow> PLANKTapBuffer \<Rightarrow> tap_producer \<times> PLANKTapBuffer \<times> (tap_args, tap_view) queue_event" where
  "producer_next (PIdle x) b = (PIdle x, b, Silent)"
| "producer_next (PStarted a) b = (PLoaded a (writeIndex b) (readIndex b), b, Silent)"
| "producer_next (PLoaded a w r) b =
     (if arg_left a = None \<or> arg_frames a = 0 \<or> unat (arg_frames a) > PLANKTapMaxFrames \<or> arg_time a = 0
      then (PIdle False, b\<lparr>failed := 1\<rparr>, Silent)
      else if unat (w - r) \<ge> PLANKTapSlots
      then (PIdle False, b\<lparr>overruns := overruns b + 1\<rparr>, Silent)
      else (PFilling a w 0,
            tap_put b (slot w) (\<lambda>k. k\<lparr>frames := arg_frames a, hostTime := arg_time a\<rparr>), Silent))"
| "producer_next (PFilling a w i) b =
     (if i < unat (arg_frames a)
      then let l = tap_left (the (arg_left a)) (arg_right a) i;
               r = tap_right (the (arg_left a)) (arg_right a) i
           in if \<not> isfinite_bits l \<or> \<not> isfinite_bits r
              then (PIdle False, b\<lparr>failed := 1\<rparr>, Silent)
              else (PFilling a w (Suc i),
                    tap_put b (slot w) (tap_sample (the (arg_left a)) (arg_right a) i), Silent)
      else (PIdle True, b\<lparr>writeIndex := w + 1\<rparr>, Published (block_view (blocks b ! slot w))))"

inductive tap_step :: "tap_system \<Rightarrow> (tap_args, tap_view) queue_event \<Rightarrow> tap_system \<Rightarrow> bool" where
  call: "prod s = PIdle x \<Longrightarrow>
    tap_step s (Called a) (s\<lparr>prod := (if stopped (buf s) then PIdle False else PStarted a)\<rparr>)"
| produce: "producer_next (prod s) (buf s) = (p, b, e) \<Longrightarrow> tap_step s e (s\<lparr>buf := b, prod := p\<rparr>)"
| peek: "cons s = CIdle \<Longrightarrow> PLANKTapPeek (buf s) = Some k \<Longrightarrow>
    tap_step s Silent (s\<lparr>cons := CHolding k\<rparr>)"
| look: "cons s = CHolding k \<Longrightarrow> tap_step s (Saw (block_view (blocks (buf s) ! k))) s"
| pop: "cons s = CHolding k \<Longrightarrow>
    tap_step s (Taken (block_view (blocks (buf s) ! k)))
      (s\<lparr>buf := PLANKTapPop (buf s), cons := CIdle\<rparr>)"
| exchange: "cons s = CIdle \<Longrightarrow>
    tap_step s Silent (s\<lparr>buf := (buf s)\<lparr>overruns := 0\<rparr>,
      cons := (if overruns (buf s) \<noteq> 0 then CDiscarding else CIdle)\<rparr>)"
| load: "cons s = CDiscarding \<Longrightarrow> tap_step s Silent (s\<lparr>cons := CLoaded (writeIndex (buf s))\<rparr>)"
| skip: "cons s = CLoaded w \<Longrightarrow>
    tap_step s (Dropped (take (tap_count (buf s) - unat (writeIndex (buf s) - w)) (tap_queue (buf s))))
      (s\<lparr>buf := (buf s)\<lparr>readIndex := w\<rparr>, cons := CIdle\<rparr>)"
| stop: "tap_step s Silent (s\<lparr>buf := (buf s)\<lparr>stopped := True\<rparr>\<rparr>)"

section \<open>Invariant of the two threads\<close>

definition producer_ok :: "PLANKTapBuffer \<Rightarrow> tap_producer \<Rightarrow> bool" where
  "producer_ok b p =
     (case p of
        PIdle _ \<Rightarrow> True
      | PStarted _ \<Rightarrow> True
      | PLoaded a w r \<Rightarrow> w = writeIndex b \<and> tap_count b \<le> unat (w - r)
      | PFilling a w i \<Rightarrow>
          w = writeIndex b \<and> tap_count b < PLANKTapSlots \<and> arg_left a \<noteq> None \<and>
          0 < unat (arg_frames a) \<and> unat (arg_frames a) \<le> PLANKTapMaxFrames \<and> arg_time a \<noteq> 0 \<and>
          i \<le> unat (arg_frames a) \<and>
          frames (blocks b ! slot w) = arg_frames a \<and> hostTime (blocks b ! slot w) = arg_time a \<and>
          take (2 * i) (samples (blocks b ! slot w)) = tap_interleave (the (arg_left a)) (arg_right a) i \<and>
          list_all isfinite_bits (tap_interleave (the (arg_left a)) (arg_right a) i))"

definition consumer_ok :: "PLANKTapBuffer \<Rightarrow> tap_consumer \<Rightarrow> bool" where
  "consumer_ok b c =
     (case c of
        CIdle \<Rightarrow> True
      | CHolding k \<Rightarrow> tap_count b \<noteq> 0 \<and> k = slot (readIndex b)
      | CDiscarding \<Rightarrow> True
      | CLoaded w \<Rightarrow> unat (writeIndex b - w) \<le> tap_count b)"

definition tap_inv :: "tap_system \<Rightarrow> bool" where
  "tap_inv s \<longleftrightarrow> tap_wf (buf s) \<and> producer_ok (buf s) (prod s) \<and> consumer_ok (buf s) (cons s)"

lemma tap_wf_put:
  assumes "tap_wf b" and "\<And>x. length (samples (f x)) = length (samples x)" and "k < PLANKTapSlots"
  shows "tap_wf (tap_put b k f)"
  using assms by (auto simp: tap_wf_def tap_put_def tap_count_def list_all_length nth_list_update)

lemma tap_wf_samples: "tap_wf b \<Longrightarrow> length (samples (blocks b ! slot i)) = PLANKTapMaxFrames * 2"
  by (auto simp: tap_wf_def list_all_length)

lemma tap_wf_update [simp]:
  "tap_wf (b\<lparr>failed := x\<rparr>) = tap_wf b" "tap_wf (b\<lparr>overruns := y\<rparr>) = tap_wf b"
  "tap_wf (b\<lparr>stopped := z\<rparr>) = tap_wf b"
  by (simp_all add: tap_wf_def tap_count_def)

lemma consumer_ok_cong:
  "readIndex b' = readIndex b \<Longrightarrow> writeIndex b' = writeIndex b \<Longrightarrow> consumer_ok b' c = consumer_ok b c"
  by (cases c) (simp_all add: consumer_ok_def tap_count_def)

lemma consumer_ok_publish:
  assumes "consumer_ok b c" and "tap_count b < 16"
  shows "consumer_ok (b\<lparr>writeIndex := writeIndex b + 1\<rparr>) c"
proof (cases c)
  case (CLoaded w)
  then have le: "unat (writeIndex b - w) \<le> tap_count b" using assms by (simp add: consumer_ok_def)
  have "unat (writeIndex b - w + 1) = Suc (unat (writeIndex b - w))"
    using le assms(2) by (simp add: unat_word_ariths)
  then show ?thesis
    using CLoaded le tap_count_publish [OF assms(2)] by (simp add: consumer_ok_def algebra_simps)
qed (use assms tap_count_publish [OF assms(2)] in \<open>simp_all add: consumer_ok_def\<close>)

lemmas producer_ok_simps [simp] = producer_ok_def [of _ "PIdle _", simplified]
  producer_ok_def [of _ "PStarted _", simplified]

lemma producer_idle:
  assumes "tap_wf b" "consumer_ok b c"
  shows "tap_wf (b\<lparr>failed := x\<rparr>) \<and> consumer_ok (b\<lparr>failed := x\<rparr>) c"
    "tap_wf (b\<lparr>overruns := y\<rparr>) \<and> consumer_ok (b\<lparr>overruns := y\<rparr>) c"
  using assms consumer_ok_cong [of "b\<lparr>failed := x\<rparr>" b c] consumer_ok_cong [of "b\<lparr>overruns := y\<rparr>" b c]
  by simp_all

definition producer_step_ok ::
  "PLANKTapBuffer \<Rightarrow> tap_consumer \<Rightarrow> tap_producer \<times> PLANKTapBuffer \<times> (tap_args, tap_view) queue_event \<Rightarrow> bool" where
  "producer_step_ok b c = (\<lambda>(p', b', e). tap_wf b' \<and> producer_ok b' p' \<and> consumer_ok b' c \<and>
     queue_step PLANKTapSlots (tap_queue b) e (tap_queue b'))"

lemma producer_loaded_ok:
  assumes wf: "tap_wf b" and "producer_ok b (PLoaded a w r)" and c: "consumer_ok b c"
  shows "producer_step_ok b c (producer_next (PLoaded a w r) b)"
proof -
  have w: "w = writeIndex b" "tap_count b \<le> unat (w - r)"
    using assms(2) by (auto simp: producer_ok_def)
  have len: "slot i < length (blocks b)" for i
    using wf by (simp add: tap_wf_def)
  let ?f = "\<lambda>k. k\<lparr>frames := arg_frames a, hostTime := arg_time a\<rparr>"
  show ?thesis
  proof (cases "arg_left a = None \<or> arg_frames a = 0 \<or> unat (arg_frames a) > PLANKTapMaxFrames \<or>
      arg_time a = 0 \<or> unat (w - r) \<ge> PLANKTapSlots")
    case True
    then show ?thesis
      using producer_idle [OF wf c] by (auto simp: producer_step_ok_def intro: queue_step.silent)
  next
    case False
    then have full: "tap_count b < 16" and a: "arg_left a \<noteq> None" "0 < unat (arg_frames a)"
        "unat (arg_frames a) \<le> PLANKTapMaxFrames" "arg_time a \<noteq> 0"
      using w by (auto simp: tap_size_defs unat_gt_0)
    have "tap_wf (tap_put b (slot w) ?f)"
      by (rule tap_wf_put [OF wf]) simp_all
    moreover have "producer_ok (tap_put b (slot w) ?f) (PFilling a w 0)"
      using a w full len by (simp add: producer_ok_def tap_interleave_def tap_size_defs)
    moreover have "consumer_ok (tap_put b (slot w) ?f) c"
      using c consumer_ok_cong [of "tap_put b (slot w) ?f" b c] by simp
    ultimately show ?thesis
      using False tap_queue_put [OF full, of ?f] w
      by (auto simp add: producer_step_ok_def queue_step.silent)
  qed
qed

lemma producer_filling_ok:
  assumes wf: "tap_wf b" and p: "producer_ok b (PFilling a w i)" and c: "consumer_ok b c"
  shows "producer_step_ok b c (producer_next (PFilling a w i) b)"
proof -
  let ?l = "the (arg_left a)" and ?r = "arg_right a"
  let ?f = "tap_sample ?l ?r i" and ?k = "slot w"
  have w: "w = writeIndex b" and room: "tap_count b < 16"
    and n: "i \<le> unat (arg_frames a)" "unat (arg_frames a) \<le> PLANKTapMaxFrames"
    using p by (auto simp: producer_ok_def tap_size_defs)
  have len: "?k < length (blocks b)" using wf by (simp add: tap_wf_def)
  consider (more) "i < unat (arg_frames a)" "isfinite_bits (tap_left ?l ?r i)"
      "isfinite_bits (tap_right ?l ?r i)"
    | (bad) "i < unat (arg_frames a)"
      "\<not> (isfinite_bits (tap_left ?l ?r i) \<and> isfinite_bits (tap_right ?l ?r i))"
    | (full) "i = unat (arg_frames a)"
    using n by fastforce
  then show ?thesis
  proof cases
    case more
    have "tap_wf (tap_put b ?k ?f)" by (rule tap_wf_put [OF wf]) simp_all
    moreover have "producer_ok (tap_put b ?k ?f) (PFilling a w (Suc i))"
      using p more n len tap_wf_samples [OF wf, of w] take_tap_sample [of i "blocks b ! ?k" ?l ?r]
      by (auto simp: producer_ok_def tap_interleave_Suc tap_size_defs)
    moreover have "consumer_ok (tap_put b ?k ?f) c"
      using c consumer_ok_cong [of "tap_put b ?k ?f" b c] by simp
    ultimately show ?thesis
      using more tap_queue_put [OF room, of ?f] w
      by (simp add: producer_step_ok_def queue_step.silent)
  next
    case bad
    then show ?thesis
      using producer_idle [OF wf c] by (auto simp: producer_step_ok_def intro: queue_step.silent)
  next
    case full
    have "tap_wf (b\<lparr>writeIndex := w + 1\<rparr>)"
      using wf room w tap_count_publish [of b] by (simp add: tap_wf_def tap_size_defs)
    then show ?thesis
      using full room w consumer_ok_publish [OF c room] tap_queue_publish [OF room]
        queue_step.published [of "tap_queue b" PLANKTapSlots]
      by (simp add: producer_step_ok_def tap_size_defs)
  qed
qed

lemma producer_next_ok:
  assumes "tap_wf b" and "producer_ok b p" and "consumer_ok b c"
  shows "producer_step_ok b c (producer_next p b)"
proof (cases p)
  case (PStarted a)
  then show ?thesis
    using assms by (simp add: producer_step_ok_def producer_ok_def tap_count_def queue_step.silent)
qed (use assms producer_loaded_ok producer_filling_ok
    in \<open>auto simp del: producer_next.simps(3,4) simp: producer_step_ok_def intro: queue_step.silent\<close>)

text \<open>Moving \<^verbatim>\<open>readIndex\<close> forward keeps what the producer relies on.\<close>

lemma producer_ok_read:
  assumes "producer_ok b p" and "tap_count (b\<lparr>readIndex := i\<rparr>) \<le> tap_count b"
  shows "producer_ok (b\<lparr>readIndex := i\<rparr>) p"
  using assms by (cases p) (auto simp: producer_ok_def)

lemma tap_wf_read:
  "tap_wf b \<Longrightarrow> tap_count (b\<lparr>readIndex := i\<rparr>) \<le> tap_count b \<Longrightarrow> tap_wf (b\<lparr>readIndex := i\<rparr>)"
  by (simp add: tap_wf_def)

lemma producer_ok_flags:
  "producer_ok (b\<lparr>overruns := x\<rparr>) p = producer_ok b p" "producer_ok (b\<lparr>stopped := y\<rparr>) p = producer_ok b p"
  by (cases p; simp add: producer_ok_def tap_count_def)+

lemma consumer_ok_flags:
  "consumer_ok (b\<lparr>overruns := x\<rparr>) c = consumer_ok b c" "consumer_ok (b\<lparr>stopped := y\<rparr>) c = consumer_ok b c"
  by (cases c; simp add: consumer_ok_def tap_count_def)+

lemma consumer_ok_simps [simp]:
  "consumer_ok b CIdle" "consumer_ok b CDiscarding" "consumer_ok b (CLoaded (writeIndex b))"
  by (simp_all add: consumer_ok_def)

lemma tap_step_ok:
  assumes "tap_step s e s'" and "tap_inv s"
  shows "tap_inv s' \<and> queue_step PLANKTapSlots (tap_queue (buf s)) e (tap_queue (buf s'))"
  using assms
proof (induction rule: tap_step.induct)
  case (produce s p b e)
  then show ?case
    using producer_next_ok [of "buf s" "prod s" "cons s"] by (simp add: tap_inv_def producer_step_ok_def)
next
  case (peek s k)
  then show ?case
    by (auto simp: tap_inv_def consumer_ok_def PLANKTapPeek_def Let_def tap_count_0_iff
        intro: queue_step.silent split: if_splits)
next
  case (look s k)
  then have "k = slot (readIndex (buf s))" "tap_count (buf s) \<noteq> 0"
    by (simp_all add: tap_inv_def consumer_ok_def)
  with look tap_queue_pop [of "buf s"] show ?case
    by (simp add: queue_step.saw)
next
  case (pop s k)
  let ?b = "buf s"
  have k: "k = slot (readIndex ?b)" "tap_count ?b \<noteq> 0"
    using pop by (simp_all add: tap_inv_def consumer_ok_def)
  have le: "tap_count (?b\<lparr>readIndex := readIndex ?b + 1\<rparr>) \<le> tap_count ?b"
    using tap_count_pop [OF k(2)] by (simp add: PLANKTapPop_def)
  show ?case
    using pop k tap_queue_pop [OF k(2)] producer_ok_read [OF _ le, of "prod s"] tap_wf_read [OF _ le]
    by (simp add: tap_inv_def PLANKTapPop_def consumer_ok_def queue_step.taken)
next
  case (skip s w)
  let ?b = "buf s" and ?d = "tap_count (buf s) - unat (writeIndex (buf s) - w)"
  have le: "unat (writeIndex ?b - w) \<le> tap_count ?b"
    using skip by (simp add: tap_inv_def consumer_ok_def)
  then have le': "tap_count (?b\<lparr>readIndex := w\<rparr>) \<le> tap_count ?b"
    using tap_count_skip(1) by simp
  have "queue_step PLANKTapSlots (take ?d (tap_queue ?b) @ drop ?d (tap_queue ?b))
      (Dropped (take ?d (tap_queue ?b))) (drop ?d (tap_queue ?b))"
    by (rule queue_step.dropped)
  then show ?case
    using skip producer_ok_read [OF _ le', of "prod s"] tap_wf_read [OF _ le'] tap_queue_skip [OF le]
    by (simp add: tap_inv_def consumer_ok_def)
qed (auto simp: tap_inv_def producer_ok_flags consumer_ok_flags
    intro: queue_step.silent queue_step.called)

text \<open>The storage behind a buffer pointer: 16 blocks of 16384 samples.\<close>

definition tap_storage :: "PLANKTapBuffer \<Rightarrow> bool" where
  "tap_storage b \<longleftrightarrow> length (blocks b) = PLANKTapSlots \<and>
     list_all (\<lambda>k. length (samples k) = PLANKTapMaxFrames * 2) (blocks b)"

definition tap_start :: "PLANKTapBuffer \<Rightarrow> tap_system" where
  "tap_start b = \<lparr>buf = PLANKTapBufferInit b, prod = PIdle True, cons = CIdle\<rparr>"

lemma tap_start_inv:
  assumes "tap_storage b"
  shows "tap_inv (tap_start b)" and "tap_queue (buf (tap_start b)) = []"
  using assms by (simp_all add: tap_storage_def tap_inv_def tap_start_def PLANKTapBufferInit_def tap_wf_def
      consumer_ok_def tap_count_def tap_queue_def)

interpretation tap_ring: bounded_queue PLANKTapSlots tap_step tap_inv "\<lambda>s. tap_queue (buf s)"
  by unfold_locales (use tap_step_ok in blast)+

section \<open>The steps of one call\<close>

fun producer_args :: "tap_producer \<Rightarrow> tap_args option" where
  "producer_args (PIdle _) = None"
| "producer_args (PStarted a) = Some a"
| "producer_args (PLoaded a _ _) = Some a"
| "producer_args (PFilling a _ _) = Some a"

lemma producer_next_args:
  "producer_next p b = (p', b', e) \<Longrightarrow>
     calls [e] = [] \<and> (producer_args p' = producer_args p \<or> producer_args p' = None)"
  by (cases p) (auto simp: Let_def split: if_splits)

lemma run_args:
  assumes "trace_run tap_step (tap_start b) t s"
  shows "producer_args (prod s) = None \<or> calls t \<noteq> [] \<and> producer_args (prod s) = Some (last (calls t))"
  using assms
proof (induction rule: trace_run.induct)
  case start
  then show ?case by (simp add: tap_start_def)
next
  case (snoc t s e s')
  from snoc.hyps(2) snoc.IH show ?case
  proof (cases rule: tap_step.cases)
    case (produce p b)
    with snoc.IH producer_next_args [of "prod s" "buf s" p b e] show ?thesis by auto
  qed auto
qed

fun producer_loop :: "nat \<Rightarrow> tap_producer \<Rightarrow> PLANKTapBuffer \<Rightarrow> tap_producer \<times> PLANKTapBuffer" where
  "producer_loop 0 p b = (p, b)"
| "producer_loop (Suc n) p b = (let (p', b', _) = producer_next p b in producer_loop n p' b')"

lemma producer_loop_idle [simp]: "producer_loop n (PIdle x) b = (PIdle x, b)"
  by (induction n) auto

lemma tap_fill_step:
  "tap_put b k (\<lambda>x. x\<lparr>samples := (samples x)[i * 2 := tap_left l r i, i * 2 + 1 := tap_right l r i]\<rparr>)
   = tap_put b k (tap_sample l r i)"
  by (simp add: tap_put_def tap_sample_def)

lemma producer_loop_fill:
  assumes "i \<le> unat (arg_frames a)" and "unat (arg_frames a) - i < n"
  shows "producer_loop n (PFilling a w i) b =
    (case tap_fill b (slot w) (the (arg_left a)) (arg_right a) [i..<unat (arg_frames a)] of
       (ok, b') \<Rightarrow> (PIdle ok, if ok then b'\<lparr>writeIndex := w + 1\<rparr> else b'))"
  using assms
proof (induction n arbitrary: i b)
  case 0
  then show ?case by simp
next
  case (Suc n)
  show ?case
  proof (cases "i < unat (arg_frames a)")
    case True
    then show ?thesis
      using Suc.IH [of "Suc i"] Suc.prems
      by (simp add: upt_conv_Cons Let_def tap_fill_step [simplified])
  next
    case False
    then show ?thesis using Suc.prems by simp
  qed
qed

section \<open>Properties\<close>

text \<open>
  C2. In every interleaving of the producer and the consumer on a fresh ring, the blocks the producer
  published are exactly the blocks the consumer took or dropped, in that order, followed by the
  blocks still in the ring; what the consumer took is a subsequence of what was published, and the
  ring never holds more than \<open>PLANKTapSlots\<close> blocks. The 32-bit indices wrap around.
\<close>

theorem tap_ring_fifo:
  assumes "tap_storage b" and "trace_run tap_step (tap_start b) t s"
  shows "added t = removed t @ tap_queue (buf s) \<and> subseq (taken_views t) (added t) \<and>
    length (tap_queue (buf s)) \<le> PLANKTapSlots"
proof -
  note start = tap_start_inv [OF assms(1)]
  have "tap_inv s" using tap_ring.run_inv [OF assms(2) start(1)] .
  then show ?thesis
    using tap_ring.run_fifo [OF assms(2) start] tap_ring.run_taken [OF assms(2) start]
    by (simp add: tap_inv_def tap_wf_def)
qed

text \<open>
  C26. Whatever the producer does meanwhile, each time the consumer looks at the block it holds it
  sees the oldest published block it has not yet consumed: a block being read is never overwritten.
\<close>

theorem tap_held_block_stable:
  assumes "tap_storage b" and "trace_run tap_step (tap_start b) (t1 @ Saw v # t2) s"
  shows "\<exists>rest. added t1 = removed t1 @ v # rest"
proof -
  note start = tap_start_inv [OF assms(1)]
  show ?thesis using tap_ring.run_saw [OF assms(2) start] .
qed

text \<open>
  A published block is the one the producer's current call was given: its frame count, its host
  time and its samples interleaved left and right. The count is between 1 and
  \<open>PLANKTapMaxFrames\<close>, the host time is not zero, and every sample is finite.
\<close>

theorem tap_published_block:
  assumes "tap_storage b" and "trace_run tap_step (tap_start b) (t1 @ Published v # t2) s"
  shows "\<exists>a left. calls t1 \<noteq> [] \<and> a = last (calls t1) \<and> arg_left a = Some left \<and>
    v = (arg_frames a, arg_time a, tap_interleave left (arg_right a) (unat (arg_frames a))) \<and>
    0 < unat (arg_frames a) \<and> unat (arg_frames a) \<le> PLANKTapMaxFrames \<and> arg_time a \<noteq> 0 \<and>
    list_all isfinite_bits (tap_interleave left (arg_right a) (unat (arg_frames a)))"
proof -
  note start = tap_start_inv [OF assms(1)]
  obtain s1 s2 where r: "trace_run tap_step (tap_start b) t1 s1" and st: "tap_step s1 (Published v) s2"
    using trace_run_prefix [OF assms(2) refl] by blast
  obtain p c where "producer_next (prod s1) (buf s1) = (p, c, Published v)"
    using st by (cases rule: tap_step.cases) auto
  then obtain a w where f: "prod s1 = PFilling a w (unat (arg_frames a))" "v = block_view (blocks (buf s1) ! slot w)"
    using tap_ring.run_inv [OF r start(1)]
    by (cases "prod s1") (auto simp: Let_def tap_inv_def producer_ok_def split: if_splits)
  have "producer_ok (buf s1) (PFilling a w (unat (arg_frames a)))"
    using tap_ring.run_inv [OF r start(1)] f(1) by (simp add: tap_inv_def)
  then show ?thesis
    using f run_args [OF r] by (auto simp: producer_ok_def block_view_def)
qed

text \<open>
  With nobody else running, the steps of the producer are \<open>PLANKTapPush\<close>: after the call,
  \<open>frames + 3\<close> steps reach its end with the same result and the same buffer.
\<close>

theorem tap_push_steps:
  "producer_loop (unat (arg_frames a) + 3) (if stopped b then PIdle False else PStarted a) b =
    (case PLANKTapPush b (arg_left a) (arg_right a) (arg_frames a) (arg_time a) of (ok, b') \<Rightarrow> (PIdle ok, b'))"
proof -
  have n: "unat (arg_frames a) + 3 = Suc (Suc (Suc (unat (arg_frames a))))" by simp
  have started: "producer_loop (Suc n) (PStarted a) b
      = producer_loop n (PLoaded a (writeIndex b) (readIndex b)) b" for n by simp
  have loaded: "producer_loop (Suc n) (PLoaded a w r) b =
      (if arg_left a = None \<or> arg_frames a = 0 \<or> unat (arg_frames a) > PLANKTapMaxFrames \<or> arg_time a = 0
       then (PIdle False, b\<lparr>failed := 1\<rparr>)
       else if unat (w - r) \<ge> PLANKTapSlots then (PIdle False, b\<lparr>overruns := overruns b + 1\<rparr>)
       else producer_loop n (PFilling a w 0)
              (tap_put b (slot w) (\<lambda>k. k\<lparr>frames := arg_frames a, hostTime := arg_time a\<rparr>)))" for n w r
    by (simp del: producer_next.simps(4))
  show ?thesis
    unfolding PLANKTapPush_def n
    by (simp add: Let_def started loaded producer_loop_fill del: producer_loop.simps
        split: prod.splits)
qed

subsection \<open>Examples\<close>

definition example_buffer :: PLANKTapBuffer where
  "example_buffer = \<lparr>readIndex = 0, writeIndex = 0, failed = 0, overruns = 0, stopped = False,
     blocks = replicate PLANKTapSlots
       \<lparr>frames = 0, hostTime = 0, samples = replicate (PLANKTapMaxFrames * 2) 0\<rparr>\<rparr>"

definition example_call :: tap_args where
  "example_call = \<lparr>arg_left = Some [0x3f800000, 0xbf800000], arg_right = None, arg_frames = 1, arg_time = 42\<rparr>"

definition example_view :: tap_view where
  "example_view = (1, 42, [0x3f800000, 0xbf800000])"

definition example_filled :: "nat \<Rightarrow> PLANKTapBuffer" where
  "example_filled n =
     (let b = tap_put (PLANKTapBufferInit example_buffer) 0 (\<lambda>k. k\<lparr>frames := 1, hostTime := 42\<rparr>)
      in if n = 0 then b else tap_put b 0 (tap_sample [0x3f800000, 0xbf800000] None 0))"

lemma example_storage: "tap_storage example_buffer"
  by (simp add: tap_storage_def example_buffer_def list_all_length)

lemma example_filled_simps:
  "readIndex (example_filled n) = 0" "writeIndex (example_filled n) = 0"
  "length (blocks (example_filled n)) = 16"
  by (simp_all add: example_filled_def example_buffer_def Let_def PLANKTapBufferInit_def PLANKTapSlots_def)

lemma slot_0 [simp]: "slot 0 = 0" by (simp add: slot_def)

lemma example_filled_view: "block_view (blocks (example_filled 1) ! 0) = example_view"
  by (simp add: example_filled_def Let_def PLANKTapBufferInit_def example_buffer_def tap_put_def
      block_view_def tap_sample_def example_view_def tap_left_def tap_right_def tap_size_defs numeral_2_eq_2 take_Suc_conv_app_nth)

lemma tap_example_run:
  "trace_run tap_step (tap_start example_buffer)
     [Called example_call, Silent, Silent, Silent, Published example_view, Silent, Saw example_view]
     \<lparr>buf = (example_filled 1)\<lparr>writeIndex := 1\<rparr>, prod = PIdle True, cons = CHolding 0\<rparr>"
proof -
  let ?b = "PLANKTapBufferInit example_buffer"
  let ?s = "\<lambda>b p c. \<lparr>buf = b, prod = p, cons = c\<rparr>"
  have 0: "trace_run tap_step (tap_start example_buffer) [] (?s ?b (PIdle True) CIdle)"
    using trace_run.start [of tap_step "tap_start example_buffer"] by (simp add: tap_start_def)
  have 1: "tap_step (?s ?b (PIdle True) CIdle) (Called example_call) (?s ?b (PStarted example_call) CIdle)"
    using tap_step.call [of "?s ?b (PIdle True) CIdle" True example_call] by (simp add: PLANKTapBufferInit_def)
  have 2: "tap_step (?s ?b (PStarted example_call) CIdle) Silent (?s ?b (PLoaded example_call 0 0) CIdle)"
    using tap_step.produce [of "?s ?b (PStarted example_call) CIdle"] by (simp add: PLANKTapBufferInit_def)
  have 3: "tap_step (?s ?b (PLoaded example_call 0 0) CIdle) Silent
      (?s (example_filled 0) (PFilling example_call 0 0) CIdle)"
    using tap_step.produce [of "?s ?b (PLoaded example_call 0 0) CIdle"]
    by (simp add: example_call_def tap_size_defs example_filled_def Let_def)
  have 4: "tap_step (?s (example_filled 0) (PFilling example_call 0 0) CIdle) Silent
      (?s (example_filled 1) (PFilling example_call 0 1) CIdle)"
    using tap_step.produce [of "?s (example_filled 0) (PFilling example_call 0 0) CIdle"]
    by (simp add: example_call_def example_filled_def Let_def tap_left_def tap_right_def isfinite_bits_def)
  have 5: "tap_step (?s (example_filled 1) (PFilling example_call 0 1) CIdle) (Published example_view)
      (?s ((example_filled 1)\<lparr>writeIndex := 1\<rparr>) (PIdle True) CIdle)"
    using tap_step.produce [of "?s (example_filled 1) (PFilling example_call 0 1) CIdle"] example_filled_view
    by (simp add: example_call_def)
  have 6: "tap_step (?s ((example_filled 1)\<lparr>writeIndex := 1\<rparr>) (PIdle True) CIdle) Silent
      (?s ((example_filled 1)\<lparr>writeIndex := 1\<rparr>) (PIdle True) (CHolding 0))"
    using tap_step.peek [of "?s ((example_filled 1)\<lparr>writeIndex := 1\<rparr>) (PIdle True) CIdle" 0]
    by (simp add: PLANKTapPeek_def example_filled_simps)
  have 7: "tap_step (?s ((example_filled 1)\<lparr>writeIndex := 1\<rparr>) (PIdle True) (CHolding 0)) (Saw example_view)
      (?s ((example_filled 1)\<lparr>writeIndex := 1\<rparr>) (PIdle True) (CHolding 0))"
    using tap_step.look [of "?s ((example_filled 1)\<lparr>writeIndex := 1\<rparr>) (PIdle True) (CHolding 0)" 0]
      example_filled_view by simp
  show ?thesis
    using trace_run.snoc [OF trace_run.snoc [OF trace_run.snoc [OF trace_run.snoc [OF trace_run.snoc
      [OF trace_run.snoc [OF trace_run.snoc [OF 0 1] 2] 3] 4] 5] 6] 7] by simp
qed

theorem tap_ring_fifo_witness:
  "[example_view] = tap_queue ((example_filled 1)\<lparr>writeIndex := 1\<rparr>)"
  using tap_ring_fifo [OF example_storage tap_example_run] by simp

theorem tap_held_block_stable_witness:
  "\<exists>rest. [example_view] = example_view # rest"
  using tap_held_block_stable [of example_buffer
      "[Called example_call, Silent, Silent, Silent, Published example_view, Silent]" example_view "[]"]
    example_storage tap_example_run by auto

theorem tap_published_block_witness:
  "example_view = (arg_frames example_call, arg_time example_call,
     tap_interleave [0x3f800000, 0xbf800000] None 1)"
proof -
  have "trace_run tap_step (tap_start example_buffer)
     ([Called example_call, Silent, Silent, Silent] @ Published example_view # [Silent, Saw example_view])
     \<lparr>buf = (example_filled 1)\<lparr>writeIndex := 1\<rparr>, prod = PIdle True, cons = CHolding 0\<rparr>"
    using tap_example_run by simp
  from tap_published_block [OF example_storage this] show ?thesis
    by (auto simp: example_call_def)
qed

end
