(* ===== verification/Host_Media.thy ===== *)
theory Host_Media
  imports Complex_Main Plank_Prelude
begin

text \<open>
  Small policies of the macOS host: \<^verbatim>\<open>media/audio-output-volume.h\<close>,
  \<^verbatim>\<open>media/audio-tap-policy.h\<close>, \<^verbatim>\<open>media/audio-tap-system-alerts.h\<close>,
  \<^verbatim>\<open>media/frame-timing.h\<close> and \<^verbatim>\<open>session/permission-status.h\<close>. A \<^verbatim>\<open>Float32\<close> is
  its bit pattern; \<open>f32_value\<close> is the number a finite pattern denotes. The answers of CoreAudio and
  of the security framework are records of functions.
\<close>

section \<open>Single-precision patterns\<close>

definition f32_finite :: "u32 \<Rightarrow> bool" where
  "f32_finite f \<longleftrightarrow> drop_bit 23 f AND 0xff \<noteq> 0xff"

definition f32_value :: "u32 \<Rightarrow> rat" where
  "f32_value f =
     (let e = unat (drop_bit 23 f AND 0xff); m = unat (f AND 0x7fffff);
          a = (if e = 0 then of_nat m / 2 ^ 149 else of_nat (2 ^ 23 + m) * 2 ^ e / 2 ^ 150)
      in if bit f 31 then - a else a)"

section \<open>Output gains (audio-output-volume.h)\<close>

datatype AudioObjectPropertySelector =
    kAudioDevicePropertyVolumeScalar | kAudioDevicePropertyMute
  | kAudioDevicePropertyPreferredChannelsForStereo

text \<open>
  For a device: whether it has a property on an element, and what reading it does: whether the
  status is \<^verbatim>\<open>noErr\<close>, the returned size in bytes, and the 32-bit words now behind the pointer.
\<close>

record audio_hal =
  AudioObjectHasProperty :: "u32 \<Rightarrow> AudioObjectPropertySelector \<Rightarrow> u32 \<Rightarrow> bool"
  AudioObjectGetPropertyData :: "u32 \<Rightarrow> AudioObjectPropertySelector \<Rightarrow> u32 \<Rightarrow> bool \<times> u32 \<times> u32 list"

definition kAudioObjectPropertyElementMain :: u32 where
  "kAudioObjectPropertyElementMain = 0"

text \<open>The result, \<^verbatim>\<open>*present\<close> and the words behind \<^verbatim>\<open>value\<close>.\<close>

definition PLANKOutputValue ::
  "audio_hal \<Rightarrow> u32 \<Rightarrow> AudioObjectPropertySelector \<Rightarrow> u32 \<Rightarrow> u32 list \<Rightarrow> u32 \<Rightarrow> bool \<times> bool \<times> u32 list" where
  "PLANKOutputValue hal device selector channel value byte_count =
     (if \<not> AudioObjectHasProperty hal device selector channel then (True, False, value)
      else case AudioObjectGetPropertyData hal device selector channel of
        (no_error, actual, written) \<Rightarrow> (no_error \<and> actual = byte_count, True, written))"

text \<open>One round of the loop over the two channels: the gain of a channel, \<open>None\<close> for
  \<^verbatim>\<open>return NO\<close>.\<close>

definition output_channel_gain :: "audio_hal \<Rightarrow> u32 \<Rightarrow> u32 \<Rightarrow> bool \<Rightarrow> u32 \<Rightarrow> u32 \<Rightarrow> u32 option" where
  "output_channel_gain hal device master hasMaster mute channel =
     (let (ok_volume, _, volume) =
            (if hasMaster then (True, False, [master])
             else PLANKOutputValue hal device kAudioDevicePropertyVolumeScalar channel [master] 4)
      in if \<not> ok_volume then None
         else
           let (ok_mute, _, channelMute) =
                 PLANKOutputValue hal device kAudioDevicePropertyMute channel [0] 4
           in if \<not> ok_mute \<or> \<not> f32_finite (volume ! 0) \<or> f32_value (volume ! 0) < 0 \<or>
                 f32_value (volume ! 0) > 1
              then None
              else Some (if mute \<noteq> 0 \<or> channelMute ! 0 \<noteq> 0 then 0 else volume ! 0))"

definition PLANKOutputGains :: "audio_hal \<Rightarrow> u32 \<Rightarrow> bool \<times> u32 \<times> u32" where
  "PLANKOutputGains hal device =
     (if device = 0 then (False, 0, 0)
      else
        let (ok_master, hasMaster, master) = PLANKOutputValue hal device
              kAudioDevicePropertyVolumeScalar kAudioObjectPropertyElementMain [0x3f800000] 4
        in if \<not> ok_master \<or> \<not> f32_finite (master ! 0) \<or> f32_value (master ! 0) < 0 \<or>
              f32_value (master ! 0) > 1
           then (False, 0, 0)
           else
             let (ok_mute, _, mute) = PLANKOutputValue hal device kAudioDevicePropertyMute
                   kAudioObjectPropertyElementMain [0] 4
             in if \<not> ok_mute then (False, 0, 0)
                else
                  let (ok_channels, _, channels) = PLANKOutputValue hal device
                        kAudioDevicePropertyPreferredChannelsForStereo
                        kAudioObjectPropertyElementMain [1, 2] 8
                  in if \<not> ok_channels then (False, 0, 0)
                     else case output_channel_gain hal device (master ! 0) hasMaster (mute ! 0)
                                 (channels ! 0) of
                       None \<Rightarrow> (False, 0, 0)
                     | Some left \<Rightarrow>
                         (case output_channel_gain hal device (master ! 0) hasMaster (mute ! 0)
                                 (channels ! 1) of
                            None \<Rightarrow> (False, 0, 0)
                          | Some right \<Rightarrow> (True, left, right)))"

section \<open>Which processes are tapped (audio-tap-policy.h, audio-tap-system-alerts.h)\<close>

definition PLANKTapProcessOwned :: "u32 \<Rightarrow> int \<Rightarrow> int \<Rightarrow> u32 \<Rightarrow> u32 \<Rightarrow> bool" where
  "PLANKTapProcessOwned owner caller candidate effective real_uid \<longleftrightarrow>
     owner \<noteq> 0 \<and> candidate > 0 \<and> candidate \<noteq> caller \<and> effective = owner \<and> real_uid = owner"

text \<open>
  The process and the security framework: the three ids, the owner of \<^verbatim>\<open>/dev/console\<close>
  (\<open>None\<close> when \<^verbatim>\<open>stat\<close> fails), whether the two CoreFoundation objects are created, the compiled
  requirement, the running code of a process id and the strict validation.
\<close>

record ('code, 'req) tap_os =
  os_getuid :: u32
  os_geteuid :: u32
  os_getpid :: int
  os_console_owner :: "u32 option"
  CFNumberCreate :: bool
  CFDictionaryCreate :: bool
  SecRequirementCreateWithString :: "string \<Rightarrow> 'req option"
  SecCodeCopyGuestWithAttributes :: "int \<Rightarrow> 'code option"
  SecCodeCheckValidity :: "'code \<Rightarrow> 'req \<Rightarrow> bool"

definition system_alert_requirement :: string where
  "system_alert_requirement =
     ''identifier \"com.apple.systemsoundserverd\" and anchor apple''"

definition PLANKTapSystemAlertProcess :: "('code, 'req) tap_os \<Rightarrow> u32 \<Rightarrow> int \<Rightarrow> bool" where
  "PLANKTapSystemAlertProcess os owner pid =
     (if owner = 0 \<or> owner \<noteq> os_getuid os \<or> os_geteuid os \<noteq> owner \<or> pid \<le> 0 \<or> pid = os_getpid os \<or>
         os_console_owner os \<noteq> Some owner
      then False
      else if \<not> CFNumberCreate os then False
      else CFDictionaryCreate os \<and>
        (case SecRequirementCreateWithString os system_alert_requirement of
           None \<Rightarrow> False
         | Some requirement \<Rightarrow>
             (case SecCodeCopyGuestWithAttributes os pid of
                None \<Rightarrow> False
              | Some code \<Rightarrow> SecCodeCheckValidity os code requirement)))"

definition plank_macos_screen_input_ready :: "bool \<Rightarrow> bool \<Rightarrow> bool \<Rightarrow> bool \<Rightarrow> bool" where
  "plank_macos_screen_input_ready graphical screen post_event accessibility \<longleftrightarrow>
     graphical \<and> screen \<and> post_event \<and> accessibility"

section \<open>The stutter trace (frame-timing.h)\<close>

definition PLANK_FRAME_TIMING_CAPACITY :: nat where
  "PLANK_FRAME_TIMING_CAPACITY = 8192"

definition PLANK_FRAME_TIMING_DURATION_NS :: u64 where
  "PLANK_FRAME_TIMING_DURATION_NS = 120000000000"

record PLANKFrameTimingRecord =
  capture_ns :: u64
  submitted_ns :: u64
  completed_ns :: u64
  handled_ns :: u64
  sent_ns :: u64
  pts_ns :: u64
  number :: u64
  record_bytes :: u64
  in_flight :: u32
  forced :: u32
  key :: u32
  stage :: u32
  record_result :: int

record PLANKFrameTiming =
  origin_ns :: u64
  wall_ns :: u64
  count :: nat
  records :: "PLANKFrameTimingRecord list" \<comment> \<open>\<open>PLANK_FRAME_TIMING_CAPACITY\<close> records\<close>

text \<open>The returned pointer is the index of the record, and the trace is returned updated.\<close>

definition PLANKFrameTimingAppend ::
  "PLANKFrameTiming option \<Rightarrow> u64 \<Rightarrow> nat option \<times> PLANKFrameTiming option" where
  "PLANKFrameTimingAppend trace now =
     (case trace of
        None \<Rightarrow> (None, None)
      | Some tr \<Rightarrow>
          if now < origin_ns tr \<or> now - origin_ns tr \<ge> PLANK_FRAME_TIMING_DURATION_NS \<or>
             count tr = PLANK_FRAME_TIMING_CAPACITY
          then (None, trace)
          else (Some (count tr),
                Some (tr\<lparr>count := count tr + 1,
                         records := (records tr)[count tr := (records tr ! count tr)\<lparr>capture_ns := now\<rparr>]\<rparr>)))"

section \<open>Gains\<close>

lemma f32_value_zero: "f32_finite 0 \<and> f32_value 0 = 0"
  by (simp add: f32_finite_def f32_value_def)

definition unit_gain :: "u32 \<Rightarrow> bool" where
  "unit_gain g \<longleftrightarrow> f32_finite g \<and> 0 \<le> f32_value g \<and> f32_value g \<le> 1"

lemma unit_gain_zero [simp]: "unit_gain 0"
  using f32_value_zero by (simp add: unit_gain_def)

lemma channel_gain_unit: "output_channel_gain hal d m h mu c = Some g \<Longrightarrow> unit_gain g"
  by (auto simp: output_channel_gain_def Let_def unit_gain_def f32_value_zero split: if_splits prod.splits)

text \<open>A mute property of the element that is there and reads as not zero.\<close>

definition reads_muted :: "audio_hal \<Rightarrow> u32 \<Rightarrow> u32 \<Rightarrow> bool" where
  "reads_muted hal device element \<longleftrightarrow>
     AudioObjectHasProperty hal device kAudioDevicePropertyMute element \<and>
     (\<exists>ok n w ws. AudioObjectGetPropertyData hal device kAudioDevicePropertyMute element
        = (ok, n, w # ws) \<and> w \<noteq> 0)"

lemma channel_gain_muted:
  "output_channel_gain hal d m h mu c = Some g \<Longrightarrow> mu \<noteq> 0 \<or> reads_muted hal d c \<Longrightarrow> g = 0"
  by (auto simp: output_channel_gain_def Let_def reads_muted_def PLANKOutputValue_def
      split: if_splits prod.splits)

section \<open>The trace\<close>

definition timing_wf :: "PLANKFrameTiming \<Rightarrow> bool" where
  "timing_wf tr \<longleftrightarrow> length (records tr) = PLANK_FRAME_TIMING_CAPACITY \<and>
     count tr \<le> PLANK_FRAME_TIMING_CAPACITY"

definition timing_in_window :: "PLANKFrameTiming \<Rightarrow> u64 \<Rightarrow> bool" where
  "timing_in_window tr now \<longleftrightarrow>
     unat (origin_ns tr) \<le> unat now \<and> unat now < unat (origin_ns tr) + 120000000000"

definition timing_captures :: "PLANKFrameTiming \<Rightarrow> u64 list" where
  "timing_captures tr = map capture_ns (take (count tr) (records tr))"

fun timing_append_all :: "PLANKFrameTiming \<Rightarrow> u64 list \<Rightarrow> PLANKFrameTiming" where
  "timing_append_all tr [] = tr"
| "timing_append_all tr (now # ts) =
     timing_append_all (the (snd (PLANKFrameTimingAppend (Some tr) now))) ts"

lemma window_test:
  "(now < origin_ns tr \<or> now - origin_ns tr \<ge> PLANK_FRAME_TIMING_DURATION_NS) \<longleftrightarrow> \<not> timing_in_window tr now"
  unfolding timing_in_window_def PLANK_FRAME_TIMING_DURATION_NS_def
  by (auto simp: word_less_nat_alt word_le_nat_alt unat_sub not_less)

lemma append_eq:
  "PLANKFrameTimingAppend (Some tr) now =
     (if timing_in_window tr now \<and> count tr \<noteq> PLANK_FRAME_TIMING_CAPACITY
      then (Some (count tr),
            Some (tr\<lparr>count := count tr + 1,
                     records := (records tr)[count tr := (records tr ! count tr)\<lparr>capture_ns := now\<rparr>]\<rparr>))
      else (None, Some tr))"
  using window_test [of now tr] by (auto simp: PLANKFrameTimingAppend_def)

lemma append_step:
  assumes "timing_wf tr"
  shows "\<exists>tr'. snd (PLANKFrameTimingAppend (Some tr) now) = Some tr' \<and> timing_wf tr' \<and>
    origin_ns tr' = origin_ns tr \<and>
    timing_captures tr' = (if timing_in_window tr now \<and> count tr < PLANK_FRAME_TIMING_CAPACITY
                           then timing_captures tr @ [now] else timing_captures tr) \<and>
    count tr' = length (timing_captures tr')"
  using assms
  by (auto simp: append_eq timing_wf_def timing_captures_def take_Suc_conv_app_nth)

lemma timing_captures_length: "timing_wf tr \<Longrightarrow> length (timing_captures tr) = count tr"
  by (simp add: timing_captures_def timing_wf_def)

section \<open>Properties\<close>

text \<open>
  C35. The gains are two finite numbers between 0 and 1. They are both 0 when the policy fails, and
  both 0 when the main mute control reads as set: a failed read never unmutes.
\<close>

theorem output_gains_safe:
  assumes "PLANKOutputGains hal device = (ok, left, right)"
  shows "unit_gain left \<and> unit_gain right \<and> (\<not> ok \<longrightarrow> left = 0 \<and> right = 0) \<and>
    (reads_muted hal device kAudioObjectPropertyElementMain \<longrightarrow> left = 0 \<and> right = 0)"
proof (cases ok)
  case False
  then show ?thesis
    using assms by (auto simp: PLANKOutputGains_def Let_def split: if_splits option.splits prod.splits)
next
  case True
  then obtain master has mute c0 c1 where
    "output_channel_gain hal device master has (mute ! 0) c0 = Some left"
    "output_channel_gain hal device master has (mute ! 0) c1 = Some right"
    "\<exists>p. PLANKOutputValue hal device kAudioDevicePropertyMute kAudioObjectPropertyElementMain [0] 4 = (True, p, mute)"
    using assms by (auto simp: PLANKOutputGains_def Let_def split: if_splits option.splits prod.splits)
  moreover from this have "reads_muted hal device kAudioObjectPropertyElementMain \<longrightarrow> mute ! 0 \<noteq> 0"
    by (auto simp: reads_muted_def PLANKOutputValue_def split: if_splits prod.splits)
  ultimately show ?thesis
    using True channel_gain_unit channel_gain_muted by blast
qed

text \<open>
  The trace never overruns its storage: after any sequence of appends it holds, in order, the
  first of the times inside the two-minute window, up to its capacity.
\<close>

theorem timing_append_bounded:
  assumes "timing_wf tr"
  shows "timing_wf (timing_append_all tr ts) \<and>
    timing_captures (timing_append_all tr ts) = timing_captures tr @
      take (PLANK_FRAME_TIMING_CAPACITY - count tr) (filter (timing_in_window tr) ts)"
  using assms
proof (induction ts arbitrary: tr)
  case Nil
  then show ?case by simp
next
  case (Cons now ts)
  obtain tr' where tr': "snd (PLANKFrameTimingAppend (Some tr) now) = Some tr'" "timing_wf tr'"
    "origin_ns tr' = origin_ns tr"
    "timing_captures tr' = (if timing_in_window tr now \<and> count tr < PLANK_FRAME_TIMING_CAPACITY
                            then timing_captures tr @ [now] else timing_captures tr)"
    "count tr' = length (timing_captures tr')"
    using append_step [OF Cons.prems] by blast
  have win: "timing_in_window tr' = timing_in_window tr"
    using tr'(3) by (auto simp: timing_in_window_def fun_eq_iff)
  have le: "count tr \<le> PLANK_FRAME_TIMING_CAPACITY" using Cons.prems by (simp add: timing_wf_def)
  have n: "length (timing_captures tr) = count tr" using timing_captures_length [OF Cons.prems] .
  consider (room) "timing_in_window tr now" "count tr < PLANK_FRAME_TIMING_CAPACITY"
    | (full) "count tr = PLANK_FRAME_TIMING_CAPACITY" | (late) "\<not> timing_in_window tr now"
    using le by linarith
  then show ?case
  proof cases
    case room
    then have "PLANK_FRAME_TIMING_CAPACITY - count tr = Suc (PLANK_FRAME_TIMING_CAPACITY - count tr')"
      using tr'(4,5) n by simp
    with room Cons.IH [OF tr'(2)] tr' show ?thesis by (simp add: win)
  qed (use Cons.IH [OF tr'(2)] tr' n in \<open>auto simp: win\<close>)
qed

subsection \<open>Examples\<close>

definition example_hal :: audio_hal where
  "example_hal = \<lparr>AudioObjectHasProperty = (\<lambda>d s e. s = kAudioDevicePropertyVolumeScalar \<and> e = 0),
     AudioObjectGetPropertyData = (\<lambda>d s e. (True, 4, [0x3f000000]))\<rparr>"

theorem output_gains_safe_witness:
  "PLANKOutputGains example_hal 7 = (True, 0x3f000000, 0x3f000000) \<and> unit_gain 0x3f000000"
proof -
  have "PLANKOutputGains example_hal 7 = (True, 0x3f000000, 0x3f000000)"
    by (simp add: PLANKOutputGains_def PLANKOutputValue_def output_channel_gain_def example_hal_def
        f32_finite_def f32_value_def kAudioObjectPropertyElementMain_def Let_def)
  with output_gains_safe [OF this] show ?thesis by blast
qed

definition example_trace :: PLANKFrameTiming where
  "example_trace = \<lparr>origin_ns = 1000, wall_ns = 0, count = 0,
     records = replicate PLANK_FRAME_TIMING_CAPACITY
       \<lparr>capture_ns = 0, submitted_ns = 0, completed_ns = 0, handled_ns = 0, sent_ns = 0, pts_ns = 0,
        number = 0, record_bytes = 0, in_flight = 0, forced = 0, key = 0, stage = 0, record_result = 0\<rparr>\<rparr>"

theorem timing_append_bounded_witness:
  "timing_captures (timing_append_all example_trace [999, 1000, 2000]) = [1000, 2000]"
proof -
  have "timing_wf example_trace" by (simp add: timing_wf_def example_trace_def)
  from timing_append_bounded [OF this, of "[999, 1000, 2000]"] show ?thesis
    by (simp add: timing_captures_def example_trace_def timing_in_window_def
        PLANK_FRAME_TIMING_CAPACITY_def)
qed

end
