(* ===== verification/Display_Probe.thy ===== *)
theory Display_Probe
  imports Complex_Main Native_Video
begin

text \<open>
  Headers the macOS probes share: \<^verbatim>\<open>probes/macos/annexb-sample.h\<close>, which writes a sample as
  Annex B for independent inspection, and \<^verbatim>\<open>probes/macos/virtual-display-probe.h\<close>, the guarded
  creation of a private-API display.
\<close>

section \<open>Writing a sample (annexb-sample.h)\<close>

text \<open>A file takes what fits: \<^verbatim>\<open>fwrite\<close> returns how many bytes it took.\<close>

record out_file =
  file_bytes :: bytes
  file_room :: nat

definition fwrite :: "bytes \<Rightarrow> out_file \<Rightarrow> nat \<times> out_file" where
  "fwrite bs f =
     (let n = min (length bs) (file_room f)
      in (n, f\<lparr>file_bytes := file_bytes f @ take n bs, file_room := file_room f - n\<rparr>))"

text \<open>The format of a sample answers for HEVC and for H.264.\<close>

record probe_sample =
  ps_info :: "bool \<Rightarrow> (nat \<times> int) option" \<comment> \<open>for HEVC or not: count and NAL header length\<close>
  ps_set :: "bool \<Rightarrow> nat \<Rightarrow> bytes option"
  ps_data :: "bytes option"
  ps_copy_ok :: bool

fun write_parameter_sets :: "(nat \<Rightarrow> bytes option) \<Rightarrow> nat list \<Rightarrow> out_file \<Rightarrow> bool \<times> out_file" where
  "write_parameter_sets get [] f = (True, f)"
| "write_parameter_sets get (i # is) f =
     (case get i of
        None \<Rightarrow> (False, f)
      | Some bs \<Rightarrow>
          let (n, f) = fwrite start_code f in
          if n \<noteq> 4 then (False, f)
          else let (n, f) = fwrite bs f in
               if n \<noteq> length bs then (False, f) else write_parameter_sets get is f)"

text \<open>The loop over the NAL units; \<open>p\<close> is the data from \<^verbatim>\<open>offset\<close> on.\<close>

function write_nal_units :: "bytes \<Rightarrow> out_file \<Rightarrow> bool \<times> out_file" where
  "write_nal_units p f =
     (if p = [] then (True, f)
      else if length p < 4 then (False, f)
      else
        let nalLength = unat (of_be32 (p ! 0) (p ! 1) (p ! 2) (p ! 3)); p = drop 4 p in
        if nalLength = 0 \<or> nalLength > length p then (False, f)
        else let (n, f) = fwrite start_code f in
             if n \<noteq> 4 then (False, f)
             else let (n, f) = fwrite (take nalLength p) f in
                  if n \<noteq> nalLength then (False, f)
                  else write_nal_units (drop nalLength p) f)"
  by pat_completeness auto
termination
  by (relation "measure (\<lambda>(p, f). length p)") auto

declare write_nal_units.simps [simp del]

definition PLANKWriteAnnexBSample :: "out_file \<Rightarrow> probe_sample \<Rightarrow> bool \<Rightarrow> bool \<Rightarrow> bool \<times> out_file" where
  "PLANKWriteAnnexBSample f sample hevc first =
     (case ps_info sample hevc of
        None \<Rightarrow> (False, f)
      | Some (count, headerLength) \<Rightarrow>
          if headerLength \<noteq> 4 \<or> count > 8 then (False, f)
          else
            let (ok, f) = (if first then write_parameter_sets (ps_set sample hevc) [0..<count] f
                           else (True, f))
            in if \<not> ok then (False, f)
               else case ps_data sample of
                 None \<Rightarrow> (False, f)
               | Some data \<Rightarrow>
                   if length data = 0 \<or> length data > 64 * 1024 * 1024 then (False, f)
                   else if \<not> ps_copy_ok sample then (False, f)
                   else write_nal_units data f)"

section \<open>A private-API display (virtual-display-probe.h)\<close>

text \<open>
  The Objective-C runtime: the type encoding of an instance method, \<open>None\<close> when there is no such
  method. \<open>matches\<close> also gives the line it logs.
\<close>

definition matches ::
  "(string \<Rightarrow> string \<Rightarrow> string option) \<Rightarrow> string \<Rightarrow> string \<Rightarrow> string \<Rightarrow> bool \<times> string list" where
  "matches runtime name selector type_encoding =
     (if runtime name selector \<noteq> Some type_encoding
      then (False, [''Unsupported runtime signature: '' @ name @ '' '' @ selector])
      else (True, []))"

definition display_signatures :: "(string \<times> string \<times> string) list" where
  "display_signatures =
     [(''CGVirtualDisplayDescriptor'', ''setName:'', ''v24@0:8@16''),
      (''CGVirtualDisplayDescriptor'', ''setQueue:'', ''v24@0:8@16''),
      (''CGVirtualDisplayDescriptor'', ''setMaxPixelsWide:'', ''v20@0:8I16''),
      (''CGVirtualDisplayDescriptor'', ''setMaxPixelsHigh:'', ''v20@0:8I16''),
      (''CGVirtualDisplayDescriptor'', ''setVendorID:'', ''v20@0:8I16''),
      (''CGVirtualDisplayDescriptor'', ''setProductID:'', ''v20@0:8I16''),
      (''CGVirtualDisplayDescriptor'', ''setSerialNum:'', ''v20@0:8I16''),
      (''CGVirtualDisplayDescriptor'', ''setSizeInMillimeters:'', ''v32@0:8{CGSize=dd}16''),
      (''CGVirtualDisplayMode'', ''initWithWidth:height:refreshRate:'', ''@32@0:8I16I20d24''),
      (''CGVirtualDisplaySettings'', ''setHiDPI:'', ''v20@0:8I16''),
      (''CGVirtualDisplaySettings'', ''setModes:'', ''v24@0:8@16''),
      (''CGVirtualDisplay'', ''initWithDescriptor:'', ''@24@0:8@16''),
      (''CGVirtualDisplay'', ''applySettings:'', ''B24@0:8@16''),
      (''CGVirtualDisplay'', ''displayID'', ''I16@0:8'')]"

definition validateAPI :: "(string \<Rightarrow> string \<Rightarrow> string option) \<Rightarrow> bool \<times> string list" where
  "validateAPI runtime =
     fold (\<lambda>(name, selector, type_encoding) (valid, log).
             let (ok, line) = matches runtime name selector type_encoding in (valid \<and> ok, log @ line))
       display_signatures (True, [])"

text \<open>The enumeration is bounded by 32: its error status, and the displays it returned.\<close>

fun online_scan :: "u32 \<Rightarrow> u32 list \<Rightarrow> int" where
  "online_scan display [] = 0"
| "online_scan display (d # ds) = (if d = display then 1 else online_scan display ds)"

definition onlineState :: "bool \<times> u32 list \<Rightarrow> u32 \<Rightarrow> int" where
  "onlineState enumeration display =
     (case enumeration of (success, displays) \<Rightarrow>
        if \<not> success \<or> length displays \<ge> 32 then - 1 else online_scan display displays)"

record display_descriptor =
  desc_name :: string
  maxPixelsWide :: u32
  maxPixelsHigh :: u32
  sizeInMillimeters :: "rat \<times> rat"
  vendorID :: u32
  productID :: u32
  serialNum :: u32

record display_settings =
  hiDPI :: u32
  modes :: "(u32 \<times> u32 \<times> rat) list"

text \<open>
  What the framework does: whether a display is created for a descriptor, whether mode and settings
  objects are allocated, and whether the display takes the settings. The result is the display as the
  descriptor and settings in force.
\<close>

record display_framework =
  fw_display :: "display_descriptor \<Rightarrow> bool"
  fw_mode :: "u32 \<Rightarrow> u32 \<Rightarrow> rat \<Rightarrow> bool"
  fw_settings :: bool
  applySettings :: "display_descriptor \<Rightarrow> display_settings \<Rightarrow> bool"

definition createProbeDisplayWithIdentity ::
  "(string \<Rightarrow> string \<Rightarrow> string option) \<Rightarrow> display_framework \<Rightarrow> u32 \<Rightarrow> u32 \<Rightarrow> u32 \<Rightarrow> u32
   \<Rightarrow> (display_descriptor \<times> display_settings) option" where
  "createProbeDisplayWithIdentity runtime fw width height product serial =
     (if width = 0 \<or> height = 0 \<or> width > 8192 \<or> height > 8192 \<or> serial = 0 \<or> \<not> fst (validateAPI runtime)
      then None
      else
        let descriptor = \<lparr>desc_name = ''PLANK Feasibility Probe'', maxPixelsWide = width,
              maxPixelsHigh = height, sizeInMillimeters = (508, 28575 / 100), vendorID = 0xF0F0,
              productID = product, serialNum = serial\<rparr>
        in if \<not> fw_display fw descriptor then None
           else if \<not> fw_mode fw width height 60 \<or> \<not> fw_settings fw then None
           else
             let settings = \<lparr>hiDPI = 0, modes = [(width, height, 60)]\<rparr>
             in if \<not> applySettings fw descriptor settings then None
                else Some (descriptor, settings))"

definition createProbeDisplay ::
  "(string \<Rightarrow> string \<Rightarrow> string option) \<Rightarrow> display_framework \<Rightarrow> u32 \<Rightarrow> u32
   \<Rightarrow> (display_descriptor \<times> display_settings) option" where
  "createProbeDisplay runtime fw width height =
     (if width = 0 \<or> height = 0 \<or> width > 8192 \<or> height > 8192 then None
      else createProbeDisplayWithIdentity runtime fw width height 1 1)"

section \<open>What is written\<close>

definition file_put :: "bytes \<Rightarrow> out_file \<Rightarrow> out_file" where
  "file_put bs f = f\<lparr>file_bytes := file_bytes f @ bs, file_room := file_room f - length bs\<rparr>"

lemma fwrite_fits: "length bs \<le> file_room f \<Longrightarrow> fwrite bs f = (length bs, file_put bs f)"
  by (simp add: fwrite_def file_put_def Let_def)

lemma file_put_put [simp]: "file_put bs (file_put cs f) = file_put (cs @ bs) f"
  by (simp add: file_put_def)

lemma file_put_room [simp]: "file_room (file_put bs f) = file_room f - length bs"
  by (simp add: file_put_def)

lemma file_put_bytes [simp]: "file_bytes (file_put bs f) = file_bytes f @ bs"
  by (simp add: file_put_def)

lemma file_put_Nil [simp]: "file_put [] f = f"
  by (simp add: file_put_def)

lemma write_parameter_sets_ok:
  "map get ks = map Some ps \<Longrightarrow> length (annexb ps) \<le> file_room f \<Longrightarrow>
   write_parameter_sets get ks f = (True, file_put (annexb ps) f)"
  by (induction ks arbitrary: ps f) (auto simp: fwrite_fits)

lemma write_nal_units_ok:
  "list_all (\<lambda>n. n \<noteq> [] \<and> length n < 2 ^ 32) ns \<Longrightarrow> length (annexb ns) \<le> file_room f \<Longrightarrow>
   write_nal_units (length_prefixed ns) f = (True, file_put (annexb ns) f)"
proof (induction ns arbitrary: f)
  case Nil
  then show ?case by (simp add: write_nal_units.simps)
next
  case (Cons n ns)
  let ?w = "of_nat (length n) :: u32" and ?d = "be32 (of_nat (length n)) @ n @ length_prefixed ns"
  have be: "?d ! 0 = ucast (drop_bit 24 ?w)" "?d ! 1 = ucast (drop_bit 16 ?w)"
    "?d ! 2 = ucast (drop_bit 8 ?w)" "?d ! 3 = ucast ?w"
    by (simp_all add: be32_def)
  have nal: "unat (of_be32 (?d ! 0) (?d ! 1) (?d ! 2) (?d ! 3)) = length n"
    unfolding be of_be32_be32 using Cons.prems by (subst unat_of_nat_eq) auto
  have n: "n \<noteq> []" "length (annexb ns) \<le> file_room (file_put (start_code @ n) f)"
    "4 + length n \<le> file_room f"
    using Cons.prems by simp_all
  have "write_nal_units ?d f = write_nal_units (length_prefixed ns) (file_put (start_code @ n) f)"
    by (subst write_nal_units.simps, simp only: Let_def nal) (use n in \<open>simp add: fwrite_fits\<close>)
  then show ?case
    using Cons.IH [OF _ n(2)] Cons.prems by simp
qed

lemma annexb_parameter_sets_are:
  "annexb_parameter_sets get ks t out = Some (t', out') \<Longrightarrow>
   \<exists>ps. map get ks = map Some ps \<and> out' = out @ annexb ps"
proof (induction ks arbitrary: t out)
  case Nil
  then show ?case by simp
next
  case (Cons k ks)
  then obtain bs where bs: "get k = Some bs"
    and rest: "\<exists>t. annexb_parameter_sets get ks t (out @ start_code @ bs) = Some (t', out')"
    by (auto simp: Let_def split: option.splits if_splits)
  then obtain ps where "map get ks = map Some ps" "out' = (out @ start_code @ bs) @ annexb ps"
    using Cons.IH by blast
  with bs show ?case by (intro exI [of _ "bs # ps"]) simp
qed

lemma validate_fold:
  "fold (\<lambda>(name, selector, type_encoding) (valid, log).
           let (ok, line) = matches runtime name selector type_encoding in (valid \<and> ok, log @ line)) sigs (v, l)
   = (v \<and> list_all (\<lambda>(n, s, e). runtime n s = Some e) sigs,
      l @ concat (map (\<lambda>(n, s, e). snd (matches runtime n s e)) sigs))"
  by (induction sigs arbitrary: v l) (auto simp: matches_def)

lemma validateAPI_eq:
  "validateAPI runtime =
     (list_all (\<lambda>(n, s, e). runtime n s = Some e) display_signatures,
      concat (map (\<lambda>(n, s, e). snd (matches runtime n s e)) display_signatures))"
  unfolding validateAPI_def validate_fold by simp

section \<open>Properties\<close>


text \<open>
  A display is created only when every selector the probe invokes has the expected signature in
  the running system; it then has the requested size, between 1 and 8192 in both directions, with
  that size at 60 Hz as its only mode, and every mismatch of a failed validation is logged.
\<close>

theorem probe_display_guarded:
  "(createProbeDisplay runtime fw width height = Some (descriptor, settings) \<longrightarrow>
      (\<forall>(name, selector, type_encoding) \<in> set display_signatures. runtime name selector = Some type_encoding) \<and>
      maxPixelsWide descriptor = width \<and> maxPixelsHigh descriptor = height \<and>
      modes settings = [(width, height, 60)] \<and> 0 < width \<and> width \<le> 8192 \<and> 0 < height \<and> height \<le> 8192) \<and>
   length (snd (validateAPI runtime)) =
     length (filter (\<lambda>(n, s, e). runtime n s \<noteq> Some e) display_signatures)"
proof -
  have "length (concat (map (\<lambda>(n, s, e). snd (matches runtime n s e)) sigs))
      = length (filter (\<lambda>(n, s, e). runtime n s \<noteq> Some e) sigs)" for sigs
    by (induction sigs) (auto simp: matches_def)
  then have "length (snd (validateAPI runtime)) =
      length (filter (\<lambda>(n, s, e). runtime n s \<noteq> Some e) display_signatures)"
    by (simp only: validateAPI_eq snd_conv)
  moreover have "fst (validateAPI runtime) \<longleftrightarrow>
      (\<forall>(name, selector, type_encoding) \<in> set display_signatures. runtime name selector = Some type_encoding)"
    by (simp only: validateAPI_eq fst_conv list_all_iff)
  ultimately show ?thesis
    by (auto simp: createProbeDisplay_def createProbeDisplayWithIdentity_def Let_def word_gt_0 not_less
        split: if_splits)
qed

subsection \<open>Examples\<close>


theorem probe_display_guarded_witness:
  "\<exists>(descriptor :: display_descriptor) (settings :: display_settings). maxPixelsWide descriptor = 1920 \<and> modes settings = [(1920, 1080, 60)]"
proof -
  let ?rt = "\<lambda>n s. map_of (map (\<lambda>(n, s, e). ((n, s), e)) display_signatures) (n, s)"
  let ?fw = "\<lparr>fw_display = \<lambda>_. True, fw_mode = \<lambda>_ _ _. True, fw_settings = True, applySettings = \<lambda>_ _. True\<rparr>"
  have "list_all (\<lambda>(n, s, e). ?rt n s = Some e) display_signatures"
    by (simp add: display_signatures_def)
  then have "\<exists>d s. createProbeDisplay ?rt ?fw 1920 1080 = Some (d, s)"
    by (simp add: createProbeDisplay_def createProbeDisplayWithIdentity_def validateAPI_eq)
  then obtain d s where "createProbeDisplay ?rt ?fw 1920 1080 = Some (d, s)" by blast
  with probe_display_guarded [of ?rt ?fw 1920 1080 d s] show ?thesis by blast
qed

end
