(* ===== verification/Wacom_Wire.thy ===== *)
theory Wacom_Wire
  imports Plank_Prelude
begin

text \<open>
  The framing of \<^verbatim>\<open>probes/wacom/plank-wacom-raw-bridge.cpp\<close>: the packed little-endian header, the
  loops over \<^verbatim>\<open>send\<close> and \<^verbatim>\<open>recv\<close>, and \<open>send_frame\<close> and \<open>receive_frame\<close>. A socket is
  the bytes that went into it or are still to come out of it, with the list of the results that the
  coming system calls give: how much is transferred is the kernel's choice. A call after the end of
  the list fails.
\<close>

section \<open>Constants and types\<close>

definition kMagic :: u32 where "kMagic = 0x504c5748"

definition kVersion :: u16 where "kVersion = 1"

text \<open>The two kernel limits (\<^verbatim>\<open>linux/uhid.h\<close>, \<^verbatim>\<open>linux/hid.h\<close>).\<close>

definition UHID_DATA_MAX :: nat where "UHID_DATA_MAX = 4096"

definition HID_MAX_DESCRIPTOR_SIZE :: nat where "HID_MAX_DESCRIPTOR_SIZE = 4096"

definition kMaximumPayload :: nat where "kMaximumPayload = UHID_DATA_MAX + 64"

text \<open>An enumeration class holds any value of its 16 bits; the enumerators are these.\<close>

type_synonym MessageType = u16

definition message_device :: MessageType where "message_device = 1"
definition message_descriptor :: MessageType where "message_descriptor = 2"
definition message_input :: MessageType where "message_input = 3"
definition message_get_report :: MessageType where "message_get_report = 4"
definition message_get_report_reply :: MessageType where "message_get_report_reply = 5"
definition message_set_report :: MessageType where "message_set_report = 6"
definition message_set_report_reply :: MessageType where "message_set_report_reply = 7"
definition message_output :: MessageType where "message_output = 8"
definition message_detach :: MessageType where "message_detach = 9"

lemmas message_type_defs = message_device_def message_descriptor_def message_input_def
  message_get_report_def message_get_report_reply_def message_set_report_def
  message_set_report_reply_def message_output_def message_detach_def

record WireHeader =
  magic :: u32
  hdr_version :: u16
  hdr_type :: u16
  hdr_interface :: u16
  hdr_reserved :: u16
  hdr_transaction :: u32
  hdr_size :: u32

record Frame =
  frame_type :: MessageType
  frame_interface :: u16
  frame_transaction :: u32
  frame_payload :: bytes

section \<open>The packed structure in memory\<close>

definition le16 :: "u16 \<Rightarrow> bytes" where
  "le16 v = [ucast v, ucast (drop_bit 8 v)]"

definition le32 :: "u32 \<Rightarrow> bytes" where
  "le32 v = [ucast v, ucast (drop_bit 8 v), ucast (drop_bit 16 v), ucast (drop_bit 24 v)]"

definition load_le16 :: "bytes \<Rightarrow> nat \<Rightarrow> u16" where
  "load_le16 bs i = of_be16 (bs ! (i + 1)) (bs ! i)"

definition load_le32 :: "bytes \<Rightarrow> nat \<Rightarrow> u32" where
  "load_le32 bs i = of_be32 (bs ! (i + 3)) (bs ! (i + 2)) (bs ! (i + 1)) (bs ! i)"

definition sizeof_WireHeader :: nat where "sizeof_WireHeader = 20"

definition header_bytes :: "WireHeader \<Rightarrow> bytes" where
  "header_bytes h = le32 (magic h) @ le16 (hdr_version h) @ le16 (hdr_type h) @
     le16 (hdr_interface h) @ le16 (hdr_reserved h) @ le32 (hdr_transaction h) @ le32 (hdr_size h)"

definition header_of_bytes :: "bytes \<Rightarrow> WireHeader" where
  "header_of_bytes bs = \<lparr>magic = load_le32 bs 0, hdr_version = load_le16 bs 4,
     hdr_type = load_le16 bs 6, hdr_interface = load_le16 bs 8, hdr_reserved = load_le16 bs 10,
     hdr_transaction = load_le32 bs 12, hdr_size = load_le32 bs 16\<rparr>"

section \<open>Sockets\<close>

text \<open>The result of one system call: interrupted, any other error, or a number of bytes.\<close>

datatype io_result = Interrupted | Failed | Transferred nat

record out_socket =
  sent :: bytes
  send_results :: "io_result list"

record in_socket =
  incoming :: bytes
  recv_results :: "io_result list"

fun send_loop :: "bytes \<Rightarrow> bytes \<Rightarrow> io_result list \<Rightarrow> bool \<times> bytes \<times> io_result list" where
  "send_loop [] out rs = (True, out, rs)"
| "send_loop (b # bs) out [] = (False, out, [])"
| "send_loop (b # bs) out (Interrupted # rs) = send_loop (b # bs) out rs"
| "send_loop (b # bs) out (Failed # rs) = (False, out, rs)"
| "send_loop (b # bs) out (Transferred n # rs) =
     (let written = min n (length (b # bs)) in
      if written \<le> 0 then (False, out, rs)
      else send_loop (drop written (b # bs)) (out @ take written (b # bs)) rs)"

definition write_all :: "bytes \<Rightarrow> out_socket \<Rightarrow> bool \<times> out_socket" where
  "write_all data s =
     (case send_loop data (sent s) (send_results s) of
        (ok, out, rs) \<Rightarrow> (ok, s\<lparr>sent := out, send_results := rs\<rparr>))"

text \<open>
  \<open>size\<close> bytes are wanted; what was read so far is \<open>got\<close>. \<^verbatim>\<open>recv\<close> gives at most what has
  arrived, and nothing at the end of the stream.
\<close>

fun recv_loop :: "nat \<Rightarrow> bytes \<Rightarrow> bytes \<Rightarrow> io_result list \<Rightarrow> bool \<times> bytes \<times> bytes \<times> io_result list" where
  "recv_loop 0 got inc rs = (True, got, inc, rs)"
| "recv_loop (Suc k) got inc [] = (False, got, inc, [])"
| "recv_loop (Suc k) got inc (Interrupted # rs) = recv_loop (Suc k) got inc rs"
| "recv_loop (Suc k) got inc (Failed # rs) = (False, got, inc, rs)"
| "recv_loop (Suc k) got inc (Transferred n # rs) =
     (let received = min n (min (Suc k) (length inc)) in
      if received \<le> 0 then (False, got, inc, rs)
      else recv_loop (Suc k - received) (got @ take received inc) (drop received inc) rs)"

definition read_all :: "nat \<Rightarrow> in_socket \<Rightarrow> bool \<times> bytes \<times> in_socket" where
  "read_all n s =
     (case recv_loop n [] (incoming s) (recv_results s) of
        (ok, got, inc, rs) \<Rightarrow> (ok, got, s\<lparr>incoming := inc, recv_results := rs\<rparr>))"

text \<open>
  \<open>getaddrinfo\<close> gives a list of addresses or fails. For each address: whether \<^verbatim>\<open>socket\<close>
  succeeds, and then whether \<^verbatim>\<open>connect\<close>, or \<^verbatim>\<open>bind\<close> and \<^verbatim>\<open>listen\<close>, succeed. The
  result is the address in use and the addresses whose socket was closed again.
\<close>

fun first_usable :: "nat \<Rightarrow> (bool \<times> bool) list \<Rightarrow> nat option \<times> nat list" where
  "first_usable i [] = (None, [])"
| "first_usable i ((socket_ok, usable) # rest) =
     (if socket_ok \<and> usable then (Some i, [])
      else case first_usable (Suc i) rest of
        (r, closed) \<Rightarrow> (r, if socket_ok then i # closed else closed))"

definition connect_tcp :: "(bool \<times> bool) list option \<Rightarrow> nat option \<times> nat list" where
  "connect_tcp addresses = (case addresses of None \<Rightarrow> (None, []) | Some as \<Rightarrow> first_usable 0 as)"

definition listen_tcp :: "(bool \<times> bool \<times> bool) list option \<Rightarrow> nat option \<times> nat list" where
  "listen_tcp addresses =
     (case addresses of
        None \<Rightarrow> (None, [])
      | Some as \<Rightarrow> first_usable 0 (map (\<lambda>(socket_ok, bind_ok, listen_ok). (socket_ok, bind_ok \<and> listen_ok)) as))"

lemma first_usable_None_iff: "fst (first_usable i as) = None \<longleftrightarrow> (True, True) \<notin> set as"
  by (induction i as rule: first_usable.induct) (auto simp: case_prod_beta)

section \<open>Frames\<close>

definition send_frame :: "out_socket \<Rightarrow> Frame \<Rightarrow> bool \<times> out_socket" where
  "send_frame s f =
     (let n = length (frame_payload f) in
      if n > kMaximumPayload then (False, s)
      else
        let header = \<lparr>magic = kMagic, hdr_version = kVersion, hdr_type = frame_type f,
              hdr_interface = frame_interface f, hdr_reserved = 0,
              hdr_transaction = frame_transaction f, hdr_size = of_nat n\<rparr>;
            (ok, s) = write_all (header_bytes header) s
        in if \<not> ok then (False, s) else if n = 0 then (True, s) else write_all (frame_payload f) s)"

text \<open>\<open>None\<close> is a \<^verbatim>\<open>false\<close> result; the caller then leaves its loop without using the frame.\<close>

definition receive_frame :: "in_socket \<Rightarrow> Frame option \<times> in_socket" where
  "receive_frame s =
     (let (ok, bs, s) = read_all sizeof_WireHeader s in
      if \<not> ok then (None, s)
      else
        let header = header_of_bytes bs in
        if magic header \<noteq> kMagic \<or> hdr_version header \<noteq> kVersion \<or>
           unat (hdr_size header) > kMaximumPayload
        then (None, s)
        else
          let (ok, payload, s) =
                (if hdr_size header = 0 then (True, [], s) else read_all (unat (hdr_size header)) s)
          in if \<not> ok then (None, s)
             else (Some \<lparr>frame_type = hdr_type header, frame_interface = hdr_interface header,
                         frame_transaction = hdr_transaction header, frame_payload = payload\<rparr>, s))"

section \<open>The loops over the system calls\<close>

lemma send_loop_sent:
  "send_loop bs out rs = (ok, out', rs') \<Longrightarrow> \<exists>k \<le> length bs. out' = out @ take k bs \<and> (ok \<longleftrightarrow> k = length bs)"
proof (induction bs out rs rule: send_loop.induct)
  case (5 b bs out n rs)
  show ?case
  proof (cases "min n (length (b # bs)) = 0")
    case True
    then show ?thesis using 5 by (auto simp: Let_def)
  next
    case False
    define w where "w = min n (length (b # bs))"
    have w: "0 < w" "w \<le> length (b # bs)" using False by (simp_all add: w_def)
    have "send_loop (drop w (b # bs)) (out @ take w (b # bs)) rs = (ok, out', rs')"
      using "5.prems" False by (simp add: w_def Let_def del: send_loop.simps(1-4) split: if_splits)
    then obtain k where k: "k \<le> length (drop w (b # bs))"
      "out' = (out @ take w (b # bs)) @ take k (drop w (b # bs))" "ok \<longleftrightarrow> k = length (drop w (b # bs))"
      using "5.IH" [OF w_def] w(1) by auto
    show ?thesis
      using k w by (intro exI [of _ "w + k"]) (auto simp: take_add)
  qed
qed auto

lemma recv_loop_read:
  "recv_loop n got inc rs = (ok, got', inc', rs') \<Longrightarrow>
   \<exists>k \<le> min n (length inc). got' = got @ take k inc \<and> inc' = drop k inc \<and> (ok \<longleftrightarrow> k = n)"
proof (induction n got inc rs rule: recv_loop.induct)
  case (5 m got inc n rs)
  show ?case
  proof (cases "min n (min (Suc m) (length inc)) = 0")
    case True
    then show ?thesis using "5.prems" by (auto simp: Let_def)
  next
    case False
    define w where "w = min n (min (Suc m) (length inc))"
    have w: "0 < w" "w \<le> Suc m" "w \<le> length inc" using False by (simp_all add: w_def)
    have "recv_loop (Suc m - w) (got @ take w inc) (drop w inc) rs = (ok, got', inc', rs')"
      using "5.prems" False by (simp add: w_def Let_def del: recv_loop.simps(1-4) split: if_splits)
    then obtain k where k: "k \<le> min (Suc m - w) (length (drop w inc))"
      "got' = (got @ take w inc) @ take k (drop w inc)" "inc' = drop k (drop w inc)"
      "ok \<longleftrightarrow> k = Suc m - w"
      using "5.IH" [OF w_def] w(1) by auto
    have "drop (w + k) inc = drop k (drop w inc)" by (simp add: add.commute)
    then show ?thesis
      using k w by (intro exI [of _ "w + k"]) (auto simp: take_add simp del: drop_drop)
  qed
qed auto

text \<open>
  A list of results that makes progress: no failure, no empty transfer, and at least \<open>n\<close>
  transfers, so that \<open>n\<close> bytes get through whatever the amounts are.
\<close>

definition makes_progress :: "nat \<Rightarrow> io_result list \<Rightarrow> bool" where
  "makes_progress n rs \<longleftrightarrow> list_all (\<lambda>r. r \<noteq> Failed \<and> r \<noteq> Transferred 0) rs \<and>
     n \<le> length (filter (\<lambda>r. r \<noteq> Interrupted) rs)"

lemma makes_progress_mono: "makes_progress n rs \<Longrightarrow> m \<le> n \<Longrightarrow> makes_progress m rs"
  by (simp add: makes_progress_def)

lemma makes_progress_Cons:
  "makes_progress n (r # rs) \<Longrightarrow> makes_progress (n - 1) rs \<and> r \<noteq> Failed \<and> r \<noteq> Transferred 0 \<and>
     (r = Interrupted \<longrightarrow> makes_progress n rs)"
  by (auto simp: makes_progress_def split: if_splits)

lemma send_loop_progress:
  "makes_progress (length bs + n) rs \<Longrightarrow>
   \<exists>rs'. send_loop bs out rs = (True, out @ bs, rs') \<and> makes_progress n rs'"
proof (induction bs out rs rule: send_loop.induct)
  case (2 b bs out)
  then show ?case by (simp add: makes_progress_def)
next
  case (5 b bs out k rs)
  define w where "w = min k (length (b # bs))"
  have k: "0 < w" "w \<le> length (b # bs)"
    using makes_progress_Cons [OF "5.prems"] by (auto simp: w_def min_def intro: Suc_leI)
  have "makes_progress (length (drop w (b # bs)) + n) rs"
    using makes_progress_Cons [OF "5.prems"] k by (auto elim!: makes_progress_mono)
  moreover have "send_loop (b # bs) out (Transferred k # rs)
      = send_loop (drop w (b # bs)) (out @ take w (b # bs)) rs"
    using k(1) by (simp only: send_loop.simps Let_def flip: w_def) simp
  ultimately show ?case
    using "5.IH" [OF w_def] k by (simp only:) simp
qed (auto dest: makes_progress_Cons)

lemma recv_loop_progress:
  "makes_progress (m + n) rs \<Longrightarrow> m \<le> length inc \<Longrightarrow>
   \<exists>rs'. recv_loop m got inc rs = (True, got @ take m inc, drop m inc, rs') \<and> makes_progress n rs'"
proof (induction m got inc rs rule: recv_loop.induct)
  case (2 m got inc)
  then show ?case by (simp add: makes_progress_def)
next
  case (5 m got inc k rs)
  define w where "w = min k (min (Suc m) (length inc))"
  have k: "0 < w" "w \<le> Suc m" "w \<le> length inc"
    using makes_progress_Cons [OF "5.prems"(1)] "5.prems"(2) by (auto simp: w_def)
  have pr: "makes_progress (Suc m - w + n) rs"
    using makes_progress_Cons [OF "5.prems"(1)] k by (auto elim!: makes_progress_mono)
  have le: "Suc m - w \<le> length (drop w inc)" using "5.prems"(2) by simp
  obtain rs' where "recv_loop (Suc m - w) (got @ take w inc) (drop w inc) rs =
      (True, (got @ take w inc) @ take (Suc m - w) (drop w inc), drop (Suc m - w) (drop w inc), rs')"
      "makes_progress n rs'"
    using "5.IH" [OF w_def _ pr le] k(1) by blast
  moreover have "recv_loop (Suc m) got inc (Transferred k # rs)
      = recv_loop (Suc m - w) (got @ take w inc) (drop w inc) rs"
    using k(1) by (simp only: recv_loop.simps Let_def flip: w_def) simp
  moreover have "take w inc @ take (Suc m - w) (drop w inc) = take (Suc m) inc"
    using k by (metis le_add_diff_inverse take_add)
  ultimately show ?case
    using k by simp
qed (auto dest: makes_progress_Cons)

section \<open>Frames on the wire\<close>

lemma length_le [simp]: "length (le16 v) = 2" "length (le32 w) = 4"
  by (simp_all add: le16_def le32_def)

lemma load_le: "load_le16 (pre @ le16 v @ post) (length pre) = v"
  "load_le32 (pre @ le32 w @ post) (length pre) = w"
  by (simp_all add: load_le16_def load_le32_def le16_def le32_def nth_append of_be16_be16 of_be32_be32)

lemma length_header_bytes [simp]: "length (header_bytes h) = 20"
  by (simp add: header_bytes_def)

lemma header_of_header_bytes: "header_of_bytes (header_bytes h @ rest) = h"
proof -
  have "load_le32 (header_bytes h @ rest) 0 = magic h"
    using load_le(2) [of "[]"] by (simp add: header_bytes_def)
  moreover have "load_le16 (header_bytes h @ rest) 4 = hdr_version h"
    using load_le(1) [of "le32 (magic h)"] by (simp add: header_bytes_def)
  moreover have "load_le16 (header_bytes h @ rest) 6 = hdr_type h"
    using load_le(1) [of "le32 (magic h) @ le16 (hdr_version h)"] by (simp add: header_bytes_def)
  moreover have "load_le16 (header_bytes h @ rest) 8 = hdr_interface h"
    using load_le(1) [of "le32 (magic h) @ le16 (hdr_version h) @ le16 (hdr_type h)"]
    by (simp add: header_bytes_def)
  moreover have "load_le16 (header_bytes h @ rest) 10 = hdr_reserved h"
    using load_le(1) [of "le32 (magic h) @ le16 (hdr_version h) @ le16 (hdr_type h) @ le16 (hdr_interface h)"]
    by (simp add: header_bytes_def)
  moreover have "load_le32 (header_bytes h @ rest) 12 = hdr_transaction h"
    using load_le(2) [of "le32 (magic h) @ le16 (hdr_version h) @ le16 (hdr_type h) @ le16 (hdr_interface h) @
        le16 (hdr_reserved h)"]
    by (simp add: header_bytes_def)
  moreover have "load_le32 (header_bytes h @ rest) 16 = hdr_size h"
    using load_le(2) [of "le32 (magic h) @ le16 (hdr_version h) @ le16 (hdr_type h) @ le16 (hdr_interface h) @
        le16 (hdr_reserved h) @ le32 (hdr_transaction h)"]
    by (simp add: header_bytes_def)
  ultimately show ?thesis by (simp add: header_of_bytes_def)
qed

definition frame_header :: "Frame \<Rightarrow> WireHeader" where
  "frame_header f = \<lparr>magic = kMagic, hdr_version = kVersion, hdr_type = frame_type f,
     hdr_interface = frame_interface f, hdr_reserved = 0, hdr_transaction = frame_transaction f,
     hdr_size = of_nat (length (frame_payload f))\<rparr>"

definition frame_bytes :: "Frame \<Rightarrow> bytes" where
  "frame_bytes f = header_bytes (frame_header f) @ frame_payload f"

definition frame_ok :: "Frame \<Rightarrow> bool" where
  "frame_ok f \<longleftrightarrow> length (frame_payload f) \<le> kMaximumPayload"

lemma payload_size: "frame_ok f \<Longrightarrow> unat (of_nat (length (frame_payload f)) :: u32) = length (frame_payload f)"
  by (intro unat_of_nat_eq) (simp add: frame_ok_def kMaximumPayload_def UHID_DATA_MAX_def)

lemma send_frame_eq:
  "send_frame s f =
     (if \<not> frame_ok f then (False, s)
      else let (ok, s) = write_all (header_bytes (frame_header f)) s
           in if \<not> ok then (False, s) else write_all (frame_payload f) s)"
proof -
  have "write_all [] t = (True, t)" for t by (simp add: write_all_def)
  then show ?thesis
    by (auto simp: send_frame_def frame_ok_def frame_header_def Let_def split: prod.splits)
qed

lemma send_frame_progress:
  assumes "frame_ok f" and "makes_progress (length (frame_bytes f) + n) (send_results s)"
  shows "\<exists>rs. send_frame s f = (True, s\<lparr>sent := sent s @ frame_bytes f, send_results := rs\<rparr>) \<and> makes_progress n rs"
proof -
  have "makes_progress (length (header_bytes (frame_header f)) + (length (frame_payload f) + n)) (send_results s)"
    using assms(2) by (simp add: frame_bytes_def ac_simps)
  then obtain rs where rs: "send_loop (header_bytes (frame_header f)) (sent s) (send_results s)
      = (True, sent s @ header_bytes (frame_header f), rs)" "makes_progress (length (frame_payload f) + n) rs"
    using send_loop_progress by blast
  obtain rs' where "send_loop (frame_payload f) (sent s @ header_bytes (frame_header f)) rs
      = (True, (sent s @ header_bytes (frame_header f)) @ frame_payload f, rs')" "makes_progress n rs'"
    using send_loop_progress [OF rs(2)] by blast
  with rs(1) assms(1) show ?thesis
    by (auto simp: send_frame_eq write_all_def frame_bytes_def)
qed

lemma send_frame_sent:
  assumes "send_frame s f = (True, s')"
  shows "frame_ok f \<and> sent s' = sent s @ frame_bytes f"
proof -
  obtain s1 where ok: "frame_ok f" and w1: "write_all (header_bytes (frame_header f)) s = (True, s1)"
    and w2: "write_all (frame_payload f) s1 = (True, s')"
    using assms by (auto simp: send_frame_eq Let_def split: if_splits prod.splits)
  have "sent s1 = sent s @ header_bytes (frame_header f)"
    using w1 send_loop_sent [of "header_bytes (frame_header f)" "sent s" "send_results s"]
    by (auto simp: write_all_def split: prod.splits)
  moreover have "sent s' = sent s1 @ frame_payload f"
    using w2 send_loop_sent [of "frame_payload f" "sent s1" "send_results s1"]
    by (auto simp: write_all_def split: prod.splits)
  ultimately show ?thesis using ok by (simp add: frame_bytes_def)
qed

lemma receive_frame_eq:
  "receive_frame s =
     (let (ok, bs, s) = read_all 20 s; header = header_of_bytes bs in
      if \<not> ok \<or> magic header \<noteq> kMagic \<or> hdr_version header \<noteq> kVersion \<or>
         unat (hdr_size header) > kMaximumPayload
      then (None, s)
      else let (ok, payload, s) = read_all (unat (hdr_size header)) s
           in (if ok then Some \<lparr>frame_type = hdr_type header, frame_interface = hdr_interface header,
                 frame_transaction = hdr_transaction header, frame_payload = payload\<rparr> else None, s))"
proof -
  have "read_all 0 t = (True, [], t)" for t by (simp add: read_all_def)
  then show ?thesis
    by (auto simp: receive_frame_def sizeof_WireHeader_def Let_def unsigned_eq_0_iff split: prod.splits)
qed

lemma read_all_progress:
  assumes "makes_progress (length bs + n) (recv_results s)" and "incoming s = bs @ rest"
  shows "\<exists>rs. read_all (length bs) s = (True, bs, s\<lparr>incoming := rest, recv_results := rs\<rparr>) \<and> makes_progress n rs"
  using recv_loop_progress [OF assms(1), of "incoming s" "[]"] assms(2) by (auto simp: read_all_def)

lemma receive_frame_progress:
  assumes "frame_ok f" and "makes_progress (length (frame_bytes f) + n) (recv_results s)"
    and "incoming s = frame_bytes f @ rest"
  shows "\<exists>rs. receive_frame s = (Some f, s\<lparr>incoming := rest, recv_results := rs\<rparr>) \<and> makes_progress n rs"
proof -
  let ?h = "header_bytes (frame_header f)"
  have "makes_progress (length ?h + (length (frame_payload f) + n)) (recv_results s)"
    using assms(2) by (simp add: frame_bytes_def ac_simps)
  moreover have "incoming s = ?h @ frame_payload f @ rest"
    using assms(3) by (simp add: frame_bytes_def)
  ultimately obtain rs where rs: "read_all 20 s = (True, ?h, s\<lparr>incoming := frame_payload f @ rest, recv_results := rs\<rparr>)"
      "makes_progress (length (frame_payload f) + n) rs"
    using read_all_progress [of ?h "length (frame_payload f) + n" s "frame_payload f @ rest"]
    unfolding length_header_bytes by blast
  obtain rs' where rs': "read_all (length (frame_payload f)) (s\<lparr>incoming := frame_payload f @ rest, recv_results := rs\<rparr>)
      = (True, frame_payload f, s\<lparr>incoming := rest, recv_results := rs'\<rparr>)" "makes_progress n rs'"
    using read_all_progress [of "frame_payload f" n "s\<lparr>incoming := frame_payload f @ rest, recv_results := rs\<rparr>" rest]
      rs(2) by auto
  have "header_of_bytes ?h = frame_header f"
    using header_of_header_bytes [of "frame_header f" "[]"] by simp
  then show ?thesis
    using rs(1) rs' payload_size [OF assms(1)] assms(1)
    by (auto simp: receive_frame_eq frame_header_def frame_ok_def)
qed

lemma read_all_sound:
  "read_all n s = (True, bs, s') \<Longrightarrow> length bs = n \<and> incoming s = bs @ incoming s'"
  using recv_loop_read [of n "[]" "incoming s" "recv_results s"]
  by (auto simp: read_all_def split: prod.splits)

text \<open>Whatever the system calls do, what is received is what is at the front of the stream.\<close>

lemma receive_frame_sound:
  assumes "receive_frame s = (Some g, s')" and "incoming s = frame_bytes f @ rest" and "frame_ok f"
  shows "g = f \<and> incoming s' = rest"
proof -
  obtain bs s1 payload where r1: "read_all 20 s = (True, bs, s1)"
    and r2: "read_all (unat (hdr_size (header_of_bytes bs))) s1 = (True, payload, s')"
    and g: "g = \<lparr>frame_type = hdr_type (header_of_bytes bs), frame_interface = hdr_interface (header_of_bytes bs),
      frame_transaction = hdr_transaction (header_of_bytes bs), frame_payload = payload\<rparr>"
    using assms(1) by (auto simp: receive_frame_eq Let_def split: prod.splits if_splits)
  have bs: "bs = header_bytes (frame_header f)" "incoming s1 = frame_payload f @ rest"
    using read_all_sound [OF r1] assms(2) by (auto simp: frame_bytes_def append_eq_append_conv)
  have h: "header_of_bytes bs = frame_header f"
    using header_of_header_bytes [of "frame_header f" "[]"] bs(1) by simp
  have "unat (hdr_size (header_of_bytes bs)) = length (frame_payload f)"
    using payload_size [OF assms(3)] h by (simp add: frame_header_def)
  then have "payload = frame_payload f \<and> incoming s' = rest"
    using read_all_sound [OF r2] bs(2) append_eq_append_conv by metis
  then show ?thesis using g h by (simp add: frame_header_def)
qed

section \<open>Streams of messages\<close>

fun send_each :: "(out_socket \<Rightarrow> 'm \<Rightarrow> bool \<times> out_socket) \<Rightarrow> out_socket \<Rightarrow> 'm list \<Rightarrow> bool \<times> out_socket" where
  "send_each put s [] = (True, s)"
| "send_each put s (m # ms) =
     (let (ok, s) = put s m in if \<not> ok then (False, s) else send_each put s ms)"

fun receive_each :: "(in_socket \<Rightarrow> 'm option \<times> in_socket) \<Rightarrow> in_socket \<Rightarrow> nat \<Rightarrow> 'm list option \<times> in_socket" where
  "receive_each get s 0 = (Some [], s)"
| "receive_each get s (Suc n) =
     (case get s of
        (None, s) \<Rightarrow> (None, s)
      | (Some m, s) \<Rightarrow> (case receive_each get s n of (r, s) \<Rightarrow> (map_option ((#) m) r, s)))"

text \<open>
  The contract of a message stream over byte sockets. Safety: a message that is received is the one
  at the front of the stream. Progress: when the system calls move enough bytes, sending and
  receiving succeed.
\<close>

locale message_stream =
  fixes ok :: "'m \<Rightarrow> bool"
    and wire :: "'m \<Rightarrow> bytes"
    and put :: "out_socket \<Rightarrow> 'm \<Rightarrow> bool \<times> out_socket"
    and get :: "in_socket \<Rightarrow> 'm option \<times> in_socket"
  assumes put_sound: "put s m = (True, s') \<Longrightarrow> ok m \<and> sent s' = sent s @ wire m"
    and put_progress: "ok m \<Longrightarrow> makes_progress (length (wire m) + n) (send_results s) \<Longrightarrow>
      \<exists>rs. put s m = (True, s\<lparr>sent := sent s @ wire m, send_results := rs\<rparr>) \<and> makes_progress n rs"
    and get_sound: "get i = (Some g, i') \<Longrightarrow> incoming i = wire m @ rest \<Longrightarrow> ok m \<Longrightarrow>
      g = m \<and> incoming i' = rest"
    and get_progress: "ok m \<Longrightarrow> makes_progress (length (wire m) + n) (recv_results i) \<Longrightarrow>
      incoming i = wire m @ rest \<Longrightarrow>
      \<exists>rs. get i = (Some m, i\<lparr>incoming := rest, recv_results := rs\<rparr>) \<and> makes_progress n rs"
begin

lemma send_each_sound:
  "send_each put s ms = (True, s') \<Longrightarrow> list_all ok ms \<and> sent s' = sent s @ concat (map wire ms)"
proof (induction ms arbitrary: s)
  case Nil
  then show ?case by simp
next
  case (Cons m ms)
  then obtain s1 where "put s m = (True, s1)" "send_each put s1 ms = (True, s')"
    by (auto simp: Let_def split: if_splits prod.splits)
  with put_sound Cons.IH show ?case by fastforce
qed

lemma send_each_progress:
  "list_all ok ms \<Longrightarrow> makes_progress (length (concat (map wire ms)) + n) (send_results s) \<Longrightarrow>
   \<exists>rs. send_each put s ms = (True, s\<lparr>sent := sent s @ concat (map wire ms), send_results := rs\<rparr>) \<and> makes_progress n rs"
proof (induction ms arbitrary: s)
  case Nil
  then show ?case by (intro exI [of _ "send_results s"]) simp
next
  case (Cons m ms)
  have "makes_progress (length (wire m) + (length (concat (map wire ms)) + n)) (send_results s)"
    using Cons.prems(2) by (simp add: add.assoc)
  then obtain rs where rs: "put s m = (True, s\<lparr>sent := sent s @ wire m, send_results := rs\<rparr>)"
      "makes_progress (length (concat (map wire ms)) + n) rs"
    using put_progress [of m _ s] Cons.prems(1) by auto
  then show ?case
    using Cons.IH [of "s\<lparr>sent := sent s @ wire m, send_results := rs\<rparr>"] Cons.prems(1) by auto
qed

lemma receive_each_sound:
  "receive_each get i (length ms) = (Some gs, i') \<Longrightarrow> incoming i = concat (map wire ms) @ rest \<Longrightarrow>
   list_all ok ms \<Longrightarrow> gs = ms \<and> incoming i' = rest"
proof (induction ms arbitrary: i gs)
  case Nil
  then show ?case by simp
next
  case (Cons m ms)
  obtain g i1 gs1 where g: "get i = (Some g, i1)" "receive_each get i1 (length ms) = (Some gs1, i')" "gs = g # gs1"
    using Cons.prems(1) by (auto split: prod.splits option.splits)
  have "g = m \<and> incoming i1 = concat (map wire ms) @ rest"
    using get_sound [OF g(1), of m] Cons.prems(2,3) by simp
  with g Cons.IH [OF g(2)] Cons.prems(3) show ?case by simp
qed

lemma receive_each_progress:
  "list_all ok ms \<Longrightarrow> makes_progress (length (concat (map wire ms)) + n) (recv_results i) \<Longrightarrow>
   incoming i = concat (map wire ms) @ rest \<Longrightarrow>
   \<exists>rs. receive_each get i (length ms) = (Some ms, i\<lparr>incoming := rest, recv_results := rs\<rparr>) \<and> makes_progress n rs"
proof (induction ms arbitrary: i)
  case Nil
  then show ?case by (intro exI [of _ "recv_results i"]) simp
next
  case (Cons m ms)
  have "makes_progress (length (wire m) + (length (concat (map wire ms)) + n)) (recv_results i)"
    using Cons.prems(2) by (simp add: add.assoc)
  then obtain rs where rs: "get i = (Some m, i\<lparr>incoming := concat (map wire ms) @ rest, recv_results := rs\<rparr>)"
      "makes_progress (length (concat (map wire ms)) + n) rs"
    using get_progress [of m _ i "concat (map wire ms) @ rest"] Cons.prems(1,3) by auto
  then show ?case
    using Cons.IH [of "i\<lparr>incoming := concat (map wire ms) @ rest, recv_results := rs\<rparr>"] Cons.prems(1) by auto
qed

end

interpretation bridge: message_stream frame_ok frame_bytes send_frame receive_frame
  by unfold_locales (auto dest: send_frame_sent receive_frame_sound
      intro: send_frame_progress receive_frame_progress)

section \<open>Properties\<close>

text \<open>
  C7. Frames that were all sent are never received as anything else: whatever \<^verbatim>\<open>send\<close> and
  \<^verbatim>\<open>recv\<close> do, short counts and interruptions included, when as many frames as were sent are
  received from the stream, they are the frames that were sent, in order, and exactly their bytes
  are consumed.
\<close>

theorem bridge_frames_intact:
  assumes "send_each send_frame s fs = (True, s')" and "sent s = []"
    and "incoming i = sent s' @ rest" and "receive_each receive_frame i (length fs) = (Some gs, i')"
  shows "gs = fs \<and> incoming i' = rest"
  using bridge.send_each_sound [OF assms(1)] bridge.receive_each_sound [OF assms(4), of rest] assms(2,3)
  by simp

text \<open>
  C28. Delivery: frames within the payload limit arrive. When the system calls do not fail and make at
  least as many transfers as there are bytes, in whatever pieces, all sends and all receives succeed.
\<close>

theorem bridge_frames_delivered:
  assumes "list_all frame_ok fs"
    and "makes_progress (length (concat (map frame_bytes fs))) ws"
    and "makes_progress (length (concat (map frame_bytes fs))) rs"
  shows "\<exists>s' i'. send_each send_frame \<lparr>sent = [], send_results = ws\<rparr> fs = (True, s') \<and>
    receive_each receive_frame \<lparr>incoming = sent s' @ rest, recv_results = rs\<rparr> (length fs) = (Some fs, i') \<and>
    incoming i' = rest"
proof -
  obtain ws' where "send_each send_frame \<lparr>sent = [], send_results = ws\<rparr> fs
      = (True, \<lparr>sent = concat (map frame_bytes fs), send_results = ws'\<rparr>)"
    using bridge.send_each_progress [OF assms(1), of 0 "\<lparr>sent = [], send_results = ws\<rparr>"] assms(2) by auto
  moreover obtain rs' where "receive_each receive_frame
      \<lparr>incoming = concat (map frame_bytes fs) @ rest, recv_results = rs\<rparr> (length fs)
      = (Some fs, \<lparr>incoming = rest, recv_results = rs'\<rparr>)"
    using bridge.receive_each_progress [OF assms(1), of 0
        "\<lparr>incoming = concat (map frame_bytes fs) @ rest, recv_results = rs\<rparr>" rest] assms(3) by auto
  ultimately show ?thesis by auto
qed

subsection \<open>Examples\<close>

definition example_frame :: Frame where
  "example_frame = \<lparr>frame_type = message_input, frame_interface = 1, frame_transaction = 0,
     frame_payload = [2, 0xf0, 7]\<rparr>"

theorem bridge_frames_intact_witness:
  "[\<lparr>frame_type = 3, frame_interface = 1, frame_transaction = 0, frame_payload = [2, 0xf0, 7]\<rparr>]
   = [example_frame]"
proof -
  have s: "send_each send_frame
      \<lparr>sent = [], send_results = [Transferred 7, Interrupted, Transferred 100, Transferred 100]\<rparr> [example_frame]
      = (True, \<lparr>sent = frame_bytes example_frame, send_results = []\<rparr>)"
    by code_simp
  have r: "receive_each receive_frame \<lparr>incoming = frame_bytes example_frame @ [9],
      recv_results = [Transferred 3, Interrupted, Transferred 30, Transferred 1, Transferred 30]\<rparr>
      (length [example_frame])
      = (Some [\<lparr>frame_type = 3, frame_interface = 1, frame_transaction = 0, frame_payload = [2, 0xf0, 7]\<rparr>],
         \<lparr>incoming = [9], recv_results = []\<rparr>)"
    by code_simp
  show ?thesis
    using bridge_frames_intact [OF s _ _ r, of "[9]"] by simp
qed

theorem bridge_frames_delivered_witness:
  "\<exists>s' i'. send_each send_frame \<lparr>sent = [], send_results = replicate 23 (Transferred 1)\<rparr> [example_frame] = (True, s') \<and>
    receive_each receive_frame \<lparr>incoming = sent s' @ [], recv_results = replicate 30 (Transferred 5)\<rparr> 1
      = (Some [example_frame], i')"
proof -
  have "list_all frame_ok [example_frame]"
    by (simp add: frame_ok_def example_frame_def kMaximumPayload_def UHID_DATA_MAX_def)
  moreover have "makes_progress (length (concat (map frame_bytes [example_frame]))) (replicate n (Transferred (Suc k)))"
    if "23 \<le> n" for n k
    using that by (simp add: makes_progress_def frame_bytes_def example_frame_def list_all_length)
  from this [of 23 0] this [of 30 4]
  have "makes_progress (length (concat (map frame_bytes [example_frame]))) (replicate 23 (Transferred 1))"
    "makes_progress (length (concat (map frame_bytes [example_frame]))) (replicate 30 (Transferred 5))"
    by (simp_all only: One_nat_def) (simp_all add: numeral_eq_Suc)
  ultimately show ?thesis
    using bridge_frames_delivered [of "[example_frame]" "replicate 23 (Transferred 1)"
        "replicate 30 (Transferred 5)" "[]"] by fastforce
qed

end
