(* ===== verification/Wacom_Host.thy ===== *)
theory Wacom_Host
  imports Wacom_Wire
begin

text \<open>
  The host side of \<^verbatim>\<open>probes/wacom/plank-wacom-raw-bridge.cpp\<close> (\<open>run_host\<close>): the handshake that
  learns the tablet and its report descriptors, the creation of one uhid device per interface, and
  the loop that turns frames into uhid events and uhid requests into frames.
\<close>

section \<open>The device message\<close>

record DeviceMessage =
  interface_count :: u16
  bus :: u16
  vendor :: u32
  product :: u32
  dev_version :: u32
  country :: u32
  dev_name :: bytes \<comment> \<open>128 bytes\<close>
  physical :: bytes \<comment> \<open>64 bytes\<close>
  unique :: bytes \<comment> \<open>64 bytes\<close>

definition sizeof_DeviceMessage :: nat where "sizeof_DeviceMessage = 276"

definition device_bytes :: "DeviceMessage \<Rightarrow> bytes" where
  "device_bytes d = le16 (interface_count d) @ le16 (bus d) @ le32 (vendor d) @ le32 (product d) @
     le32 (dev_version d) @ le32 (country d) @ dev_name d @ physical d @ unique d"

definition device_of_bytes :: "bytes \<Rightarrow> DeviceMessage" where
  "device_of_bytes bs = \<lparr>interface_count = load_le16 bs 0, bus = load_le16 bs 2, vendor = load_le32 bs 4,
     product = load_le32 bs 8, dev_version = load_le32 bs 12, country = load_le32 bs 16,
     dev_name = load bs 20 128, physical = load bs 148 64, unique = load bs 212 64\<rparr>"

text \<open>The last byte of each string array is overwritten with a zero.\<close>

definition terminate_strings :: "DeviceMessage \<Rightarrow> DeviceMessage" where
  "terminate_strings d = d\<lparr>dev_name := (dev_name d)[127 := 0], physical := (physical d)[63 := 0],
     unique := (unique d)[63 := 0]\<rparr>"

section \<open>uhid events\<close>

record uhid_create2_req =
  c2_name :: bytes
  c2_phys :: bytes
  c2_uniq :: bytes
  c2_rd_size :: u16
  c2_bus :: u16
  c2_vendor :: u32
  c2_product :: u32
  c2_version :: u32
  c2_country :: u32
  c2_rd_data :: bytes

text \<open>What the host writes: a size field comes with the bytes copied behind it.\<close>

datatype uhid_event =
    UHID_CREATE2 uhid_create2_req
  | UHID_INPUT2 u16 bytes
  | UHID_GET_REPORT_REPLY u32 u16 u16 bytes \<comment> \<open>id, err, size, data\<close>
  | UHID_SET_REPORT_REPLY u32 u16 \<comment> \<open>id, err\<close>
  | UHID_DESTROY

text \<open>What the kernel asks: identifier, report number, report type and data.\<close>

datatype uhid_request =
    UHID_START
  | UHID_GET_REPORT u32 u8 u8
  | UHID_SET_REPORT u32 u8 u8 bytes
  | UHID_OUTPUT u8 bytes
  | UHID_OTHER

section \<open>Handshake\<close>

fun receive_descriptors :: "nat \<Rightarrow> bytes list \<Rightarrow> in_socket \<Rightarrow> bytes list option \<times> in_socket" where
  "receive_descriptors 0 descriptors s = (Some descriptors, s)"
| "receive_descriptors (Suc n) descriptors s =
     (case receive_frame s of
        (None, s) \<Rightarrow> (None, s)
      | (Some f, s) \<Rightarrow>
          if frame_type f \<noteq> message_descriptor \<or> unat (frame_interface f) \<ge> length descriptors \<or>
             frame_payload f = [] \<or> length (frame_payload f) > HID_MAX_DESCRIPTOR_SIZE
          then (None, s)
          else receive_descriptors n (descriptors[unat (frame_interface f) := frame_payload f]) s)"

text \<open>\<open>Inl\<close> is the exit code.\<close>

definition host_handshake :: "in_socket \<Rightarrow> (int + DeviceMessage \<times> bytes list) \<times> in_socket" where
  "host_handshake s =
     (case receive_frame s of
        (None, s) \<Rightarrow> (Inl 5, s)
      | (Some f, s) \<Rightarrow>
          if frame_type f \<noteq> message_device \<or> length (frame_payload f) \<noteq> sizeof_DeviceMessage
          then (Inl 5, s)
          else
            let device = terminate_strings (device_of_bytes (frame_payload f)) in
            if interface_count device = 0 \<or> interface_count device > 16 then (Inl 5, s)
            else case receive_descriptors (unat (interface_count device))
                        (replicate (unat (interface_count device)) []) s of
              (None, s) \<Rightarrow> (Inl 5, s)
            | (Some descriptors, s) \<Rightarrow> (Inr (device, descriptors), s))"

definition bridge_phys :: bytes where
  "bridge_phys = map of_char ''plank/raw-wacom''"

definition create2_event :: "DeviceMessage \<Rightarrow> bytes \<Rightarrow> uhid_create2_req" where
  "create2_event device descriptor =
     \<lparr>c2_name = dev_name device, c2_phys = store (replicate 64 0) 0 bridge_phys, c2_uniq = unique device,
      c2_rd_size = of_nat (length descriptor), c2_bus = bus device, c2_vendor = vendor device,
      c2_product = product device, c2_version = dev_version device, c2_country = country device,
      c2_rd_data = store (replicate HID_MAX_DESCRIPTOR_SIZE 0) 0 descriptor\<rparr>"

text \<open>
  The loop that creates the devices. \<open>opens\<close> and \<open>writes\<close> say whether \<^verbatim>\<open>open("/dev/uhid")\<close>
  and the write of the event succeed for an interface. The result is the exit code, if the loop
  returns, and the events written so far.
\<close>

fun create_devices ::
  "(nat \<Rightarrow> bool) \<Rightarrow> (nat \<Rightarrow> bool) \<Rightarrow> DeviceMessage \<Rightarrow> nat \<Rightarrow> bytes list
   \<Rightarrow> int option \<times> uhid_create2_req list" where
  "create_devices opens writes device index [] = (None, [])"
| "create_devices opens writes device index (d # ds) =
     (if d = [] then (Some 5, [])
      else if \<not> opens index then (Some 6, [])
      else if \<not> writes index then (Some 6, [])
      else case create_devices opens writes device (Suc index) ds of
        (code, events) \<Rightarrow> (code, create2_event device d # events))"

section \<open>The loop\<close>

datatype host_action = HostDetach | HostBreak | HostWrite nat uhid_event | HostIgnore

text \<open>What a frame from the client makes the host do; \<open>n\<close> is the number of interfaces.\<close>

definition host_frame :: "nat \<Rightarrow> Frame \<Rightarrow> host_action" where
  "host_frame n f =
     (let index = unat (frame_interface f); payload = frame_payload f in
      if frame_type f = message_detach then HostDetach
      else if index \<ge> n then HostBreak
      else if frame_type f = message_input
      then HostWrite index (UHID_INPUT2 (of_nat (length payload)) payload)
      else if frame_type f = message_get_report_reply \<and> length payload \<ge> 4
      then HostWrite index (UHID_GET_REPORT_REPLY (frame_transaction f) (ucast (load_le32 payload 0))
             (of_nat (length payload - 4)) (drop 4 payload))
      else if frame_type f = message_set_report_reply \<and> length payload = 4
      then HostWrite index (UHID_SET_REPORT_REPLY (frame_transaction f) (ucast (load_le32 payload 0)))
      else HostIgnore)"

text \<open>The frame a uhid request of interface \<open>index\<close> is turned into.\<close>

fun host_request :: "nat \<Rightarrow> uhid_request \<Rightarrow> Frame option" where
  "host_request index UHID_START = None"
| "host_request index (UHID_GET_REPORT ident rnum rtype) =
     Some \<lparr>frame_type = message_get_report, frame_interface = of_nat index,
           frame_transaction = ident, frame_payload = [rnum, rtype]\<rparr>"
| "host_request index (UHID_SET_REPORT ident rnum rtype data) =
     Some \<lparr>frame_type = message_set_report, frame_interface = of_nat index,
           frame_transaction = ident, frame_payload = rtype # data\<rparr>"
| "host_request index (UHID_OUTPUT rtype data) =
     Some \<lparr>frame_type = message_output, frame_interface = of_nat index,
           frame_transaction = 0, frame_payload = rtype # data\<rparr>"
| "host_request index UHID_OTHER = None"

record host_state =
  host_in :: in_socket
  host_out :: out_socket
  host_written :: "(nat \<times> uhid_event) list"

text \<open>
  One round of \<^verbatim>\<open>poll\<close>: whether the socket reports an error or hang-up, whether it is readable,
  and for each interface whether it is readable and then what a read gives, \<open>None\<close> for a read
  shorter than the type field.
\<close>

record host_poll =
  poll_hangup :: bool
  poll_readable :: bool
  poll_requests :: "uhid_request option option list"

fun host_requests :: "nat \<Rightarrow> uhid_request option option list \<Rightarrow> out_socket \<Rightarrow> out_socket" where
  "host_requests index [] s = s"
| "host_requests index (r # rs) s =
     host_requests (Suc index) rs
       (case r of
          Some (Some req) \<Rightarrow> (case host_request index req of None \<Rightarrow> s | Some f \<Rightarrow> snd (send_frame s f))
        | _ \<Rightarrow> s)"

text \<open>The first component says whether the loop goes on.\<close>

definition host_round :: "nat \<Rightarrow> host_poll \<Rightarrow> host_state \<Rightarrow> bool \<times> host_state" where
  "host_round n p st =
     (if poll_hangup p then (False, st)
      else
        let (action, st) =
              (if poll_readable p
               then (case receive_frame (host_in st) of
                       (None, s) \<Rightarrow> (HostBreak, st\<lparr>host_in := s\<rparr>)
                     | (Some f, s) \<Rightarrow> (host_frame n f, st\<lparr>host_in := s\<rparr>))
               else (HostIgnore, st))
        in case action of
             HostBreak \<Rightarrow> (False, st)
           | HostDetach \<Rightarrow>
               (False, st\<lparr>host_out := host_requests 0 (take n (poll_requests p)) (host_out st)\<rparr>)
           | HostWrite index e \<Rightarrow>
               (True, st\<lparr>host_written := host_written st @ [(index, e)],
                         host_out := host_requests 0 (take n (poll_requests p)) (host_out st)\<rparr>)
           | HostIgnore \<Rightarrow>
               (True, st\<lparr>host_out := host_requests 0 (take n (poll_requests p)) (host_out st)\<rparr>))"

fun host_loop :: "nat \<Rightarrow> host_poll list \<Rightarrow> host_state \<Rightarrow> host_state" where
  "host_loop n [] st = st" \<comment> \<open>\<^verbatim>\<open>poll\<close> fails\<close>
| "host_loop n (p # ps) st = (case host_round n p st of (go, st) \<Rightarrow> if go then host_loop n ps st else st)"

text \<open>The whole program: listening on an address, accepting a client or not, then the stages above.\<close>

definition run_host ::
  "(bool \<times> bool \<times> bool) list option \<Rightarrow> bool \<Rightarrow> (nat \<Rightarrow> bool) \<Rightarrow> (nat \<Rightarrow> bool) \<Rightarrow> host_poll list \<Rightarrow> in_socket \<Rightarrow> out_socket
   \<Rightarrow> int \<times> (nat \<times> uhid_event) list \<times> out_socket" where
  "run_host addresses accepts opens writes polls inp outp =
     (if fst (listen_tcp addresses) = None then (4, [], outp)
      else if \<not> accepts then (4, [], outp)
      else case host_handshake inp of
        (Inl code, _) \<Rightarrow> (code, [], outp)
      | (Inr (device, descriptors), inp) \<Rightarrow>
          (case create_devices opens writes device 0 descriptors of
             (Some code, events) \<Rightarrow> (code, zip [0..<length events] (map UHID_CREATE2 events), outp)
           | (None, events) \<Rightarrow>
               let n = length descriptors;
                   st = host_loop n polls \<lparr>host_in = inp, host_out = outp,
                          host_written = zip [0..<n] (map UHID_CREATE2 events)\<rparr>
               in (0, host_written st @ map (\<lambda>i. (i, UHID_DESTROY)) [0..<n], host_out st)))"

end
