(* ===== verification/C_Strings.thy ===== *)
theory C_Strings
  imports Plank_Prelude
begin

text \<open>
  The C string functions the programs call: \<^verbatim>\<open>strstr\<close>, \<^verbatim>\<open>strtoull\<close> and the printing of
  decimal numbers. A string is its characters up to the terminating zero; a pointer into a string is
  the rest of the string from there.
\<close>

section \<open>strstr\<close>

fun strstr :: "string \<Rightarrow> string \<Rightarrow> nat option" where
  "strstr [] pat = (if pat = [] then Some 0 else None)"
| "strstr (c # cs) pat =
     (if take (length pat) (c # cs) = pat then Some 0 else map_option Suc (strstr cs pat))"

lemma strstr_Some: "strstr s pat = Some i \<Longrightarrow> i + length pat \<le> length s \<and> take (length pat) (drop i s) = pat"
proof (induction s arbitrary: i)
  case (Cons c cs)
  show ?case
  proof (cases "take (length pat) (c # cs) = pat")
    case True
    then show ?thesis using Cons.prems by (metis Cons add_0 append_take_drop_id drop0 length_append linorder_not_less
          not_add_less1 option.inject strstr.simps(2))
  next
    case False
    then show ?thesis using Cons by auto
  qed
qed (auto split: if_splits)

lemma strstr_first:
  "take (length pat) (drop j s) = pat \<Longrightarrow> j + length pat \<le> length s \<Longrightarrow> \<exists>i \<le> j. strstr s pat = Some i"
proof (induction s arbitrary: j)
  case (Cons c cs)
  show ?case
  proof (cases "take (length pat) (c # cs) = pat")
    case False
    then obtain k where "j = Suc k" using Cons.prems(1) by (cases j) auto
    with Cons.IH [of k] Cons.prems False show ?thesis by auto
  qed auto
qed auto

section \<open>strtoull\<close>

definition c_isspace :: "char \<Rightarrow> bool" where
  "c_isspace c \<longleftrightarrow> of_char c \<in> {32, 9, 10, 11, 12, 13 :: nat}"

definition digit_value :: "char \<Rightarrow> nat option" where
  "digit_value c =
     (let n = of_char c :: nat in
      if 48 \<le> n \<and> n \<le> 57 then Some (n - 48)
      else if 97 \<le> n \<and> n \<le> 122 then Some (n - 87)
      else if 65 \<le> n \<and> n \<le> 90 then Some (n - 55)
      else None)"

definition is_digit :: "nat \<Rightarrow> char \<Rightarrow> bool" where
  "is_digit base c \<longleftrightarrow> (case digit_value c of None \<Rightarrow> False | Some d \<Rightarrow> d < base)"

fun read_digits :: "nat \<Rightarrow> nat \<Rightarrow> string \<Rightarrow> nat \<times> string" where
  "read_digits base v [] = (v, [])"
| "read_digits base v (c # cs) =
     (if is_digit base c then read_digits base (v * base + the (digit_value c)) cs else (v, c # cs))"

text \<open>A hexadecimal prefix counts only before a digit; base 0 chooses 16, 8 or 10.\<close>

definition hex_prefix :: "string \<Rightarrow> bool" where
  "hex_prefix s \<longleftrightarrow>
     (case s of a # x # c # cs \<Rightarrow> a = CHR ''0'' \<and> (x = CHR ''x'' \<or> x = CHR ''X'') \<and> is_digit 16 c | _ \<Rightarrow> False)"

definition choose_base :: "nat \<Rightarrow> string \<Rightarrow> nat \<times> string" where
  "choose_base base s =
     (if (base = 0 \<or> base = 16) \<and> hex_prefix s then (16, drop 2 s)
      else if base = 0 then (if s \<noteq> [] \<and> hd s = CHR ''0'' then 8 else 10, s)
      else (base, s))"

text \<open>The value and the rest of the string; without digits nothing is consumed.\<close>

definition strtoull :: "nat \<Rightarrow> string \<Rightarrow> nat \<times> string" where
  "strtoull base text =
     (let s = dropWhile c_isspace text;
          negative = (s \<noteq> [] \<and> hd s = CHR ''-'');
          s = (if s \<noteq> [] \<and> (hd s = CHR ''-'' \<or> hd s = CHR ''+'') then tl s else s);
          (base, s) = choose_base base s
      in if s = [] \<or> \<not> is_digit base (hd s) then (0, text)
         else let (v, rest) = read_digits base 0 s in
              (if v \<ge> 2 ^ 64 then 2 ^ 64 - 1 else if negative then (2 ^ 64 - v) mod 2 ^ 64 else v, rest))"

lemma strtoull_bound: "fst (strtoull base s) < 2 ^ 64"
  by (auto simp: strtoull_def Let_def split: prod.splits)

section \<open>stoul and stoi\<close>

text \<open>
  The sign and the magnitude at the start of a text, whatever follows; \<open>None\<close> is a text without digits. The
  C++ functions throw for that and for a value that does not fit, and negate an unsigned value after a minus sign.
\<close>

definition c_integer :: "string \<Rightarrow> (bool \<times> nat) option" where
  "c_integer text =
     (let s = dropWhile c_isspace text;
          negative = (s \<noteq> [] \<and> hd s = CHR ''-'');
          s = (if s \<noteq> [] \<and> (hd s = CHR ''-'' \<or> hd s = CHR ''+'') then tl s else s)
      in if s = [] \<or> \<not> is_digit 10 (hd s) then None else Some (negative, fst (read_digits 10 0 s)))"

definition stoul :: "string \<Rightarrow> nat option" where
  "stoul text =
     (case c_integer text of
        None \<Rightarrow> None
      | Some (negative, v) \<Rightarrow> if v \<ge> 2 ^ 64 then None else Some (if negative then (2 ^ 64 - v) mod 2 ^ 64 else v))"

definition stoi :: "string \<Rightarrow> int option" where
  "stoi text =
     (case c_integer text of
        None \<Rightarrow> None
      | Some (negative, v) \<Rightarrow>
          let n = (if negative then - int v else int v)
          in if n < - (2 ^ 31) \<or> n \<ge> 2 ^ 31 then None else Some n)"

lemma stoul_strtoull: "stoul text = Some v \<Longrightarrow> fst (strtoull 10 text) = v"
  by (auto simp: stoul_def c_integer_def strtoull_def choose_base_def Let_def split: if_splits prod.splits)

lemma stoul_bound: "stoul str = Some v \<Longrightarrow> v < 2 ^ 64"
  using strtoull_bound [of 10 str] stoul_strtoull by blast

section \<open>Decimal numbers\<close>

definition digit_char :: "nat \<Rightarrow> char" where
  "digit_char d = char_of (48 + d)"

fun decimal :: "nat \<Rightarrow> string" where
  "decimal n = (if n < 10 then [digit_char n] else decimal (n div 10) @ [digit_char (n mod 10)])"

declare decimal.simps [simp del]

lemma digit_char_code: "d < 10 \<Longrightarrow> (of_char (digit_char d) :: nat) = 48 + d"
  by (simp add: digit_char_def)

lemma digit_char_simps:
  assumes "d < 10"
  shows "digit_value (digit_char d) = Some d" "is_digit 10 (digit_char d)" "\<not> c_isspace (digit_char d)"
    "digit_char d \<noteq> CHR ''-''" "digit_char d \<noteq> CHR ''+''"
proof -
  note code = digit_char_code [OF assms]
  show "digit_value (digit_char d) = Some d" using assms by (simp add: digit_value_def code)
  then show "is_digit 10 (digit_char d)" using assms by (simp add: is_digit_def)
  show "\<not> c_isspace (digit_char d)" by (simp add: c_isspace_def code)
  show "digit_char d \<noteq> CHR ''-''" "digit_char d \<noteq> CHR ''+''" using code by auto
qed

lemma read_digits_append:
  "list_all (is_digit base) ds \<Longrightarrow> read_digits base v (ds @ s) = read_digits base (fst (read_digits base v ds)) s"
  by (induction ds arbitrary: v) auto

lemma decimal_digits: "list_all (is_digit 10) (decimal n)"
  by (induction n rule: decimal.induct) (subst decimal.simps, simp add: digit_char_simps)

lemma read_decimal: "read_digits 10 0 (decimal n) = (n, [])"
proof (induction n rule: decimal.induct)
  case (1 n)
  show ?case
  proof (cases "n < 10")
    case True
    then show ?thesis by (subst decimal.simps) (simp add: digit_char_simps)
  next
    case False
    then have "read_digits 10 0 (decimal (n div 10)) = (n div 10, [])" using 1 by simp
    then show ?thesis
      using False read_digits_append [OF decimal_digits, of 0 "n div 10" "[digit_char (n mod 10)]"]
      by (subst decimal.simps) (simp add: digit_char_simps)
  qed
qed

lemma decimal_head: "decimal n \<noteq> [] \<and> \<not> c_isspace (hd (decimal n)) \<and> hd (decimal n) \<noteq> CHR ''-'' \<and> hd (decimal n) \<noteq> CHR ''+''"
proof (induction n rule: decimal.induct)
  case (1 n)
  then show ?case
    by (subst (1 2 3 4) decimal.simps) (auto simp: digit_char_simps hd_append)
qed

lemma strtoull_decimal:
  assumes "n < 2 ^ 64"
  shows "strtoull 10 (decimal n) = (n, [])"
proof -
  have "dropWhile c_isspace (decimal n) = decimal n"
    using decimal_head [of n] by (cases "decimal n") auto
  moreover have "is_digit 10 (hd (decimal n))"
    using decimal_digits [of n] decimal_head [of n] by (cases "decimal n") auto
  ultimately show ?thesis
    using decimal_head [of n] assms by (simp add: strtoull_def choose_base_def read_decimal)
qed

lemma c_integer_decimal: "c_integer (decimal n) = Some (False, n)"
proof -
  have "dropWhile c_isspace (decimal n) = decimal n"
    using decimal_head [of n] by (cases "decimal n") auto
  moreover have "is_digit 10 (hd (decimal n))"
    using decimal_digits [of n] decimal_head [of n] by (cases "decimal n") auto
  ultimately show ?thesis using decimal_head [of n] by (simp add: c_integer_def read_decimal)
qed

lemma stoul_decimal: "n < 2 ^ 64 \<Longrightarrow> stoul (decimal n) = Some n"
  by (simp add: stoul_def c_integer_decimal)

lemma stoi_decimal: "n < 2 ^ 31 \<Longrightarrow> stoi (decimal n) = Some (int n)"
  by (simp add: stoi_def c_integer_decimal)

section \<open>DRM format names\<close>

text \<open>The modifier behind the colon of a format such as \<^verbatim>\<open>Y410:0x0100000000000002\<close>.\<close>

definition parse_modifier :: "string \<Rightarrow> u64 option" where
  "parse_modifier drm_format =
     (case dropWhile (\<lambda>c. c \<noteq> CHR '':'') drm_format of
        [] \<Rightarrow> None
      | colon # text \<Rightarrow>
          (case strtoull 0 text of
             (modifier, rest) \<Rightarrow> if rest = text \<or> rest \<noteq> [] then None else Some (of_nat modifier)))"

section \<open>Numbers of the command line\<close>

definition parse_nonnegative :: "string \<Rightarrow> u64 option" where
  "parse_nonnegative text =
     (case strtoull 10 text of (parsed, rest) \<Rightarrow> if rest = text \<or> rest \<noteq> [] then None else Some (of_nat parsed))"

definition parse_positive :: "string \<Rightarrow> u64 option" where
  "parse_positive text =
     (case strtoull 10 text of
        (parsed, rest) \<Rightarrow> if rest = text \<or> rest \<noteq> [] \<or> parsed = 0 then None else Some (of_nat parsed))"

lemma parse_positive_nonzero:
  assumes "parse_positive s = Some n"
  shows "0 < n"
proof -
  obtain v rest where v: "strtoull 10 s = (v, rest)" "v \<noteq> 0" "n = of_nat v"
    using assms by (auto simp: parse_positive_def split: prod.splits if_splits)
  then have "v < 2 ^ 64" using strtoull_bound [of 10 s] by simp
  then have "unat n = v" unfolding v(3) by (simp add: unat_of_nat_eq)
  then show "0 < n" using v(2) by (simp add: word_less_nat_alt)
qed

end
