(* ===== verification/Wacom_Client.thy ===== *)
theory Wacom_Client
  imports Wacom_Host C_Strings
begin

text \<open>
  The client side of \<^verbatim>\<open>probes/wacom/plank-wacom-raw-bridge.cpp\<close> (\<open>run_client\<close> and
  \<open>main\<close>): the checks that all hidraw interfaces belong to one tablet, the handshake, and the loop
  that answers report requests and forwards input reports. A hidraw device is the record of what
  opening it and its ioctls give.
\<close>

section \<open>Strings\<close>

text \<open>A C string in a byte array, and \<^verbatim>\<open>std::string_view::rfind\<close>.\<close>

definition c_string :: "bytes \<Rightarrow> bytes" where
  "c_string bs = takeWhile (\<lambda>b. b \<noteq> 0) bs"

fun rfind_from :: "'a list \<Rightarrow> 'a list \<Rightarrow> nat \<Rightarrow> nat option" where
  "rfind_from pat s 0 = (if take (length pat) s = pat then Some 0 else None)"
| "rfind_from pat s (Suc i) =
     (if take (length pat) (drop (Suc i) s) = pat then Some (Suc i) else rfind_from pat s i)"

definition rfind :: "'a list \<Rightarrow> 'a list \<Rightarrow> nat option" where
  "rfind pat s = (if length s < length pat then None else rfind_from pat s (length s - length pat))"

definition input_suffix :: bytes where
  "input_suffix = map of_char ''/input''"

definition physical_group :: "bytes \<Rightarrow> bytes" where
  "physical_group s = (case rfind input_suffix s of None \<Rightarrow> s | Some i \<Rightarrow> take i s)"

text \<open>
  The version files of the input directory, in directory order: \<open>None\<close> when a file yields no
  token. \<^verbatim>\<open>unsigned long\<close> has 64 bits, so \<^verbatim>\<open>strtoul\<close> is \<open>strtoull\<close>.
\<close>

fun read_input_version :: "string option list \<Rightarrow> u32 option" where
  "read_input_version [] = None"
| "read_input_version (None # entries) = read_input_version entries"
| "read_input_version (Some version # entries) =
     (let (value, rest) = strtoull 16 version in
      if rest \<noteq> version \<and> rest = [] \<and> value \<le> 0xffffffff then Some (of_nat value)
      else read_input_version entries)"

section \<open>Report requests (linux/hidraw.h)\<close>

definition UHID_FEATURE_REPORT :: u8 where "UHID_FEATURE_REPORT = 0"
definition UHID_OUTPUT_REPORT :: u8 where "UHID_OUTPUT_REPORT = 1"
definition UHID_INPUT_REPORT :: u8 where "UHID_INPUT_REPORT = 2"

text \<open>\<^verbatim>\<open>_IOC(_IOC_WRITE|_IOC_READ, 'H', nr, size)\<close>\<close>

definition hid_ioc :: "nat \<Rightarrow> nat \<Rightarrow> u64" where
  "hid_ioc nr n = push_bit 30 3 OR push_bit 16 (of_nat n) OR push_bit 8 0x48 OR of_nat nr"

definition get_report_ioctl :: "u8 \<Rightarrow> nat \<Rightarrow> u64" where
  "get_report_ioctl type n =
     (if type = UHID_FEATURE_REPORT then hid_ioc 0x07 n
      else if type = UHID_OUTPUT_REPORT then hid_ioc 0x0C n
      else if type = UHID_INPUT_REPORT then hid_ioc 0x0A n
      else 0)"

definition set_report_ioctl :: "u8 \<Rightarrow> nat \<Rightarrow> u64" where
  "set_report_ioctl type n =
     (if type = UHID_FEATURE_REPORT then hid_ioc 0x06 n
      else if type = UHID_OUTPUT_REPORT then hid_ioc 0x0B n
      else if type = UHID_INPUT_REPORT then hid_ioc 0x09 n
      else 0)"

definition EINVAL :: int where "EINVAL = 22"

section \<open>Interfaces\<close>

record hidraw_device =
  hid_opens :: bool
  hid_info :: "(u32 \<times> u16 \<times> u16) option" \<comment> \<open>bus, vendor and product patterns\<close>
  hid_name :: "bytes option" \<comment> \<open>128 bytes\<close>
  hid_phys :: "bytes option" \<comment> \<open>64 bytes\<close>
  hid_uniq :: "bytes option" \<comment> \<open>64 bytes\<close>
  hid_versions :: "string option list"
  hid_desc_size :: "int option"
  hid_desc :: "bytes option" \<comment> \<open>the array the ioctl fills\<close>

text \<open>\<open>copy_ioctl_string\<close> into an array of \<open>n\<close> bytes that holds \<open>dest\<close>.\<close>

definition copy_ioctl_string :: "nat \<Rightarrow> bytes option \<Rightarrow> bytes \<Rightarrow> bytes" where
  "copy_ioctl_string n answer dest =
     (case answer of None \<Rightarrow> dest | Some v \<Rightarrow> (store dest 0 (take n v))[n - 1 := 0])"

text \<open>The string the client compares: the array is cleared first and ends in a zero.\<close>

definition ioctl_string :: "bytes option \<Rightarrow> bytes" where
  "ioctl_string answer = c_string ((case answer of None \<Rightarrow> replicate 64 0 | Some v \<Rightarrow> v)[63 := 0])"

definition blank_device :: "u16 \<Rightarrow> DeviceMessage" where
  "blank_device n = \<lparr>interface_count = n, bus = 0, vendor = 0, product = 0, dev_version = 0, country = 0,
     dev_name = replicate 128 0, physical = replicate 64 0, unique = replicate 64 0\<rparr>"

text \<open>What the loop over the paths keeps.\<close>

record client_setup =
  cs_device :: DeviceMessage
  cs_group :: bytes
  cs_unique :: bytes
  cs_descriptors :: "bytes list"

definition client_interface :: "hidraw_device \<Rightarrow> client_setup \<Rightarrow> int + client_setup" where
  "client_interface h st =
     (if \<not> hid_opens h then Inl 3
      else case hid_info h of
        None \<Rightarrow> Inl 3
      | Some (bustype, vid, pid) \<Rightarrow>
          let group = physical_group (ioctl_string (hid_phys h));
              uniq = ioctl_string (hid_uniq h);
              checked =
                (if cs_descriptors st = []
                 then Some (st\<lparr>cs_device := (cs_device st)\<lparr>bus := ucast bustype, vendor := ucast vid,
                            product := ucast pid,
                            dev_version := (case read_input_version (hid_versions h) of None \<Rightarrow> 0 | Some v \<Rightarrow> v),
                            dev_name := copy_ioctl_string 128 (hid_name h) (dev_name (cs_device st)),
                            physical := copy_ioctl_string 64 (hid_phys h) (physical (cs_device st)),
                            unique := copy_ioctl_string 64 (hid_uniq h) (unique (cs_device st))\<rparr>,
                          cs_group := group, cs_unique := uniq\<rparr>)
                 else if ucast (bus (cs_device st)) \<noteq> bustype \<or> vendor (cs_device st) \<noteq> ucast vid \<or>
                         product (cs_device st) \<noteq> ucast pid \<or> group \<noteq> cs_group st \<or>
                         (cs_unique st \<noteq> [] \<and> uniq \<noteq> cs_unique st)
                 then None else Some st)
          in case checked of
               None \<Rightarrow> Inl 3
             | Some st \<Rightarrow>
                 (case hid_desc_size h of
                    None \<Rightarrow> Inl 3
                  | Some n \<Rightarrow>
                      if n \<le> 0 \<or> n > int HID_MAX_DESCRIPTOR_SIZE then Inl 3
                      else case hid_desc h of
                        None \<Rightarrow> Inl 3
                      | Some d \<Rightarrow> Inr (st\<lparr>cs_descriptors := cs_descriptors st @ [take (nat n) d]\<rparr>)))"

fun client_interfaces :: "hidraw_device list \<Rightarrow> client_setup \<Rightarrow> int + client_setup" where
  "client_interfaces [] st = Inr st"
| "client_interfaces (h # hs) st =
     (case client_interface h st of Inl code \<Rightarrow> Inl code | Inr st \<Rightarrow> client_interfaces hs st)"

definition client_gather :: "hidraw_device list \<Rightarrow> int + client_setup" where
  "client_gather hs =
     client_interfaces hs \<lparr>cs_device = blank_device (of_nat (length hs)), cs_group = [], cs_unique = [],
       cs_descriptors = []\<rparr>"

text \<open>The frames of the handshake.\<close>

definition handshake_frames :: "DeviceMessage \<Rightarrow> bytes list \<Rightarrow> Frame list" where
  "handshake_frames device descriptors =
     \<lparr>frame_type = message_device, frame_interface = 0, frame_transaction = 0,
      frame_payload = device_bytes device\<rparr>
     # map (\<lambda>i. \<lparr>frame_type = message_descriptor, frame_interface = of_nat i, frame_transaction = 0,
                  frame_payload = descriptors ! i\<rparr>) [0..<length descriptors]"

section \<open>The loop\<close>

text \<open>
  \<open>ioctl\<close> on an interface with a request and a buffer: the result, the buffer afterwards and
  \<^verbatim>\<open>errno\<close>.
\<close>

type_synonym hid_ioctl = "nat \<Rightarrow> u64 \<Rightarrow> bytes \<Rightarrow> int \<times> bytes \<times> int"

datatype client_action = ClientBreak | ClientReply Frame | ClientNothing

definition ioctl_error :: "u64 \<Rightarrow> int \<Rightarrow> int \<Rightarrow> int" where
  "ioctl_error request result errno =
     (if result < 0 then (if request = 0 then EINVAL else errno) else 0)"

definition client_frame :: "nat \<Rightarrow> hid_ioctl \<Rightarrow> Frame \<Rightarrow> client_action" where
  "client_frame n ioctl f =
     (let index = unat (frame_interface f); payload = frame_payload f in
      if index \<ge> n then ClientBreak
      else if frame_type f = message_get_report \<and> length payload = 2
      then
        let report = (replicate UHID_DATA_MAX 0)[0 := payload ! 0];
            request = get_report_ioctl (payload ! 1) UHID_DATA_MAX;
            (result, report, errno) = (if request = 0 then (- 1, report, 0) else ioctl index request report);
            error = ioctl_error request result errno
        in ClientReply \<lparr>frame_type = message_get_report_reply, frame_interface = frame_interface f,
             frame_transaction = frame_transaction f,
             frame_payload = le32 (of_int error) @ take (nat result) report\<rparr>
      else if (frame_type f = message_set_report \<or> frame_type f = message_output) \<and> length payload \<ge> 2
      then
        let request = set_report_ioctl (payload ! 0) (length payload - 1);
            (result, _, errno) =
              (if request = 0 then (- 1, [], 0) else ioctl index request (drop 1 payload))
        in if frame_type f = message_set_report
           then ClientReply \<lparr>frame_type = message_set_report_reply, frame_interface = frame_interface f,
                  frame_transaction = frame_transaction f,
                  frame_payload = le32 (of_int (ioctl_error request result errno))\<rparr>
           else ClientNothing
      else ClientNothing)"

record client_poll =
  cpoll_hangup :: bool
  cpoll_readable :: bool
  cpoll_ioctl :: hid_ioctl
  cpoll_reports :: "bytes option list" \<comment> \<open>per interface: not readable, or what the read gives\<close>

definition input_frame :: "nat \<Rightarrow> bytes \<Rightarrow> Frame" where
  "input_frame index report = \<lparr>frame_type = message_input, frame_interface = of_nat index,
     frame_transaction = 0, frame_payload = report\<rparr>"

text \<open>The loop over the interfaces; a failed send leaves this loop only.\<close>

fun client_reports :: "nat \<Rightarrow> bytes option list \<Rightarrow> out_socket \<Rightarrow> out_socket" where
  "client_reports index [] s = s"
| "client_reports index (None # rs) s = client_reports (Suc index) rs s"
| "client_reports index (Some r # rs) s =
     (if r = [] then client_reports (Suc index) rs s
      else case send_frame s (input_frame index r) of
        (ok, s) \<Rightarrow> if ok then client_reports (Suc index) rs s else s)"

record client_state =
  client_in :: in_socket
  client_out :: out_socket

definition client_round :: "nat \<Rightarrow> client_poll \<Rightarrow> client_state \<Rightarrow> bool \<times> client_state" where
  "client_round n p st =
     (if cpoll_hangup p then (False, st)
      else
        let (go, st) =
              (if cpoll_readable p
               then (case receive_frame (client_in st) of
                       (None, s) \<Rightarrow> (False, st\<lparr>client_in := s\<rparr>)
                     | (Some f, s) \<Rightarrow>
                         (let st = st\<lparr>client_in := s\<rparr> in
                          case client_frame n (cpoll_ioctl p) f of
                            ClientBreak \<Rightarrow> (False, st)
                          | ClientNothing \<Rightarrow> (True, st)
                          | ClientReply g \<Rightarrow>
                              (case send_frame (client_out st) g of (ok, o') \<Rightarrow> (ok, st\<lparr>client_out := o'\<rparr>))))
               else (True, st))
        in if \<not> go then (False, st)
           else (True, st\<lparr>client_out := client_reports 0 (take n (cpoll_reports p)) (client_out st)\<rparr>))"

fun client_loop :: "nat \<Rightarrow> client_poll list \<Rightarrow> client_state \<Rightarrow> client_state" where
  "client_loop n [] st = st"
| "client_loop n (p # ps) st =
     (case client_round n p st of (go, st) \<Rightarrow> if go then client_loop n ps st else st)"

definition detach_frame :: Frame where
  "detach_frame = \<lparr>frame_type = message_detach, frame_interface = 0, frame_transaction = 0, frame_payload = []\<rparr>"

text \<open>
  The whole program: \<open>grabs\<close> says whether each event device can be grabbed, \<open>addresses\<close> what
  connecting to the host's addresses gives.
\<close>

definition run_client ::
  "hidraw_device list \<Rightarrow> bool list \<Rightarrow> (bool \<times> bool) list option \<Rightarrow> client_poll list \<Rightarrow> in_socket \<Rightarrow> out_socket \<Rightarrow> int \<times> out_socket" where
  "run_client hs grabs addresses polls inp outp =
     (case client_gather hs of
        Inl code \<Rightarrow> (code, outp)
      | Inr st \<Rightarrow>
          if \<not> list_all id grabs then (3, outp)
          else if fst (connect_tcp addresses) = None then (4, outp)
          else case send_each send_frame outp (handshake_frames (cs_device st) (cs_descriptors st)) of
            (ok, outp) \<Rightarrow>
              if \<not> ok then (5, outp)
              else
                let c = client_loop (length hs) polls \<lparr>client_in = inp, client_out = outp\<rparr>
                in (0, snd (send_frame (client_out c) detach_frame)))"

section \<open>The command line\<close>

datatype bridge_command =
    RunHost string string
  | RunClient string string "string list" "string list"
  | ExitCode int

fun client_options :: "string list \<Rightarrow> string list \<Rightarrow> string list \<Rightarrow> (string list \<times> string list) option" where
  "client_options [] hidraw grab = Some (hidraw, grab)"
| "client_options [argument] hidraw grab = None"
| "client_options (argument # value # rest) hidraw grab =
     (if argument = ''--hidraw'' then client_options rest (hidraw @ [value]) grab
      else if argument = ''--grab'' then client_options rest hidraw (grab @ [value])
      else None)"

definition main_bridge :: "string list \<Rightarrow> bridge_command" where
  "main_bridge argv =
     (if length argv = 5 \<and> argv ! 1 = ''--listen'' \<and> argv ! 4 = ''--allow-insecure-qualification''
      then RunHost (argv ! 2) (argv ! 3)
      else if length argv \<ge> 7 \<and> argv ! 1 = ''--connect''
      then (case client_options (drop 4 argv) [] [] of
              None \<Rightarrow> ExitCode 2
            | Some (hidraw, grab) \<Rightarrow>
                if hidraw = [] then ExitCode 2 else RunClient (argv ! 2) (argv ! 3) hidraw grab)
      else ExitCode 2)"

end
