(* ===== verification/Wacom_Bridge.thy ===== *)
theory Wacom_Bridge
  imports Wacom_Client
begin

text \<open>
  What the two sides of the Wacom bridge promise together: a tablet attached by the client is the
  tablet the host creates, and report requests and input reports cross the bridge unchanged.
\<close>

section \<open>The device message\<close>

definition device_wf :: "DeviceMessage \<Rightarrow> bool" where
  "device_wf d \<longleftrightarrow> length (dev_name d) = 128 \<and> length (physical d) = 64 \<and> length (unique d) = 64"

lemma length_device_bytes: "device_wf d \<Longrightarrow> length (device_bytes d) = sizeof_DeviceMessage"
  by (simp add: device_bytes_def device_wf_def sizeof_DeviceMessage_def)

lemma device_of_device_bytes:
  assumes "device_wf d"
  shows "device_of_bytes (device_bytes d) = d"
proof -
  let ?bs = "device_bytes d"
  have "load_le16 ?bs 0 = interface_count d"
    using load_le(1) [of "[]"] by (simp add: device_bytes_def)
  moreover have "load_le16 ?bs 2 = bus d"
    using load_le(1) [of "le16 (interface_count d)"] by (simp add: device_bytes_def)
  moreover have "load_le32 ?bs 4 = vendor d"
    using load_le(2) [of "le16 (interface_count d) @ le16 (bus d)"] by (simp add: device_bytes_def)
  moreover have "load_le32 ?bs 8 = product d"
    using load_le(2) [of "le16 (interface_count d) @ le16 (bus d) @ le32 (vendor d)"]
    by (simp add: device_bytes_def)
  moreover have "load_le32 ?bs 12 = dev_version d"
    using load_le(2) [of "le16 (interface_count d) @ le16 (bus d) @ le32 (vendor d) @ le32 (product d)"]
    by (simp add: device_bytes_def)
  moreover have "load_le32 ?bs 16 = country d"
    using load_le(2) [of "le16 (interface_count d) @ le16 (bus d) @ le32 (vendor d) @ le32 (product d) @
        le32 (dev_version d)"]
    by (simp add: device_bytes_def)
  moreover have "load ?bs 20 128 = dev_name d" "load ?bs 148 64 = physical d" "load ?bs 212 64 = unique d"
    using assms by (simp_all add: load_def device_bytes_def device_wf_def)
  ultimately show ?thesis by (simp add: device_of_bytes_def)
qed

section \<open>The handshake\<close>

definition descriptor_frame :: "bytes list \<Rightarrow> nat \<Rightarrow> Frame" where
  "descriptor_frame ds i = \<lparr>frame_type = message_descriptor, frame_interface = of_nat i,
     frame_transaction = 0, frame_payload = ds ! i\<rparr>"

definition descriptor_ok :: "bytes \<Rightarrow> bool" where
  "descriptor_ok d \<longleftrightarrow> d \<noteq> [] \<and> length d \<le> HID_MAX_DESCRIPTOR_SIZE"

lemma descriptor_frame_ok: "descriptor_ok (ds ! i) \<Longrightarrow> frame_ok (descriptor_frame ds i)"
  by (simp add: frame_ok_def descriptor_frame_def descriptor_ok_def kMaximumPayload_def UHID_DATA_MAX_def
      HID_MAX_DESCRIPTOR_SIZE_def)

lemma receive_descriptors_all:
  assumes "list_all descriptor_ok ds" and "length ds < 2 ^ 16"
  shows "k + n = length ds \<Longrightarrow>
    incoming i = concat (map (\<lambda>j. frame_bytes (descriptor_frame ds j)) [k..<length ds]) @ rest \<Longrightarrow>
    makes_progress (length (concat (map (\<lambda>j. frame_bytes (descriptor_frame ds j)) [k..<length ds]))) (recv_results i) \<Longrightarrow>
    \<exists>rs. receive_descriptors n (take k ds @ replicate n []) i = (Some ds, i\<lparr>incoming := rest, recv_results := rs\<rparr>)"
proof (induction n arbitrary: k i)
  case 0
  then show ?case by (intro exI [of _ "recv_results i"]) simp
next
  case (Suc n)
  let ?f = "descriptor_frame ds k"
  let ?tail = "concat (map (\<lambda>j. frame_bytes (descriptor_frame ds j)) [Suc k..<length ds])"
  have k: "k < length ds" using Suc.prems(1) by simp
  then have ok: "descriptor_ok (ds ! k)" using assms(1) by (simp add: list_all_length)
  have split: "[k..<length ds] = k # [Suc k..<length ds]" using k by (simp add: upt_conv_Cons)
  have inc: "incoming i = frame_bytes ?f @ ?tail @ rest" using Suc.prems(2) by (simp add: split)
  have "makes_progress (length (frame_bytes ?f) + length ?tail) (recv_results i)"
    using Suc.prems(3) by (simp add: split)
  then obtain rs where rs: "receive_frame i = (Some ?f, i\<lparr>incoming := ?tail @ rest, recv_results := rs\<rparr>)"
      "makes_progress (length ?tail) rs"
    using receive_frame_progress [OF descriptor_frame_ok [OF ok] _ inc] by blast
  have idx: "unat (of_nat k :: u16) = k"
    using k assms(2) by (intro unat_of_nat_eq) simp
  have upd: "(take k ds @ replicate (Suc n) [])[k := ds ! k] = take (Suc k) ds @ replicate n []"
    using k by (simp add: list_update_append take_Suc_conv_app_nth)
  obtain rs' where "receive_descriptors n (take (Suc k) ds @ replicate n [])
      (i\<lparr>incoming := ?tail @ rest, recv_results := rs\<rparr>) = (Some ds, i\<lparr>incoming := rest, recv_results := rs'\<rparr>)"
    using Suc.IH [of "Suc k" "i\<lparr>incoming := ?tail @ rest, recv_results := rs\<rparr>"] Suc.prems(1) rs(2) by auto
  then show ?case
    using rs(1) ok k idx upd Suc.prems(1)
    by (auto simp: descriptor_frame_def descriptor_ok_def)
qed

lemma handshake_frames_eq:
  "handshake_frames d ds = \<lparr>frame_type = message_device, frame_interface = 0, frame_transaction = 0,
      frame_payload = device_bytes d\<rparr> # map (descriptor_frame ds) [0..<length ds]"
  by (simp add: handshake_frames_def descriptor_frame_def fun_eq_iff)

lemma handshake_received:
  assumes "device_wf d" and "interface_count d = of_nat (length ds)" and "1 \<le> length ds" and "length ds \<le> 16"
    and "list_all descriptor_ok ds"
    and "incoming i = concat (map frame_bytes (handshake_frames d ds)) @ rest"
    and "makes_progress (length (concat (map frame_bytes (handshake_frames d ds)))) (recv_results i)"
  shows "\<exists>rs. host_handshake i = (Inr (terminate_strings d, ds), i\<lparr>incoming := rest, recv_results := rs\<rparr>)"
proof -
  let ?f = "\<lparr>frame_type = message_device, frame_interface = 0, frame_transaction = 0,
      frame_payload = device_bytes d\<rparr>"
  let ?tail = "concat (map (\<lambda>j. frame_bytes (descriptor_frame ds j)) [0..<length ds])"
  have ok: "frame_ok ?f"
    using length_device_bytes [OF assms(1)]
    by (simp add: frame_ok_def kMaximumPayload_def UHID_DATA_MAX_def sizeof_DeviceMessage_def)
  have inc: "incoming i = frame_bytes ?f @ ?tail @ rest"
    using assms(6) by (simp add: handshake_frames_eq comp_def)
  have "makes_progress (length (frame_bytes ?f) + length ?tail) (recv_results i)"
    using assms(7) by (simp add: handshake_frames_eq comp_def)
  then obtain rs where rs: "receive_frame i = (Some ?f, i\<lparr>incoming := ?tail @ rest, recv_results := rs\<rparr>)"
      "makes_progress (length ?tail) rs"
    using receive_frame_progress [OF ok _ inc] by blast
  obtain rs' where desc: "receive_descriptors (length ds) (replicate (length ds) [])
      (i\<lparr>incoming := ?tail @ rest, recv_results := rs\<rparr>) = (Some ds, i\<lparr>incoming := rest, recv_results := rs'\<rparr>)"
    using receive_descriptors_all [of ds 0 "length ds" "i\<lparr>incoming := ?tail @ rest, recv_results := rs\<rparr>" rest]
      assms(4,5) rs(2) by auto
  have count: "unat (interface_count d) = length ds"
    unfolding assms(2) using assms(4) by (intro unat_of_nat_eq) simp
  then have "interface_count d \<noteq> 0" "\<not> interface_count d > 16"
    using assms(3,4) by (auto simp: word_less_nat_alt)
  moreover have "interface_count (terminate_strings d) = interface_count d"
    by (simp add: terminate_strings_def)
  ultimately show ?thesis
    using rs(1) desc count length_device_bytes [OF assms(1)] device_of_device_bytes [OF assms(1)]
    by (auto simp: host_handshake_def)
qed

section \<open>One tablet\<close>

text \<open>The arrays behind the ioctls have their declared sizes.\<close>

definition hidraw_wf :: "hidraw_device \<Rightarrow> bool" where
  "hidraw_wf h \<longleftrightarrow> (\<forall>v. hid_name h = Some v \<longrightarrow> length v = 128) \<and> (\<forall>v. hid_phys h = Some v \<longrightarrow> length v = 64) \<and>
     (\<forall>v. hid_uniq h = Some v \<longrightarrow> length v = 64) \<and>
     (\<forall>v. hid_desc h = Some v \<longrightarrow> length v = HID_MAX_DESCRIPTOR_SIZE)"

definition same_tablet :: "client_setup \<Rightarrow> hidraw_device \<Rightarrow> bool" where
  "same_tablet st h \<longleftrightarrow> (\<exists>bustype vid pid. hid_info h = Some (bustype, vid, pid) \<and>
     bus (cs_device st) = ucast bustype \<and> vendor (cs_device st) = ucast vid \<and>
     product (cs_device st) = ucast pid) \<and>
     physical_group (ioctl_string (hid_phys h)) = cs_group st \<and>
     (cs_unique st \<noteq> [] \<longrightarrow> ioctl_string (hid_uniq h) = cs_unique st)"

lemma length_copy_ioctl_string [simp]:
  "length dest = n \<Longrightarrow> (\<And>v. answer = Some v \<Longrightarrow> length v = n) \<Longrightarrow> length (copy_ioctl_string n answer dest) = n"
  by (cases answer) (simp_all add: copy_ioctl_string_def store_def)

lemma ucast_ucast_u16: "ucast (ucast (x :: u16) :: u32) = x"
  by (rule bit_word_eqI) (simp add: bit_simps)

lemma client_interface_ok:
  assumes "client_interface h st = Inr st'" and "hidraw_wf h"
  shows "\<exists>d. cs_descriptors st' = cs_descriptors st @ [d] \<and> descriptor_ok d \<and> same_tablet st' h \<and>
    interface_count (cs_device st') = interface_count (cs_device st) \<and>
    (device_wf (cs_device st) \<longrightarrow> device_wf (cs_device st')) \<and>
    (cs_descriptors st \<noteq> [] \<longrightarrow> st' = st\<lparr>cs_descriptors := cs_descriptors st'\<rparr>)"
proof -
  obtain bustype vid pid where info: "hid_info h = Some (bustype, vid, pid)"
    using assms(1) by (auto simp: client_interface_def split: if_splits option.splits prod.splits)
  obtain n d where desc: "hid_desc h = Some d" "0 < n" "n \<le> int HID_MAX_DESCRIPTOR_SIZE" "hid_desc_size h = Some n"
    using assms(1) info
    by (auto simp: client_interface_def Let_def not_le split: if_splits option.splits)
  have d: "descriptor_ok (take (nat n) d)"
    using assms(2) desc by (auto simp: hidraw_wf_def descriptor_ok_def HID_MAX_DESCRIPTOR_SIZE_def)
  show ?thesis
  proof (cases "cs_descriptors st = []")
    case True
    then show ?thesis
      using assms info desc d
      by (auto simp: client_interface_def Let_def same_tablet_def hidraw_wf_def device_wf_def split: if_splits)
  next
    case False
    have c: "bus (cs_device st) = ucast bustype" if "ucast (bus (cs_device st)) = bustype"
      using that by (simp add: ucast_ucast_u16 flip: that)
    show ?thesis
      using assms info desc d False c
      by (auto simp: client_interface_def Let_def same_tablet_def split: if_splits)
  qed
qed

lemma same_tablet_update [simp]: "same_tablet (st\<lparr>cs_descriptors := ds\<rparr>) = same_tablet st"
  by (simp add: same_tablet_def fun_eq_iff)

lemma client_interfaces_ok:
  "client_interfaces hs st = Inr st' \<Longrightarrow> list_all hidraw_wf hs \<Longrightarrow>
   \<exists>ds. cs_descriptors st' = cs_descriptors st @ ds \<and> length ds = length hs \<and> list_all descriptor_ok ds \<and>
     list_all (same_tablet st') hs \<and>
     interface_count (cs_device st') = interface_count (cs_device st) \<and>
     (device_wf (cs_device st) \<longrightarrow> device_wf (cs_device st')) \<and>
     (cs_descriptors st \<noteq> [] \<longrightarrow> st' = st\<lparr>cs_descriptors := cs_descriptors st'\<rparr>)"
proof (induction hs arbitrary: st)
  case Nil
  then show ?case by simp
next
  case (Cons h hs)
  obtain st1 where st1: "client_interface h st = Inr st1" "client_interfaces hs st1 = Inr st'"
    using Cons.prems(1) by (auto split: sum.splits)
  obtain d where d: "cs_descriptors st1 = cs_descriptors st @ [d]" "descriptor_ok d" "same_tablet st1 h"
      "interface_count (cs_device st1) = interface_count (cs_device st)"
      "device_wf (cs_device st) \<longrightarrow> device_wf (cs_device st1)"
      "cs_descriptors st \<noteq> [] \<longrightarrow> st1 = st\<lparr>cs_descriptors := cs_descriptors st1\<rparr>"
    using client_interface_ok [OF st1(1)] Cons.prems(2) by auto
  obtain ds where ds: "cs_descriptors st' = cs_descriptors st1 @ ds" "length ds = length hs"
      "list_all descriptor_ok ds" "list_all (same_tablet st') hs"
      "interface_count (cs_device st') = interface_count (cs_device st1)"
      "device_wf (cs_device st1) \<longrightarrow> device_wf (cs_device st')"
      "st' = st1\<lparr>cs_descriptors := cs_descriptors st'\<rparr>"
    using Cons.IH [OF st1(2)] Cons.prems(2) d(1) by auto
  have "same_tablet st' h"
    using d(3) same_tablet_update [of "cs_descriptors st'" st1] ds(7) by simp
  moreover have "st' = st\<lparr>cs_descriptors := cs_descriptors st'\<rparr>" if "cs_descriptors st \<noteq> []"
  proof -
    have "st' = st1\<lparr>cs_descriptors := cs_descriptors st'\<rparr>" by (rule ds(7))
    also have "\<dots> = (st\<lparr>cs_descriptors := cs_descriptors st1\<rparr>)\<lparr>cs_descriptors := cs_descriptors st'\<rparr>"
      using d(6) that by simp
    finally show ?thesis by simp
  qed
  ultimately show ?case
    using d ds by (intro exI [of _ "d # ds"]) auto
qed

section \<open>Creating the devices\<close>

lemma receive_descriptors_bounds:
  "receive_descriptors n ds s = (Some ds', s') \<Longrightarrow>
   list_all (\<lambda>d. length d \<le> HID_MAX_DESCRIPTOR_SIZE) ds \<Longrightarrow>
   length ds' = length ds \<and> list_all (\<lambda>d. length d \<le> HID_MAX_DESCRIPTOR_SIZE) ds'"
proof (induction n arbitrary: ds s)
  case (Suc n)
  then obtain f s1 where f: "receive_frame s = (Some f, s1)"
      "length (frame_payload f) \<le> HID_MAX_DESCRIPTOR_SIZE"
      "receive_descriptors n (ds[unat (frame_interface f) := frame_payload f]) s1 = (Some ds', s')"
    by (auto simp: not_less split: prod.splits option.splits if_splits)
  have "list_all (\<lambda>d. length d \<le> HID_MAX_DESCRIPTOR_SIZE) (ds[unat (frame_interface f) := frame_payload f])"
    using Suc.prems(2) f(2) by (auto simp: list_all_iff dest!: set_update_subset_insert [THEN subsetD])
  then show ?case using Suc.IH [OF f(3)] by simp
qed auto

lemma create_devices_all:
  "create_devices opens writes device k ds = (None, events) \<Longrightarrow>
   events = map (create2_event device) ds \<and> list_all (\<lambda>d. d \<noteq> []) ds"
  by (induction ds arbitrary: k events) (auto split: if_splits prod.splits)

section \<open>Properties\<close>

text \<open>
  When the client's checks pass, every interface it opened reports the same bus, vendor and
  product and the same physical group, and, when the first has a serial, the same serial; there is
  one descriptor per interface, not empty and within the kernel's limit.
\<close>

theorem client_opens_one_tablet:
  assumes "client_gather hs = Inr st" and "list_all hidraw_wf hs"
  shows "list_all (same_tablet st) hs \<and> length (cs_descriptors st) = length hs \<and>
    list_all descriptor_ok (cs_descriptors st) \<and> interface_count (cs_device st) = of_nat (length hs) \<and>
    device_wf (cs_device st)"
  using client_interfaces_ok [OF assms(1) [unfolded client_gather_def] assms(2)]
  by (auto simp: blank_device_def device_wf_def)


text \<open>
  C27. A report request crosses the bridge and back: for a \<^verbatim>\<open>UHID_GET_REPORT\<close> of interface
  \<open>index\<close>, the host's frame makes the client read the report of that interface, and the client's
  answer makes the host write a reply on the same interface with the kernel's identifier, the error
  number of the client's ioctl (0 when it succeeds) and exactly the bytes the tablet returned.
\<close>

theorem get_report_round_trip:
  assumes "index < n" and "n \<le> 2 ^ 16" and "rtype \<in> {0, 1, 2}"
    and "ioctl index (get_report_ioctl rtype UHID_DATA_MAX) ((replicate UHID_DATA_MAX 0)[0 := rnum])
         = (result, report, errno)"
    and "result \<le> int UHID_DATA_MAX"
  shows "\<exists>f g. host_request index (UHID_GET_REPORT ident rnum rtype) = Some f \<and> frame_ok f \<and>
    client_frame n ioctl f = ClientReply g \<and> frame_ok g \<and>
    host_frame n g = HostWrite index (UHID_GET_REPORT_REPLY ident
      (if result < 0 then of_int errno else 0) (of_nat (length (take (nat result) report))) (take (nat result) report))"
proof -
  have idx: "unat (of_nat index :: u16) = index"
    using assms(1,2) by (intro unat_of_nat_eq) simp
  have req: "get_report_ioctl rtype UHID_DATA_MAX \<noteq> 0"
    using assms(3) by (auto simp: get_report_ioctl_def UHID_FEATURE_REPORT_def UHID_OUTPUT_REPORT_def
        UHID_INPUT_REPORT_def hid_ioc_def UHID_DATA_MAX_def)
  have low: "ucast (load_le32 (le32 w @ bs) 0) = (ucast w :: u16)" for w bs
    using load_le(2) [of "[]" w bs] by simp
  have cast: "ucast (of_int e :: u32) = (of_int e :: u16)" for e
    by (rule bit_word_eqI) (simp add: bit_simps)
  show ?thesis
    using assms idx req
    by (auto simp: client_frame_def host_frame_def message_type_defs frame_ok_def kMaximumPayload_def
        UHID_DATA_MAX_def ioctl_error_def low cast Let_def)
qed

text \<open>
  Input and output reports cross the bridge: an input report the client reads becomes one
  \<^verbatim>\<open>UHID_INPUT2\<close> event of the same interface with the same bytes and their true size; a
  \<^verbatim>\<open>UHID_SET_REPORT\<close> makes the client set exactly that report and comes back with the kernel's
  identifier and the client's error number; a \<^verbatim>\<open>UHID_OUTPUT\<close> is performed without an answer.
\<close>

theorem reports_forwarded:
  assumes "index < n" and "n \<le> 2 ^ 16" and "0 < length report" and "length report \<le> UHID_DATA_MAX"
    and "rtype \<in> {0, 1, 2}"
    and "ioctl index (set_report_ioctl rtype (length report)) report = (result, after, errno)"
  shows "host_frame n (input_frame index report) = HostWrite index (UHID_INPUT2 (of_nat (length report)) report) \<and>
    unat (of_nat (length report) :: u16) = length report \<and>
    (\<exists>f g. host_request index (UHID_SET_REPORT ident rnum rtype report) = Some f \<and>
       client_frame n ioctl f = ClientReply g \<and>
       host_frame n g = HostWrite index (UHID_SET_REPORT_REPLY ident (if result < 0 then of_int errno else 0))) \<and>
    (\<exists>f. host_request index (UHID_OUTPUT rtype report) = Some f \<and> client_frame n ioctl f = ClientNothing)"
proof -
  have idx: "unat (of_nat index :: u16) = index"
    using assms(1,2) by (intro unat_of_nat_eq) simp
  have size: "unat (of_nat (length report) :: u16) = length report"
    using assms(4) by (intro unat_of_nat_eq) (simp add: UHID_DATA_MAX_def)
  have "hid_ioc nr (length report) \<noteq> 0" for nr
  proof
    assume "hid_ioc nr (length report) = 0"
    then have "bit (hid_ioc nr (length report)) 30 = bit (0 :: u64) 30" by simp
    then show False
      using assms(4) by (simp add: hid_ioc_def bit_simps)
  qed
  then have req: "set_report_ioctl rtype (length report) \<noteq> 0"
    using assms(5) by (auto simp: set_report_ioctl_def UHID_FEATURE_REPORT_def UHID_OUTPUT_REPORT_def
        UHID_INPUT_REPORT_def)
  have low: "ucast (load_le32 (le32 w) 0) = (ucast w :: u16)" for w
    using load_le(2) [of "[]" w "[]"] by simp
  have cast: "ucast (of_int e :: u32) = (of_int e :: u16)" for e
    by (rule bit_word_eqI) (simp add: bit_simps)
  have "2 \<le> length (rtype # report)" using assms(3) by (cases report) auto
  then show ?thesis
    using assms(1,6) idx req size
    by (auto simp: client_frame_def host_frame_def message_type_defs input_frame_def ioctl_error_def low cast
        Let_def)
qed

text \<open>
  Whatever bytes a client sends, a handshake the host accepts names 1 to 16 interfaces, and when
  all devices are created there is one creation event per interface, each with a descriptor that
  fits the kernel's array, is not empty and is the one received for that interface.
\<close>

theorem host_creates_every_interface:
  assumes "host_handshake i = (Inr (device, ds), i')"
    and "create_devices opens writes device 0 ds = (None, events)"
  shows "length events = unat (interface_count device) \<and> 1 \<le> length events \<and> length events \<le> 16 \<and>
    (\<forall>k < length events. take (unat (c2_rd_size (events ! k))) (c2_rd_data (events ! k)) = ds ! k \<and>
       ds ! k \<noteq> [] \<and> length (c2_rd_data (events ! k)) = HID_MAX_DESCRIPTOR_SIZE)"
proof -
  obtain s where count: "interface_count device \<noteq> 0" "\<not> interface_count device > 16"
    and r: "receive_descriptors (unat (interface_count device)) (replicate (unat (interface_count device)) []) s
      = (Some ds, i')"
    using assms(1) by (auto simp: host_handshake_def Let_def split: prod.splits option.splits if_splits)
  have ds: "length ds = unat (interface_count device)" "list_all (\<lambda>d. length d \<le> HID_MAX_DESCRIPTOR_SIZE) ds"
    using receive_descriptors_bounds [OF r] by (auto simp: list_all_length)
  have n: "1 \<le> length ds" "length ds \<le> 16"
    using count by (auto simp: ds(1) word_less_nat_alt unat_gt_0 Suc_le_eq)
  have ev: "events = map (create2_event device) ds" "list_all (\<lambda>d. d \<noteq> []) ds"
    using create_devices_all [OF assms(2)] by auto
  have "take (unat (c2_rd_size (create2_event device d))) (c2_rd_data (create2_event device d)) = d \<and>
      length (c2_rd_data (create2_event device d)) = HID_MAX_DESCRIPTOR_SIZE"
    if "length d \<le> HID_MAX_DESCRIPTOR_SIZE" for d
  proof -
    have "unat (of_nat (length d) :: u16) = length d"
      using that by (intro unat_of_nat_eq) (simp add: HID_MAX_DESCRIPTOR_SIZE_def)
    then show ?thesis using that by (simp add: create2_event_def store_def)
  qed
  then show ?thesis
    using ev ds n by (auto simp: list_all_length)
qed

subsection \<open>Examples\<close>

definition example_tablet :: hidraw_device where
  "example_tablet = \<lparr>hid_opens = True, hid_info = Some (3, 0x56a, 0x317), hid_name = None,
     hid_phys = Some (map of_char ''usb-1/input0'' @ replicate 52 0), hid_uniq = None,
     hid_versions = [None, Some ''0110''], hid_desc_size = Some 3,
     hid_desc = Some ([5, 0x0d, 9] @ replicate 4093 0)\<rparr>"

lemma example_tablet_wf: "hidraw_wf example_tablet"
  by (simp add: hidraw_wf_def example_tablet_def HID_MAX_DESCRIPTOR_SIZE_def)

lemma example_gather: "\<exists>st. client_gather [example_tablet] = Inr st"
  by (simp add: client_gather_def client_interface_def example_tablet_def Let_def HID_MAX_DESCRIPTOR_SIZE_def)

theorem client_opens_one_tablet_witness:
  "\<exists>st. client_gather [example_tablet] = Inr st \<and> length (cs_descriptors st) = 1 \<and>
     same_tablet st example_tablet"
  using example_gather client_opens_one_tablet [of "[example_tablet]"] example_tablet_wf by fastforce


theorem get_report_round_trip_witness:
  "\<exists>f g. host_request 0 (UHID_GET_REPORT 77 2 0) = Some f \<and>
     client_frame 1 (\<lambda>_ _ _. (2, [2, 9, 0], 0)) f = ClientReply g \<and>
     host_frame 1 g = HostWrite 0 (UHID_GET_REPORT_REPLY 77 0 2 [2, 9])"
  using get_report_round_trip [of 0 1 0 "\<lambda>_ _ _. (2, [2, 9, 0], 0)" 2 2 "[2, 9, 0]" 0 77]
  by (simp add: UHID_DATA_MAX_def) blast

theorem reports_forwarded_witness:
  "host_frame 1 (input_frame 0 [2, 0xf0]) = HostWrite 0 (UHID_INPUT2 2 [2, 0xf0])"
  using reports_forwarded [of 0 1 "[2, 0xf0]" 0 "\<lambda>_ _ b. (2, b, 0)" 2 "[2, 0xf0]" 0 0 0]
  by (simp add: UHID_DATA_MAX_def)

theorem host_creates_every_interface_witness:
  "\<exists>i device ds i' events. host_handshake i = (Inr (device, ds), i') \<and>
     create_devices (\<lambda>_. True) (\<lambda>_. True) device 0 ds = (None, events) \<and> 1 \<le> length events"
proof -
  let ?d = "(blank_device 1) :: DeviceMessage" and ?ds = "[[5, 0x0d, 9]] :: bytes list"
  let ?w = "concat (map frame_bytes (handshake_frames ?d ?ds))"
  have "makes_progress (length ?w) (replicate (length ?w) (Transferred 1))"
    by (simp add: makes_progress_def list_all_length)
  then have "\<exists>rs. host_handshake \<lparr>incoming = ?w @ [], recv_results = replicate (length ?w) (Transferred 1)\<rparr>
      = (Inr (terminate_strings ?d, ?ds), \<lparr>incoming = [], recv_results = rs\<rparr>)"
    using handshake_received [of ?d ?ds "\<lparr>incoming = ?w @ [], recv_results = replicate (length ?w) (Transferred 1)\<rparr>" "[]"]
    by (simp add: device_wf_def blank_device_def descriptor_ok_def HID_MAX_DESCRIPTOR_SIZE_def)
  then obtain i i' where h: "host_handshake i = (Inr (terminate_strings ?d, ?ds), i')" by blast
  have c: "create_devices (\<lambda>_. True) (\<lambda>_. True) (terminate_strings ?d) 0 ?ds
      = (None, [create2_event (terminate_strings ?d) [5, 0x0d, 9]])" by simp
  show ?thesis
    using host_creates_every_interface [OF h c] h c by blast
qed

end
