(* ===== verification/Client_Graphics.thy ===== *)
theory Client_Graphics
  imports C_Strings
begin

text \<open>
  \<^verbatim>\<open>probes/video/plank-probe-client-pipeline.cpp\<close>, the Wayland and EGL part: the extension test,
  the listeners, the initialisation with its gates and the release of what was acquired.
\<close>

section \<open>Extension strings\<close>

text \<open>
  \<open>pos\<close> is where the next \<^verbatim>\<open>strstr\<close> starts. The loop is entered with a name that is not
  empty.
\<close>

function extension_scan :: "string \<Rightarrow> string \<Rightarrow> nat \<Rightarrow> bool" where
  "extension_scan extensions name pos =
     (if name = [] then False
      else case strstr (drop pos extensions) name of
        None \<Rightarrow> False
      | Some k \<Rightarrow>
          let m = pos + k; n = length name in
          if (m = 0 \<or> extensions ! (m - 1) = CHR '' '') \<and>
             (m + n = length extensions \<or> extensions ! (m + n) = CHR '' '')
          then True
          else extension_scan extensions name (m + n))"
  by pat_completeness auto
termination
proof (relation "measure (\<lambda>(e, n, pos). length e - pos)")
  fix extensions name :: string and pos k m n
  assume *: "name \<noteq> []" "strstr (drop pos extensions) name = Some k" "m = pos + k" "n = length name"
  then have "k + length name \<le> length extensions - pos" "0 < length name"
    using strstr_Some [of "drop pos extensions" name k] by auto
  then have "length extensions - (pos + k + length name) < length extensions - pos" by linarith
  then show "((extensions, name, m + n), extensions, name, pos) \<in> measure (\<lambda>(e, n, pos). length e - pos)"
    using * by auto
qed simp

declare extension_scan.simps [simp del]

definition has_extension :: "string option \<Rightarrow> string option \<Rightarrow> bool" where
  "has_extension extensions name =
     (case (extensions, name) of
        (Some e, Some n) \<Rightarrow> if n = [] \<or> CHR '' '' \<in> set n then False else extension_scan e n 0
      | _ \<Rightarrow> False)"

definition word_at :: "string \<Rightarrow> string \<Rightarrow> nat \<Rightarrow> bool" where
  "word_at e n m \<longleftrightarrow> m + length n \<le> length e \<and> take (length n) (drop m e) = n \<and>
     (m = 0 \<or> e ! (m - 1) = CHR '' '') \<and> (m + length n = length e \<or> e ! (m + length n) = CHR '' '')"

lemma word_not_inside:
  assumes "take (length n) (drop m e) = n" and "m + length n \<le> length e" and "CHR '' '' \<notin> set n"
    and "word_at e n j" and "m < j"
  shows "m + length n \<le> j"
proof (rule ccontr)
  assume "\<not> m + length n \<le> j"
  then have j: "j - 1 - m < length n" "m \<le> j - 1" using assms(5) by linarith+
  have "n ! (j - 1 - m) = e ! (j - 1)"
    using assms(1,2) j by (metis le_add_diff_inverse nth_drop nth_take add_leD1)
  moreover have "e ! (j - 1) = CHR '' ''" using assms(4,5) by (auto simp: word_at_def)
  ultimately show False using assms(3) j(1) by (metis nth_mem)
qed

lemma extension_scan_iff:
  "n \<noteq> [] \<Longrightarrow> CHR '' '' \<notin> set n \<Longrightarrow> extension_scan e n pos \<longleftrightarrow> (\<exists>m \<ge> pos. word_at e n m)"
proof (induction e n pos rule: extension_scan.induct)
  case (1 e n pos)
  note n = "1.prems"
  have first: "\<exists>i. strstr (drop pos e) n = Some i \<and> pos + i \<le> m" if "word_at e n m" "pos \<le> m" for m
  proof -
    have "take (length n) (drop (m - pos) (drop pos e)) = n" "m - pos + length n \<le> length (drop pos e)"
      using that by (auto simp: word_at_def)
    from strstr_first [OF this] obtain i where "i \<le> m - pos" "strstr (drop pos e) n = Some i" by blast
    then show ?thesis using that(2) by auto
  qed
  show ?case
  proof (cases "strstr (drop pos e) n")
    case None
    then have "\<not> (\<exists>m \<ge> pos. word_at e n m)" using first by fastforce
    then show ?thesis using None n(1) by (subst extension_scan.simps) simp
  next
    case (Some k)
    let ?m = "pos + k" and ?n = "length n"
    have "k + ?n \<le> length e - pos" "0 < ?n" and m1: "take ?n (drop ?m e) = n"
      using strstr_Some [OF Some] n by (auto simp: add.commute)
    then have m: "take ?n (drop ?m e) = n" "?m + ?n \<le> length e" by linarith+
    show ?thesis
    proof (cases "word_at e n ?m")
      case True
      then have "extension_scan e n pos"
        using Some n by (subst extension_scan.simps) (auto simp: word_at_def Let_def)
      with True show ?thesis using le_add1 by blast
    next
      case False
      then have step: "extension_scan e n pos = extension_scan e n (?m + ?n)"
        using Some n m by (subst extension_scan.simps) (auto simp: word_at_def Let_def)
      have ih: "extension_scan e n (?m + ?n) \<longleftrightarrow> (\<exists>j \<ge> ?m + ?n. word_at e n j)"
        using "1.IH" [OF n(1) Some refl refl] n False m by (auto simp: word_at_def)
      have "?m + ?n \<le> j" if "word_at e n j" "pos \<le> j" for j
      proof -
        have "?m \<le> j" using first [OF that] Some by auto
        with False that have "?m < j" by (cases "?m = j") auto
        then show ?thesis using word_not_inside [OF m n(2) that(1)] by simp
      qed
      then show ?thesis unfolding step ih by (metis add.assoc add_leD1)
    qed
  qed
qed

section \<open>Listeners\<close>

text \<open>
  A bound global is the version it was bound with; \<open>have_commit_timing\<close> and \<open>have_fifo\<close> are
  the build options. A Wayland handle that exists is \<open>True\<close>.
\<close>

record wayland =
  compositor :: "u32 option"
  wm_base :: "u32 option"
  presentation :: "u32 option"
  commit_timing_manager :: bool
  commit_timing_available :: bool
  fifo_manager :: bool
  fifo_available :: bool
  configured :: bool
  surface_width :: int
  surface_height :: int
  window :: "(int \<times> int) option"
  presentation_clock :: u32
  clock_received :: bool

definition wayland_start :: wayland where
  "wayland_start = \<lparr>compositor = None, wm_base = None, presentation = None, commit_timing_manager = False,
     commit_timing_available = False, fifo_manager = False, fifo_available = False, configured = False,
     surface_width = 3840, surface_height = 2160, window = None, presentation_clock = 1,
     clock_received = False\<rparr>"

definition on_registry_global :: "bool \<Rightarrow> bool \<Rightarrow> string \<Rightarrow> u32 \<Rightarrow> wayland \<Rightarrow> wayland" where
  "on_registry_global have_commit_timing have_fifo interface version st =
     (if interface = ''wl_compositor'' then st\<lparr>compositor := Some (min version 4)\<rparr>
      else if interface = ''xdg_wm_base'' then st\<lparr>wm_base := Some 1\<rparr>
      else if interface = ''wp_presentation'' then st\<lparr>presentation := Some (min version 2)\<rparr>
      else if have_commit_timing \<and> interface = ''wp_commit_timing_manager_v1''
      then st\<lparr>commit_timing_available := True, commit_timing_manager := True\<rparr>
      else if have_fifo \<and> interface = ''wp_fifo_manager_v1''
      then st\<lparr>fifo_available := True, fifo_manager := True\<rparr>
      else st)"

definition on_surface_configure :: "wayland \<Rightarrow> wayland" where
  "on_surface_configure st = st\<lparr>configured := True\<rparr>"

definition on_toplevel_configure :: "int \<Rightarrow> int \<Rightarrow> wayland \<Rightarrow> wayland" where
  "on_toplevel_configure width height st =
     (if width > 0 \<and> height > 0
      then let st = st\<lparr>surface_width := width, surface_height := height\<rparr>
           in if window st \<noteq> None then st\<lparr>window := Some (width, height)\<rparr> else st
      else st)"

definition on_clock_id :: "u32 \<Rightarrow> wayland \<Rightarrow> wayland" where
  "on_clock_id clock_id st = st\<lparr>presentation_clock := clock_id, clock_received := True\<rparr>"

text \<open>\<^verbatim>\<open>clock_gettime\<close> gives seconds and nanoseconds, or fails.\<close>

definition clock_ns :: "(u64 \<times> u64) option \<Rightarrow> u64" where
  "clock_ns now = (case now of None \<Rightarrow> 0 | Some (sec, nsec) \<Rightarrow> sec * 1000000000 + nsec)"

datatype surface_event = SurfaceConfigure | ToplevelConfigure int int

fun surface_event_step :: "surface_event \<Rightarrow> wayland \<Rightarrow> wayland" where
  "surface_event_step SurfaceConfigure st = on_surface_configure st"
| "surface_event_step (ToplevelConfigure w h) st = on_toplevel_configure w h st"

text \<open>Dispatching until the surface is configured; the list ends where dispatching fails.\<close>

fun await_configure :: "surface_event list list \<Rightarrow> wayland \<Rightarrow> wayland" where
  "await_configure [] st = st"
| "await_configure (events # rest) st =
     (if configured st then st else await_configure rest (fold surface_event_step events st))"

section \<open>Presentation phase\<close>

record Feedback =
  fb_done :: bool
  fb_presented :: bool
  fb_time_ns :: u64
  fb_refresh_ns :: u32
  fb_flags :: u32

definition blank_feedback :: Feedback where
  "blank_feedback = \<lparr>fb_done = False, fb_presented = False, fb_time_ns = 0, fb_refresh_ns = 0, fb_flags = 0\<rparr>"

definition presentation_time :: "u32 \<Rightarrow> u32 \<Rightarrow> u32 \<Rightarrow> u64" where
  "presentation_time sec_hi sec_lo nsec =
     (push_bit 32 (ucast sec_hi) OR ucast sec_lo) * 1000000000 + ucast nsec"

definition on_presented :: "u32 \<Rightarrow> u32 \<Rightarrow> u32 \<Rightarrow> u32 \<Rightarrow> u32 \<Rightarrow> Feedback \<Rightarrow> Feedback" where
  "on_presented sec_hi sec_lo nsec refresh flags feedback =
     feedback\<lparr>fb_time_ns := presentation_time sec_hi sec_lo nsec, fb_refresh_ns := refresh,
              fb_flags := flags, fb_presented := True, fb_done := True\<rparr>"

definition on_discarded :: "Feedback \<Rightarrow> Feedback" where
  "on_discarded feedback = feedback\<lparr>fb_done := True\<rparr>"

text \<open>
  For each of the eight frames: whether the swap succeeds, and the feedback when the dispatch loop
  ends. The result is the refresh interval and the first target.
\<close>

fun phase_frames :: "(nat \<Rightarrow> bool \<times> Feedback) \<Rightarrow> nat list \<Rightarrow> Feedback \<Rightarrow> Feedback option" where
  "phase_frames answers [] feedback = Some feedback"
| "phase_frames answers (frame # rest) feedback =
     (case answers frame of
        (swapped, feedback) \<Rightarrow>
          if \<not> swapped then None
          else if \<not> fb_presented feedback \<or> fb_refresh_ns feedback = 0 then None
          else phase_frames answers rest feedback)"

definition establish_presentation_phase :: "(nat \<Rightarrow> bool \<times> Feedback) \<Rightarrow> (u64 \<times> u64) option" where
  "establish_presentation_phase answers =
     (case phase_frames answers [0..<8] blank_feedback of
        None \<Rightarrow> None
      | Some feedback \<Rightarrow>
          let refresh = ucast (fb_refresh_ns feedback)
          in Some (refresh, fb_time_ns feedback + 120 * refresh))"

section \<open>Initialisation\<close>

definition fourcc :: "string \<Rightarrow> u32" where
  "fourcc s = of_char (s ! 0) OR push_bit 8 (of_char (s ! 1)) OR push_bit 16 (of_char (s ! 2)) OR
     push_bit 24 (of_char (s ! 3))"

definition DRM_FORMAT_ARGB2101010 :: u32 where "DRM_FORMAT_ARGB2101010 = fourcc ''AR30''"
definition DRM_FORMAT_ABGR2101010 :: u32 where "DRM_FORMAT_ABGR2101010 = fourcc ''AB30''"
definition DRM_FORMAT_XRGB2101010 :: u32 where "DRM_FORMAT_XRGB2101010 = fourcc ''XR30''"
definition DRM_FORMAT_XBGR2101010 :: u32 where "DRM_FORMAT_XBGR2101010 = fourcc ''XB30''"

definition visual_is_10_bit :: "u32 \<Rightarrow> bool" where
  "visual_is_10_bit v \<longleftrightarrow> v = DRM_FORMAT_ARGB2101010 \<or> v = DRM_FORMAT_ABGR2101010 \<or>
     v = DRM_FORMAT_XRGB2101010 \<or> v = DRM_FORMAT_XBGR2101010"

text \<open>What the display server and the graphics libraries answer, in the order of the calls.\<close>

record graphics =
  wl_connects :: bool
  wl_globals :: "(string \<times> u32) list"
  wl_clock_id :: "u32 option"
  wl_clock :: "u32 \<Rightarrow> (u64 \<times> u64) option"
  wl_events :: "surface_event list list"
  egl_display :: bool
  egl_initialize :: bool
  egl_bind_api :: bool
  egl_extensions :: "string option"
  egl_choose_config :: "bool \<times> int"
  egl_red :: int
  egl_green :: int
  egl_blue :: int
  egl_native_visual :: u32
  egl_window :: bool
  egl_surface :: bool
  egl_context :: bool
  egl_make_current :: bool
  gl_extensions :: "string option"
  egl_procs :: "bool \<times> bool \<times> bool"
  gl_shaders :: "bool \<times> bool"
  gl_linked :: bool
  gl_phase :: "nat \<Rightarrow> bool \<times> Feedback"
  egl_release_current :: bool

text \<open>\<open>None\<close> is a \<^verbatim>\<open>false\<close> result; otherwise the state, the refresh interval and the first
  target.\<close>

definition initialize_graphics :: "bool \<Rightarrow> bool \<Rightarrow> graphics \<Rightarrow> (wayland \<times> u64 \<times> u64) option" where
  "initialize_graphics have_commit_timing have_fifo g =
     (if \<not> wl_connects g then None
      else
        let st = fold (\<lambda>(interface, version). on_registry_global have_commit_timing have_fifo interface version)
                   (wl_globals g) wayland_start
        in if compositor st = None \<or> wm_base st = None \<or> presentation st = None then None
           else
             let st = (case wl_clock_id g of None \<Rightarrow> st | Some c \<Rightarrow> on_clock_id c st)
             in if \<not> clock_received st \<or> clock_ns (wl_clock g (presentation_clock st)) = 0 then None
                else
                  let st = await_configure (wl_events g) st
                  in if \<not> egl_display g \<or> \<not> egl_initialize g \<or> \<not> egl_bind_api g then None
                     else if \<not> has_extension (egl_extensions g) (Some ''EGL_EXT_image_dma_buf_import'') \<or>
                             \<not> has_extension (egl_extensions g) (Some ''EGL_EXT_image_dma_buf_import_modifiers'')
                     then None
                     else if \<not> fst (egl_choose_config g) \<or> snd (egl_choose_config g) \<noteq> 1 then None
                     else if egl_red g \<noteq> 10 \<or> egl_green g \<noteq> 10 \<or> egl_blue g \<noteq> 10 \<or>
                             \<not> visual_is_10_bit (egl_native_visual g)
                     then None
                     else
                       let st = (if egl_window g then st\<lparr>window := Some (surface_width st, surface_height st)\<rparr> else st)
                       in if \<not> egl_window g \<or> \<not> egl_surface g \<or> \<not> egl_context g \<or> \<not> egl_make_current g
                          then None
                          else if \<not> has_extension (gl_extensions g) (Some ''GL_OES_EGL_image_external_essl3'')
                          then None
                          else if \<not> fst (egl_procs g) \<or> \<not> fst (snd (egl_procs g)) \<or> \<not> snd (snd (egl_procs g))
                          then None
                          else if \<not> fst (gl_shaders g) \<or> \<not> snd (gl_shaders g) then None
                          else if \<not> gl_linked g then None
                          else case establish_presentation_phase (gl_phase g) of
                            None \<Rightarrow> None
                          | Some (refresh, target) \<Rightarrow>
                              if egl_release_current g then Some (st, refresh, target) else None)"

section \<open>What an accepted initialisation guarantees\<close>

text \<open>An extension is found exactly when its name is not empty, contains no space and occurs in the
  extension string as a whole word, bounded by spaces or the ends of the string.\<close>

theorem has_extension_iff:
  "has_extension (Some e) (Some n) \<longleftrightarrow> n \<noteq> [] \<and> CHR '' '' \<notin> set n \<and> (\<exists>m. word_at e n m)"
  by (auto simp: has_extension_def extension_scan_iff)

lemma has_extension_word: "has_extension e (Some n) \<Longrightarrow> \<exists>x. e = Some x \<and> (\<exists>m. word_at x n m)"
  by (cases e) (auto simp: has_extension_def extension_scan_iff split: if_splits)

definition surface_ok :: "wayland \<Rightarrow> bool" where
  "surface_ok st \<longleftrightarrow> surface_width st > 0 \<and> surface_height st > 0"

definition required_globals :: "wayland \<Rightarrow> bool" where
  "required_globals st \<longleftrightarrow> compositor st \<noteq> None \<and> wm_base st \<noteq> None \<and> presentation st \<noteq> None"

lemma on_registry_global_surface:
  "surface_ok (on_registry_global c f i v st) = surface_ok st"
  by (simp add: on_registry_global_def surface_ok_def)

lemma registry_surface:
  "surface_ok (fold (\<lambda>(i, v). on_registry_global c f i v) gs st) = surface_ok st"
proof (induction gs arbitrary: st)
  case (Cons g gs)
  then show ?case by (cases g) (simp add: on_registry_global_surface)
qed simp

lemma surface_event_step_keeps:
  "surface_ok st \<Longrightarrow> surface_ok (surface_event_step e st)"
  "required_globals (surface_event_step e st) = required_globals st"
  "clock_received (surface_event_step e st) = clock_received st"
  by (cases e; simp add: surface_ok_def required_globals_def on_surface_configure_def
      on_toplevel_configure_def Let_def)+

lemma surface_events_keep:
  "surface_ok st \<Longrightarrow> surface_ok (fold surface_event_step es st)"
  "required_globals (fold surface_event_step es st) = required_globals st"
  "clock_received (fold surface_event_step es st) = clock_received st"
  by (induction es arbitrary: st) (auto simp: surface_event_step_keeps)

lemma await_configure_keeps:
  "surface_ok st \<Longrightarrow> surface_ok (await_configure ess st)"
  "required_globals (await_configure ess st) = required_globals st"
  "clock_received (await_configure ess st) = clock_received st"
  by (induction ess arbitrary: st) (auto simp: surface_events_keep)

lemma phase_frames_Some:
  assumes "phase_frames answers fs fb = Some out"
  shows "(\<forall>f \<in> set fs. fst (answers f) \<and> fb_presented (snd (answers f)) \<and> fb_refresh_ns (snd (answers f)) \<noteq> 0) \<and>
         out = (if fs = [] then fb else snd (answers (last fs)))"
  using assms
  by (induction fs arbitrary: fb) (auto split: prod.splits if_splits)

lemma establish_presentation_phase_Some:
  assumes "establish_presentation_phase answers = Some (refresh, target)"
  shows "\<forall>f < 8. fst (answers f) \<and> fb_presented (snd (answers f)) \<and> fb_refresh_ns (snd (answers f)) \<noteq> 0"
    and "refresh = ucast (fb_refresh_ns (snd (answers 7)))"
    and "target = fb_time_ns (snd (answers 7)) + 120 * refresh"
proof -
  obtain fb where fb: "phase_frames answers [0..<8] blank_feedback = Some fb"
    "refresh = ucast (fb_refresh_ns fb)" "target = fb_time_ns fb + 120 * refresh"
    using assms by (auto simp: establish_presentation_phase_def Let_def split: option.splits)
  note * = phase_frames_Some [OF fb(1)]
  then show "\<forall>f < 8. fst (answers f) \<and> fb_presented (snd (answers f)) \<and> fb_refresh_ns (snd (answers f)) \<noteq> 0"
    by simp
  have "fb = snd (answers 7)" using * by (simp add: last_upt)
  then show "refresh = ucast (fb_refresh_ns (snd (answers 7)))"
    "target = fb_time_ns (snd (answers 7)) + 120 * refresh" using fb(2,3) by simp_all
qed

lemma ucast_u32_u64_eq_0: "(ucast (x :: u32) :: u64) = 0 \<longleftrightarrow> x = 0"
  using unat_ucast_up [of x, where 'b = 64] by (auto simp: unat_eq_zero)

definition window_ready :: "wayland \<Rightarrow> bool" where
  "window_ready st \<longleftrightarrow> required_globals st \<and> clock_received st \<and> surface_ok st \<and>
     window st = Some (surface_width st, surface_height st)"

definition extension_listed :: "string option \<Rightarrow> string \<Rightarrow> bool" where
  "extension_listed e n \<longleftrightarrow> (\<exists>x. e = Some x \<and> (\<exists>m. word_at x n m))"

lemma initialize_graphics_Some:
  assumes "initialize_graphics c f g = Some (st, refresh, target)"
  shows "window_ready st"
    and "extension_listed (egl_extensions g) ''EGL_EXT_image_dma_buf_import''"
    and "extension_listed (egl_extensions g) ''EGL_EXT_image_dma_buf_import_modifiers''"
    and "extension_listed (gl_extensions g) ''GL_OES_EGL_image_external_essl3''"
    and "egl_red g = 10" "egl_green g = 10" "egl_blue g = 10" "visual_is_10_bit (egl_native_visual g)"
    and "establish_presentation_phase (gl_phase g) = Some (refresh, target)"
proof -
  define st0 where "st0 = fold (\<lambda>(i, v). on_registry_global c f i v) (wl_globals g) wayland_start"
  define st1 where "st1 = (case wl_clock_id g of None \<Rightarrow> st0 | Some k \<Rightarrow> on_clock_id k st0)"
  define st2 where "st2 = await_configure (wl_events g) st1"
  note run = assms [unfolded initialize_graphics_def, folded st0_def, unfolded Let_def, folded st1_def, folded st2_def]
  have st: "st = st2\<lparr>window := Some (surface_width st2, surface_height st2)\<rparr>"
    using run by (simp split: if_splits option.splits prod.splits)
  have "surface_ok st0" unfolding st0_def registry_surface by (simp add: surface_ok_def wayland_start_def)
  then have "surface_ok st1" by (auto simp: st1_def on_clock_id_def surface_ok_def split: option.split)
  moreover have "required_globals st0" using run by (auto simp: required_globals_def split: if_splits)
  then have "required_globals st1"
    by (auto simp: st1_def on_clock_id_def required_globals_def split: option.split)
  moreover have "clock_received st1" using run by (simp split: if_splits)
  ultimately have "surface_ok st2" "required_globals st2" "clock_received st2"
    by (simp_all add: st2_def await_configure_keeps)
  then show "window_ready st" by (simp add: st window_ready_def surface_ok_def required_globals_def)
  have "has_extension (egl_extensions g) (Some ''EGL_EXT_image_dma_buf_import'')"
    "has_extension (egl_extensions g) (Some ''EGL_EXT_image_dma_buf_import_modifiers'')"
    "has_extension (gl_extensions g) (Some ''GL_OES_EGL_image_external_essl3'')"
    using run by (simp_all split: if_splits)
  then show "extension_listed (egl_extensions g) ''EGL_EXT_image_dma_buf_import''"
    "extension_listed (egl_extensions g) ''EGL_EXT_image_dma_buf_import_modifiers''"
    "extension_listed (gl_extensions g) ''GL_OES_EGL_image_external_essl3''"
    by (simp_all only: extension_listed_def has_extension_word)
  show "egl_red g = 10" "egl_green g = 10" "egl_blue g = 10" "visual_is_10_bit (egl_native_visual g)"
    "establish_presentation_phase (gl_phase g) = Some (refresh, target)"
    using run by (simp_all split: if_splits option.splits)
qed

text \<open>When the graphics initialisation succeeds, the three required globals are bound, the clock of the
  compositor is known, the window has the positive size of the surface, the three extensions are listed as
  whole words, the chosen configuration is a 10-bit visual with 10-bit components, each of the eight phase
  frames was presented with a non-zero refresh interval, and the first target lies 120 refresh intervals
  after the last of them, with a refresh interval that is not zero.\<close>

theorem graphics_gate_sound:
  assumes "initialize_graphics c f g = Some (st, refresh, target)"
  shows "window_ready st \<and>
    extension_listed (egl_extensions g) ''EGL_EXT_image_dma_buf_import'' \<and>
    extension_listed (egl_extensions g) ''EGL_EXT_image_dma_buf_import_modifiers'' \<and>
    extension_listed (gl_extensions g) ''GL_OES_EGL_image_external_essl3'' \<and>
    egl_red g = 10 \<and> egl_green g = 10 \<and> egl_blue g = 10 \<and> visual_is_10_bit (egl_native_visual g) \<and>
    (\<forall>k < 8. fst (gl_phase g k) \<and> fb_presented (snd (gl_phase g k)) \<and> fb_refresh_ns (snd (gl_phase g k)) \<noteq> 0) \<and>
    refresh \<noteq> 0 \<and> refresh = ucast (fb_refresh_ns (snd (gl_phase g 7))) \<and>
    target = fb_time_ns (snd (gl_phase g 7)) + 120 * refresh"
proof -
  note i = initialize_graphics_Some [OF assms] and p = establish_presentation_phase_Some [OF initialize_graphics_Some(9) [OF assms]]
  have "fb_refresh_ns (snd (gl_phase g 7)) \<noteq> 0" using p(1) by simp
  then have "refresh \<noteq> 0" unfolding p(2) ucast_u32_u64_eq_0 .
  then show ?thesis using i(1-8) p by blast
qed

definition sample_graphics :: graphics where
  "sample_graphics = \<lparr>wl_connects = True,
     wl_globals = [(''wl_compositor'', 6), (''xdg_wm_base'', 3), (''wl_shm'', 1), (''wp_presentation'', 1)],
     wl_clock_id = Some 1, wl_clock = (\<lambda>_. Some (1000, 5)),
     wl_events = [[ToplevelConfigure 2560 1440, SurfaceConfigure], [ToplevelConfigure 1 1]],
     egl_display = True, egl_initialize = True, egl_bind_api = True,
     egl_extensions = Some ''EGL_EXT_image_dma_buf_import_modifiers EGL_EXT_image_dma_buf_import'',
     egl_choose_config = (True, 1), egl_red = 10, egl_green = 10, egl_blue = 10,
     egl_native_visual = DRM_FORMAT_XRGB2101010, egl_window = True, egl_surface = True, egl_context = True,
     egl_make_current = True, gl_extensions = Some ''GL_OES_EGL_image_external_essl3'',
     egl_procs = (True, True, True), gl_shaders = (True, True), gl_linked = True,
     gl_phase = (\<lambda>k. (True, on_presented 0 1000 (of_nat k) 16666667 7 blank_feedback)),
     egl_release_current = True\<rparr>"


theorem graphics_gate_sound_witness:
  "\<exists>st. initialize_graphics False False sample_graphics =
       Some (st, 16666667, 1000000000007 + 120 * 16666667) \<and> window_ready st \<and> window st = Some (2560, 1440)"
proof -
  have "map_option (\<lambda>(st, r, t). (window st, r, t)) (initialize_graphics False False sample_graphics)
      = Some (Some (2560, 1440), 16666667, 1000000000007 + 120 * 16666667)"
    by code_simp
  then obtain st where *: "initialize_graphics False False sample_graphics =
       Some (st, 16666667, 1000000000007 + 120 * 16666667)" "window st = Some (2560, 1440)"
    by (cases "initialize_graphics False False sample_graphics") (auto simp only: option.map prod.case)
  from graphics_gate_sound [OF *(1)] have "window_ready st" by (elim conjE)
  with * show ?thesis by blast
qed

end
