(* ===== verification/Ieee_Double.thy ===== *)
theory Ieee_Double
  imports Complex_Main Plank_Prelude "HOL-Library.Log_Nat"
begin

text \<open>
  The double-precision arithmetic the probes use for their statistics. A double is the rational
  number it denotes; an operation is the exact operation followed by \<open>rnd64\<close>, rounding to nearest
  with ties to even at 53 significant bits. Every number that occurs is 0 or far inside the range of
  normal doubles, so neither overflow nor subnormal numbers arise.
\<close>

section \<open>Binary logarithm of a positive rational\<close>

lemma powi2_less_iff: "(2 :: rat) powi a < 2 powi b \<longleftrightarrow> a < b"
proof
  assume "(2 :: rat) powi a < 2 powi b"
  then show "a < b"
    using power_int_increasing [of b a "2 :: rat"] by (cases "a < b") auto
qed (use power_int_strict_increasing [of a b "2 :: rat"] in simp)

lemma powi2_shift: "(2 :: rat) powi (a + int n) = of_int (2 ^ n) * 2 powi a"
  by (simp add: power_int_add mult.commute)

definition ilog2 :: "rat \<Rightarrow> int" where
  "ilog2 x =
     (let (p, q) = quotient_of x;
          k = int (floorlog 2 (nat p)) - int (floorlog 2 (nat q))
      in if 2 powi k \<le> x then k else k - 1)"

lemma floorlog2_bounds:
  assumes "0 < n"
  shows "(2 :: rat) powi (int (floorlog 2 n) - 1) \<le> of_nat n" "of_nat n < (2 :: rat) powi (int (floorlog 2 n))"
proof -
  have "floorlog 2 n \<noteq> 0" using assms by (simp add: floorlog_eq_zero_iff)
  then have b: "0 < floorlog 2 n" by simp
  have n: "2 ^ (floorlog 2 n - 1) \<le> n \<and> n < 2 ^ floorlog 2 n"
    by (rule floorlog_bounds) (use assms in simp_all)
  have "int (floorlog 2 n) - 1 = int (floorlog 2 n - 1)" using b by linarith
  then have "(2 :: rat) powi (int (floorlog 2 n) - 1) = of_nat (2 ^ (floorlog 2 n - 1))"
    by (simp only: power_int_of_nat of_nat_power of_nat_numeral)
  then show "(2 :: rat) powi (int (floorlog 2 n) - 1) \<le> of_nat n" using n by (simp only: of_nat_le_iff)
  have "(2 :: rat) powi (int (floorlog 2 n)) = of_nat (2 ^ floorlog 2 n)"
    by (simp only: power_int_of_nat of_nat_power of_nat_numeral)
  then show "of_nat n < (2 :: rat) powi (int (floorlog 2 n))" using n by (simp only: of_nat_less_iff)
qed

lemma ilog2_bounds:
  assumes "0 < x"
  shows "2 powi (ilog2 x) \<le> x" "x < 2 powi (ilog2 x + 1)"
proof -
  obtain p q where pq: "quotient_of x = (p, q)" by fastforce
  have q: "0 < q" using quotient_of_denom_pos [OF pq] .
  have x: "x = of_int p / of_int q" using quotient_of_div [OF pq] .
  have p: "0 < p" using assms q by (simp add: x zero_less_divide_iff)
  define a b where "a = int (floorlog 2 (nat p))" and "b = int (floorlog 2 (nat q))"
  have bp: "(2 :: rat) powi (a - 1) \<le> of_int p" "of_int p < (2 :: rat) powi a"
    using floorlog2_bounds [of "nat p"] p by (simp_all add: a_def)
  have bq: "(2 :: rat) powi (b - 1) \<le> of_int q" "of_int q < (2 :: rat) powi b"
    using floorlog2_bounds [of "nat q"] q by (simp_all add: b_def)
  have hi: "x < 2 powi (a - b + 1)"
  proof -
    have "of_int p * 2 powi (b - 1) < 2 powi a * (of_int q :: rat)"
      using bp(2) bq(1) p q by (intro mult_less_le_imp_less) auto
    then have "x * 2 powi (b - 1) < 2 powi a"
      using q by (simp add: x field_simps)
    then have "x < 2 powi a / 2 powi (b - 1)" by (simp add: field_simps)
    then show ?thesis by (simp add: power_int_diff [symmetric] algebra_simps)
  qed
  have lo: "2 powi (a - b - 1) \<le> x"
  proof -
    have "2 powi (a - 1) * of_int q \<le> (of_int p :: rat) * 2 powi b"
      using bp(1) bq(2) p q by (intro mult_mono) auto
    then have "2 powi (a - 1) / 2 powi b \<le> x"
      using q by (simp add: x field_simps)
    then show ?thesis by (simp add: power_int_diff [symmetric] algebra_simps)
  qed
  have il: "ilog2 x = (if 2 powi (a - b) \<le> x then a - b else a - b - 1)"
    by (simp add: ilog2_def pq a_def b_def)
  show "2 powi (ilog2 x) \<le> x" "x < 2 powi (ilog2 x + 1)"
    using hi lo by (auto simp: il)
qed

lemma ilog2_unique:
  assumes "2 powi k \<le> x" and "x < 2 powi (k + 1)"
  shows "ilog2 x = k"
proof -
  have x: "0 < x" using assms(1) by (meson less_le_trans zero_less_power_int zero_less_numeral)
  note b = ilog2_bounds [OF x]
  have "(2 :: rat) powi k < 2 powi (ilog2 x + 1)" "(2 :: rat) powi (ilog2 x) < 2 powi (k + 1)"
    using assms b by linarith+
  then have "k < ilog2 x + 1" "ilog2 x < k + 1"
    by (simp_all only: powi2_less_iff)
  then show ?thesis by simp
qed

lemma ilog2_mono:
  assumes "0 < x" and "x \<le> y"
  shows "ilog2 x \<le> ilog2 y"
proof -
  have "(2 :: rat) powi (ilog2 x) < 2 powi (ilog2 y + 1)"
    using ilog2_bounds [of x] ilog2_bounds [of y] assms by linarith
  then have "ilog2 x < ilog2 y + 1" by (simp only: powi2_less_iff)
  then show ?thesis by simp
qed

section \<open>Rounding\<close>

definition round_half_even :: "rat \<Rightarrow> int" where
  "round_half_even x =
     (let f = \<lfloor>x\<rfloor>; r = x - of_int f
      in if r < 1 / 2 then f else if r > 1 / 2 then f + 1 else if even f then f else f + 1)"

lemma round_half_even_of_int [simp]: "round_half_even (of_int n) = n"
  by (simp add: round_half_even_def)

lemma round_half_even_mono:
  assumes "x \<le> y"
  shows "round_half_even x \<le> round_half_even y"
proof (cases "\<lfloor>x\<rfloor> = \<lfloor>y\<rfloor>")
  case True
  then show ?thesis using assms by (auto simp: round_half_even_def Let_def)
next
  case False
  then have "\<lfloor>x\<rfloor> + 1 \<le> \<lfloor>y\<rfloor>" using floor_mono [OF assms] by simp
  moreover have "round_half_even x \<le> \<lfloor>x\<rfloor> + 1" "\<lfloor>y\<rfloor> \<le> round_half_even y"
    by (auto simp: round_half_even_def Let_def)
  ultimately show ?thesis by simp
qed

definition rnd64 :: "rat \<Rightarrow> rat" where
  "rnd64 x =
     (if x = 0 then 0
      else let e = ilog2 \<bar>x\<bar> - 52 in of_int (round_half_even (x / 2 powi e)) * 2 powi e)"

lemma rnd64_0 [simp]: "rnd64 0 = 0"
  by (simp add: rnd64_def)

text \<open>A positive number is rounded within its binade.\<close>

lemma rnd64_binade:
  assumes "0 < x"
  shows "2 powi (ilog2 x) \<le> rnd64 x" "rnd64 x \<le> 2 powi (ilog2 x + 1)"
proof -
  let ?e = "ilog2 x - 52" and ?m = "x / 2 powi (ilog2 x - 52)"
  have p: "(2 :: rat) powi ?e > 0" by simp
  have e: "(2 :: rat) powi (ilog2 x) = of_int (2 ^ 52) * 2 powi ?e"
      "(2 :: rat) powi (ilog2 x + 1) = of_int (2 ^ 53) * 2 powi ?e"
    using powi2_shift [of ?e 52] powi2_shift [of ?e 53] by (simp_all add: algebra_simps)
  have "of_int (2 ^ 52) \<le> ?m" "?m \<le> of_int (2 ^ 53)"
    using ilog2_bounds [OF assms] e p by (simp_all add: field_simps)
  then have "2 ^ 52 \<le> round_half_even ?m" "round_half_even ?m \<le> 2 ^ 53"
    using round_half_even_mono [of "of_int (2 ^ 52)" ?m] round_half_even_mono [of ?m "of_int (2 ^ 53)"]
    by (simp_all only: round_half_even_of_int)
  then have "(of_int (2 ^ 52) :: rat) \<le> of_int (round_half_even ?m)" "of_int (round_half_even ?m) \<le> (of_int (2 ^ 53) :: rat)"
    by (simp_all only: of_int_le_iff)
  then show "2 powi (ilog2 x) \<le> rnd64 x" "rnd64 x \<le> 2 powi (ilog2 x + 1)"
    using assms p unfolding e by (simp_all add: rnd64_def Let_def mult_right_mono)
qed

lemma rnd64_nonneg: "0 \<le> x \<Longrightarrow> 0 \<le> rnd64 x"
proof (cases "x = 0")
  case False
  moreover assume "0 \<le> x"
  ultimately have "2 powi (ilog2 x) \<le> rnd64 x" by (intro rnd64_binade) simp
  moreover have "(0 :: rat) < 2 powi (ilog2 x)" by simp
  ultimately show ?thesis by linarith
qed simp

lemma rnd64_mono:
  assumes "0 \<le> x" and "x \<le> y"
  shows "rnd64 x \<le> rnd64 y"
proof (cases "x = 0")
  case True
  then show ?thesis using rnd64_nonneg assms by simp
next
  case False
  then have x: "0 < x" and y: "0 < y" using assms by simp_all
  show ?thesis
  proof (cases "ilog2 x = ilog2 y")
    case True
    have "x / 2 powi (ilog2 y - 52) \<le> y / 2 powi (ilog2 y - 52)"
      using assms(2) by (simp add: divide_right_mono)
    then have "(of_int (round_half_even (x / 2 powi (ilog2 y - 52))) :: rat)
        \<le> of_int (round_half_even (y / 2 powi (ilog2 y - 52)))"
      using round_half_even_mono by simp
    then show ?thesis
      using x y True by (simp add: rnd64_def Let_def mult_right_mono)
  next
    case False
    then have "ilog2 x + 1 \<le> ilog2 y" using ilog2_mono [OF x assms(2)] by simp
    then have "(2 :: rat) powi (ilog2 x + 1) \<le> 2 powi (ilog2 y)"
      by (intro power_int_increasing) simp_all
    then show ?thesis using rnd64_binade(2) [OF x] rnd64_binade(1) [OF y] by linarith
  qed
qed

lemma round_half_even_minus: "round_half_even (- x) = - round_half_even x"
proof (cases "x = of_int \<lfloor>x\<rfloor>")
  case True
  then show ?thesis by (metis of_int_minus round_half_even_of_int)
next
  case False
  define f where "f = \<lfloor>x\<rfloor>"
  have b: "of_int f < x" "x < of_int f + 1" using False floor_correct [of x] unfolding f_def by linarith+
  then have "\<lfloor>- x\<rfloor> = - f - 1" by (simp add: floor_eq_iff)
  then show ?thesis
    using b unfolding round_half_even_def Let_def f_def [symmetric] by auto
qed

lemma rnd64_minus: "rnd64 (- x) = - rnd64 x"
  by (simp add: rnd64_def Let_def round_half_even_minus minus_divide_left [symmetric] del: minus_divide_left)

lemma rnd64_le:
  assumes "x \<le> y"
  shows "rnd64 x \<le> rnd64 y"
proof (cases "0 \<le> x")
  case False
  show ?thesis
  proof (cases "0 \<le> y")
    case True
    have "0 \<le> rnd64 (- x)" using rnd64_nonneg [of "- x"] \<open>\<not> 0 \<le> x\<close> by simp
    then show ?thesis using rnd64_nonneg [OF True] by (simp add: rnd64_minus)
  next
    case False
    then have "rnd64 (- y) \<le> rnd64 (- x)" using assms by (intro rnd64_mono) simp_all
    then show ?thesis by (simp add: rnd64_minus)
  qed
qed (use rnd64_mono assms in blast)

lemma rnd64_scaled:
  assumes "0 < x" and "x = of_int m * 2 powi (ilog2 x - 52)"
  shows "rnd64 x = x"
proof -
  have "x / 2 powi (ilog2 x - 52) = of_int m"
    by (subst (1) assms(2)) simp
  then show ?thesis using assms by (simp add: rnd64_def)
qed

lemma rnd64_nat:
  assumes "n \<le> 2 ^ 53"
  shows "rnd64 (of_nat n) = of_nat n"
proof -
  consider "n = 0" | "n = 2 ^ 53" | "0 < n" "n < 2 ^ 53" using assms by linarith
  then show ?thesis
  proof cases
    case 2
    have "ilog2 (of_nat n) = 53" unfolding 2 by (rule ilog2_unique) simp_all
    then show ?thesis
      by (intro rnd64_scaled [where m = "2 ^ 52"]) (simp_all add: 2)
  next
    case 3
    let ?x = "of_nat n :: rat"
    have "(2 :: rat) powi (ilog2 ?x) < 2 powi 53"
      using ilog2_bounds(1) [of ?x] 3 of_nat_less_iff [of n "2 ^ 53", where 'a = rat] by simp
    then have "ilog2 ?x < 53" by (simp only: powi2_less_iff)
    then obtain k where k: "ilog2 ?x - 52 = - int k"
      using that [of "nat (52 - ilog2 ?x)"] by simp
    have "of_int (int n * 2 ^ k) * 2 powi (ilog2 ?x - 52) = ?x"
      unfolding k by (simp add: power_int_minus)
    then show ?thesis
      using 3 by (intro rnd64_scaled [where m = "int n * 2 ^ k"]) simp_all
  qed simp
qed

section \<open>Operations\<close>

definition dbl_of_u64 :: "u64 \<Rightarrow> rat" where
  "dbl_of_u64 x = rnd64 (of_nat (unat x))"

definition dbl_of_i64 :: "int \<Rightarrow> rat" where
  "dbl_of_i64 x = rnd64 (of_int x)"

definition dbl_mul :: "rat \<Rightarrow> rat \<Rightarrow> rat" where
  "dbl_mul a b = rnd64 (a * b)"

definition dbl_div :: "rat \<Rightarrow> rat \<Rightarrow> rat" where
  "dbl_div a b = rnd64 (a / b)"

text \<open>Nanoseconds as a number of milliseconds: \<^verbatim>\<open>static_cast<double>(ns) / 1000000.0\<close>.\<close>

definition ns_to_ms :: "u64 \<Rightarrow> rat" where
  "ns_to_ms ns = dbl_div (dbl_of_u64 ns) 1000000"

lemma ns_to_ms_mono:
  assumes "a \<le> b"
  shows "ns_to_ms a \<le> ns_to_ms b"
proof -
  have "(of_nat (unat a) :: rat) \<le> of_nat (unat b)" "(0 :: rat) \<le> of_nat (unat a)"
    using assms by (simp_all only: word_le_nat_alt of_nat_le_iff of_nat_0_le_iff)
  then have "rnd64 (of_nat (unat a)) \<le> rnd64 (of_nat (unat b))" "0 \<le> rnd64 (of_nat (unat a))"
    using rnd64_mono rnd64_nonneg by blast+
  then have "dbl_of_u64 a \<le> dbl_of_u64 b" "0 \<le> dbl_of_u64 a"
    by (simp_all only: dbl_of_u64_def)
  then show ?thesis
    using rnd64_mono [of "dbl_of_u64 a / 1000000" "dbl_of_u64 b / 1000000"]
    by (simp add: ns_to_ms_def dbl_div_def divide_right_mono)
qed

lemma rnd64_fraction: "0 \<le> x \<Longrightarrow> x \<le> 1 \<Longrightarrow> 0 \<le> rnd64 x \<and> rnd64 x \<le> 1"
  using rnd64_nonneg [of x] rnd64_mono [of x 1] rnd64_nat [of 1] by simp

section \<open>Percentiles\<close>

definition percentile_index :: "nat \<Rightarrow> rat \<Rightarrow> nat" where
  "percentile_index n fraction = nat \<lfloor>dbl_mul fraction (rnd64 (of_nat (n - 1)))\<rfloor>"

definition percentile :: "rat list \<Rightarrow> rat \<Rightarrow> rat" where
  "percentile values fraction =
     (if values = [] then 0 else sort values ! percentile_index (length values) fraction)"

lemma percentile_index_bound:
  assumes "0 < n" and "n \<le> 2 ^ 53" and "0 \<le> fraction" and "fraction \<le> 1"
  shows "percentile_index n fraction < n"
proof -
  have e: "rnd64 (of_nat (n - 1)) = of_nat (n - 1)"
    using assms(2) by (intro rnd64_nat) simp
  have "fraction * of_nat (n - 1) \<le> of_nat (n - 1)"
    using mult_right_mono [OF assms(4), of "of_nat (n - 1)"] by simp
  then have "rnd64 (fraction * of_nat (n - 1)) \<le> of_nat (n - 1)"
    using rnd64_mono [of "fraction * of_nat (n - 1)" "of_nat (n - 1)"] assms(3) e by simp
  then have "\<lfloor>rnd64 (fraction * of_nat (n - 1))\<rfloor> \<le> int (n - 1)"
    by (metis floor_mono floor_of_nat)
  then show ?thesis
    using assms(1) e by (simp add: percentile_index_def dbl_mul_def)
qed

text \<open>The rank of an element of a sorted list, from below and from above.\<close>

lemma sorted_nth_rank:
  fixes xs :: "'a::linorder list"
  assumes "sorted xs" and "i < length xs"
  shows "Suc i \<le> length (filter (\<lambda>v. v \<le> xs ! i) xs)" "length xs - i \<le> length (filter (\<lambda>v. xs ! i \<le> v) xs)"
proof -
  have low: "filter (\<lambda>v. v \<le> xs ! i) (take (Suc i) xs) = take (Suc i) xs"
    using assms by (auto simp: filter_id_conv in_set_conv_nth less_Suc_eq_le sorted_nth_mono)
  have high: "filter (\<lambda>v. xs ! i \<le> v) (drop i xs) = drop i xs"
    using assms by (auto simp: filter_id_conv in_set_conv_nth sorted_nth_mono)
  have "length (take (Suc i) xs) \<le> length (filter (\<lambda>v. v \<le> xs ! i) (take (Suc i) xs @ drop (Suc i) xs))"
    unfolding filter_append low by simp
  then show "Suc i \<le> length (filter (\<lambda>v. v \<le> xs ! i) xs)" using assms(2) by simp
  have "length (drop i xs) \<le> length (filter (\<lambda>v. xs ! i \<le> v) (take i xs @ drop i xs))"
    unfolding filter_append high by simp
  then show "length xs - i \<le> length (filter (\<lambda>v. xs ! i \<le> v) xs)" by simp
qed

lemma length_filter_le_filter: "(\<And>x. P x \<Longrightarrow> Q x) \<Longrightarrow> length (filter P xs) \<le> length (filter Q xs)"
  by (induction xs) auto

text \<open>An element of a sorted list passes a bound exactly when as many elements do as its rank says.\<close>

lemma sorted_rank_iff:
  fixes xs :: "'a::linorder list"
  assumes "sorted xs" and "i < length xs" and down: "\<And>u v. u \<le> v \<Longrightarrow> ok v \<Longrightarrow> ok u"
  shows "ok (xs ! i) \<longleftrightarrow> Suc i \<le> length (filter ok xs)"
proof
  assume b: "ok (xs ! i)"
  have "Suc i \<le> length (filter (\<lambda>v. v \<le> xs ! i) xs)" by (rule sorted_nth_rank(1) [OF assms(1,2)])
  also have "\<dots> \<le> length (filter ok xs)" using down b by (intro length_filter_le_filter) blast
  finally show "Suc i \<le> length (filter ok xs)" .
next
  assume le: "Suc i \<le> length (filter ok xs)"
  show "ok (xs ! i)"
  proof (rule ccontr)
    assume out: "\<not> ok (xs ! i)"
    have "length xs - i \<le> length (filter (\<lambda>v. xs ! i \<le> v) xs)" by (rule sorted_nth_rank(2) [OF assms(1,2)])
    also have "\<dots> \<le> length (filter (\<lambda>v. \<not> ok v) xs)" using down out by (intro length_filter_le_filter) blast
    finally show False using le assms(2) sum_length_filter_compl [of ok xs] by linarith
  qed
qed

lemma length_filter_sort: "length (filter P (sort xs)) = length (filter P xs)"
  by (metis filter_sort length_sort)

lemma percentile_between:
  assumes "values \<noteq> []" and "length values \<le> 2 ^ 53" and "0 \<le> fraction" and "fraction \<le> 1"
  shows "percentile values fraction \<in> set values"
    and "Suc (percentile_index (length values) fraction) \<le> length (filter (\<lambda>v. v \<le> percentile values fraction) values)"
    and "length values - percentile_index (length values) fraction
      \<le> length (filter (\<lambda>v. percentile values fraction \<le> v) values)"
proof -
  let ?i = "percentile_index (length values) fraction"
  have i: "?i < length (sort values)" using percentile_index_bound assms by simp
  have p: "percentile values fraction = sort values ! ?i" using assms(1) by (simp add: percentile_def)
  show "percentile values fraction \<in> set values" unfolding p by (metis i nth_mem set_sort)
  show "Suc ?i \<le> length (filter (\<lambda>v. v \<le> percentile values fraction) values)"
    "length values - ?i \<le> length (filter (\<lambda>v. percentile values fraction \<le> v) values)"
    using sorted_nth_rank [OF sorted_sort i] unfolding p length_filter_sort by simp_all
qed

end
