(* ===== verification/Refresh_Grid.thy ===== *)
theory Refresh_Grid
  imports Plank_Prelude
begin

text \<open>
  The wake-up schedule of the client probes: a frame is submitted a lead before its target, targets lie
  on a grid of refresh intervals, and a late frame moves the grid on by whole intervals. The 64-bit
  arithmetic is shown to follow the schedule over the natural numbers.
\<close>

section \<open>The schedule\<close>

text \<open>The wake-up time of a frame and the first target, moved on by whole periods when it is late.\<close>

definition schedule_wake :: "u64 \<Rightarrow> u64 \<Rightarrow> u64 \<Rightarrow> u64 \<Rightarrow> u64 \<Rightarrow> u64 \<times> u64" where
  "schedule_wake first_target n refresh lead now =
     (let target = first_target + (n - 1) * refresh - lead
      in if target \<le> now
         then let periods = (now - target) div refresh + 1
              in (target + periods * refresh, first_target + periods * refresh)
         else (target, first_target))"

text \<open>\<^verbatim>\<open>clock_nanosleep\<close> is repeated while it is interrupted; the list holds its results.\<close>

definition EINTR :: int where "EINTR = 4"

fun sleep_until :: "int list \<Rightarrow> int option" where
  "sleep_until [] = None"
| "sleep_until (status # rest) = (if status = EINTR then sleep_until rest else Some status)"

section \<open>The schedule over the natural numbers\<close>

text \<open>The schedule over the natural numbers: the next wake-up of the grid after \<open>now\<close>.\<close>

definition grid_wake :: "nat \<Rightarrow> nat \<Rightarrow> nat \<Rightarrow> nat" where
  "grid_wake base refresh now = (if base \<le> now then base + ((now - base) div refresh + 1) * refresh else base)"

lemma grid_wake:
  assumes "0 < refresh"
  shows "now < grid_wake base refresh now" "grid_wake base refresh now \<le> max base (now + refresh)"
    "\<exists>k. grid_wake base refresh now = base + k * refresh"
proof -
  define q where "q = (now - base) div refresh * refresh"
  have "q \<le> now - base" "now - base < q + refresh"
    using dividend_less_div_times [OF assms, of "now - base"] by (simp_all add: q_def)
  moreover have "grid_wake base refresh now = (if base \<le> now then base + q + refresh else base)"
    by (simp add: grid_wake_def q_def)
  ultimately show "now < grid_wake base refresh now" "grid_wake base refresh now \<le> max base (now + refresh)"
    by auto
  show "\<exists>k. grid_wake base refresh now = base + k * refresh"
    unfolding grid_wake_def by (cases "base \<le> now") (simp_all only: if_True if_False, blast, metis add_0_right mult_0)
qed

text \<open>Room for the arithmetic of one input: no intermediate result reaches \<open>2 ^ 64\<close>.\<close>

definition schedule_room :: "u64 \<Rightarrow> u64 \<Rightarrow> u64 \<Rightarrow> u64 \<Rightarrow> u64 \<Rightarrow> bool" where
  "schedule_room first_target n refresh lead now \<longleftrightarrow> refresh \<noteq> 0 \<and> n \<noteq> 0 \<and>
     unat lead \<le> unat first_target + (unat n - 1) * unat refresh \<and>
     unat first_target + (unat n - 1) * unat refresh < 2 ^ 64 \<and> unat now + unat refresh + unat lead < 2 ^ 64"

lemma unat_add_small: "unat a + unat b < 2 ^ 64 \<Longrightarrow> unat (a + b) = unat a + unat b" for a b :: u64
  by (simp add: unat_word_ariths)

lemma unat_mul_small: "unat a * unat b < 2 ^ 64 \<Longrightarrow> unat (a * b) = unat a * unat b" for a b :: u64
  by (simp add: unat_word_ariths)

lemma unat_sub_small: "unat b \<le> unat a \<Longrightarrow> unat (a - b) = unat a - unat b" for a b :: u64
  by (simp add: unat_sub word_le_nat_alt)

lemma unat_plus_1: "x + 1 \<noteq> 0 \<Longrightarrow> unat (x + 1) = unat x + 1" for x :: u64
proof (cases "unat x + 1 < 2 ^ 64")
  case False
  then have "unat x + 1 = 2 ^ 64" using unat_bound [of x] by simp
  then have "unat (x + 1) = 0" by (simp add: unat_word_ariths)
  moreover assume "x + 1 \<noteq> 0"
  ultimately show ?thesis by (simp only: unat_eq_zero)
qed (simp add: unat_word_ariths)

lemma schedule_wake_grid:
  assumes "schedule_room first_target n refresh lead now"
    and "schedule_wake first_target n refresh lead now = (wake, first')"
  shows "unat wake = grid_wake (unat first_target + (unat n - 1) * unat refresh - unat lead) (unat refresh) (unat now)"
    and "unat first' + (unat n - 1) * unat refresh = unat wake + unat lead"
proof -
  define F N R L T where "F = unat first_target" and "N = unat n - 1" and "R = unat refresh" and "L = unat lead"
    and "T = unat now"
  have room: "0 < R" "L \<le> F + N * R" "F + N * R < 2 ^ 64" "T + R + L < 2 ^ 64"
    using assms(1) by (auto simp: schedule_room_def F_def N_def R_def L_def T_def unat_gt_0)
  have n1: "unat (n - 1) = N"
    using assms(1) unat_sub_small [of 1 n] by (simp add: schedule_room_def N_def unat_gt_0 Suc_le_eq)
  have prod: "unat ((n - 1) * refresh) = N * R"
    using room(3) unat_mul_small [of "n - 1" refresh] by (simp add: n1 R_def)
  have sum: "unat (first_target + (n - 1) * refresh) = F + N * R"
    using room(3) unat_add_small [of first_target "(n - 1) * refresh"] by (simp add: prod F_def)
  define base where "base = first_target + (n - 1) * refresh - lead"
  have base: "unat base = F + N * R - L"
    using room(2) unat_sub_small [of lead "first_target + (n - 1) * refresh"] by (simp add: base_def sum L_def)
  show "unat wake = grid_wake (unat first_target + (unat n - 1) * unat refresh - unat lead) (unat refresh) (unat now)"
    "unat first' + (unat n - 1) * unat refresh = unat wake + unat lead"
  proof (atomize (full), cases "base \<le> now")
    case False
    then have "wake = base" "first' = first_target"
      using assms(2) by (auto simp: schedule_wake_def base_def Let_def)
    moreover have "\<not> unat base \<le> T" using False by (simp add: T_def word_le_nat_alt)
    ultimately show "unat wake = grid_wake (unat first_target + (unat n - 1) * unat refresh - unat lead) (unat refresh) (unat now)
      \<and> unat first' + (unat n - 1) * unat refresh = unat wake + unat lead"
      unfolding F_def [symmetric] N_def [symmetric] R_def [symmetric] L_def [symmetric] T_def [symmetric]
      using base room(2) by (simp add: grid_wake_def F_def)
  next
    case True
    define p where "p = (now - base) div refresh + 1"
    define P where "P = (T - unat base) div R + 1"
    have w: "wake = base + p * refresh" "first' = first_target + p * refresh"
      using assms(2) True by (simp_all add: schedule_wake_def base_def p_def Let_def)
    have le: "unat base \<le> T" using True by (simp add: T_def word_le_nat_alt)
    have "(T - unat base) div R * R \<le> T - unat base" by simp
    then have PR: "P * R \<le> T - unat base + R" by (simp add: P_def)
    have "(T - unat base) div R \<le> T" by (meson div_le_dividend diff_le_self order_trans)
    then have "P < 2 ^ 64" using room(1,4) by (simp add: P_def)
    moreover have d: "unat ((now - base) div refresh) = (T - unat base) div R"
      using le unat_sub_small [of base now] by (simp add: unat_div T_def R_def)
    ultimately have p: "unat p = P"
      using unat_add_small [of "(now - base) div refresh" 1] by (simp add: p_def P_def d)
    have pr: "unat (p * refresh) = P * R"
      using PR room(4) unat_mul_small [of p refresh] by (simp add: p R_def)
    have a: "unat wake = unat base + P * R"
      using PR le room(4) unat_add_small [of base "p * refresh"] by (simp add: w pr)
    have "F + P * R \<le> T + R + L"
      using PR le base room(2) by linarith
    then have b: "unat first' = F + P * R"
      using room(4) unat_add_small [of first_target "p * refresh"] by (simp add: w pr F_def)
    show "unat wake = grid_wake (unat first_target + (unat n - 1) * unat refresh - unat lead) (unat refresh) (unat now)
      \<and> unat first' + (unat n - 1) * unat refresh = unat wake + unat lead"
      unfolding F_def [symmetric] N_def [symmetric] R_def [symmetric] L_def [symmetric] T_def [symmetric]
      using a b base le room(2) by (simp add: grid_wake_def P_def)
  qed
qed

end
