(* ===== verification/Client_Pipeline.thy ===== *)
theory Client_Pipeline
  imports Client_Graphics Ieee_Double Bounded_Queue Refresh_Grid
begin

text \<open>
  \<^verbatim>\<open>probes/video/plank-probe-client-pipeline.cpp\<close>, the pipeline part: scheduling of the decoder
  input, the hand-over of decoded samples to the presentation thread, import and presentation with
  synchronous or asynchronous feedback, the statistics and the gate.

  A Wayland or GStreamer object is what the code reads of it; what a library call answers is an
  argument. \<open>pending\<close> are the feedback objects of swapped frames whose listener has not been called;
  \<open>requests\<close> are the requests sent to the compositor, oldest first.
\<close>

section \<open>State\<close>

record SubmitStamp =
  frame :: u64
  time_ns :: u64
  target_present_ns :: u64

record AsyncFeedback =
  af_submit :: SubmitStamp
  af_surface_ready_ns :: u64
  af_render_started_ns :: u64
  af_swap_submitted_ns :: u64

record Timings =
  decode_ms :: "rat list"
  surface_to_swap_ms :: "rat list"
  swap_submit_ms :: "rat list"
  surface_to_present_ms :: "rat list"
  submit_to_present_ms :: "rat list"
  presentation_interval_ms :: "rat list"
  surface_vs_target_ms :: "rat list"
  swap_vs_target_ms :: "rat list"
  presentation_vs_target_ms :: "rat list"
  vsync_frames :: u64
  hw_clock_frames :: u64
  hw_completion_frames :: u64
  zero_copy_frames :: u64
  first_presentation_ns :: u64
  last_presentation_ns :: u64

datatype request = SetTimestamp u32 u32 u32 | SetBarrier | WaitBarrier | RequestFeedback | SwapBuffers

record sample =
  smp_buffer :: bool
  smp_meta :: "(u32 \<times> u32 \<times> u64 \<times> i32) option" \<comment> \<open>width, height, offset and stride of plane 0\<close>
  smp_drm_format :: "string option"
  smp_n_memory :: nat
  smp_is_dmabuf :: bool
  smp_fd :: i32

record State =
  expected_frames :: u64
  submitted :: u64
  queued :: u64
  presented :: u64
  failed :: bool
  submit_queue :: "SubmitStamp list"
  max_submit_depth :: nat
  threaded :: bool
  async_feedback :: bool
  fifo_enabled :: bool
  ready_sample :: "sample option"
  ready_submit :: SubmitStamp
  ready_surface_ns :: u64
  producer_done :: bool
  worker_stop :: bool
  max_ready_depth :: nat
  async_inflight :: u64
  max_async_inflight :: u64
  async_inflight_limit :: u64
  stale_frames_dropped :: u64
  input_schedule_late_ms :: "rat list"
  stale_drop_late_ms :: "rat list"
  timings :: Timings
  st_drm_format :: string
  st_width :: u32
  st_height :: u32
  commit_timer :: bool
  commit_timing_frames :: u64
  fifo :: bool
  fifo_frames :: u64
  first_target_present_ns :: u64
  refresh_ns :: u64
  submit_lead_ns :: u64
  pending :: "AsyncFeedback list"
  requests :: "request list"

definition blank_stamp :: SubmitStamp where
  "blank_stamp = \<lparr>frame = 0, time_ns = 0, target_present_ns = 0\<rparr>"

definition blank_timings :: Timings where
  "blank_timings = \<lparr>decode_ms = [], surface_to_swap_ms = [], swap_submit_ms = [], surface_to_present_ms = [],
     submit_to_present_ms = [], presentation_interval_ms = [], surface_vs_target_ms = [],
     swap_vs_target_ms = [], presentation_vs_target_ms = [], vsync_frames = 0, hw_clock_frames = 0,
     hw_completion_frames = 0, zero_copy_frames = 0, first_presentation_ns = 0, last_presentation_ns = 0\<rparr>"

definition State_init :: State where
  "State_init = \<lparr>expected_frames = 0, submitted = 0, queued = 0, presented = 0, failed = False, submit_queue = [],
     max_submit_depth = 0, threaded = False, async_feedback = False, fifo_enabled = False, ready_sample = None,
     ready_submit = blank_stamp, ready_surface_ns = 0, producer_done = False, worker_stop = False,
     max_ready_depth = 0, async_inflight = 0, max_async_inflight = 0, async_inflight_limit = 1,
     stale_frames_dropped = 0, input_schedule_late_ms = [], stale_drop_late_ms = [], timings = blank_timings,
     st_drm_format = [], st_width = 0, st_height = 0, commit_timer = False, commit_timing_frames = 0,
     fifo = False, fifo_frames = 0, first_target_present_ns = 0, refresh_ns = 16666667, submit_lead_ns = 0,
     pending = [], requests = []\<rparr>"

section \<open>Recording a presentation\<close>

definition flag_count :: "u32 \<Rightarrow> u32 \<Rightarrow> u64" where
  "flag_count flags kind = (if flags AND kind \<noteq> 0 then 1 else 0)"

text \<open>The signed distance from the target, in milliseconds.\<close>

definition target_distance_ms :: "u64 \<Rightarrow> u64 \<Rightarrow> rat" where
  "target_distance_ms t target = dbl_div (dbl_of_i64 (sint t - sint target)) 1000000"

definition record_presentation ::
    "SubmitStamp \<Rightarrow> u64 \<Rightarrow> u64 \<Rightarrow> u64 \<Rightarrow> u64 \<Rightarrow> u32 \<Rightarrow> State \<Rightarrow> bool \<times> State" where
  "record_presentation submit surface_ready_ns render_started_ns swap_submitted_ns presented_ns flags st =
     (if presented_ns < time_ns submit \<or> presented_ns < surface_ready_ns then (False, st)
      else
        let t = timings st;
            target = target_present_ns submit;
            t = t\<lparr>decode_ms := decode_ms t @ [ns_to_ms (surface_ready_ns - time_ns submit)],
                  surface_to_swap_ms := surface_to_swap_ms t @ [ns_to_ms (swap_submitted_ns - surface_ready_ns)],
                  swap_submit_ms := swap_submit_ms t @ [ns_to_ms (swap_submitted_ns - render_started_ns)],
                  surface_to_present_ms := surface_to_present_ms t @ [ns_to_ms (presented_ns - surface_ready_ns)],
                  submit_to_present_ms := submit_to_present_ms t @ [ns_to_ms (presented_ns - time_ns submit)]\<rparr>;
            t = (if target \<noteq> 0
                 then t\<lparr>surface_vs_target_ms := surface_vs_target_ms t @ [target_distance_ms surface_ready_ns target],
                        swap_vs_target_ms := swap_vs_target_ms t @ [target_distance_ms swap_submitted_ns target],
                        presentation_vs_target_ms :=
                          presentation_vs_target_ms t @ [target_distance_ms presented_ns target]\<rparr>
                 else t);
            t = (if last_presentation_ns t \<noteq> 0
                 then t\<lparr>presentation_interval_ms :=
                          presentation_interval_ms t @ [ns_to_ms (presented_ns - last_presentation_ns t)]\<rparr>
                 else t\<lparr>first_presentation_ns := presented_ns\<rparr>);
            t = t\<lparr>last_presentation_ns := presented_ns,
                  vsync_frames := vsync_frames t + flag_count flags 1,
                  hw_clock_frames := hw_clock_frames t + flag_count flags 2,
                  hw_completion_frames := hw_completion_frames t + flag_count flags 4,
                  zero_copy_frames := zero_copy_frames t + flag_count flags 8\<rparr>
        in (True, st\<lparr>timings := t\<rparr>))"

section \<open>Asynchronous feedback\<close>

definition on_async_presented :: "AsyncFeedback \<Rightarrow> u32 \<Rightarrow> u32 \<Rightarrow> u32 \<Rightarrow> u32 \<Rightarrow> State \<Rightarrow> State" where
  "on_async_presented feedback sec_hi sec_lo nsec flags st =
     (let (ok, st) = record_presentation (af_submit feedback) (af_surface_ready_ns feedback)
            (af_render_started_ns feedback) (af_swap_submitted_ns feedback)
            (presentation_time sec_hi sec_lo nsec) flags st;
          st = (if ok then st else st\<lparr>failed := True\<rparr>)
      in st\<lparr>presented := presented st + 1, async_inflight := async_inflight st - 1\<rparr>)"

definition on_async_discarded :: "State \<Rightarrow> State" where
  "on_async_discarded st = st\<lparr>failed := True, async_inflight := async_inflight st - 1\<rparr>"

text \<open>
  The events a dispatch can deliver: the listener call of a pending feedback object, by its place
  among the pending ones. An event that names no pending object is none.
\<close>

datatype feedback_event = FeedbackPresented nat u32 u32 u32 u32 | FeedbackDiscarded nat

definition remove_nth :: "nat \<Rightarrow> 'a list \<Rightarrow> 'a list" where
  "remove_nth i xs = take i xs @ drop (Suc i) xs"

fun deliver :: "feedback_event \<Rightarrow> State \<Rightarrow> State" where
  "deliver (FeedbackPresented i sec_hi sec_lo nsec flags) st =
     (if i < length (pending st)
      then on_async_presented (pending st ! i) sec_hi sec_lo nsec flags (st\<lparr>pending := remove_nth i (pending st)\<rparr>)
      else st)"
| "deliver (FeedbackDiscarded i) st =
     (if i < length (pending st) then on_async_discarded (st\<lparr>pending := remove_nth i (pending st)\<rparr>) else st)"

text \<open>
  What one \<^verbatim>\<open>wl_display_dispatch\<close> or \<^verbatim>\<open>wl_display_roundtrip\<close> does: \<open>None\<close> is a negative result. A
  loop that has used up the given dispatches is still waiting, which is the result \<open>None\<close>.
\<close>

type_synonym dispatch = "feedback_event list option"

fun await_inflight :: "u64 \<Rightarrow> dispatch list \<Rightarrow> State \<Rightarrow> (bool \<times> State) option" where
  "await_inflight limit [] st = (if async_inflight st \<ge> limit then None else Some (True, st))"
| "await_inflight limit (d # ds) st =
     (if async_inflight st \<ge> limit
      then (case d of
              None \<Rightarrow> Some (False, st\<lparr>failed := True\<rparr>)
            | Some events \<Rightarrow> await_inflight limit ds (fold deliver events st))
      else Some (True, st))"

text \<open>\<^verbatim>\<open>drain_async_feedback\<close> waits until fewer than one is in flight.\<close>

definition drain_async_feedback :: "dispatch list \<Rightarrow> State \<Rightarrow> (bool \<times> State) option" where
  "drain_async_feedback ds st =
     (case await_inflight 1 ds st of
        None \<Rightarrow> None
      | Some (False, st) \<Rightarrow> Some (False, st)
      | Some (True, st) \<Rightarrow> Some (\<not> failed st, st))"

section \<open>Import and presentation\<close>

record image_attributes =
  ia_width :: u32
  ia_height :: u32
  ia_fourcc :: u32
  ia_fd :: i32
  ia_offset :: i32
  ia_pitch :: i32
  ia_modifier_lo :: u32
  ia_modifier_hi :: u32

text \<open>What the libraries answer while one frame is processed.\<close>

record frame_env =
  env_dispatches :: "dispatch list"
  env_now :: u64
  env_image :: "image_attributes \<Rightarrow> bool"
  env_make_current :: bool
  env_gl_ok :: bool
  env_render_started :: u64
  env_swap :: bool
  env_swap_submitted :: u64
  env_roundtrip :: dispatch
  env_feedback :: Feedback

definition import_attributes :: "i32 \<Rightarrow> u32 \<times> u32 \<times> u64 \<times> i32 \<Rightarrow> u64 \<Rightarrow> image_attributes" where
  "import_attributes fd meta modifier =
     (case meta of (w, h, offset, stride) \<Rightarrow>
        \<lparr>ia_width = w, ia_height = h, ia_fourcc = DRM_FORMAT_XRGB2101010, ia_fd = fd,
         ia_offset = ucast offset, ia_pitch = stride,
         ia_modifier_lo = ucast (modifier AND 0xffffffff), ia_modifier_hi = ucast (drop_bit 32 modifier)\<rparr>)"

definition commit_timestamp :: "u64 \<Rightarrow> request" where
  "commit_timestamp target =
     (let seconds = target div 1000000000
      in SetTimestamp (ucast (drop_bit 32 seconds)) (ucast seconds) (ucast (target mod 1000000000)))"

text \<open>The requests of a commit, with the counters of the two optional protocols.\<close>

definition set_commit_target :: "SubmitStamp \<Rightarrow> State \<Rightarrow> State" where
  "set_commit_target submit st =
     (if target_present_ns submit \<noteq> 0 \<and> commit_timer st
      then st\<lparr>requests := requests st @ [commit_timestamp (target_present_ns submit)],
              commit_timing_frames := commit_timing_frames st + 1\<rparr>
      else st)"

definition set_fifo_barrier :: "State \<Rightarrow> State" where
  "set_fifo_barrier st =
     (if fifo_enabled st \<and> fifo st
      then st\<lparr>requests := requests st @ [SetBarrier, WaitBarrier], fifo_frames := fifo_frames st + 1\<rparr>
      else st)"

definition import_and_present ::
    "frame_env \<Rightarrow> i32 \<Rightarrow> u32 \<times> u32 \<times> u64 \<times> i32 \<Rightarrow> string \<Rightarrow> SubmitStamp \<Rightarrow> u64 \<Rightarrow> State \<Rightarrow> bool \<times> State" where
  "import_and_present env fd meta drm_format submit surface_ready_ns st =
     (case parse_modifier drm_format of
        None \<Rightarrow> (False, st)
      | Some modifier \<Rightarrow>
          if \<not> env_image env (import_attributes fd meta modifier) \<or> \<not> env_make_current env then (False, st)
          else if \<not> env_gl_ok env then (False, st)
          else
            let st = set_fifo_barrier (set_commit_target submit st);
                st = st\<lparr>requests := requests st @ [RequestFeedback]\<rparr>
            in if \<not> env_swap env then (False, st)
               else
                 let st = st\<lparr>requests := requests st @ [SwapBuffers]\<rparr>
                 in if async_feedback st
                    then
                      let st = st\<lparr>pending := pending st @
                                   [\<lparr>af_submit = submit, af_surface_ready_ns = surface_ready_ns,
                                     af_render_started_ns = env_render_started env,
                                     af_swap_submitted_ns = env_swap_submitted env\<rparr>],
                                 async_inflight := async_inflight st + 1\<rparr>;
                          st = st\<lparr>max_async_inflight := max (max_async_inflight st) (async_inflight st)\<rparr>
                      in (case env_roundtrip env of
                            None \<Rightarrow> (False, st)
                          | Some events \<Rightarrow> let st = fold deliver events st in (\<not> failed st, st))
                    else if fb_presented (env_feedback env)
                    then record_presentation submit surface_ready_ns (env_render_started env)
                           (env_swap_submitted env) (fb_time_ns (env_feedback env)) (fb_flags (env_feedback env)) st
                    else (False, st))"

section \<open>Processing a sample\<close>

definition kStaleToleranceNs :: u64 where "kStaleToleranceNs = 1000000"

definition is_stale :: "u64 \<Rightarrow> SubmitStamp \<Rightarrow> bool" where
  "is_stale now submit \<longleftrightarrow>
     target_present_ns submit \<noteq> 0 \<and> now > target_present_ns submit + kStaleToleranceNs"

definition drop_stale :: "u64 \<Rightarrow> SubmitStamp \<Rightarrow> State \<Rightarrow> State" where
  "drop_stale now submit st =
     st\<lparr>stale_frames_dropped := stale_frames_dropped st + 1,
        stale_drop_late_ms := stale_drop_late_ms st @ [ns_to_ms (now - target_present_ns submit)]\<rparr>"

text \<open>The decoded buffer must be one DMA-BUF of a format whose name starts with Y410.\<close>

definition present_sample :: "frame_env \<Rightarrow> sample \<Rightarrow> SubmitStamp \<Rightarrow> u64 \<Rightarrow> State \<Rightarrow> bool \<times> State" where
  "present_sample env s submit surface_ready_ns st =
     (case (smp_meta s, smp_drm_format s) of
        (Some meta, Some drm_format) \<Rightarrow>
          if smp_buffer s \<and> take 4 drm_format = ''Y410'' \<and> smp_n_memory s = 1 \<and> smp_is_dmabuf s \<and> 0 \<le>s smp_fd s
          then import_and_present env (smp_fd s) meta drm_format submit surface_ready_ns
                 (st\<lparr>st_drm_format := drm_format, st_width := fst meta, st_height := fst (snd meta)\<rparr>)
          else (False, st)
      | _ \<Rightarrow> (False, st))"

definition process_sample ::
    "frame_env \<Rightarrow> sample \<Rightarrow> SubmitStamp \<Rightarrow> u64 \<Rightarrow> State \<Rightarrow> (bool \<times> State) option" where
  "process_sample env s submit surface_ready_ns st =
     (if async_feedback st
      then (case await_inflight (async_inflight_limit st) (env_dispatches env) st of
              None \<Rightarrow> None
            | Some (False, st) \<Rightarrow> Some (False, st)
            | Some (True, st) \<Rightarrow>
                if is_stale (env_now env) submit then Some (True, drop_stale (env_now env) submit st)
                else Some (present_sample env s submit surface_ready_ns st))
      else Some (present_sample env s submit surface_ready_ns st))"

section \<open>Scheduling the decoder input\<close>

datatype probe_return = ProbeOk | ProbeDrop

record schedule_env =
  se_is_buffer :: bool
  se_now :: u64
  se_sleep :: "int list"
  se_actual :: u64
  se_stamp :: u64

definition push_stamp :: "SubmitStamp \<Rightarrow> State \<Rightarrow> State" where
  "push_stamp stamp st =
     (let st = st\<lparr>submit_queue := submit_queue st @ [stamp]\<rparr>
      in st\<lparr>max_submit_depth := max (max_submit_depth st) (length (submit_queue st))\<rparr>)"

definition on_decoder_input :: "schedule_env \<Rightarrow> State \<Rightarrow> (probe_return \<times> State) option" where
  "on_decoder_input env st =
     (if \<not> se_is_buffer env then Some (ProbeOk, st)
      else
        let st = st\<lparr>submitted := submitted st + 1\<rparr>; n = submitted st
        in if submit_lead_ns st \<noteq> 0
           then
             let (target, first_target) = schedule_wake (first_target_present_ns st) n (refresh_ns st)
                    (submit_lead_ns st) (se_now env);
                 st = st\<lparr>first_target_present_ns := first_target\<rparr>
             in (case sleep_until (se_sleep env) of
                   None \<Rightarrow> None
                 | Some status \<Rightarrow>
                     if status \<noteq> 0 then Some (ProbeDrop, st\<lparr>failed := True\<rparr>)
                     else
                       let st = st\<lparr>input_schedule_late_ms := input_schedule_late_ms st @
                             [if se_actual env > target then ns_to_ms (se_actual env - target) else 0]\<rparr>
                       in Some (ProbeOk, push_stamp \<lparr>frame = n, time_ns = se_stamp env,
                                          target_present_ns = target + submit_lead_ns st\<rparr> st))
           else Some (ProbeOk, push_stamp \<lparr>frame = n, time_ns = se_stamp env, target_present_ns = 0\<rparr> st))"

section \<open>The two sides of the hand-over\<close>

datatype flow = FlowOk | FlowEos | FlowError

type_synonym item = "sample \<times> SubmitStamp \<times> u64"

datatype producer = ProducerIdle | ProducerWaiting item | ProducerEnded
datatype worker = WorkerWaiting | WorkerHolding item | WorkerDraining | WorkerEnded

text \<open>The first half of \<^verbatim>\<open>on_new_sample\<close>: pull a sample and pair it with the oldest stamp.\<close>

definition pull_stamp :: "sample option \<Rightarrow> u64 \<Rightarrow> State \<Rightarrow> item option \<times> State" where
  "pull_stamp pulled surface_ready_ns st =
     (case pulled of
        None \<Rightarrow> (None, st)
      | Some s \<Rightarrow>
          (case submit_queue st of
             [] \<Rightarrow> (None, st\<lparr>failed := True\<rparr>)
           | submit # rest \<Rightarrow> (Some (s, submit, surface_ready_ns), st\<lparr>submit_queue := rest\<rparr>)))"

definition flow_after :: "u64 \<Rightarrow> State \<Rightarrow> flow" where
  "flow_after frames st = (if frames \<ge> expected_frames st then FlowEos else FlowOk)"

text \<open>The second half when a presentation thread runs, once its wait is over.\<close>

definition producer_wait_over :: "State \<Rightarrow> bool" where
  "producer_wait_over st \<longleftrightarrow> ready_sample st = None \<or> worker_stop st"

fun publish_ready :: "item \<Rightarrow> State \<Rightarrow> flow \<times> State" where
  "publish_ready (s, submit, surface_ready_ns) st =
     (if worker_stop st then (FlowError, st)
      else
        let st = st\<lparr>ready_sample := Some s, ready_submit := submit, ready_surface_ns := surface_ready_ns,
                    max_ready_depth := 1, queued := queued st + 1\<rparr>
        in (flow_after (queued st) st, st))"

text \<open>The second half without a presentation thread.\<close>

fun present_inline :: "frame_env \<Rightarrow> item \<Rightarrow> State \<Rightarrow> (flow \<times> State) option" where
  "present_inline env (s, submit, surface_ready_ns) st =
     (let st = st\<lparr>queued := queued st + 1\<rparr>
      in case process_sample env s submit surface_ready_ns st of
           None \<Rightarrow> None
         | Some (False, st) \<Rightarrow> Some (FlowError, st\<lparr>failed := True\<rparr>)
         | Some (True, st) \<Rightarrow>
             let st = st\<lparr>presented := presented st + 1\<rparr> in Some (flow_after (presented st) st, st))"

text \<open>The worker once its wait is over: what it discards, what it does next.\<close>

definition worker_wait_over :: "State \<Rightarrow> bool" where
  "worker_wait_over st \<longleftrightarrow> ready_sample st \<noteq> None \<or> producer_done st \<or> worker_stop st"

definition ready_items :: "State \<Rightarrow> item list" where
  "ready_items st = (case ready_sample st of None \<Rightarrow> [] | Some s \<Rightarrow> [(s, ready_submit st, ready_surface_ns st)])"

definition worker_wake :: "State \<Rightarrow> worker \<times> State" where
  "worker_wake st =
     (if worker_stop st then (WorkerDraining, st\<lparr>ready_sample := None\<rparr>)
      else case ready_sample st of
        None \<Rightarrow> (WorkerDraining, st)
      | Some s \<Rightarrow> (WorkerHolding (s, ready_submit st, ready_surface_ns st), st\<lparr>ready_sample := None\<rparr>))"

fun worker_process :: "frame_env \<Rightarrow> item \<Rightarrow> State \<Rightarrow> (worker \<times> State) option" where
  "worker_process env (s, submit, surface_ready_ns) st =
     (case process_sample env s submit surface_ready_ns st of
        None \<Rightarrow> None
      | Some (False, st) \<Rightarrow> Some (WorkerDraining, st\<lparr>failed := True, worker_stop := True\<rparr>)
      | Some (True, st) \<Rightarrow>
          Some (WorkerWaiting, if async_feedback st then st else st\<lparr>presented := presented st + 1\<rparr>))"

definition worker_drain :: "dispatch list \<Rightarrow> State \<Rightarrow> State option" where
  "worker_drain ds st = (if async_feedback st then map_option snd (drain_async_feedback ds st) else Some st)"

text \<open>What \<^verbatim>\<open>main\<close> does to the shared state when the bus has reported the end or an error.\<close>

definition finish_producer :: "bool \<Rightarrow> State \<Rightarrow> State" where
  "finish_producer reached_eos st =
     (let st = st\<lparr>producer_done := True\<rparr> in if \<not> reached_eos then st\<lparr>worker_stop := True\<rparr> else st)"

section \<open>The threads together\<close>

text \<open>
  The decoder thread, the appsink thread, the presentation thread and the main thread, one critical
  section or library-bound piece of work at a time. Between critical sections the threads use disjoint
  fields; \<open>failed\<close> is atomic. \<open>Called\<close> marks a stamp pushed by the decoder thread.
\<close>

record pipeline =
  shared :: State
  producer :: producer
  worker :: worker

definition stamp_event :: "State \<Rightarrow> State \<Rightarrow> (SubmitStamp, item) queue_event" where
  "stamp_event st st' =
     (if length (submit_queue st) < length (submit_queue st') then Called (last (submit_queue st')) else Silent)"

inductive pipeline_step :: "pipeline \<Rightarrow> (SubmitStamp, item) queue_event \<Rightarrow> pipeline \<Rightarrow> bool" where
  decoder_input: "on_decoder_input env st = Some (r, st') \<Longrightarrow>
    pipeline_step \<lparr>shared = st, producer = p, worker = w\<rparr> (stamp_event st st')
                  \<lparr>shared = st', producer = p, worker = w\<rparr>"
| pull: "pull_stamp pulled surf st = (Some it, st') \<Longrightarrow>
    pipeline_step \<lparr>shared = st, producer = ProducerIdle, worker = w\<rparr> Silent
                  \<lparr>shared = st', producer = ProducerWaiting it, worker = w\<rparr>"
| pull_error: "pull_stamp pulled surf st = (None, st') \<Longrightarrow>
    pipeline_step \<lparr>shared = st, producer = ProducerIdle, worker = w\<rparr> Silent
                  \<lparr>shared = st', producer = ProducerEnded, worker = w\<rparr>"
| publish: "producer_wait_over st \<Longrightarrow> publish_ready it st = (f, st') \<Longrightarrow>
    pipeline_step \<lparr>shared = st, producer = ProducerWaiting it, worker = w\<rparr>
                  (if worker_stop st then Silent else Published it)
                  \<lparr>shared = st', producer = (if f = FlowOk then ProducerIdle else ProducerEnded), worker = w\<rparr>"
| wake: "worker_wait_over st \<Longrightarrow> worker_wake st = (w, st') \<Longrightarrow>
    pipeline_step \<lparr>shared = st, producer = p, worker = WorkerWaiting\<rparr>
                  (case w of WorkerHolding it \<Rightarrow> Taken it | _ \<Rightarrow> Dropped (ready_items st))
                  \<lparr>shared = st', producer = p, worker = w\<rparr>"
| process: "worker_process env it st = Some (w, st') \<Longrightarrow>
    pipeline_step \<lparr>shared = st, producer = p, worker = WorkerHolding it\<rparr> Silent
                  \<lparr>shared = st', producer = p, worker = w\<rparr>"
| drain: "worker_drain ds st = Some st' \<Longrightarrow>
    pipeline_step \<lparr>shared = st, producer = p, worker = WorkerDraining\<rparr> Silent
                  \<lparr>shared = st', producer = p, worker = WorkerEnded\<rparr>"
| finish: "pipeline_step \<lparr>shared = st, producer = p, worker = w\<rparr> Silent
                  \<lparr>shared = finish_producer reached_eos st, producer = p, worker = w\<rparr>"

definition pipeline_start :: "State \<Rightarrow> pipeline" where
  "pipeline_start st = \<lparr>shared = st, producer = ProducerIdle, worker = WorkerWaiting\<rparr>"

section \<open>What the presentation thread keeps\<close>

text \<open>The part of the state the two threads hand over, and the modes.\<close>


definition handover where
  "handover st = (ready_sample st, ready_submit st, ready_surface_ns st, submit_queue st, worker_stop st,
     producer_done st, queued st, expected_frames st, async_feedback st, async_inflight_limit st)"

lemma record_presentation_cases:
  obtains "record_presentation submit surf render swap t flags st = (False, st)"
  | u where "record_presentation submit surf render swap t flags st = (True, st\<lparr>timings := u\<rparr>)"
      "length (submit_to_present_ms u) = Suc (length (submit_to_present_ms (timings st)))"
proof (cases "t < time_ns submit \<or> t < surf")
  case True
  then have "record_presentation submit surf render swap t flags st = (False, st)"
    by (simp add: record_presentation_def)
  then show ?thesis by (rule that(1))
next
  case False
  then show ?thesis
    by (intro that(2)) (auto simp: record_presentation_def Let_def)
qed


text \<open>A frame's accounting: what has been presented or dropped and what is in flight.\<close>

definition tally :: "State \<Rightarrow> nat" where
  "tally st = unat (presented st) + unat (stale_frames_dropped st) + length (pending st)"

definition recorded :: "State \<Rightarrow> bool" where
  "recorded st \<longleftrightarrow> presented st = of_nat (length (submit_to_present_ms (timings st)))"

definition inflight_ok :: "State \<Rightarrow> bool" where
  "inflight_ok st \<longleftrightarrow> async_inflight st = of_nat (length (pending st)) \<and>
     length (pending st) \<le> unat (async_inflight_limit st) \<and> max_async_inflight st \<le> async_inflight_limit st"

lemma unat_Suc_le: "unat (x + 1) \<le> unat x + 1" for x :: u64
  by (metis add.commute unat_1 unat_word_ariths(1) mod_less_eq_dividend of_nat_1 of_nat_add)

lemma unat_Suc_of_less: "x < y \<Longrightarrow> unat (x + 1) = unat x + 1" for x y :: u64
  using unat_bound [of y] by (simp add: unat_word_ariths word_less_nat_alt)

lemma length_remove_nth: "i < length xs \<Longrightarrow> length (remove_nth i xs) = length xs - 1"
  by (simp add: remove_nth_def)

text \<open>What delivering feedback does: nothing, a failure, or one more presentation.\<close>

lemma deliver_cases:
  obtains (none) "deliver e st = st"
  | (failure) i n where "i < length (pending st)" "n = presented st \<or> n = presented st + 1"
      "deliver e st = st\<lparr>failed := True, pending := remove_nth i (pending st), presented := n,
         async_inflight := async_inflight st - 1\<rparr>"
  | (presented) i u where "i < length (pending st)"
      "length (submit_to_present_ms u) = Suc (length (submit_to_present_ms (timings st)))"
      "deliver e st = st\<lparr>pending := remove_nth i (pending st), presented := presented st + 1,
         async_inflight := async_inflight st - 1, timings := u\<rparr>"
proof (cases e)
  case (FeedbackPresented i hi lo ns fl)
  show ?thesis
  proof (cases "i < length (pending st)")
    case True
    show ?thesis
      by (cases rule: record_presentation_cases [of "af_submit (pending st ! i)" "af_surface_ready_ns (pending st ! i)"
            "af_render_started_ns (pending st ! i)" "af_swap_submitted_ns (pending st ! i)" "presentation_time hi lo ns" fl
            "st\<lparr>pending := remove_nth i (pending st)\<rparr>"])
        (use True FeedbackPresented in \<open>auto simp: on_async_presented_def intro: failure presented\<close>)
  qed (use FeedbackPresented none in simp)
next
  case (FeedbackDiscarded i)
  show ?thesis
    by (cases "i < length (pending st)")
      (use FeedbackDiscarded in \<open>auto simp: on_async_discarded_def intro: none failure [of i "presented st"]\<close>)
qed

lemma deliver_handover [simp]: "handover (deliver e st) = handover st"
  by (cases rule: deliver_cases [of e st]) (simp_all add: handover_def)

lemma deliver_accounting:
  shows "failed st \<Longrightarrow> failed (deliver e st)"
    and "tally (deliver e st) \<le> tally st"
    and "\<not> failed (deliver e st) \<Longrightarrow> recorded st \<Longrightarrow> recorded (deliver e st)"
    and "inflight_ok st \<Longrightarrow> inflight_ok (deliver e st)"
    and "stale_frames_dropped (deliver e st) = stale_frames_dropped st"
proof -
  have less: "0 < n \<Longrightarrow> of_nat (n - Suc 0) = (of_nat n - 1 :: u64)" for n
    by (cases n) auto
  show "failed st \<Longrightarrow> failed (deliver e st)"
    by (cases rule: deliver_cases [of e st]) simp_all
  show "tally (deliver e st) \<le> tally st"
    using unat_Suc_le [of "presented st"]
    by (cases rule: deliver_cases [of e st]) (auto simp: tally_def length_remove_nth)
  show "\<not> failed (deliver e st) \<Longrightarrow> recorded st \<Longrightarrow> recorded (deliver e st)"
    by (cases rule: deliver_cases [of e st]) (simp_all add: recorded_def)
  show "inflight_ok st \<Longrightarrow> inflight_ok (deliver e st)"
    by (cases rule: deliver_cases [of e st])
      (auto simp: inflight_ok_def length_remove_nth less length_greater_0_conv [symmetric] simp del: length_greater_0_conv)
  show "stale_frames_dropped (deliver e st) = stale_frames_dropped st"
    by (cases rule: deliver_cases [of e st]) simp_all
qed

lemma delivered_failed: "failed st \<Longrightarrow> failed (fold deliver es st)"
  by (induction es arbitrary: st) (simp_all add: deliver_accounting)

lemma delivered:
  shows "handover (fold deliver es st) = handover st"
    and "tally (fold deliver es st) \<le> tally st"
    and "\<not> failed (fold deliver es st) \<Longrightarrow> recorded st \<Longrightarrow> recorded (fold deliver es st)"
    and "inflight_ok st \<Longrightarrow> inflight_ok (fold deliver es st)"
proof (induction es arbitrary: st)
  case (Cons e es)
  { case 1 show ?case using Cons.IH(1) by simp }
  { case 2 show ?case using Cons.IH(2) [of "deliver e st"] deliver_accounting(2) [of e st] by simp }
  { case 3
    then have "\<not> failed (deliver e st)" using delivered_failed by auto
    with 3 show ?case using Cons.IH(3) deliver_accounting(3) by simp }
  { case 4 then show ?case using Cons.IH(4) deliver_accounting(4) by simp }
qed simp_all

text \<open>
  What a piece of the presentation thread's work keeps: the hand-over, the in-flight bound, a failure
  once noted, the correspondence of records and count, and the accounting up to \<open>k\<close> new frames.
\<close>

definition presents :: "nat \<Rightarrow> State \<Rightarrow> State \<Rightarrow> bool" where
  "presents k st st' \<longleftrightarrow> handover st' = handover st \<and> (inflight_ok st \<longrightarrow> inflight_ok st') \<and>
     (failed st \<longrightarrow> failed st') \<and> tally st' \<le> tally st + k \<and> (\<not> failed st' \<longrightarrow> recorded st \<longrightarrow> recorded st')"

lemma presents_refl: "presents 0 st st"
  by (simp add: presents_def)

lemma presents_trans: "presents k st st' \<Longrightarrow> presents l st' st'' \<Longrightarrow> presents (k + l) st st''"
  by (auto simp: presents_def)

lemma presents_mono: "presents k st st' \<Longrightarrow> k \<le> l \<Longrightarrow> presents l st st'"
  by (auto simp: presents_def)

lemma presents_failed: "handover st' = handover st \<Longrightarrow> tally st' = tally st \<Longrightarrow> inflight_ok st \<longrightarrow> inflight_ok st' \<Longrightarrow>
    failed st' \<Longrightarrow> presents 0 st st'"
  by (simp add: presents_def)

lemma presents_deliver: "presents 0 st (fold deliver es st)"
  using delivered [where es = es and st = st] delivered_failed [of st es] by (simp add: presents_def)

lemma presents_await:
  "await_inflight limit ds st = Some (ok, st') \<Longrightarrow> presents 0 st st' \<and> (ok \<longrightarrow> async_inflight st' < limit)"
proof (induction limit ds st rule: await_inflight.induct)
  case (2 limit d ds st)
  show ?case
  proof (cases "async_inflight st \<ge> limit")
    case True
    show ?thesis
    proof (cases d)
      case None
      then show ?thesis using "2.prems" True
        by (auto intro!: presents_failed simp: handover_def tally_def inflight_ok_def)
    next
      case (Some es)
      then show ?thesis
        using "2.prems" "2.IH" [OF True Some] True presents_trans [OF presents_deliver, of 0] by auto
    qed
  qed (use "2.prems" in \<open>auto simp: presents_refl\<close>)
qed (auto simp: presents_refl split: if_splits)


text \<open>Preparing a commit touches only the requests and the two counters.\<close>

definition prepared :: "State \<Rightarrow> State \<Rightarrow> bool" where
  "prepared st st' \<longleftrightarrow> st' = st\<lparr>requests := requests st', commit_timing_frames := commit_timing_frames st',
     fifo_frames := fifo_frames st'\<rparr>"

lemma prepared_commit: "prepared st (set_fifo_barrier (set_commit_target submit st)\<lparr>requests := r\<rparr>)"
  by (cases "target_present_ns submit \<noteq> 0 \<and> commit_timer st"; cases "fifo_enabled st \<and> fifo st")
    (simp_all add: prepared_def set_commit_target_def set_fifo_barrier_def)

lemma prepared_simps:
  assumes "prepared st st'"
  shows "handover st' = handover st" "inflight_ok st' = inflight_ok st" "failed st' = failed st"
    "tally st' = tally st" "recorded st' = recorded st" "async_feedback st' = async_feedback st"
    "async_inflight st' = async_inflight st" "async_inflight_limit st' = async_inflight_limit st"
    "pending st' = pending st" "timings st' = timings st" "presented st' = presented st"
  by (subst assms [unfolded prepared_def], simp add: handover_def inflight_ok_def tally_def recorded_def)+

lemma prepared_presents: "prepared st st' \<Longrightarrow> presents 0 st st'"
  by (simp add: presents_def prepared_simps)

lemma presents_swapped:
  assumes "async_inflight st < async_inflight_limit st"
  shows "presents 1 st (st\<lparr>pending := pending st @ [fb], async_inflight := async_inflight st + 1,
    max_async_inflight := max (max_async_inflight st) (async_inflight st + 1)\<rparr>)"
proof -
  have "inflight_ok st \<Longrightarrow> length (pending st) < unat (async_inflight_limit st) \<and> async_inflight st + 1 \<le> async_inflight_limit st"
  proof -
    assume *: "inflight_ok st"
    have "unat (async_inflight st) < unat (async_inflight_limit st)" using assms by (simp add: word_less_nat_alt)
    moreover have "length (pending st) < 2 ^ 64"
      using * unat_bound [of "async_inflight_limit st"] by (simp add: inflight_ok_def)
    then have "unat (async_inflight st) = length (pending st)"
      using * by (simp add: inflight_ok_def unat_of_nat_eq)
    moreover have "async_inflight st + 1 \<le> async_inflight_limit st"
      using assms by (metis inc_le)
    ultimately show ?thesis by simp
  qed
  then show ?thesis by (auto simp: presents_def handover_def inflight_ok_def tally_def recorded_def)
qed

text \<open>One imported frame, with asynchronous and with synchronous feedback.\<close>

definition count_presented :: "State \<Rightarrow> State" where
  "count_presented st = (if async_feedback st then st else st\<lparr>presented := presented st + 1\<rparr>)"

lemma presents_recorded:
  assumes "record_presentation submit surf render swap t flags st = (True, st')" and "\<not> async_feedback st"
  shows "presents 1 st (count_presented st')"
  using assms unat_Suc_le [of "presented st"]
  by (cases rule: record_presentation_cases [of submit surf render swap t flags st])
    (auto simp: count_presented_def presents_def handover_def inflight_ok_def tally_def recorded_def)

lemma presents_record_failed:
  "record_presentation submit surf render swap t flags st = (False, st') \<Longrightarrow> st' = st"
  by (cases rule: record_presentation_cases [of submit surf render swap t flags st]) auto

lemma presents_import:
  assumes "import_and_present env fd meta fmt submit surf st = (ok, st')"
    and "async_feedback st \<Longrightarrow> async_inflight st < async_inflight_limit st"
  shows "presents 1 st (if ok then count_presented st' else st')"
proof -
  have idle: "presents 1 st st" using presents_mono [OF presents_refl] by simp
  define st1 where "st1 = set_fifo_barrier (set_commit_target submit st)"
  define st2 where "st2 = st1\<lparr>requests := requests st1 @ [RequestFeedback]\<rparr>"
  define st3 where "st3 = st2\<lparr>requests := requests st2 @ [SwapBuffers]\<rparr>"
  define fb where "fb = \<lparr>af_submit = submit, af_surface_ready_ns = surf, af_render_started_ns = env_render_started env,
    af_swap_submitted_ns = env_swap_submitted env\<rparr>"
  define st4 where "st4 = st3\<lparr>pending := pending st3 @ [fb], async_inflight := async_inflight st3 + 1,
    max_async_inflight := max (max_async_inflight st3) (async_inflight st3 + 1)\<rparr>"
  have p2: "prepared st st2" using prepared_commit by (simp add: st2_def st1_def)
  have p3: "prepared st st3" using prepared_commit by (simp add: st3_def st2_def st1_def)
  have sync: "presents 1 st (count_presented st')"
    if "record_presentation submit surf r w t fl st3 = (True, st')" "\<not> async_feedback st" for r w t fl
    using presents_trans [OF prepared_presents [OF p3] presents_recorded [OF that(1)]] that(2)
    by (simp add: prepared_simps [OF p3])
  have async: "presents 1 st (fold deliver es st4)" if "async_feedback st" for es
  proof -
    have "presents 1 st3 st4"
      using presents_swapped [of st3 fb] assms(2) [OF that] by (simp add: st4_def prepared_simps [OF p3])
    then show ?thesis
      using presents_trans [OF presents_trans [OF prepared_presents [OF p3]] presents_deliver] by simp
  qed
  have count: "count_presented (fold deliver es st4) = fold deliver es st4" if "async_feedback st" for es
    using delivered(1) [of es st4] that
    by (simp add: count_presented_def handover_def st4_def prepared_simps [OF p3])
  have body: "import_and_present env fd meta fmt submit surf st =
      (case parse_modifier fmt of None \<Rightarrow> (False, st) | Some m \<Rightarrow>
         if \<not> env_image env (import_attributes fd meta m) \<or> \<not> env_make_current env then (False, st)
         else if \<not> env_gl_ok env then (False, st)
         else if \<not> env_swap env then (False, st2)
         else if async_feedback st3
         then (case env_roundtrip env of None \<Rightarrow> (False, st4)
               | Some es \<Rightarrow> (\<not> failed (fold deliver es st4), fold deliver es st4))
         else if fb_presented (env_feedback env)
         then record_presentation submit surf (env_render_started env) (env_swap_submitted env)
                (fb_time_ns (env_feedback env)) (fb_flags (env_feedback env)) st3
         else (False, st3))"
    by (simp add: import_and_present_def st4_def st3_def st2_def st1_def fb_def Let_def cong: option.case_cong if_cong)
  have p: "presents 1 st st2" "presents 1 st st3"
    using presents_mono [OF prepared_presents [OF p2]] presents_mono [OF prepared_presents [OF p3]] by simp_all
  show ?thesis
    using assms(1) idle p sync async [of "[]"] async count
    unfolding body prepared_simps(6) [OF p3]
    by (cases ok) (auto dest: presents_record_failed split: option.splits if_splits)
qed

lemma presents_sample:
  assumes "present_sample env s submit surf st = (ok, st')"
    and "async_feedback st \<Longrightarrow> async_inflight st < async_inflight_limit st"
  shows "presents 1 st (if ok then count_presented st' else st')"
proof -
  have idle: "presents 1 st st" using presents_mono [OF presents_refl] by simp
  have named: "presents 1 st (if b then count_presented v else v)"
    if "import_and_present env fd meta fmt submit surf (st\<lparr>st_drm_format := a, st_width := w, st_height := h\<rparr>) = (b, v)"
    for fd meta fmt a w h b v
  proof -
    have "presents 0 st (st\<lparr>st_drm_format := a, st_width := w, st_height := h\<rparr>)"
      by (simp add: presents_def handover_def inflight_ok_def tally_def recorded_def)
    from presents_trans [OF this presents_import [OF that]] assms(2) show ?thesis by simp
  qed
  show ?thesis
    using assms(1) idle
    by (auto simp: present_sample_def dest!: named split: option.splits if_splits)
qed

lemma presents_process:
  assumes "process_sample env s submit surf st = Some (ok, st')"
  shows "presents 1 st (if ok then count_presented st' else st')"
proof (cases "async_feedback st")
  case False
  with assms have "present_sample env s submit surf st = (ok, st')" by (simp add: process_sample_def)
  with presents_sample False show ?thesis by blast
next
  case True
  with assms obtain r st1 where w: "await_inflight (async_inflight_limit st) (env_dispatches env) st = Some (r, st1)"
    and rest: "if r then (if is_stale (env_now env) submit then (ok, st') = (True, drop_stale (env_now env) submit st1)
                else present_sample env s submit surf st1 = (ok, st')) else (ok, st') = (False, st1)"
    by (auto simp: process_sample_def split: option.splits bool.splits if_splits)
  note a = presents_await [OF w]
  then have m: "async_feedback st1" "async_inflight_limit st1 = async_inflight_limit st"
    using True by (auto simp: presents_def handover_def)
  have stale: "presents 1 st1 (drop_stale n submit st1)" for n
    using unat_Suc_le [of "stale_frames_dropped st1"]
    by (auto simp: presents_def drop_stale_def handover_def inflight_ok_def tally_def recorded_def)
  have same: "count_presented (drop_stale n submit st1) = drop_stale n submit st1" for n
    using m(1) by (simp add: count_presented_def drop_stale_def)
  have sample: "presents 1 st1 (if ok then count_presented st' else st')"
    if "r" "present_sample env s submit surf st1 = (ok, st')"
    using presents_sample [OF that(2)] a that(1) m by auto
  have "presents 1 st1 (if ok then count_presented st' else st')"
    using rest stale [of "env_now env"] same [of "env_now env"] sample presents_mono [OF presents_refl, of 1 st1]
    by (auto split: if_splits)
  with presents_trans [of 0 st st1 1] a show ?thesis by simp
qed

lemma worker_process_cases:
  assumes "worker_process env it st = Some (w, st')"
  obtains (went_on) "w = WorkerWaiting" "presents 1 st st'"
  | (stopped) st1 where "w = WorkerDraining" "presents 1 st st1" "st' = st1\<lparr>failed := True, worker_stop := True\<rparr>"
proof -
  obtain s submit surf where it: "it = (s, submit, surf)" by (cases it)
  obtain ok st1 where p: "process_sample env s submit surf st = Some (ok, st1)"
    using assms by (auto simp: it split: option.splits)
  note q = presents_process [OF p]
  show ?thesis
  proof (cases ok)
    case True
    then show ?thesis using assms p q by (intro went_on) (auto simp: it count_presented_def)
  next
    case False
    then show ?thesis using assms p q by (intro stopped [of st1]) (auto simp: it)
  qed
qed

lemma presents_drain:
  assumes "worker_drain ds st = Some st'"
  shows "presents 0 st st'"
  using assms presents_await [of 1 ds st] presents_refl
  by (auto simp: worker_drain_def drain_async_feedback_def split: if_splits option.splits bool.splits)


section \<open>The invariant of the threads\<close>

lemma on_decoder_input_cases:
  assumes "on_decoder_input env st = Some (r, st')"
  obtains (ignored) "st' = st"
  | (dropped) n t where "st' = st\<lparr>submitted := n, first_target_present_ns := t, failed := True\<rparr>"
  | (stamped) stamp n t l where
      "st' = push_stamp stamp (st\<lparr>submitted := n, first_target_present_ns := t, input_schedule_late_ms := l\<rparr>)"
proof (cases "\<not> se_is_buffer env")
  case True
  then show ?thesis using assms by (intro ignored) (simp add: on_decoder_input_def)
next
  case buf: False
  show ?thesis
  proof (cases "submit_lead_ns st = 0")
    case True
    then show ?thesis using assms buf
      by (intro stamped [where n = "submitted st + 1" and t = "first_target_present_ns st" and l = "input_schedule_late_ms st"])
        (auto simp: on_decoder_input_def Let_def)
  next
    case False
    then show ?thesis using assms buf
      by (auto simp: on_decoder_input_def Let_def split: prod.splits option.splits if_splits
          intro: dropped stamped)
  qed
qed

definition held_items :: "worker \<Rightarrow> item list" where
  "held_items w = (case w of WorkerHolding it \<Rightarrow> [it] | _ \<Rightarrow> [])"

definition accounted :: "State \<Rightarrow> nat \<Rightarrow> bool" where
  "accounted st k \<longleftrightarrow> \<not> failed st \<longrightarrow> tally st + k \<le> unat (queued st) \<and> recorded st"

definition pipeline_inv :: "pipeline \<Rightarrow> bool" where
  "pipeline_inv c \<longleftrightarrow> inflight_ok (shared c) \<and>
     accounted (shared c) (length (ready_items (shared c)) + length (held_items (worker c))) \<and>
     queued (shared c) \<le> expected_frames (shared c) \<and>
     (producer c \<noteq> ProducerEnded \<longrightarrow> queued (shared c) < expected_frames (shared c))"

lemma decoder_input_keeps:
  assumes "on_decoder_input env st = Some (r, st')"
  shows "ready_items st' = ready_items st" "queued st' = queued st" "expected_frames st' = expected_frames st"
    "worker_stop st' = worker_stop st" "producer_done st' = producer_done st" "inflight_ok st' = inflight_ok st"
    "accounted st k \<Longrightarrow> accounted st' k"
proof -
  note defs = push_stamp_def Let_def ready_items_def inflight_ok_def accounted_def tally_def recorded_def
  show "ready_items st' = ready_items st" "queued st' = queued st" "expected_frames st' = expected_frames st"
    "worker_stop st' = worker_stop st" "producer_done st' = producer_done st" "inflight_ok st' = inflight_ok st"
    using assms by (auto elim!: on_decoder_input_cases simp: defs split: option.split)
  show "accounted st k \<Longrightarrow> accounted st' k"
    by (cases rule: on_decoder_input_cases [OF assms]) (auto simp: defs)
qed

lemma pull_stamp_keeps:
  assumes "pull_stamp pulled surf st = (it, st')"
  shows "ready_items st' = ready_items st" "queued st' = queued st" "expected_frames st' = expected_frames st"
    "worker_stop st' = worker_stop st" "inflight_ok st' = inflight_ok st" "accounted st k \<Longrightarrow> accounted st' k"
  using assms
  by (auto simp: pull_stamp_def ready_items_def inflight_ok_def accounted_def tally_def recorded_def
      split: option.splits list.splits)

lemma presents_keeps:
  assumes "presents k st st'"
  shows "ready_items st' = ready_items st" "queued st' = queued st" "expected_frames st' = expected_frames st"
    "inflight_ok st \<Longrightarrow> inflight_ok st'" "accounted st (n + k) \<Longrightarrow> accounted st' n"
    "worker_stop st' = worker_stop st" "submit_queue st' = submit_queue st"
proof -
  have h: "handover st' = handover st" using assms by (simp add: presents_def)
  then show "ready_items st' = ready_items st" "queued st' = queued st" "expected_frames st' = expected_frames st"
    "worker_stop st' = worker_stop st" "submit_queue st' = submit_queue st"
    by (simp_all add: handover_def ready_items_def split: option.split)
  then show "accounted st (n + k) \<Longrightarrow> accounted st' n"
    using assms by (auto simp: presents_def accounted_def)
qed (use assms in \<open>simp add: presents_def\<close>)

lemma publish_ready_inv:
  assumes "producer_wait_over st" and "publish_ready it st = (f, st')"
    and "queued st < expected_frames st" and "inflight_ok st" and "accounted st (length (ready_items st) + n)"
  shows "inflight_ok st'" "accounted st' (length (ready_items st') + n)" "queued st' \<le> expected_frames st'"
    "f = FlowOk \<Longrightarrow> queued st' < expected_frames st'"
proof -
  have q: "unat (queued st + 1) = unat (queued st) + 1" "queued st + 1 \<le> expected_frames st"
    using unat_Suc_of_less [OF assms(3)] assms(3) inc_le by auto
  show "inflight_ok st'" "accounted st' (length (ready_items st') + n)" "queued st' \<le> expected_frames st'"
    "f = FlowOk \<Longrightarrow> queued st' < expected_frames st'"
    using assms q
    by (cases it; cases "worker_stop st";
        auto simp: Let_def flow_after_def producer_wait_over_def ready_items_def inflight_ok_def accounted_def
          tally_def recorded_def split: if_splits)+
qed

lemma worker_wake_keeps:
  assumes "worker_wake st = (w, st')"
  shows "queued st' = queued st" "expected_frames st' = expected_frames st" "inflight_ok st' = inflight_ok st"
    "accounted st (length (ready_items st)) \<Longrightarrow> accounted st' (length (ready_items st') + length (held_items w))"
  using assms
  by (auto simp: worker_wake_def ready_items_def held_items_def inflight_ok_def accounted_def tally_def recorded_def
      split: if_splits option.splits)

lemma ready_items_flags [simp]: "ready_items (st\<lparr>failed := a, worker_stop := b\<rparr>) = ready_items st"
  by (simp add: ready_items_def split: option.split)

lemma worker_process_keeps:
  assumes "worker_process env it st = Some (w, st')"
  shows "ready_items st' = ready_items st" "queued st' = queued st" "expected_frames st' = expected_frames st"
    "inflight_ok st \<Longrightarrow> inflight_ok st'" "accounted st (n + 1) \<Longrightarrow> accounted st' (n + length (held_items w))"
proof -
  show "ready_items st' = ready_items st" "queued st' = queued st" "expected_frames st' = expected_frames st"
    "inflight_ok st \<Longrightarrow> inflight_ok st'"
    using assms
    by (auto elim!: worker_process_cases dest: presents_keeps simp: inflight_ok_def)
  show "accounted st (n + 1) \<Longrightarrow> accounted st' (n + length (held_items w))"
    using assms
    by (auto elim!: worker_process_cases dest: presents_keeps simp: accounted_def held_items_def)
qed

lemma finish_producer_keeps:
  "ready_items (finish_producer eos st) = ready_items st" "queued (finish_producer eos st) = queued st"
  "expected_frames (finish_producer eos st) = expected_frames st"
  "inflight_ok (finish_producer eos st) = inflight_ok st" "accounted (finish_producer eos st) k = accounted st k"
  "submit_queue (finish_producer eos st) = submit_queue st" "worker_stop st \<Longrightarrow> worker_stop (finish_producer eos st)"
  by (simp_all add: finish_producer_def Let_def ready_items_def inflight_ok_def accounted_def tally_def recorded_def
      split: option.split)

lemma pipeline_inv_step: "pipeline_inv c \<Longrightarrow> pipeline_step c e c' \<Longrightarrow> pipeline_inv c'"
proof -
  assume inv: "pipeline_inv c" and step: "pipeline_step c e c'"
  from step inv show "pipeline_inv c'"
  proof cases
    case (decoder_input env st r st' p w)
    then show ?thesis using inv decoder_input_keeps [OF decoder_input(4)] by (simp add: pipeline_inv_def)
  next
    case (pull pulled surf st it st' w)
    then show ?thesis using inv pull_stamp_keeps [OF pull(4)] by (simp add: pipeline_inv_def)
  next
    case (pull_error pulled surf st st' w)
    then show ?thesis using inv pull_stamp_keeps [OF pull_error(4)] by (simp add: pipeline_inv_def)
  next
    case (publish st it f st' w)
    then show ?thesis using inv publish_ready_inv [OF publish(4,5)] by (auto simp: pipeline_inv_def)
  next
    case (wake st w st' p)
    then show ?thesis using inv worker_wake_keeps [OF wake(5)] by (simp add: pipeline_inv_def held_items_def)
  next
    case (process env it st w st' p)
    then show ?thesis using inv worker_process_keeps(1-4) [OF process(4)]
        worker_process_keeps(5) [OF process(4), of "length (ready_items st)"]
      by (simp add: pipeline_inv_def held_items_def)
  next
    case (drain ds st st' p)
    then show ?thesis using inv presents_keeps(1-4) [OF presents_drain [OF drain(4)]]
        presents_keeps(5) [OF presents_drain [OF drain(4)], of "length (ready_items st)"]
      by (simp add: pipeline_inv_def held_items_def)
  next
    case (finish st p w eos)
    then show ?thesis using inv finish_producer_keeps by (simp add: pipeline_inv_def)
  qed
qed


lemma ready_slot_step:
  assumes "pipeline_step c e c'"
  shows "queue_step 1 (ready_items (shared c)) e (ready_items (shared c'))"
  using assms
proof cases
  case (decoder_input env st r st' p w)
  then show ?thesis using decoder_input_keeps(1) [OF decoder_input(4)]
    by (auto simp: stamp_event_def intro: queue_step.intros)
next
  case (publish st it f st' w)
  then show ?thesis
    using queue_step.published [of "[]" 1 it]
    by (cases it) (auto simp: producer_wait_over_def ready_items_def Let_def intro: queue_step.silent split: if_splits option.splits)
next
  case (wake st w st' p)
  then show ?thesis
    using queue_step.dropped [of 1 "ready_items st" "[]"] queue_step.taken [of 1 _ "[]"]
    by (auto simp: worker_wake_def ready_items_def split: if_splits option.splits)
next
  case (process env it st w st' p)
  then show ?thesis using worker_process_keeps(1) [OF process(4)] by (auto intro: queue_step.silent)
qed (auto simp: pull_stamp_keeps finish_producer_keeps presents_keeps [OF presents_drain] intro: queue_step.silent)

interpretation ready_slot: bounded_queue 1 pipeline_step pipeline_inv "\<lambda>c. ready_items (shared c)"
  by unfold_locales (assumption | rule pipeline_inv_step ready_slot_step)+


section \<open>Stamps meet their samples in order\<close>

definition stamp_of :: "item \<Rightarrow> SubmitStamp" where
  "stamp_of it = fst (snd it)"

definition waiting_items :: "producer \<Rightarrow> item list" where
  "waiting_items p = (case p of ProducerWaiting it \<Rightarrow> [it] | _ \<Rightarrow> [])"

definition stamps_paired :: "SubmitStamp list \<Rightarrow> item list \<Rightarrow> pipeline \<Rightarrow> bool" where
  "stamps_paired pushed published c \<longleftrightarrow> prefix (map stamp_of published) pushed \<and>
     (worker_stop (shared c) \<or>
      pushed = map stamp_of published @ map stamp_of (waiting_items (producer c)) @ submit_queue (shared c))"

lemma decoder_input_queue:
  assumes "on_decoder_input env st = Some (r, st')"
  shows "submit_queue st' = submit_queue st @ calls [stamp_event st st']"
  by (cases rule: on_decoder_input_cases [OF assms]) (simp_all add: push_stamp_def stamp_event_def Let_def)

lemma stamps_paired_step:
  assumes "pipeline_step c e c'" and "stamps_paired pushed published c"
  shows "stamps_paired (pushed @ calls [e]) (published @ added [e]) c'"
  using assms(1)
proof cases
  case (decoder_input env st r st' p w)
  have "added [e] = []" using decoder_input by (simp add: stamp_event_def)
  then show ?thesis
    using decoder_input assms(2) decoder_input_queue [OF decoder_input(4)] decoder_input_keeps(4) [OF decoder_input(4)]
    by (auto simp: stamps_paired_def)
next
  case (pull pulled surf st it st' w)
  then show ?thesis using assms(2)
    by (auto simp: stamps_paired_def pull_stamp_def waiting_items_def stamp_of_def split: option.splits list.splits)
next
  case (pull_error pulled surf st st' w)
  then show ?thesis using assms(2)
    by (auto simp: stamps_paired_def pull_stamp_def waiting_items_def split: option.splits list.splits)
next
  case (publish st it f st' w)
  have k: "worker_stop st' = worker_stop st" "submit_queue st' = submit_queue st"
    using publish(5) by (cases it, auto simp: Let_def split: if_splits)+
  show ?thesis
  proof (cases "worker_stop st")
    case True
    then show ?thesis using publish(1-3) assms(2) k by (simp add: stamps_paired_def)
  next
    case False
    then have "pushed = map stamp_of (published @ [it]) @ submit_queue st"
      using publish(1) assms(2) by (simp add: stamps_paired_def waiting_items_def)
    moreover have "waiting_items (producer c') = []" using publish(3) by (simp add: waiting_items_def)
    ultimately show ?thesis using publish(2,3) False k by (simp add: stamps_paired_def prefixI)
  qed
next
  case (wake st w st' p)
  have "worker_stop st' = worker_stop st \<and> submit_queue st' = submit_queue st"
    using wake(5) by (auto simp: worker_wake_def split: if_splits option.splits)
  moreover have "added [e] = [] \<and> calls [e] = []" using wake(2) by (simp split: worker.splits)
  ultimately show ?thesis using wake(1,3) assms(2) by (simp add: stamps_paired_def)
next
  case (process env it st w st' p)
  from process(4) have "worker_stop st' \<or> worker_stop st' = worker_stop st \<and> submit_queue st' = submit_queue st"
      "worker_stop st \<Longrightarrow> worker_stop st'"
    by (auto elim!: worker_process_cases dest: presents_keeps)
  with process assms(2) show ?thesis by (auto simp: stamps_paired_def)
next
  case (drain ds st st' p)
  then show ?thesis using assms(2) presents_keeps(6,7) [OF presents_drain [OF drain(4)]]
    by (simp add: stamps_paired_def)
next
  case (finish st p w eos)
  then show ?thesis using assms(2) finish_producer_keeps(6,7) by (auto simp: stamps_paired_def)
qed

lemma stamps_paired_run:
  assumes "trace_run pipeline_step (pipeline_start st) t c" and "submit_queue st = []"
  shows "stamps_paired (calls t) (added t) c"
  using assms(1)
proof (induction rule: trace_run.induct)
  case start
  then show ?case using assms(2) by (simp add: stamps_paired_def pipeline_start_def waiting_items_def)
next
  case (snoc t c e c')
  then show ?case using stamps_paired_step by simp
qed

end
