(* ===== verification/Client_Gate.thy ===== *)
theory Client_Gate
  imports Client_Pipeline
begin

text \<open>
  \<^verbatim>\<open>probes/video/plank-probe-client-pipeline.cpp\<close>, the main function: the command line, the run of
  the pipeline and the gate over its statistics, with the properties of whole runs.
\<close>

section \<open>Command line\<close>

definition parse_frames :: "string list \<Rightarrow> State \<Rightarrow> State option" where
  "parse_frames argv st =
     (if length argv \<ge> 3
      then map_option (\<lambda>n. st\<lparr>expected_frames := n\<rparr>) (parse_positive (argv ! 2))
      else Some st)"

definition parse_lead :: "string list \<Rightarrow> State \<Rightarrow> State option" where
  "parse_lead argv st =
     (if length argv \<ge> 4
      then (case parse_nonnegative (argv ! 3) of
              None \<Rightarrow> None
            | Some lead_us \<Rightarrow> if lead_us \<ge> 16667 then None else Some (st\<lparr>submit_lead_ns := lead_us * 1000\<rparr>))
      else Some st)"

definition parse_mode :: "string list \<Rightarrow> State \<Rightarrow> State option" where
  "parse_mode argv st =
     (if length argv \<ge> 5
      then let mode = argv ! 4
           in if mode \<notin> {''serial'', ''threaded'', ''async'', ''async-nofifo''} then None
              else Some (st\<lparr>threaded := mode \<noteq> ''serial'',
                            async_feedback := mode = ''async'' \<or> mode = ''async-nofifo'',
                            fifo_enabled := mode = ''async''\<rparr>)
      else Some st)"

definition parse_inflight :: "string list \<Rightarrow> State \<Rightarrow> State option" where
  "parse_inflight argv st =
     (if length argv = 6
      then if \<not> async_feedback st then None
           else (case parse_positive (argv ! 5) of
                   None \<Rightarrow> None
                 | Some limit \<Rightarrow> if limit > 4 then None else Some (st\<lparr>async_inflight_limit := limit\<rparr>))
      else Some st)"

text \<open>\<open>None\<close> is exit status 2.\<close>

definition parse_arguments :: "string list \<Rightarrow> State option" where
  "parse_arguments argv =
     (if length argv < 2 \<or> length argv > 6 then None
      else Option.bind (parse_frames argv (State_init\<lparr>expected_frames := 600\<rparr>)) (\<lambda>st.
           Option.bind (parse_lead argv st) (\<lambda>st.
           Option.bind (parse_mode argv st) (parse_inflight argv))))"

text \<open>What the graphics initialisation leaves in the state.\<close>

definition with_graphics :: "wayland \<times> u64 \<times> u64 \<Rightarrow> State \<Rightarrow> State" where
  "with_graphics g st =
     (case g of (wl, refresh, target) \<Rightarrow>
        st\<lparr>commit_timer := commit_timing_manager wl, fifo := fifo_manager wl, refresh_ns := refresh,
           first_target_present_ns := target\<rparr>)"

section \<open>The gate\<close>

definition effective_fps :: "State \<Rightarrow> rat" where
  "effective_fps st =
     (let t = timings st; frames = presented st
      in if frames > 1 \<and> last_presentation_ns t > first_presentation_ns t
         then dbl_div (dbl_mul (dbl_of_u64 (frames - 1)) 1000000000)
                (dbl_of_u64 (last_presentation_ns t - first_presentation_ns t))
         else 0)"

definition interval_missed :: "u64 \<Rightarrow> rat \<Rightarrow> bool" where
  "interval_missed refresh ms \<longleftrightarrow> dbl_mul ms 1000000 > dbl_mul (dbl_of_u64 refresh) (3 / 2)"

definition missed_refresh_intervals :: "State \<Rightarrow> nat" where
  "missed_refresh_intervals st =
     length (filter (interval_missed (refresh_ns st)) (presentation_interval_ms (timings st)))"

definition frame_pacing_passed :: "State \<Rightarrow> bool" where
  "frame_pacing_passed st \<longleftrightarrow>
     effective_fps st \<ge> rnd64 (599 / 10) \<and> missed_refresh_intervals st = 0 \<and>
     percentile (presentation_interval_ms (timings st)) (rnd64 (95 / 100)) \<le> rnd64 (168 / 10)"

definition gate_passed :: "bool \<Rightarrow> State \<Rightarrow> bool" where
  "gate_passed reached_eos st \<longleftrightarrow>
     reached_eos \<and> \<not> failed st \<and> presented st = expected_frames st \<and>
     of_nat (length (submit_to_present_ms (timings st))) = presented st \<and> frame_pacing_passed st"

section \<open>Runs from the command line\<close>

text \<open>The state the command line gives: nothing has happened and the limits are in range.\<close>

definition configured_state :: "State \<Rightarrow> bool" where
  "configured_state st \<longleftrightarrow> queued st = 0 \<and> presented st = 0 \<and> submitted st = 0 \<and> \<not> failed st \<and>
     submit_queue st = [] \<and> ready_sample st = None \<and> \<not> worker_stop st \<and> \<not> producer_done st \<and>
     async_inflight st = 0 \<and> max_async_inflight st = 0 \<and> stale_frames_dropped st = 0 \<and> pending st = [] \<and>
     timings st = blank_timings \<and> 0 < expected_frames st \<and>
     1 \<le> async_inflight_limit st \<and> async_inflight_limit st \<le> 4 \<and> submit_lead_ns st \<le> 16666000"

lemmas configured_defs = configured_state_def State_init_def

lemma parse_frames_configured:
  "parse_frames argv st = Some st' \<Longrightarrow> configured_state st \<Longrightarrow> configured_state st'"
  by (auto simp: parse_frames_def configured_state_def dest: parse_positive_nonzero split: if_splits)

lemma lead_bound:
  fixes x :: u64
  assumes "\<not> 16667 \<le> x"
  shows "x * 1000 \<le> 16666000"
proof -
  have "unat x < 16667" using assms by (simp add: word_le_nat_alt not_le)
  then show ?thesis by (simp add: word_le_nat_alt unat_word_ariths)
qed

lemma parse_lead_configured:
  "parse_lead argv st = Some st' \<Longrightarrow> configured_state st \<Longrightarrow> configured_state st'"
  by (auto simp: parse_lead_def configured_state_def lead_bound split: if_splits option.splits)

lemma parse_mode_configured:
  "parse_mode argv st = Some st' \<Longrightarrow> configured_state st \<Longrightarrow> configured_state st'"
  by (auto simp: parse_mode_def Let_def configured_state_def split: if_splits)

lemma parse_inflight_configured:
  "parse_inflight argv st = Some st' \<Longrightarrow> configured_state st \<Longrightarrow> configured_state st'"
  by (auto simp: parse_inflight_def configured_state_def word_le_nat_alt word_less_nat_alt
      dest!: parse_positive_nonzero split: if_splits option.splits)

lemma parse_arguments_configured:
  assumes "parse_arguments argv = Some st"
  shows "configured_state (with_graphics g st)"
proof -
  have "configured_state (State_init\<lparr>expected_frames := 600\<rparr>)" by (simp add: configured_defs)
  then have "configured_state st"
    using assms
    by (auto simp: parse_arguments_def Option.bind_eq_Some_conv split: if_splits
        dest: parse_frames_configured parse_lead_configured parse_mode_configured parse_inflight_configured)
  then show ?thesis by (simp add: configured_state_def with_graphics_def split: prod.split)
qed

lemma configured_start: "configured_state st \<Longrightarrow> pipeline_inv (pipeline_start st)"
  by (simp add: configured_state_def pipeline_inv_def pipeline_start_def inflight_ok_def accounted_def tally_def
      recorded_def ready_items_def held_items_def blank_timings_def)

section \<open>Executing the threads\<close>

text \<open>The step relation as a function of which thread moves and of what the libraries answer.\<close>

datatype pipeline_action =
  DecoderInput schedule_env | Pull "sample option" u64 | Publish | Wake | Process frame_env
  | Drain "dispatch list" | Finish bool

fun pipeline_exec :: "pipeline_action \<Rightarrow> pipeline \<Rightarrow> ((SubmitStamp, item) queue_event \<times> pipeline) option" where
  "pipeline_exec (DecoderInput env) c =
     (case on_decoder_input env (shared c) of
        None \<Rightarrow> None | Some (r, st) \<Rightarrow> Some (stamp_event (shared c) st, c\<lparr>shared := st\<rparr>))"
| "pipeline_exec (Pull pulled surf) c =
     (if producer c = ProducerIdle
      then (case pull_stamp pulled surf (shared c) of
              (None, st) \<Rightarrow> Some (Silent, c\<lparr>shared := st, producer := ProducerEnded\<rparr>)
            | (Some it, st) \<Rightarrow> Some (Silent, c\<lparr>shared := st, producer := ProducerWaiting it\<rparr>))
      else None)"
| "pipeline_exec Publish c =
     (case producer c of
        ProducerWaiting it \<Rightarrow>
          if producer_wait_over (shared c)
          then (case publish_ready it (shared c) of
                  (f, st) \<Rightarrow> Some (if worker_stop (shared c) then Silent else Published it,
                    c\<lparr>shared := st, producer := if f = FlowOk then ProducerIdle else ProducerEnded\<rparr>))
          else None
      | _ \<Rightarrow> None)"
| "pipeline_exec Wake c =
     (if worker c = WorkerWaiting \<and> worker_wait_over (shared c)
      then (case worker_wake (shared c) of
              (w, st) \<Rightarrow> Some (case w of WorkerHolding it \<Rightarrow> Taken it | _ \<Rightarrow> Dropped (ready_items (shared c)),
                c\<lparr>shared := st, worker := w\<rparr>))
      else None)"
| "pipeline_exec (Process env) c =
     (case worker c of
        WorkerHolding it \<Rightarrow>
          (case worker_process env it (shared c) of
             None \<Rightarrow> None | Some (w, st) \<Rightarrow> Some (Silent, c\<lparr>shared := st, worker := w\<rparr>))
      | _ \<Rightarrow> None)"
| "pipeline_exec (Drain ds) c =
     (if worker c = WorkerDraining
      then map_option (\<lambda>st. (Silent, c\<lparr>shared := st, worker := WorkerEnded\<rparr>)) (worker_drain ds (shared c))
      else None)"
| "pipeline_exec (Finish eos) c = Some (Silent, c\<lparr>shared := finish_producer eos (shared c)\<rparr>)"

lemma pipeline_exec_step: "pipeline_exec a c = Some (e, c') \<Longrightarrow> pipeline_step c e c'"
proof -
  assume *: "pipeline_exec a c = Some (e, c')"
  obtain st p w where c: "c = \<lparr>shared = st, producer = p, worker = w\<rparr>" by (cases c)
  show ?thesis
  proof (cases a)
    case Publish
    then obtain it where p: "p = ProducerWaiting it" "producer_wait_over st"
      using * by (simp add: c split: producer.splits if_splits)
    obtain f st' where "publish_ready it st = (f, st')" by fastforce
    with * Publish p show ?thesis using pipeline_step.publish [of st it f st' w] by (simp add: c)
  next
    case Wake
    then have w: "w = WorkerWaiting" "worker_wait_over st" using * by (simp_all add: c split: if_splits)
    obtain w' st' where "worker_wake st = (w', st')" by fastforce
    with * Wake w show ?thesis using pipeline_step.wake [of st w' st' p] by (cases w') (auto simp: c)
  qed (use * in \<open>auto simp: c split: option.splits prod.splits if_splits worker.splits intro: pipeline_step.intros\<close>)
qed

lemma pipeline_step_exec: "pipeline_step c e c' \<Longrightarrow> \<exists>a. pipeline_exec a c = Some (e, c')"
proof (induction rule: pipeline_step.induct)
  case (decoder_input env st r st' p w)
  then show ?case by (intro exI [of _ "DecoderInput env"]) simp
next
  case (pull pulled surf st it st' w)
  then show ?case by (intro exI [of _ "Pull pulled surf"]) simp
next
  case (pull_error pulled surf st st' w)
  then show ?case by (intro exI [of _ "Pull pulled surf"]) simp
next
  case (publish st it f st' w)
  then show ?case by (intro exI [of _ Publish]) simp
next
  case (wake st w st' p)
  then show ?case by (intro exI [of _ Wake], cases w) simp_all
next
  case (process env it st w st' p)
  then show ?case by (intro exI [of _ "Process env"]) simp
next
  case (drain ds st st' p)
  then show ?case by (intro exI [of _ "Drain ds"]) simp
next
  case (finish st p w eos)
  then show ?case by (intro exI [of _ "Finish eos"]) simp
qed

fun run_actions ::
    "pipeline_action list \<Rightarrow> (SubmitStamp, item) queue_event list \<Rightarrow> pipeline \<Rightarrow>
     ((SubmitStamp, item) queue_event list \<times> pipeline) option" where
  "run_actions [] t c = Some (t, c)"
| "run_actions (a # as) t c =
     (case pipeline_exec a c of None \<Rightarrow> None | Some (e, c) \<Rightarrow> run_actions as (t @ [e]) c)"

lemma run_actions_trace:
  "run_actions as t c = Some (t', c') \<Longrightarrow> trace_run pipeline_step s t c \<Longrightarrow> trace_run pipeline_step s t' c'"
proof (induction as arbitrary: t c)
  case (Cons a as)
  then show ?case by (auto split: option.splits intro: trace_run.snoc pipeline_exec_step)
qed simp

lemmas pipeline_eval = on_decoder_input_def push_stamp_def schedule_wake_def stamp_event_def pull_stamp_def
  producer_wait_over_def worker_wait_over_def worker_wake_def process_sample_def present_sample_def
  import_and_present_def set_commit_target_def set_fifo_barrier_def record_presentation_def flow_after_def
  finish_producer_def worker_drain_def ready_items_def flag_count_def Let_def

definition demo_sample :: sample where
  "demo_sample = \<lparr>smp_buffer = True, smp_meta = Some (3840, 2160, 0, 15360), smp_drm_format = Some ''Y410:0x1'',
     smp_n_memory = 1, smp_is_dmabuf = True, smp_fd = 7\<rparr>"

definition demo_input :: "u64 \<Rightarrow> schedule_env" where
  "demo_input t = \<lparr>se_is_buffer = True, se_now = t, se_sleep = [0], se_actual = t, se_stamp = t\<rparr>"

definition demo_frame :: "u64 \<Rightarrow> dispatch \<Rightarrow> frame_env" where
  "demo_frame t d = \<lparr>env_dispatches = [], env_now = t, env_image = (\<lambda>_. True), env_make_current = True,
     env_gl_ok = True, env_render_started = t, env_swap = True, env_swap_submitted = t, env_roundtrip = d,
     env_feedback = \<lparr>fb_done = True, fb_presented = True, fb_time_ns = t, fb_refresh_ns = 16666667, fb_flags = 7\<rparr>\<rparr>"

lemma demo_modifier: "parse_modifier ''Y410:0x1'' = Some 1"
  by (simp add: parse_modifier_def strtoull_def choose_base_def hex_prefix_def c_isspace_def is_digit_def digit_value_def)

lemma demo_arguments:
  "parse_arguments [''p'', ''f'', ''2'', ''0'', ''threaded''] =
     Some (State_init\<lparr>expected_frames := 2, threaded := True\<rparr>)"
  by (simp add: parse_arguments_def parse_frames_def parse_lead_def parse_mode_def parse_inflight_def
      parse_positive_def parse_nonnegative_def strtoull_def choose_base_def c_isspace_def is_digit_def digit_value_def
      State_init_def)

definition demo_actions :: "pipeline_action list" where
  "demo_actions = [DecoderInput (demo_input 1000), DecoderInput (demo_input 2000), Pull (Some demo_sample) 3000,
     Publish, Wake, Pull (Some demo_sample) 4000, Process (demo_frame 16666667 None), Publish, Wake,
     Process (demo_frame 33333334 None), Finish True]"

definition demo_graphics :: "wayland \<times> u64 \<times> u64" where
  "demo_graphics = (wayland_start, 16666667, 100000000)"

abbreviation demo_start :: pipeline where
  "demo_start \<equiv> pipeline_start (with_graphics demo_graphics (State_init\<lparr>expected_frames := 2, threaded := True\<rparr>))"

lemma demo_words: "\<not> 2 \<le> (1 :: u64)" "\<not> 2 \<le> (0 :: u64)" "0 \<le>s (7 :: i32)"
  by (simp_all add: word_le_nat_alt word_sle_eq)

lemma demo_run:
  "map_option (\<lambda>(t, c). (length t, length (calls t), failed (shared c), presented (shared c), expected_frames (shared c),
      refresh_ns (shared c), length (submit_to_present_ms (timings (shared c))),
      first_presentation_ns (timings (shared c)), last_presentation_ns (timings (shared c)),
      presentation_interval_ms (timings (shared c))))
     (run_actions demo_actions [] demo_start) =
   Some (11, 2, False, 2, 2, 16666667, 2, 16666667, 33333334, [ns_to_ms 16666667])"
  by (simp add: demo_actions_def demo_input_def demo_frame_def demo_sample_def demo_graphics_def pipeline_eval
    pipeline_start_def with_graphics_def State_init_def blank_timings_def demo_modifier demo_words)

lemma demo_gate:
  assumes "failed st = False" "presented st = 2" "expected_frames st = 2" "refresh_ns st = 16666667"
    "length (submit_to_present_ms (timings st)) = 2"
    "first_presentation_ns (timings st) = 16666667" "last_presentation_ns (timings st) = 33333334"
    "presentation_interval_ms (timings st) = [ns_to_ms 16666667]"
  shows "gate_passed True st"
proof -
  have ex: "rnd64 16666667 = 16666667" "rnd64 1 = 1" "rnd64 1000000000 = 1000000000"
    using rnd64_nat [of 16666667] rnd64_nat [of 1] rnd64_nat [of 1000000000] by simp_all
  have fps: "effective_fps st = rnd64 (1000000000 / 16666667)"
    using assms by (simp add: effective_fps_def Let_def dbl_of_u64_def dbl_mul_def dbl_div_def ex word_less_nat_alt)
  have ms: "ns_to_ms 16666667 = rnd64 (16666667 / 1000000)"
    by (simp add: ns_to_ms_def dbl_of_u64_def dbl_div_def ex)
  have "rnd64 (16666667 / 1000000) \<le> rnd64 17" "rnd64 17 = 17"
    using rnd64_mono [of "16666667 / 1000000" 17] rnd64_nat [of 17] by simp_all
  then have "rnd64 (rnd64 (16666667 / 1000000) * 1000000) \<le> rnd64 (16666667 * 3 / 2)"
    using rnd64_nonneg [of "16666667 / 1000000"] by (intro rnd64_mono) simp_all
  then have "missed_refresh_intervals st = 0"
    using assms by (simp add: missed_refresh_intervals_def interval_missed_def ms dbl_mul_def dbl_of_u64_def ex)
  moreover have "percentile (presentation_interval_ms (timings st)) (rnd64 (95 / 100)) \<le> rnd64 (168 / 10)"
    using rnd64_mono [of "16666667 / 1000000" "168 / 10"] assms
    by (simp add: percentile_def percentile_index_def dbl_mul_def ms)
  moreover have "rnd64 (599 / 10) \<le> effective_fps st"
    using rnd64_mono [of "599 / 10" "1000000000 / 16666667"] by (simp add: fps)
  ultimately show ?thesis using assms by (simp add: gate_passed_def frame_pacing_passed_def)
qed

lemma demo_passes:
  obtains t c where "trace_run pipeline_step demo_start t c" "gate_passed True (shared c)" "length (calls t) = 2"
    "presentation_interval_ms (timings (shared c)) = [ns_to_ms 16666667]"
proof -
  obtain t c where r: "run_actions demo_actions [] demo_start = Some (t, c)"
    using demo_run by (cases "run_actions demo_actions [] demo_start") auto
  then have "gate_passed True (shared c)" "length (calls t) = 2"
    "presentation_interval_ms (timings (shared c)) = [ns_to_ms 16666667]"
    using demo_run by (auto intro: demo_gate)
  with that run_actions_trace [OF r trace_run.start] show ?thesis by blast
qed

definition demo_async :: "pipeline_action list" where
  "demo_async = [DecoderInput (demo_input 1000), Pull (Some demo_sample) 3000, Publish, Wake,
     Process (demo_frame 16666667 (Some []))]"

abbreviation demo_async_state :: State where
  "demo_async_state \<equiv> State_init\<lparr>expected_frames := 2, threaded := True, async_feedback := True, fifo_enabled := True,
     async_inflight_limit := 2\<rparr>"

abbreviation demo_async_start :: pipeline where
  "demo_async_start \<equiv> pipeline_start (with_graphics demo_graphics demo_async_state)"

lemma demo_async_arguments: "parse_arguments [''p'', ''f'', ''2'', ''0'', ''async'', ''2''] = Some demo_async_state"
  by (simp add: parse_arguments_def parse_frames_def parse_lead_def parse_mode_def parse_inflight_def
      parse_positive_def parse_nonnegative_def strtoull_def choose_base_def c_isspace_def is_digit_def digit_value_def
      State_init_def)

lemma demo_async_run:
  "map_option (\<lambda>(t, c). length (pending (shared c))) (run_actions demo_async [] demo_async_start) = Some 1"
  by (simp add: demo_async_def demo_input_def demo_frame_def demo_sample_def demo_graphics_def pipeline_eval
    pipeline_start_def with_graphics_def State_init_def blank_timings_def demo_modifier demo_words is_stale_def
    wayland_start_def)

section \<open>Properties of whole runs\<close>

lemma run_start:
  assumes "parse_arguments argv = Some st"
  shows "pipeline_inv (pipeline_start (with_graphics g st))"
    "ready_items (shared (pipeline_start (with_graphics g st))) = []" "submit_queue (with_graphics g st) = []"
  using parse_arguments_configured [OF assms, of g] configured_start
  by (auto simp: configured_state_def pipeline_start_def ready_items_def)

lemma pipeline_limit:
  "pipeline_step c e c' \<Longrightarrow> async_inflight_limit (shared c') = async_inflight_limit (shared c) \<and>
     expected_frames (shared c') = expected_frames (shared c)"
proof (induction rule: pipeline_step.induct)
  case (decoder_input env st r st' p w)
  then show ?case by (auto elim!: on_decoder_input_cases simp: push_stamp_def Let_def)
next
  case (process env it st w st' p)
  then show ?case by (auto elim!: worker_process_cases simp: presents_def handover_def)
next
  case (drain ds st st' p)
  then show ?case using presents_drain by (auto simp: presents_def handover_def)
next
  case (publish st it f st' w)
  then show ?case by (cases it) (auto simp: Let_def split: if_splits)
qed (auto simp: pull_stamp_def worker_wake_def finish_producer_def Let_def split: option.splits list.splits if_splits)

lemma run_limit:
  "trace_run pipeline_step c t c' \<Longrightarrow> async_inflight_limit (shared c') = async_inflight_limit (shared c) \<and>
     expected_frames (shared c') = expected_frames (shared c)"
  by (induction rule: trace_run.induct) (auto dest: pipeline_limit)

text \<open>C9. In every run of the threads from an accepted command line, the samples the presentation thread
  takes carry the decoder's stamps in the order they were pushed, at most one sample waits in the slot, and
  until the worker is stopped nothing is lost: the pushed stamps are those of the published samples, then
  the one the sample thread is holding, then those still queued.\<close>

theorem samples_meet_stamps:
  assumes "parse_arguments argv = Some st"
    and "trace_run pipeline_step (pipeline_start (with_graphics g st)) t c"
  shows "subseq (map stamp_of (taken_views t)) (calls t) \<and> length (ready_items (shared c)) \<le> 1 \<and>
    added t = removed t @ ready_items (shared c) \<and>
    (\<not> worker_stop (shared c) \<longrightarrow>
       calls t = map stamp_of (added t) @ map stamp_of (waiting_items (producer c)) @ submit_queue (shared c))"
proof -
  note start = run_start [OF assms(1), of g]
  have p: "stamps_paired (calls t) (added t) c" using stamps_paired_run [OF assms(2) start(3)] .
  have "subseq (map stamp_of (taken_views t)) (map stamp_of (added t))"
    using ready_slot.run_taken [OF assms(2) start(1,2)] by (rule subseq_map)
  moreover have "subseq (map stamp_of (added t)) (calls t)"
    using p by (auto simp: stamps_paired_def prefix_imp_subseq)
  ultimately have "subseq (map stamp_of (taken_views t)) (calls t)"
    by (rule subseq_order.order_trans)
  moreover have "length (ready_items (shared c)) \<le> 1" by (simp add: ready_items_def split: option.split)
  ultimately show ?thesis
    using ready_slot.run_fifo [OF assms(2) start(1,2)] p by (auto simp: stamps_paired_def)
qed

text \<open>In every run from an accepted command line the number of frames in flight is the number of
  feedback objects that have not answered, it never exceeds the limit of the command line, which is between
  1 and 4, and the recorded maximum does not either.\<close>

theorem inflight_bounded:
  assumes "parse_arguments argv = Some st"
    and "trace_run pipeline_step (pipeline_start (with_graphics g st)) t c"
  shows "unat (async_inflight (shared c)) = length (pending (shared c)) \<and>
    async_inflight (shared c) \<le> async_inflight_limit st \<and> max_async_inflight (shared c) \<le> async_inflight_limit st \<and>
    1 \<le> async_inflight_limit st \<and> async_inflight_limit st \<le> 4"
proof -
  have "async_inflight_limit (with_graphics g st) = async_inflight_limit st"
    by (simp add: with_graphics_def split: prod.split)
  then have lim: "async_inflight_limit (shared c) = async_inflight_limit st"
    using run_limit [OF assms(2)] by (simp add: pipeline_start_def)
  have "1 \<le> async_inflight_limit st \<and> async_inflight_limit st \<le> 4"
    using parse_arguments_configured [OF assms(1), of g]
    by (simp add: configured_state_def with_graphics_def split: prod.splits)
  moreover have ok: "inflight_ok (shared c)"
    using ready_slot.run_inv [OF assms(2) run_start(1) [OF assms(1)]] by (simp add: pipeline_inv_def)
  then have "length (pending (shared c)) < 2 ^ 64"
    using unat_bound [of "async_inflight_limit (shared c)"] by (simp add: inflight_ok_def)
  then have "unat (async_inflight (shared c)) = length (pending (shared c))"
    using ok by (simp add: inflight_ok_def unat_of_nat_eq)
  ultimately show ?thesis using ok lim by (simp add: inflight_ok_def word_le_nat_alt)
qed


text \<open>A run of two frames that passes, and one with a frame in flight.\<close>

theorem samples_meet_stamps_witness:
  "\<exists>t c. trace_run pipeline_step demo_start t c \<and> length (calls t) = 2 \<and>
     subseq (map stamp_of (taken_views t)) (calls t)"
proof (rule demo_passes)
  fix t c
  assume *: "trace_run pipeline_step demo_start t c" "length (calls t) = 2"
  then show ?thesis using samples_meet_stamps [OF demo_arguments *(1)] by blast
qed

theorem inflight_bounded_witness:
  "\<exists>st t c. parse_arguments [''p'', ''f'', ''2'', ''0'', ''async'', ''2''] = Some st \<and>
     trace_run pipeline_step (pipeline_start (with_graphics demo_graphics st)) t c \<and>
     length (pending (shared c)) = 1 \<and> async_inflight (shared c) \<le> async_inflight_limit st"
proof -
  obtain t c where r: "run_actions demo_async [] demo_async_start = Some (t, c)" and p: "length (pending (shared c)) = 1"
    using demo_async_run by (cases "run_actions demo_async [] demo_async_start") auto
  have "trace_run pipeline_step demo_async_start t c" using run_actions_trace [OF r trace_run.start] .
  with inflight_bounded [OF demo_async_arguments this] p demo_async_arguments show ?thesis by blast
qed


section \<open>The pacing gate and the command line\<close>

text \<open>A run that passes the gate presented more than one frame over a positive time, no interval
  between presentations exceeds one and a half refresh intervals, and the share of intervals of at most 16.8
  milliseconds is at least the 95th percentile rank.\<close>

theorem gate_pacing:
  assumes "gate_passed reached_eos st" and "length (presentation_interval_ms (timings st)) \<le> 2 ^ 53"
  defines "v \<equiv> presentation_interval_ms (timings st)"
  shows "1 < presented st \<and> first_presentation_ns (timings st) < last_presentation_ns (timings st) \<and>
    list_all (\<lambda>ms. dbl_mul ms 1000000 \<le> dbl_mul (dbl_of_u64 (refresh_ns st)) (3 / 2)) v \<and>
    (v = [] \<or> Suc (percentile_index (length v) (rnd64 (95 / 100))) \<le> length (filter (\<lambda>ms. ms \<le> rnd64 (168 / 10)) v))"
proof -
  have pace: "rnd64 (599 / 10) \<le> effective_fps st" "missed_refresh_intervals st = 0"
    "percentile v (rnd64 (95 / 100)) \<le> rnd64 (168 / 10)"
    using assms(1) by (simp_all add: gate_passed_def frame_pacing_passed_def v_def)
  have "(0 :: rat) < 1" "rnd64 1 \<le> rnd64 (599 / 10)" "rnd64 1 = 1"
    using rnd64_mono [of 1 "599 / 10"] rnd64_nat [of 1] by simp_all
  then have "0 < effective_fps st" using pace(1) by linarith
  then have fps: "1 < presented st \<and> first_presentation_ns (timings st) < last_presentation_ns (timings st)"
    by (simp add: effective_fps_def Let_def split: if_splits)
  have missed: "list_all (\<lambda>ms. dbl_mul ms 1000000 \<le> dbl_mul (dbl_of_u64 (refresh_ns st)) (3 / 2)) v"
    using pace(2)
    by (simp add: missed_refresh_intervals_def interval_missed_def filter_empty_conv list_all_iff not_less v_def)
  have rank: "Suc (percentile_index (length v) (rnd64 (95 / 100))) \<le> length (filter (\<lambda>ms. ms \<le> rnd64 (168 / 10)) v)"
    if "v \<noteq> []"
  proof -
    have "Suc (percentile_index (length v) (rnd64 (95 / 100)))
        \<le> length (filter (\<lambda>ms. ms \<le> percentile v (rnd64 (95 / 100))) v)"
      using percentile_between(2) [OF that] assms(2) rnd64_fraction [of "95 / 100"] by (simp add: v_def)
    also have "\<dots> \<le> length (filter (\<lambda>ms. ms \<le> rnd64 (168 / 10)) v)"
      using pace(3) by (simp only: length_filter_conv_card) (intro card_mono; auto)
    finally show ?thesis .
  qed
  show ?thesis using fps missed rank by blast
qed

theorem gate_pacing_witness:
  "\<exists>t c. trace_run pipeline_step demo_start t c \<and> gate_passed True (shared c) \<and> 1 < presented (shared c)"
proof (rule demo_passes)
  fix t c
  assume *: "trace_run pipeline_step demo_start t c" "gate_passed True (shared c)"
    "presentation_interval_ms (timings (shared c)) = [ns_to_ms 16666667]"
  then show ?thesis using gate_pacing [OF *(2)] by auto
qed

text \<open>The decimal spelling of every 64-bit number is read back; a positive number is required where
  one is.\<close>

theorem parse_decimal:
  assumes "n < 2 ^ 64"
  shows "parse_nonnegative (decimal n) = Some (of_nat n) \<and>
    parse_positive (decimal n) = (if n = 0 then None else Some (of_nat n))"
  using strtoull_decimal [OF assms] decimal_head [of n]
  by (cases "n = 0") (auto simp: parse_nonnegative_def parse_positive_def)

theorem parse_decimal_witness: "parse_positive (decimal 600) = Some 600"
  using parse_decimal [of 600] by simp

text \<open>A minus sign is not refused: \<^verbatim>\<open>-1\<close> is accepted as a positive frame count of
  \<open>2 ^ 64 - 1\<close>.\<close>

theorem parse_positive_accepts_negative: "parse_positive ''-1'' = Some (2 ^ 64 - 1)"
  by (simp add: parse_positive_def strtoull_def choose_base_def c_isspace_def is_digit_def digit_value_def)

lemma split_seconds:
  fixes s :: u64
  shows "push_bit 32 (ucast (ucast (drop_bit 32 s) :: u32)) OR ucast (ucast s :: u32) = s"
  by (rule bit_word_eqI) (auto simp: bit_simps dest: bit_imp_le_length)

text \<open>The timestamp set on a commit denotes the target: the compositor's reading of its three
  parts, by the same formula the feedback uses, is the target in nanoseconds.\<close>

theorem commit_timestamp_denotes_target:
  "case commit_timestamp target of
     SetTimestamp hi lo nsec \<Rightarrow> presentation_time hi lo nsec = target \<and> unat nsec < 1000000000
   | _ \<Rightarrow> False"
proof -
  let ?s = "target div 1000000000" and ?n = "target mod 1000000000"
  have n: "unat ?n < 1000000000" by (simp add: unat_mod)
  then have "unat (ucast ?n :: u32) = unat ?n"
    by (simp add: unsigned_ucast_eq take_bit_nat_eq_self)
  moreover then have "(ucast (ucast ?n :: u32) :: u64) = ?n"
    using unat_ucast_up [of "ucast ?n :: u32", where 'b = 64] by (simp add: word_unat_eq_iff)
  ultimately show ?thesis
    using n split_seconds [of ?s] by (simp add: commit_timestamp_def presentation_time_def Let_def word_mod_div_equality)
qed

end
