(* ===== verification/Client_Schedule.thy ===== *)
theory Client_Schedule
  imports Client_Pipeline
begin

text \<open>
  The schedule of the client pipeline's decoder input: the 64-bit arithmetic of
  \<^verbatim>\<open>on_decoder_input\<close> follows the grid of refresh intervals.
\<close>


section \<open>Targets of the decoder input\<close>

text \<open>The stamp an accepted, scheduled input pushes.\<close>

lemma on_decoder_input_scheduled:
  assumes "on_decoder_input env st = Some (ProbeOk, st')" and "se_is_buffer env" and "submit_lead_ns st \<noteq> 0"
    and "schedule_wake (first_target_present_ns st) (submitted st + 1) (refresh_ns st) (submit_lead_ns st) (se_now env)
      = (wake, first')"
  shows "submit_queue st' = submit_queue st @
      [\<lparr>frame = submitted st + 1, time_ns = se_stamp env, target_present_ns = wake + submit_lead_ns st\<rparr>]"
    and "submitted st' = submitted st + 1" "first_target_present_ns st' = first'" "refresh_ns st' = refresh_ns st"
    "submit_lead_ns st' = submit_lead_ns st"
  using assms by (auto simp: on_decoder_input_def push_stamp_def Let_def split: option.splits if_splits)

definition target_room :: "schedule_env \<Rightarrow> State \<Rightarrow> bool" where
  "target_room env st \<longleftrightarrow> submit_lead_ns st \<noteq> 0 \<and> se_is_buffer env \<and>
     schedule_room (first_target_present_ns st) (submitted st + 1) (refresh_ns st) (submit_lead_ns st) (se_now env)"

definition last_target :: "State \<Rightarrow> nat" where
  "last_target st = unat (target_present_ns (last (submit_queue st)))"

definition same_schedule :: "State \<Rightarrow> State \<Rightarrow> bool" where
  "same_schedule st st' \<longleftrightarrow> submitted st' = submitted st \<and> first_target_present_ns st' = first_target_present_ns st \<and>
     refresh_ns st' = refresh_ns st \<and> submit_lead_ns st' = submit_lead_ns st"

lemma input_target:
  assumes "on_decoder_input env st = Some (ProbeOk, st')" and "target_room env st"
  defines "R \<equiv> unat (refresh_ns st)" and "L \<equiv> unat (submit_lead_ns st)"
    and "G \<equiv> unat (first_target_present_ns st) + unat (submitted st) * unat (refresh_ns st)"
  shows "last_target st' = grid_wake (G - L) R (unat (se_now env)) + L"
    and "unat (first_target_present_ns st') + unat (submitted st) * R = last_target st'"
    and "unat (submitted st') = unat (submitted st) + 1"
proof -
  obtain wake first' where w: "schedule_wake (first_target_present_ns st) (submitted st + 1) (refresh_ns st)
      (submit_lead_ns st) (se_now env) = (wake, first')" by fastforce
  have room: "schedule_room (first_target_present_ns st) (submitted st + 1) (refresh_ns st) (submit_lead_ns st) (se_now env)"
    and lead: "submit_lead_ns st \<noteq> 0" "se_is_buffer env"
    using assms(2) by (auto simp: target_room_def)
  note st' = on_decoder_input_scheduled [OF assms(1) lead(2,1) w]
  have "submitted st + 1 \<noteq> 0" using room by (simp add: schedule_room_def)
  then have n: "unat (submitted st + 1) = unat (submitted st) + 1"
    by (rule unat_plus_1)
  then show "unat (submitted st') = unat (submitted st) + 1" by (simp add: st')
  have g: "unat wake = grid_wake (G - L) R (unat (se_now env))"
    and f: "unat first' + unat (submitted st) * R = unat wake + L"
    using schedule_wake_grid [OF room w] by (simp_all add: n G_def L_def R_def)
  have "grid_wake (G - L) R (unat (se_now env)) + L < 2 ^ 64"
    using grid_wake(2) [of R "G - L" "unat (se_now env)"] room
    by (auto simp: schedule_room_def n G_def L_def R_def unat_gt_0 max_def split: if_splits)
  then have "unat (wake + submit_lead_ns st) = unat wake + L"
    using g unat_add_small [of wake "submit_lead_ns st"] by (simp add: L_def)
  then show "last_target st' = grid_wake (G - L) R (unat (se_now env)) + L"
    "unat (first_target_present_ns st') + unat (submitted st) * R = last_target st'"
    using g f by (simp_all add: last_target_def st')
qed


text \<open>C21. Scheduling the decoder input: the target of an accepted input lies more than the lead after the
  time it was scheduled at and on the refresh grid of the first target; the target of the next input lies at
  least one refresh interval later and again a whole number of intervals away, however late the inputs are.\<close>

theorem targets_follow_grid:
  assumes "on_decoder_input env st = Some (ProbeOk, st1)" and "target_room env st"
    and "same_schedule st1 st2" and "on_decoder_input env2 st2 = Some (ProbeOk, st3)" and "target_room env2 st2"
  shows "unat (se_now env) + unat (submit_lead_ns st) < last_target st1 \<and>
    (\<exists>k. last_target st1 = unat (first_target_present_ns st) + (unat (submitted st) + k) * unat (refresh_ns st)) \<and>
    (\<exists>k > 0. last_target st3 = last_target st1 + k * unat (refresh_ns st))"
proof -
  define R L where "R = unat (refresh_ns st)" and "L = unat (submit_lead_ns st)"
  let ?G = "unat (first_target_present_ns st) + unat (submitted st) * R"
  let ?G2 = "unat (first_target_present_ns st2) + unat (submitted st2) * R"
  note t1 = input_target [OF assms(1,2), folded R_def L_def]
  have keep: "refresh_ns st2 = refresh_ns st" "submit_lead_ns st2 = submit_lead_ns st"
    using assms(1-3) by (auto simp: same_schedule_def target_room_def on_decoder_input_def push_stamp_def Let_def
        split: option.splits if_splits prod.splits)
  note t2 = input_target [OF assms(4,5), unfolded keep, folded R_def L_def]
  have R: "0 < R" and LG: "L \<le> ?G"
    using assms(2) unat_plus_1 [of "submitted st"]
    by (auto simp: target_room_def schedule_room_def R_def L_def unat_gt_0)
  have LG2: "L \<le> ?G2"
    using assms(5) keep unat_plus_1 [of "submitted st2"]
    by (auto simp: target_room_def schedule_room_def R_def L_def)
  have G2: "?G2 = last_target st1 + R"
    using t1(2,3) assms(3) by (simp add: same_schedule_def)
  obtain k where "grid_wake (?G - L) R (unat (se_now env)) = ?G - L + k * R"
    using grid_wake(3) [OF R] by blast
  then have "last_target st1 = ?G + k * R" using t1(1) LG by simp
  moreover obtain m where "grid_wake (?G2 - L) R (unat (se_now env2)) = ?G2 - L + m * R"
    using grid_wake(3) [OF R] by blast
  then have "last_target st3 = last_target st1 + Suc m * R" using t2(1) LG2 G2 by simp
  moreover have "unat (se_now env) + L < last_target st1" using t1(1) grid_wake(1) [OF R] by simp
  ultimately show ?thesis
    unfolding R_def [symmetric] L_def [symmetric] by (metis add.assoc add_mult_distrib zero_less_Suc)
qed

definition demo_schedule :: State where
  "demo_schedule = State_init\<lparr>first_target_present_ns := 100000000, submit_lead_ns := 2000000\<rparr>"

definition demo_late :: "u64 \<Rightarrow> schedule_env" where
  "demo_late t = \<lparr>se_is_buffer = True, se_now = t, se_sleep = [4, 0], se_actual = t, se_stamp = t\<rparr>"

lemma demo_schedule_inputs:
  "\<exists>st1 st3. on_decoder_input (demo_late 200000000) demo_schedule = Some (ProbeOk, st1) \<and>
     on_decoder_input (demo_late 210000000) st1 = Some (ProbeOk, st3) \<and>
     target_room (demo_late 200000000) demo_schedule \<and> target_room (demo_late 210000000) st1 \<and> same_schedule st1 st1"
  by (simp add: on_decoder_input_def demo_late_def demo_schedule_def State_init_def push_stamp_def schedule_wake_def
      target_room_def schedule_room_def same_schedule_def EINTR_def Let_def word_le_nat_alt)

theorem targets_follow_grid_witness:
  "\<exists>st1 st3. on_decoder_input (demo_late 200000000) demo_schedule = Some (ProbeOk, st1) \<and>
     on_decoder_input (demo_late 210000000) st1 = Some (ProbeOk, st3) \<and> last_target st1 < last_target st3"
proof -
  obtain st1 st3 where *: "on_decoder_input (demo_late 200000000) demo_schedule = Some (ProbeOk, st1)"
      "on_decoder_input (demo_late 210000000) st1 = Some (ProbeOk, st3)"
      "target_room (demo_late 200000000) demo_schedule" "target_room (demo_late 210000000) st1" "same_schedule st1 st1"
    using demo_schedule_inputs by blast
  have "0 < unat (refresh_ns demo_schedule)" by (simp add: demo_schedule_def State_init_def)
  with targets_follow_grid [OF *(1,3,5,2,4)] * show ?thesis by auto
qed

end
