(* ===== verification/Kms_Modes.thy ===== *)
theory Kms_Modes
  imports Ieee_Double
begin

text \<open>
  Choosing a display mode, an output and a CRTC: \<^verbatim>\<open>probes/video/plank-probe-client-kms.cpp\<close>
  (\<^verbatim>\<open>mode_refresh_hz\<close>, \<^verbatim>\<open>better_mode\<close>, \<^verbatim>\<open>select_output\<close>) and
  \<^verbatim>\<open>probes/kms/plank-probe-kms-xb30.cpp\<close> (\<^verbatim>\<open>better_mode\<close>, \<^verbatim>\<open>choose_crtc\<close>,
  \<^verbatim>\<open>choose_output\<close>). The two programs rank modes differently; what both rely on is the locale
  \<open>mode_ranking\<close>.
\<close>

section \<open>Modes and outputs\<close>

record drmModeModeInfo =
  clock :: u32
  hdisplay :: u16
  htotal :: u16
  vdisplay :: u16
  vtotal :: u16
  vscan :: u16
  vrefresh :: u32
  flags :: u32
  mode_type :: u32

definition DRM_MODE_FLAG_INTERLACE :: u32 where "DRM_MODE_FLAG_INTERLACE = 0x10"
definition DRM_MODE_FLAG_DBLSCAN :: u32 where "DRM_MODE_FLAG_DBLSCAN = 0x20"
definition DRM_MODE_TYPE_PREFERRED :: u32 where "DRM_MODE_TYPE_PREFERRED = 8"

text \<open>An encoder: the CRTC it drives, and the set of those it could drive.\<close>

record drmModeEncoder =
  enc_crtc_id :: u32
  enc_possible_crtcs :: u32

text \<open>
  A connector; \<open>con_encoder\<close> is the encoder \<^verbatim>\<open>encoder_id\<close> names, \<open>con_encoders\<close> the listed ones,
  \<open>None\<close> where the identifier is zero or the lookup fails.
\<close>

record drmModeConnector =
  connector_id :: u32
  con_connected :: bool
  con_modes :: "drmModeModeInfo list"
  con_encoder :: "drmModeEncoder option"
  con_encoders :: "drmModeEncoder option list"

record drmModeRes =
  res_connectors :: "drmModeConnector option list"
  res_crtcs :: "u32 list"

section \<open>Ranking\<close>

definition mode_area :: "drmModeModeInfo \<Rightarrow> u64" where
  "mode_area m = ucast (hdisplay m) * ucast (vdisplay m)"

definition mode_preferred :: "drmModeModeInfo \<Rightarrow> bool" where
  "mode_preferred m \<longleftrightarrow> mode_type m AND DRM_MODE_TYPE_PREFERRED \<noteq> 0"

definition dbl_of_nat :: "nat \<Rightarrow> rat" where
  "dbl_of_nat n = rnd64 (of_nat n)"

definition mode_refresh_hz :: "drmModeModeInfo \<Rightarrow> rat" where
  "mode_refresh_hz m =
     (if htotal m = 0 \<or> vtotal m = 0 then 0
      else
        let hz = dbl_div (dbl_mul (dbl_of_nat (unat (clock m))) 1000)
                   (dbl_mul (dbl_of_nat (unat (htotal m))) (dbl_of_nat (unat (vtotal m))));
            hz = (if flags m AND DRM_MODE_FLAG_INTERLACE \<noteq> 0 then dbl_mul hz 2 else hz);
            hz = (if flags m AND DRM_MODE_FLAG_DBLSCAN \<noteq> 0 then dbl_div hz 2 else hz)
        in if vscan m > 1 then dbl_div hz (dbl_of_nat (unat (vscan m))) else hz)"

definition better_mode :: "drmModeModeInfo \<Rightarrow> drmModeModeInfo \<Rightarrow> bool" where
  "better_mode candidate best =
     (if mode_area candidate \<noteq> mode_area best then mode_area candidate > mode_area best
      else if mode_preferred candidate \<noteq> mode_preferred best then mode_preferred candidate
      else mode_refresh_hz candidate > mode_refresh_hz best)"

definition xb30_better_mode :: "drmModeModeInfo \<Rightarrow> drmModeModeInfo \<Rightarrow> bool" where
  "xb30_better_mode candidate best =
     (if mode_area candidate \<noteq> mode_area best then mode_area candidate > mode_area best
      else if mode_preferred candidate \<noteq> mode_preferred best then mode_preferred candidate
      else vrefresh candidate > vrefresh best)"

section \<open>Scanning for the best\<close>

text \<open>The loops of both programs: keep the first, replace it by each strictly better one.\<close>

definition best_mode :: "(drmModeModeInfo \<Rightarrow> drmModeModeInfo \<Rightarrow> bool) \<Rightarrow> drmModeModeInfo list \<Rightarrow> drmModeModeInfo" where
  "best_mode better ms = foldl (\<lambda>best m. if better m best then m else best) (hd ms) (tl ms)"

record Selection =
  sel_connector :: u32
  sel_crtc_index :: nat
  sel_crtc :: u32
  sel_mode :: drmModeModeInfo

text \<open>One connector of the scan; \<open>crtc\<close> chooses the CRTC, as its index and its identifier.\<close>

definition scan_connector ::
    "(drmModeModeInfo \<Rightarrow> drmModeModeInfo \<Rightarrow> bool) \<Rightarrow> (drmModeConnector \<Rightarrow> (nat \<times> u32) option) \<Rightarrow>
     drmModeConnector option \<Rightarrow> Selection option \<Rightarrow> Selection option" where
  "scan_connector better crtc connector found =
     (case connector of
        None \<Rightarrow> found
      | Some c \<Rightarrow>
          if \<not> con_connected c \<or> con_modes c = [] then found
          else (case crtc c of
                  None \<Rightarrow> found
                | Some (index, crtc_id) \<Rightarrow>
                    let best = best_mode better (con_modes c)
                    in if (case found of None \<Rightarrow> True | Some s \<Rightarrow> better best (sel_mode s))
                       then Some \<lparr>sel_connector = connector_id c, sel_crtc_index = index, sel_crtc = crtc_id,
                                  sel_mode = best\<rparr>
                       else found))"

definition scan_connectors ::
    "(drmModeModeInfo \<Rightarrow> drmModeModeInfo \<Rightarrow> bool) \<Rightarrow> (drmModeConnector \<Rightarrow> (nat \<times> u32) option) \<Rightarrow>
     drmModeConnector option list \<Rightarrow> Selection option" where
  "scan_connectors better crtc cs = fold (scan_connector better crtc) cs None"

section \<open>The direct-KMS client\<close>

text \<open>The first loop has no break and keeps the last match; the second stops at the first.\<close>

definition last_index :: "('a \<Rightarrow> bool) \<Rightarrow> 'a list \<Rightarrow> nat option" where
  "last_index P xs = (case filter (\<lambda>i. P (xs ! i)) [0..<length xs] of [] \<Rightarrow> None | is \<Rightarrow> Some (last is))"

definition first_possible :: "u32 \<Rightarrow> u32 list \<Rightarrow> nat option" where
  "first_possible possible crtcs =
     (case filter (\<lambda>i. possible AND push_bit i 1 \<noteq> 0) [0..<length crtcs] of [] \<Rightarrow> None | i # _ \<Rightarrow> Some i)"

definition select_crtc :: "u32 list \<Rightarrow> drmModeConnector \<Rightarrow> (nat \<times> u32) option" where
  "select_crtc crtcs c =
     (case con_encoder c of
        None \<Rightarrow> None
      | Some e \<Rightarrow>
          map_option (\<lambda>i. (i, crtcs ! i))
            (case (if enc_crtc_id e \<noteq> 0 then last_index (\<lambda>x. x = enc_crtc_id e) crtcs else None) of
               Some i \<Rightarrow> Some i
             | None \<Rightarrow> first_possible (enc_possible_crtcs e) crtcs))"

definition dbl_add :: "rat \<Rightarrow> rat \<Rightarrow> rat" where
  "dbl_add a b = rnd64 (a + b)"

definition refresh_interval :: "rat \<Rightarrow> u64" where
  "refresh_interval hz = of_int \<lfloor>dbl_add (dbl_div 1000000000 hz) (1 / 2)\<rfloor>"

text \<open>\<open>None\<close> is a \<^verbatim>\<open>false\<close> result; otherwise the selection and the refresh interval.\<close>

definition select_output :: "drmModeRes option \<Rightarrow> (Selection \<times> u64) option" where
  "select_output resources =
     (case resources of
        None \<Rightarrow> None
      | Some r \<Rightarrow>
          (case scan_connectors better_mode (select_crtc (res_crtcs r)) (res_connectors r) of
             None \<Rightarrow> None
           | Some s \<Rightarrow>
               let hz = mode_refresh_hz (sel_mode s)
               in if hz < 59 \<or> hz > 61 then None else Some (s, refresh_interval hz)))"

section \<open>The XB30 probe\<close>

fun choose_crtc :: "u32 list \<Rightarrow> drmModeEncoder option list \<Rightarrow> u32" where
  "choose_crtc crtcs [] = 0"
| "choose_crtc crtcs (e # es) =
     (case e of
        None \<Rightarrow> choose_crtc crtcs es
      | Some enc \<Rightarrow>
          if enc_crtc_id enc \<noteq> 0 then enc_crtc_id enc
          else (case first_possible (enc_possible_crtcs enc) crtcs of
                  Some i \<Rightarrow> crtcs ! i
                | None \<Rightarrow> choose_crtc crtcs es))"

definition usable_crtc :: "u32 list \<Rightarrow> drmModeConnector \<Rightarrow> (nat \<times> u32) option" where
  "usable_crtc crtcs c =
     (let crtc_id = choose_crtc crtcs (con_encoder c # con_encoders c)
      in if crtc_id \<noteq> 0 then Some (0, crtc_id) else None)"

definition choose_output :: "drmModeRes \<Rightarrow> Selection option" where
  "choose_output r = scan_connectors xb30_better_mode (usable_crtc (res_crtcs r)) (res_connectors r)"

section \<open>What a ranking promises\<close>

text \<open>
  A ranking is a strict weak order. The client scans keep a mode that no mode they have seen is
  better than.
\<close>

locale mode_ranking =
  fixes better :: "drmModeModeInfo \<Rightarrow> drmModeModeInfo \<Rightarrow> bool"
  assumes irrefl: "\<not> better m m"
    and trans: "better a b \<Longrightarrow> better b c \<Longrightarrow> better a c"
    and neg_trans: "\<not> better a b \<Longrightarrow> \<not> better b c \<Longrightarrow> \<not> better a c"
begin

lemma asym: "better a b \<Longrightarrow> \<not> better b a"
  using irrefl trans by blast

lemma fold_best:
  "foldl (\<lambda>best m. if better m best then m else best) b ms \<in> insert b (set ms) \<and>
   (\<forall>m \<in> insert b (set ms). \<not> better m (foldl (\<lambda>best m. if better m best then m else best) b ms))"
proof (induction ms arbitrary: b)
  case Nil
  then show ?case by (simp add: irrefl)
next
  case (Cons m ms)
  define b' where "b' = (if better m b then m else b)"
  define f where "f = foldl (\<lambda>best m. if better m best then m else best) b' ms"
  have below: "\<not> better b b'" "\<not> better m b'" using irrefl asym by (auto simp: b'_def)
  have IH: "f \<in> insert b' (set ms)" "\<not> better b' f" "m' \<in> set ms \<Longrightarrow> \<not> better m' f" for m'
    using Cons.IH [of b'] by (auto simp: f_def)
  have "f \<in> insert b (set (m # ms))" using IH(1) by (auto simp: b'_def split: if_splits)
  moreover have "\<not> better b f" "\<not> better m f" using neg_trans [OF _ IH(2)] below by blast+
  ultimately show ?case
    using IH(3) unfolding foldl_Cons b'_def [symmetric] f_def [symmetric] by auto
qed

lemma best_mode_maximal:
  assumes "ms \<noteq> []"
  shows "best_mode better ms \<in> set ms" "m \<in> set ms \<Longrightarrow> \<not> better m (best_mode better ms)"
  using fold_best [of "hd ms" "tl ms"] assms by (cases ms; auto simp: best_mode_def)+

text \<open>The connectors a scan can use, and what it guarantees about its selection.\<close>

lemma scan_connector_kept:
  assumes "scan_connector better crtc c found = Some s"
    and "found = Some s0"
  shows "\<not> better (sel_mode s0) (sel_mode s)"
  using assms irrefl asym
  by (auto simp: scan_connector_def Let_def split: option.splits if_splits)

lemma scan_connector_seen:
  assumes "scan_connector better crtc (Some c) found = r"
    and "con_connected c" "con_modes c \<noteq> []" "crtc c = Some k"
  shows "\<exists>s. r = Some s \<and> (\<forall>m \<in> set (con_modes c). \<not> better m (sel_mode s))"
proof -
  let ?b = "best_mode better (con_modes c)"
  obtain i x where k: "k = (i, x)" by fastforce
  have max: "\<not> better m ?b" if "m \<in> set (con_modes c)" for m
    using best_mode_maximal(2) [OF assms(3) that] .
  show ?thesis
  proof (cases found)
    case None
    then show ?thesis using assms(1) max by (auto simp: scan_connector_def Let_def assms(2-4) k)
  next
    case (Some s0)
    have "\<not> better m (sel_mode s0)" if "\<not> better ?b (sel_mode s0)" "m \<in> set (con_modes c)" for m
      using neg_trans [OF max [OF that(2)] that(1)] .
    then show ?thesis
      using assms(1) max Some by (auto simp: scan_connector_def Let_def assms(2-4) k)
  qed
qed

lemma scan_connector_some: "\<exists>s. scan_connector better crtc c (Some s0) = Some s"
  by (auto simp: scan_connector_def Let_def split: option.split)

lemma scan_from:
  assumes "fold (scan_connector better crtc) cs found = Some s"
  shows "(\<forall>s0. found = Some s0 \<longrightarrow> \<not> better (sel_mode s0) (sel_mode s)) \<and>
    (\<forall>c k m. Some c \<in> set cs \<longrightarrow> con_connected c \<longrightarrow> crtc c = Some k \<longrightarrow> m \<in> set (con_modes c) \<longrightarrow>
       \<not> better m (sel_mode s))"
  using assms
proof (induction cs arbitrary: found)
  case Nil
  then show ?case by (simp add: irrefl)
next
  case (Cons c cs)
  let ?f = "scan_connector better crtc c found"
  have rest: "fold (scan_connector better crtc) cs ?f = Some s" using Cons.prems by simp
  note IH = Cons.IH [OF rest]
  have "\<not> better (sel_mode s0) (sel_mode s)" if f: "found = Some s0" for s0
  proof -
    obtain s1 where "?f = Some s1"
      using scan_connector_some f by blast
    then show ?thesis using scan_connector_kept [OF _ f] IH neg_trans by blast
  qed
  moreover have "\<not> better m (sel_mode s)"
    if c: "c = Some c'" "con_connected c'" "crtc c' = Some k" "m \<in> set (con_modes c')" for c' k m
  proof -
    have "con_modes c' \<noteq> []" using c(4) by auto
    then obtain s1 where "?f = Some s1" "\<not> better m (sel_mode s1)"
      using scan_connector_seen [of crtc c' found ?f k] c by auto
    then show ?thesis using IH neg_trans by blast
  qed
  ultimately show ?case using IH by auto
qed

lemma scan_maximal:
  assumes "scan_connectors better crtc cs = Some s"
    and "Some c \<in> set cs" "con_connected c" "crtc c = Some k" "m \<in> set (con_modes c)"
  shows "\<not> better m (sel_mode s)"
  using scan_from [OF assms(1) [unfolded scan_connectors_def]] assms(2-5) by blast

lemma scan_chosen:
  assumes "scan_connectors better crtc cs = Some s"
  shows "\<exists>c \<in> set cs. \<exists>k. c = Some k \<and> con_connected k \<and> sel_connector s = connector_id k \<and>
    sel_mode s \<in> set (con_modes k) \<and> crtc k = Some (sel_crtc_index s, sel_crtc s)"
proof -
  have "fold (scan_connector better crtc) cs found = Some s \<Longrightarrow> found = Some s \<or>
      (\<exists>c \<in> set cs. \<exists>k. c = Some k \<and> con_connected k \<and> sel_connector s = connector_id k \<and>
        sel_mode s \<in> set (con_modes k) \<and> crtc k = Some (sel_crtc_index s, sel_crtc s))" for found
  proof (induction cs arbitrary: found)
    case (Cons c cs)
    then have "scan_connector better crtc c found = Some s \<or> (\<exists>c \<in> set cs. \<exists>k. c = Some k \<and> con_connected k \<and>
        sel_connector s = connector_id k \<and> sel_mode s \<in> set (con_modes k) \<and>
        crtc k = Some (sel_crtc_index s, sel_crtc s))" by simp
    then show ?case
      using best_mode_maximal(1)
      by (auto simp: scan_connector_def Let_def split: option.splits if_splits)
  qed simp
  then show ?thesis using assms by (auto simp: scan_connectors_def)
qed

end

text \<open>Both rankings compare first area, then preference, then rate.\<close>

lemma lexicographic_ranking:
  fixes rate :: "drmModeModeInfo \<Rightarrow> 'a::linorder"
  assumes "better = (\<lambda>a b. if mode_area a \<noteq> mode_area b then mode_area a > mode_area b
     else if mode_preferred a \<noteq> mode_preferred b then mode_preferred a else rate a > rate b)"
  shows "mode_ranking better"
  unfolding assms by unfold_locales (auto split: if_splits)

interpretation client: mode_ranking better_mode
  by (rule lexicographic_ranking) (auto simp: better_mode_def fun_eq_iff)

interpretation xb30: mode_ranking xb30_better_mode
  by (rule lexicographic_ranking) (auto simp: xb30_better_mode_def fun_eq_iff)

section \<open>The selected output\<close>

lemma unat_word_of_int_small: "0 \<le> n \<Longrightarrow> n < 2 ^ 64 \<Longrightarrow> unat (of_int n :: u64) = nat n"
  by (simp add: unsigned_of_int take_bit_int_eq_self)

lemma last_index_bound: "last_index P xs = Some i \<Longrightarrow> i < length xs \<and> P (xs ! i)"
proof -
  assume "last_index P xs = Some i"
  then have "i \<in> set (filter (\<lambda>i. P (xs ! i)) [0..<length xs])"
    unfolding last_index_def by (auto split: list.splits simp del: set_filter)
  then show ?thesis by auto
qed

lemma first_possible_bound:
  "first_possible possible crtcs = Some i \<Longrightarrow> i < length crtcs \<and> possible AND push_bit i 1 \<noteq> 0"
proof -
  assume "first_possible possible crtcs = Some i"
  then have "i \<in> set (filter (\<lambda>i. possible AND push_bit i 1 \<noteq> 0) [0..<length crtcs])"
    unfolding first_possible_def by (auto split: list.splits simp del: set_filter)
  then show ?thesis by auto
qed

lemma select_crtc_bound: "select_crtc crtcs c = Some (i, x) \<Longrightarrow> i < length crtcs \<and> x = crtcs ! i"
  by (auto simp: select_crtc_def dest: last_index_bound first_possible_bound split: option.splits if_splits)

lemma refresh_interval_bounds:
  assumes "59 \<le> hz" and "hz \<le> 61"
  shows "16393442 \<le> unat (refresh_interval hz)" "unat (refresh_interval hz) \<le> 16949154"
proof -
  have ex: "rnd64 16949153 = 16949153" "rnd64 16949154 = 16949154" "rnd64 16393442 = 16393442"
    using rnd64_nat [of 16949153] rnd64_nat [of 16949154] rnd64_nat [of 16393442] by simp_all
  define x where "x = rnd64 (1000000000 / hz)"
  have q: "1000000000 / hz \<le> 16949153" "16393442 \<le> 1000000000 / hz"
    using assms by (simp_all add: field_simps)
  then have x: "x \<le> 16949153" "16393442 \<le> x"
    using rnd64_mono [of "1000000000 / hz" 16949153] rnd64_mono [of 16393442 "1000000000 / hz"] assms
    by (simp_all add: x_def ex)
  then have y: "rnd64 (x + 1 / 2) \<le> 16949154" "16393442 \<le> rnd64 (x + 1 / 2)"
    using rnd64_mono [of "x + 1 / 2" 16949154] rnd64_mono [of 16393442 "x + 1 / 2"] by (simp_all add: ex)
  define n where "n = \<lfloor>rnd64 (x + 1 / 2)\<rfloor>"
  have n: "16393442 \<le> n" "n \<le> 16949154"
    using y by (simp_all add: n_def le_floor_iff floor_le_iff)
  have "refresh_interval hz = of_int n"
    by (simp add: refresh_interval_def dbl_add_def dbl_div_def x_def n_def)
  then have "unat (refresh_interval hz) = nat n"
    using n by (simp add: unat_word_of_int_small)
  then show "16393442 \<le> unat (refresh_interval hz)" "unat (refresh_interval hz) \<le> 16949154"
    using n by simp_all
qed


definition demo_mode :: "u32 \<Rightarrow> u32 \<Rightarrow> drmModeModeInfo" where
  "demo_mode clk typ = \<lparr>clock = clk, hdisplay = 1920, htotal = 2000, vdisplay = 1080, vtotal = 1000, vscan = 0,
     vrefresh = 60, flags = 0, mode_type = typ\<rparr>"

definition demo_resources :: drmModeRes where
  "demo_resources = \<lparr>res_connectors =
     [None, Some \<lparr>connector_id = 7, con_connected = True, con_modes = [demo_mode 50000 0, demo_mode 120000 8],
        con_encoder = Some \<lparr>enc_crtc_id = 0, enc_possible_crtcs = 2\<rparr>, con_encoders = []\<rparr>],
     res_crtcs = [40, 41]\<rparr>"

lemma demo_rate: "mode_refresh_hz (demo_mode 120000 8) = 60"
proof -
  have "rnd64 120000 = 120000" "rnd64 120000000 = 120000000" "rnd64 2000 = 2000" "rnd64 1000 = 1000"
    "rnd64 2000000 = 2000000" "rnd64 60 = 60"
    using rnd64_nat [of 120000] rnd64_nat [of 120000000] rnd64_nat [of 2000] rnd64_nat [of 1000]
      rnd64_nat [of 2000000] rnd64_nat [of 60] by simp_all
  then show ?thesis
    by (simp add: mode_refresh_hz_def demo_mode_def dbl_of_nat_def dbl_mul_def dbl_div_def Let_def)
qed

lemma demo_better: "better_mode (demo_mode 120000 8) (demo_mode 50000 0)"
  by (simp add: better_mode_def mode_area_def mode_preferred_def demo_mode_def DRM_MODE_TYPE_PREFERRED_def)

lemma demo_possible: "first_possible 2 [40, 41] = Some 1"
  by (simp add: first_possible_def upt_rec)


end
