(* ===== verification/Kms_Client.thy ===== *)
theory Kms_Client
  imports Kms_Modes Refresh_Grid C_Strings Bounded_Queue
begin

text \<open>
  \<^verbatim>\<open>probes/video/plank-probe-client-kms.cpp\<close>: decoded surfaces are scanned out directly. The cache
  of framebuffers, the two-phase schedule of the decoder input, the pairing of samples with their stamps by
  time stamp, page flips, the presentation thread and the gate.

  What the kernel and GStreamer answer is an argument. \<open>gem_calls\<close> lists the calls that create or destroy
  kernel objects, oldest first.
\<close>

section \<open>State\<close>

record KmsStamp =
  ks_frame :: u64
  ks_submitted_ns :: u64
  ks_target_ns :: u64
  ks_pts :: u64

record CachedFramebuffer =
  cf_device :: u64
  cf_inode :: u64
  cf_framebuffer :: u32
  cf_gem_handle :: u32

datatype gem_call = GemImport u32 | GemClose u32 | AddFb u32 | RmFb u32

text \<open>A decoded sample: the buffer, its meta data and format, and the file behind its DMA-BUF.\<close>

record kms_sample =
  kb_buffer :: bool
  kb_pts :: u64
  kb_meta :: "(u32 \<times> u32 \<times> u64 \<times> i32) option"
  kb_drm_format :: "string option"
  kb_n_memory :: nat
  kb_is_dmabuf :: bool
  kb_fd :: i32
  kb_stat :: "(u64 \<times> u64) option" \<comment> \<open>device and inode, when \<^verbatim>\<open>fstat\<close> succeeds\<close>

record KmsTimings =
  kt_decode_ms :: "rat list"
  kt_surface_to_flip_ms :: "rat list"
  kt_surface_to_worker_ms :: "rat list"
  kt_framebuffer_lookup_ms :: "rat list"
  kt_flip_event_delivery_ms :: "rat list"
  kt_submit_to_present_ms :: "rat list"
  kt_presentation_interval_ms :: "rat list"
  kt_flip_vs_target_ms :: "rat list"
  kt_surface_vs_target_ms :: "rat list"
  kt_worker_vs_target_ms :: "rat list"
  kt_previous_present_vs_target_ms :: "rat list"
  kt_first_present_ns :: u64
  kt_last_present_ns :: u64

record KmsState =
  k_mode :: drmModeModeInfo
  k_refresh_ns :: u64
  k_first_target_ns :: u64
  k_steady_first_target_ns :: u64
  k_submit_lead_ns :: u64
  k_expected_frames :: u64
  k_submitted :: u64
  k_queued :: u64
  k_displayed :: u64
  k_latest_present_ns :: u64
  k_failed :: bool
  k_submit_queue :: "KmsStamp list"
  k_ready_sample :: "kms_sample option"
  k_ready_submit :: KmsStamp
  k_ready_surface_ns :: u64
  k_producer_done :: bool
  k_worker_stop :: bool
  k_max_ready_depth :: nat
  k_phase_ready :: bool
  k_steady_phase_ready :: bool
  k_current :: "(kms_sample \<times> u32) option"
  k_framebuffer_cache :: "CachedFramebuffer list"
  k_framebuffer_cache_hits :: u64
  k_framebuffer_cache_misses :: u64
  k_stale_frames_dropped :: u64
  k_drm_format :: string
  k_input_schedule_late_ms :: "rat list"
  k_timings :: KmsTimings
  k_gem_calls :: "gem_call list"

section \<open>Framebuffers\<close>

text \<open>What importing a buffer answers: the GEM handle, then the framebuffer.\<close>

record import_env =
  ie_gem :: "u32 option"
  ie_framebuffer :: "u32 option"

definition frame_key :: "kms_sample \<Rightarrow> drmModeModeInfo \<Rightarrow> ((u64 \<times> u64) \<times> string) option" where
  "frame_key s mode =
     (case (kb_meta s, kb_drm_format s, kb_stat s) of
        (Some (w, h, _, _), Some fmt, Some key) \<Rightarrow>
          if kb_buffer s \<and> take 4 fmt = ''Y410'' \<and> kb_n_memory s = 1 \<and> w = ucast (hdisplay mode) \<and>
             h = ucast (vdisplay mode) \<and> parse_modifier fmt \<noteq> None \<and> kb_is_dmabuf s \<and> 0 \<le>s kb_fd s
          then Some (key, fmt) else None
      | _ \<Rightarrow> None)"

definition cached_framebuffer :: "u64 \<times> u64 \<Rightarrow> CachedFramebuffer list \<Rightarrow> CachedFramebuffer option" where
  "cached_framebuffer key cache = find (\<lambda>c. (cf_device c, cf_inode c) = key) cache"

text \<open>The framebuffer of a sample, from the cache or newly made; \<open>None\<close> is a \<^verbatim>\<open>false\<close> result.\<close>

definition create_frame :: "import_env \<Rightarrow> kms_sample \<Rightarrow> KmsState \<Rightarrow> u32 option \<times> KmsState" where
  "create_frame env s st =
     (case frame_key s (k_mode st) of
        None \<Rightarrow> (None, st)
      | Some (key, fmt) \<Rightarrow>
          (case cached_framebuffer key (k_framebuffer_cache st) of
             Some c \<Rightarrow>
               (Some (cf_framebuffer c), st\<lparr>k_framebuffer_cache_hits := k_framebuffer_cache_hits st + 1\<rparr>)
           | None \<Rightarrow>
               (case ie_gem env of
                  None \<Rightarrow> (None, st)
                | Some handle \<Rightarrow>
                    let st = st\<lparr>k_gem_calls := k_gem_calls st @ [GemImport handle]\<rparr>
                    in (case ie_framebuffer env of
                          None \<Rightarrow> (None, st\<lparr>k_gem_calls := k_gem_calls st @ [GemClose handle]\<rparr>)
                        | Some fb \<Rightarrow>
                            (Some fb, st\<lparr>k_gem_calls := k_gem_calls st @ [AddFb fb],
                                k_framebuffer_cache := k_framebuffer_cache st @
                                  [\<lparr>cf_device = fst key, cf_inode = snd key, cf_framebuffer = fb, cf_gem_handle = handle\<rparr>],
                                k_framebuffer_cache_misses := k_framebuffer_cache_misses st + 1,
                                k_drm_format := fmt\<rparr>)))))"

definition release_calls :: "CachedFramebuffer \<Rightarrow> gem_call list" where
  "release_calls c =
     (if cf_framebuffer c \<noteq> 0 then [RmFb (cf_framebuffer c)] else []) @
     (if cf_gem_handle c \<noteq> 0 then [GemClose (cf_gem_handle c)] else [])"

definition release_framebuffer_cache :: "KmsState \<Rightarrow> KmsState" where
  "release_framebuffer_cache st =
     st\<lparr>k_gem_calls := k_gem_calls st @ concat (map release_calls (k_framebuffer_cache st)), k_framebuffer_cache := []\<rparr>"

section \<open>Page flips\<close>

definition flip_time :: "u32 \<Rightarrow> u32 \<Rightarrow> u64" where
  "flip_time seconds microseconds = ucast seconds * 1000000000 + ucast microseconds * 1000"

text \<open>
  One turn of \<^verbatim>\<open>wait_for_flip\<close>: the result of \<^verbatim>\<open>poll\<close> (interrupted, or a status with the
  readiness of the descriptor), then of \<^verbatim>\<open>drmHandleEvent\<close> with the flip it reported. A list that ends
  before the loop does is a wait that has not ended.
\<close>

datatype flip_poll = Interrupted | Polled int bool int "(u32 \<times> u32) option"

fun wait_for_flip :: "flip_poll list \<Rightarrow> u64 option option" where
  "wait_for_flip [] = None"
| "wait_for_flip (Interrupted # rest) = wait_for_flip rest"
| "wait_for_flip (Polled status readable handled flip # rest) =
     (if status \<le> 0 \<or> \<not> readable \<or> handled \<noteq> 0 then Some None
      else case flip of
        Some (seconds, microseconds) \<Rightarrow> Some (Some (flip_time seconds microseconds))
      | None \<Rightarrow> wait_for_flip rest)"

definition establish_phase :: "(u32 \<times> u32) option \<Rightarrow> KmsState \<Rightarrow> KmsState option" where
  "establish_phase vblank st =
     (case vblank of
        None \<Rightarrow> None
      | Some (seconds, microseconds) \<Rightarrow>
          Some (st\<lparr>k_first_target_ns := flip_time seconds microseconds + 120 * k_refresh_ns st\<rparr>))"

section \<open>Decoder input\<close>

record kms_input =
  ki_buffer :: bool
  ki_writable :: bool
  ki_now :: u64
  ki_sleep :: "int list"
  ki_actual :: u64
  ki_stamp :: u64

datatype kms_probe_return = KmsProbeOk | KmsProbeDrop

definition NANOSECONDS :: nat where "NANOSECONDS = 1000000000"

text \<open>\<^verbatim>\<open>gst_util_uint64_scale\<close> multiplies without overflow and rounds down.\<close>

definition synthetic_pts :: "u64 \<Rightarrow> u64" where
  "synthetic_pts n = of_nat (unat (n - 1) * NANOSECONDS div 60)"

definition phase_wait_over :: "u64 \<Rightarrow> KmsState \<Rightarrow> bool" where
  "phase_wait_over n st \<longleftrightarrow> (if n = 2 then k_phase_ready st else k_steady_phase_ready st) \<or> k_failed st"

definition kms_lead :: "u64 \<Rightarrow> KmsState \<Rightarrow> u64" where
  "kms_lead n st = (if n = 2 then max (k_submit_lead_ns st) 12000000 else k_submit_lead_ns st)"

definition kms_schedule :: "u64 \<Rightarrow> u64 \<Rightarrow> KmsState \<Rightarrow> u64 \<times> u64 \<times> KmsState" where
  "kms_schedule n now st =
     (let epoch = (if n = 2 then k_first_target_ns st else k_steady_first_target_ns st);
          index = (if n = 2 then 0 else n - 3);
          target = epoch + index * k_refresh_ns st;
          wake = target - kms_lead n st;
          (target, wake, epoch) =
            (if wake \<le> now
             then let periods = (now - wake) div k_refresh_ns st + 1
                  in (target + periods * k_refresh_ns st, wake + periods * k_refresh_ns st,
                      epoch + periods * k_refresh_ns st)
             else (target, wake, epoch))
      in (target, wake, if n = 2 then st\<lparr>k_first_target_ns := epoch\<rparr> else st\<lparr>k_steady_first_target_ns := epoch\<rparr>))"

text \<open>\<open>None\<close> is a call that is still waiting, for the phase or in its sleep.\<close>

definition kms_decoder_input :: "kms_input \<Rightarrow> KmsState \<Rightarrow> (kms_probe_return \<times> KmsState) option" where
  "kms_decoder_input env st =
     (if \<not> ki_buffer env then Some (KmsProbeOk, st)
      else
        let st = st\<lparr>k_submitted := k_submitted st + 1\<rparr>; n = k_submitted st; pts = synthetic_pts n;
            push = (\<lambda>target st. st\<lparr>k_submit_queue := k_submit_queue st @
               [\<lparr>ks_frame = n, ks_submitted_ns = ki_stamp env, ks_target_ns = target, ks_pts = pts\<rparr>]\<rparr>)
        in if \<not> ki_writable env then Some (KmsProbeDrop, st\<lparr>k_failed := True\<rparr>)
           else if n \<ge> 2
           then if \<not> phase_wait_over n st then None
                else if k_failed st then Some (KmsProbeDrop, st)
                else
                  let (target, wake, st) = kms_schedule n (ki_now env) st
                  in (case sleep_until (ki_sleep env) of
                        None \<Rightarrow> None
                      | Some status \<Rightarrow>
                          if status \<noteq> 0 then Some (KmsProbeDrop, st\<lparr>k_failed := True\<rparr>)
                          else Some (KmsProbeOk, push target (st\<lparr>k_input_schedule_late_ms := k_input_schedule_late_ms st @
                                 [if ki_actual env > wake then ns_to_ms (ki_actual env - wake) else 0]\<rparr>)))
           else Some (KmsProbeOk, push 0 st))"

section \<open>Samples\<close>

type_synonym kms_item = "kms_sample \<times> KmsStamp \<times> u64"

datatype kms_flow = KmsFlowOk | KmsFlowEos | KmsFlowError

definition CLOCK_TIME_NONE :: u64 where "CLOCK_TIME_NONE = 2 ^ 64 - 1"

text \<open>
  The first half of \<^verbatim>\<open>on_new_sample\<close>: the stamp with the sample's time stamp, dropping the older
  ones.
\<close>

definition match_stamp :: "kms_sample option \<Rightarrow> u64 \<Rightarrow> KmsState \<Rightarrow> kms_item option \<times> KmsState" where
  "match_stamp pulled surface_ready_ns st =
     (case pulled of
        None \<Rightarrow> (None, st)
      | Some s \<Rightarrow>
          let pts = (if kb_buffer s then kb_pts s else CLOCK_TIME_NONE)
          in (case dropWhile (\<lambda>c. \<not> (pts \<noteq> CLOCK_TIME_NONE \<and> ks_pts c = pts)) (k_submit_queue st) of
                [] \<Rightarrow> (None, st\<lparr>k_failed := True\<rparr>)
              | submit # rest \<Rightarrow> (Some (s, submit, surface_ready_ns), st\<lparr>k_submit_queue := rest\<rparr>)))"

definition kms_producer_wait_over :: "KmsState \<Rightarrow> bool" where
  "kms_producer_wait_over st \<longleftrightarrow> k_ready_sample st = None \<or> k_worker_stop st"

fun kms_publish :: "kms_item \<Rightarrow> KmsState \<Rightarrow> kms_flow \<times> KmsState" where
  "kms_publish (s, submit, surface_ready_ns) st =
     (if k_worker_stop st then (KmsFlowError, st)
      else
        let st = st\<lparr>k_ready_sample := Some s, k_ready_submit := submit, k_ready_surface_ns := surface_ready_ns,
                    k_max_ready_depth := 1, k_queued := k_queued st + 1\<rparr>
        in (if k_queued st \<ge> k_expected_frames st then KmsFlowEos else KmsFlowOk, st))"

section \<open>Displaying a sample\<close>

record display_env =
  de_worker_started :: u64
  de_import :: import_env
  de_framebuffer_ready :: u64
  de_set_crtc :: bool
  de_vblank :: "(u32 \<times> u32) option"
  de_flip_queued :: u64
  de_page_flip :: bool
  de_polls :: "flip_poll list"
  de_delivered :: u64

definition signed_ms :: "u64 \<Rightarrow> u64 \<Rightarrow> rat" where
  "signed_ms a b = dbl_div (dbl_of_i64 (sint a - sint b)) 1000000"

definition record_flip :: "display_env \<Rightarrow> KmsStamp \<Rightarrow> u64 \<Rightarrow> u64 \<Rightarrow> KmsTimings \<Rightarrow> KmsTimings" where
  "record_flip env submit surface_ready_ns flip_ns t =
     (let target = ks_target_ns submit; previous = kt_last_present_ns t;
          t = t\<lparr>kt_decode_ms := kt_decode_ms t @ [ns_to_ms (surface_ready_ns - ks_submitted_ns submit)],
                kt_surface_to_flip_ms := kt_surface_to_flip_ms t @ [ns_to_ms (de_flip_queued env - surface_ready_ns)],
                kt_surface_to_worker_ms := kt_surface_to_worker_ms t @ [ns_to_ms (de_worker_started env - surface_ready_ns)],
                kt_framebuffer_lookup_ms :=
                  kt_framebuffer_lookup_ms t @ [ns_to_ms (de_framebuffer_ready env - de_worker_started env)],
                kt_flip_event_delivery_ms := kt_flip_event_delivery_ms t @ [signed_ms (de_delivered env) flip_ns],
                kt_submit_to_present_ms := kt_submit_to_present_ms t @ [ns_to_ms (flip_ns - ks_submitted_ns submit)]\<rparr>;
          t = (if previous = 0 then t\<lparr>kt_first_present_ns := flip_ns\<rparr>
               else t\<lparr>kt_presentation_interval_ms := kt_presentation_interval_ms t @ [ns_to_ms (flip_ns - previous)]\<rparr>);
          t = t\<lparr>kt_last_present_ns := flip_ns\<rparr>
      in if target \<noteq> 0
         then let t = t\<lparr>kt_surface_vs_target_ms := kt_surface_vs_target_ms t @ [signed_ms surface_ready_ns target],
                        kt_worker_vs_target_ms := kt_worker_vs_target_ms t @ [signed_ms (de_worker_started env) target]\<rparr>;
                  t = (if previous \<noteq> 0
                       then t\<lparr>kt_previous_present_vs_target_ms :=
                                kt_previous_present_vs_target_ms t @ [signed_ms previous target]\<rparr>
                       else t)
              in t\<lparr>kt_flip_vs_target_ms := kt_flip_vs_target_ms t @ [signed_ms flip_ns target]\<rparr>
         else t)"

definition flip_stale :: "KmsStamp \<Rightarrow> KmsState \<Rightarrow> bool" where
  "flip_stale submit st \<longleftrightarrow> k_current st \<noteq> None \<and> ks_target_ns submit \<noteq> 0 \<and>
     k_latest_present_ns st + 1000000 \<ge> ks_target_ns submit"

text \<open>The outer \<open>None\<close> is a flip that has not been reported yet.\<close>

definition display_sample :: "display_env \<Rightarrow> kms_item \<Rightarrow> KmsState \<Rightarrow> (bool \<times> KmsState) option" where
  "display_sample env it st =
     (case it of (s, submit, surface_ready_ns) \<Rightarrow>
        if flip_stale submit st
        then Some (True, st\<lparr>k_stale_frames_dropped := k_stale_frames_dropped st + 1\<rparr>)
        else
          (case create_frame (de_import env) s st of
             (None, st) \<Rightarrow> Some (False, st)
           | (Some fb, st) \<Rightarrow>
               if k_current st = None
               then if \<not> de_set_crtc env then Some (False, st)
                    else (case establish_phase (de_vblank env) st of
                            None \<Rightarrow> Some (False, st)
                          | Some st \<Rightarrow> Some (True, st\<lparr>k_current := Some (s, fb), k_displayed := k_displayed st + 1,
                                                      k_phase_ready := True\<rparr>))
               else if \<not> de_page_flip env then Some (False, st)
               else
                 (case wait_for_flip (de_polls env) of
                    None \<Rightarrow> None
                  | Some None \<Rightarrow> Some (False, st)
                  | Some (Some flip_ns) \<Rightarrow>
                      if flip_ns < ks_submitted_ns submit then Some (False, st)
                      else
                        let st = st\<lparr>k_current := Some (s, fb),
                              k_timings := record_flip env submit surface_ready_ns flip_ns (k_timings st),
                              k_latest_present_ns := flip_ns\<rparr>;
                            st = (if ks_frame submit = 2
                                  then st\<lparr>k_steady_first_target_ns := flip_ns + k_refresh_ns st,
                                          k_steady_phase_ready := True\<rparr>
                                  else st)
                        in Some (True, st\<lparr>k_displayed := k_displayed st + 1\<rparr>))))"

section \<open>The presentation thread\<close>

datatype kms_producer = KmsIdle | KmsWaiting kms_item | KmsEnded
datatype kms_worker = KmsWorkerWaiting | KmsWorkerHolding kms_item | KmsWorkerEnded

definition kms_ready_items :: "KmsState \<Rightarrow> kms_item list" where
  "kms_ready_items st =
     (case k_ready_sample st of None \<Rightarrow> [] | Some s \<Rightarrow> [(s, k_ready_submit st, k_ready_surface_ns st)])"

definition kms_worker_wait_over :: "KmsState \<Rightarrow> bool" where
  "kms_worker_wait_over st \<longleftrightarrow> k_ready_sample st \<noteq> None \<or> k_producer_done st \<or> k_worker_stop st"

definition kms_worker_wake :: "KmsState \<Rightarrow> kms_worker \<times> KmsState" where
  "kms_worker_wake st =
     (if k_worker_stop st then (KmsWorkerEnded, st\<lparr>k_ready_sample := None\<rparr>)
      else case k_ready_sample st of
        None \<Rightarrow> (KmsWorkerEnded, st)
      | Some s \<Rightarrow> (KmsWorkerHolding (s, k_ready_submit st, k_ready_surface_ns st), st\<lparr>k_ready_sample := None\<rparr>))"

definition display_worker :: "display_env \<Rightarrow> kms_item \<Rightarrow> KmsState \<Rightarrow> (kms_worker \<times> KmsState) option" where
  "display_worker env it st =
     (case display_sample env it st of
        None \<Rightarrow> None
      | Some (True, st) \<Rightarrow> Some (KmsWorkerWaiting, st)
      | Some (False, st) \<Rightarrow> Some (KmsWorkerEnded, st\<lparr>k_failed := True, k_worker_stop := True\<rparr>))"

definition kms_finish :: "bool \<Rightarrow> KmsState \<Rightarrow> KmsState" where
  "kms_finish reached_eos st =
     (let st = st\<lparr>k_producer_done := True\<rparr> in if \<not> reached_eos then st\<lparr>k_worker_stop := True\<rparr> else st)"

section \<open>The gate\<close>

definition kms_effective_fps :: "KmsState \<Rightarrow> rat" where
  "kms_effective_fps st =
     (let t = k_timings st; measured = length (kt_submit_to_present_ms t)
      in if measured > 1 \<and> kt_last_present_ns t > kt_first_present_ns t
         then dbl_div (dbl_mul (dbl_of_nat (measured - 1)) 1000000000)
                (dbl_of_u64 (kt_last_present_ns t - kt_first_present_ns t))
         else 0)"

definition kms_missed :: "KmsState \<Rightarrow> nat" where
  "kms_missed st = length (filter (\<lambda>ms. dbl_mul ms 1000000 > dbl_mul (dbl_of_u64 (k_refresh_ns st)) (3 / 2))
     (kt_presentation_interval_ms (k_timings st)))"

definition kms_pacing_passed :: "bool \<Rightarrow> KmsState \<Rightarrow> bool" where
  "kms_pacing_passed reached_eos st \<longleftrightarrow> reached_eos \<and> \<not> k_failed st \<and> k_displayed st = k_expected_frames st \<and>
     of_nat (length (kt_submit_to_present_ms (k_timings st))) + 1 = k_expected_frames st \<and>
     kms_effective_fps st \<ge> rnd64 (599 / 10) \<and> kms_missed st = 0 \<and> k_stale_frames_dropped st = 0"

definition kms_latency_passed :: "KmsState \<Rightarrow> bool" where
  "kms_latency_passed st \<longleftrightarrow> percentile (kt_submit_to_present_ms (k_timings st)) (rnd64 (95 / 100)) \<le> 8"

definition kms_passed :: "bool \<Rightarrow> KmsState \<Rightarrow> bool" where
  "kms_passed reached_eos st \<longleftrightarrow> kms_pacing_passed reached_eos st \<and> kms_latency_passed st"

section \<open>Start\<close>

text \<open>
  The command line: the expected frames and the lead in nanoseconds; \<open>None\<close> is exit status 2.
\<close>

definition kms_arguments :: "string list \<Rightarrow> (u64 \<times> u64) option" where
  "kms_arguments argv =
     (if length argv < 2 \<or> length argv > 5 then None
      else case (if length argv \<ge> 3 then parse_positive (argv ! 2) else Some 600) of
        None \<Rightarrow> None
      | Some frames \<Rightarrow>
          if length argv \<ge> 4
          then (case parse_positive (argv ! 3) of
                  None \<Rightarrow> None
                | Some lead_us \<Rightarrow> if lead_us \<ge> 16667 then None else Some (frames, lead_us * 1000))
          else Some (frames, 6000000))"

definition blank_kms_stamp :: KmsStamp where
  "blank_kms_stamp = \<lparr>ks_frame = 0, ks_submitted_ns = 0, ks_target_ns = 0, ks_pts = CLOCK_TIME_NONE\<rparr>"

definition blank_kms_timings :: KmsTimings where
  "blank_kms_timings = \<lparr>kt_decode_ms = [], kt_surface_to_flip_ms = [], kt_surface_to_worker_ms = [],
     kt_framebuffer_lookup_ms = [], kt_flip_event_delivery_ms = [], kt_submit_to_present_ms = [],
     kt_presentation_interval_ms = [], kt_flip_vs_target_ms = [], kt_surface_vs_target_ms = [],
     kt_worker_vs_target_ms = [], kt_previous_present_vs_target_ms = [], kt_first_present_ns = 0,
     kt_last_present_ns = 0\<rparr>"

definition kms_init :: "u64 \<times> u64 \<Rightarrow> Selection \<times> u64 \<Rightarrow> KmsState" where
  "kms_init args selected =
     \<lparr>k_mode = sel_mode (fst selected), k_refresh_ns = snd selected, k_first_target_ns = 0,
      k_steady_first_target_ns = 0, k_submit_lead_ns = snd args, k_expected_frames = fst args, k_submitted = 0,
      k_queued = 0, k_displayed = 0, k_latest_present_ns = 0, k_failed = False, k_submit_queue = [],
      k_ready_sample = None, k_ready_submit = blank_kms_stamp, k_ready_surface_ns = 0, k_producer_done = False,
      k_worker_stop = False, k_max_ready_depth = 0, k_phase_ready = False, k_steady_phase_ready = False,
      k_current = None, k_framebuffer_cache = [], k_framebuffer_cache_hits = 0, k_framebuffer_cache_misses = 0,
      k_stale_frames_dropped = 0, k_drm_format = [], k_input_schedule_late_ms = [], k_timings = blank_kms_timings,
      k_gem_calls = []\<rparr>"

end
