(* ===== verification/Kms_Run.thy ===== *)
theory Kms_Run
  imports Kms_Client
begin

text \<open>
  The threads of the direct-KMS client and the properties of their runs: the framebuffer cache and the
  kernel objects behind it, the pairing of samples with stamps, and the schedule.
\<close>

section \<open>The threads together\<close>

record kms_system =
  k_shared :: KmsState
  k_producer :: kms_producer
  k_worker :: kms_worker

definition kms_stamp_event :: "KmsState \<Rightarrow> KmsState \<Rightarrow> (KmsStamp, kms_item) queue_event" where
  "kms_stamp_event st st' =
     (if length (k_submit_queue st) < length (k_submit_queue st') then Called (last (k_submit_queue st')) else Silent)"

text \<open>The decoder, sample, presentation and main threads, one critical section at a time.\<close>

inductive kms_step :: "kms_system \<Rightarrow> (KmsStamp, kms_item) queue_event \<Rightarrow> kms_system \<Rightarrow> bool" where
  input: "kms_decoder_input env (k_shared c) = Some (r, st) \<Longrightarrow>
    kms_step c (kms_stamp_event (k_shared c) st) (c\<lparr>k_shared := st\<rparr>)"
| match: "k_producer c = KmsIdle \<Longrightarrow> match_stamp pulled surf (k_shared c) = (found, st) \<Longrightarrow>
    kms_step c Silent (c\<lparr>k_shared := st, k_producer := case found of None \<Rightarrow> KmsEnded | Some it \<Rightarrow> KmsWaiting it\<rparr>)"
| publish: "k_producer c = KmsWaiting it \<Longrightarrow> kms_producer_wait_over (k_shared c) \<Longrightarrow>
    kms_publish it (k_shared c) = (f, st) \<Longrightarrow>
    kms_step c (if k_worker_stop (k_shared c) then Silent else Published it)
      (c\<lparr>k_shared := st, k_producer := if f = KmsFlowOk then KmsIdle else KmsEnded\<rparr>)"
| wake: "k_worker c = KmsWorkerWaiting \<Longrightarrow> kms_worker_wait_over (k_shared c) \<Longrightarrow>
    kms_worker_wake (k_shared c) = (w, st) \<Longrightarrow>
    kms_step c (case w of KmsWorkerHolding it \<Rightarrow> Taken it | _ \<Rightarrow> Dropped (kms_ready_items (k_shared c)))
      (c\<lparr>k_shared := st, k_worker := w\<rparr>)"
| display: "k_worker c = KmsWorkerHolding it \<Longrightarrow> display_worker env it (k_shared c) = Some (w, st) \<Longrightarrow>
    kms_step c Silent (c\<lparr>k_shared := st, k_worker := w\<rparr>)"
| finish: "kms_step c Silent (c\<lparr>k_shared := kms_finish reached_eos (k_shared c)\<rparr>)"

section \<open>The framebuffer cache\<close>

definition cache_keys :: "KmsState \<Rightarrow> (u64 \<times> u64) list" where
  "cache_keys st = map (\<lambda>c. (cf_device c, cf_inode c)) (k_framebuffer_cache st)"

text \<open>
  Every kernel object that was created and not destroyed belongs to exactly one entry of the cache.
  Handle and framebuffer zero are the null objects of the kernel interface.
\<close>

definition gem_balanced :: "KmsState \<Rightarrow> bool" where
  "gem_balanced st \<longleftrightarrow>
     (\<forall>h. h \<noteq> 0 \<longrightarrow> count_list (k_gem_calls st) (GemImport h) =
        count_list (k_gem_calls st) (GemClose h) + count_list (map cf_gem_handle (k_framebuffer_cache st)) h) \<and>
     (\<forall>f. f \<noteq> 0 \<longrightarrow> count_list (k_gem_calls st) (AddFb f) =
        count_list (k_gem_calls st) (RmFb f) + count_list (map cf_framebuffer (k_framebuffer_cache st)) f)"

definition cache_ok :: "KmsState \<Rightarrow> bool" where
  "cache_ok st \<longleftrightarrow> distinct (cache_keys st) \<and> gem_balanced st \<and>
     k_framebuffer_cache_misses st = of_nat (length (k_framebuffer_cache st))"

lemma cached_framebuffer_None: "cached_framebuffer key cache = None \<longleftrightarrow> key \<notin> set (map (\<lambda>c. (cf_device c, cf_inode c)) cache)"
  by (auto simp: cached_framebuffer_def find_None_iff)

lemma cached_framebuffer_Some:
  "cached_framebuffer key cache = Some c \<Longrightarrow> c \<in> set cache \<and> (cf_device c, cf_inode c) = key"
  by (auto simp: cached_framebuffer_def find_Some_iff)

lemma create_frame_cases:
  assumes "create_frame env s st = (r, st')"
  obtains (refused) "r = None" "st' = st"
  | (hit) key fmt c where "frame_key s (k_mode st) = Some (key, fmt)"
      "cached_framebuffer key (k_framebuffer_cache st) = Some c" "r = Some (cf_framebuffer c)"
      "st' = st\<lparr>k_framebuffer_cache_hits := k_framebuffer_cache_hits st + 1\<rparr>"
  | (closed) h where "r = None" "st' = st\<lparr>k_gem_calls := k_gem_calls st @ [GemImport h, GemClose h]\<rparr>"
  | (made) key fmt h fb where "frame_key s (k_mode st) = Some (key, fmt)"
      "cached_framebuffer key (k_framebuffer_cache st) = None" "r = Some fb"
      "st' = st\<lparr>k_gem_calls := k_gem_calls st @ [GemImport h, AddFb fb],
          k_framebuffer_cache := k_framebuffer_cache st @
            [\<lparr>cf_device = fst key, cf_inode = snd key, cf_framebuffer = fb, cf_gem_handle = h\<rparr>],
          k_framebuffer_cache_misses := k_framebuffer_cache_misses st + 1, k_drm_format := fmt\<rparr>"
proof (cases "frame_key s (k_mode st)")
  case None
  then show ?thesis using assms by (intro refused) (auto simp: create_frame_def)
next
  case (Some kf)
  obtain key fmt where kf: "kf = (key, fmt)" by (cases kf)
  note key = Some [unfolded kf]
  show ?thesis
  proof (cases "cached_framebuffer key (k_framebuffer_cache st)")
    case new: None
    show ?thesis
    proof (cases "ie_gem env")
      case None
      then show ?thesis using assms key new by (intro refused) (auto simp: create_frame_def)
    next
      case (Some h)
      show ?thesis
      proof (cases "ie_framebuffer env")
        case None
        then show ?thesis using assms key new Some by (intro closed [of h]) (auto simp: create_frame_def Let_def)
      next
        case fb: (Some fb)
        then show ?thesis using assms key new Some
          by (intro made [of key fmt fb h]) (auto simp: create_frame_def Let_def)
      qed
    qed
  next
    case (Some c)
    then show ?thesis using assms key by (intro hit) (auto simp: create_frame_def)
  qed
qed

lemma create_frame_cache_ok:
  assumes "create_frame env s st = (r, st')" and "cache_ok st"
  shows "cache_ok st'"
  using assms(2)
  by (cases rule: create_frame_cases [OF assms(1)])
    (auto simp: cache_ok_def cache_keys_def gem_balanced_def cached_framebuffer_None)

lemma find_snoc: "find P xs = None \<Longrightarrow> find P (xs @ [x]) = (if P x then Some x else None)"
  by (induction xs) (auto split: if_splits)

lemma create_frame_lookup:
  assumes "create_frame env s st = (Some fb, st')"
  shows "\<exists>key fmt c. frame_key s (k_mode st) = Some (key, fmt) \<and>
    cached_framebuffer key (k_framebuffer_cache st') = Some c \<and> cf_framebuffer c = fb"
  using assms
proof (cases rule: create_frame_cases)
  case (made key fmt h fb')
  then have "cached_framebuffer key (k_framebuffer_cache st') =
      Some \<lparr>cf_device = fst key, cf_inode = snd key, cf_framebuffer = fb, cf_gem_handle = h\<rparr>"
    by (auto simp: cached_framebuffer_def find_snoc)
  with made show ?thesis by auto
qed auto

lemma release_balanced:
  assumes "gem_balanced st"
  shows "gem_balanced (release_framebuffer_cache st)"
proof -
  have close: "count_list (concat (map release_calls cs)) (GemClose h) = count_list (map cf_gem_handle cs) h"
    and rm: "count_list (concat (map release_calls cs)) (RmFb h) = count_list (map cf_framebuffer cs) h"
    and other: "count_list (concat (map release_calls cs)) (GemImport h) = 0"
      "count_list (concat (map release_calls cs)) (AddFb h) = 0" if "h \<noteq> 0" for cs h
    using that by (induction cs) (auto simp: release_calls_def)
  show ?thesis
    using assms by (auto simp: gem_balanced_def release_framebuffer_cache_def close rm other)
qed

section \<open>What the steps keep\<close>

text \<open>The fields of the hand-over and of the cache.\<close>

definition kms_handover where
  "kms_handover st = (k_ready_sample st, k_ready_submit st, k_ready_surface_ns st, k_submit_queue st)"

definition kms_cache where
  "kms_cache st = (k_framebuffer_cache st, k_gem_calls st, k_framebuffer_cache_misses st)"

lemma cache_ok_cong: "kms_cache st' = kms_cache st \<Longrightarrow> cache_ok st' = cache_ok st"
  by (simp add: kms_cache_def cache_ok_def cache_keys_def gem_balanced_def)

lemma ready_cong: "kms_handover st' = kms_handover st \<Longrightarrow> kms_ready_items st' = kms_ready_items st"
  by (simp add: kms_handover_def kms_ready_items_def split: option.split)

lemma kms_input_keeps:
  assumes "kms_decoder_input env st = Some (r, st')"
  shows "kms_cache st' = kms_cache st" "kms_ready_items st' = kms_ready_items st"
    "k_submit_queue st' = k_submit_queue st @ calls [kms_stamp_event st st']" "k_worker_stop st' = k_worker_stop st"
  using assms
  by (auto simp: kms_decoder_input_def kms_schedule_def Let_def kms_cache_def kms_ready_items_def kms_stamp_event_def
      split: if_splits option.splits)

lemma create_frame_keeps:
  assumes "create_frame env s st = (r, st')"
  shows "kms_handover st' = kms_handover st" "k_worker_stop st' = k_worker_stop st"
  by (cases rule: create_frame_cases [OF assms]; simp add: kms_handover_def)+

lemma display_sample_keeps:
  assumes "display_sample env it st = Some (ok, st')"
  shows "kms_handover st' = kms_handover st" "k_worker_stop st' = k_worker_stop st"
    "cache_ok st \<Longrightarrow> cache_ok st'"
proof -
  obtain s submit surf where it: "it = (s, submit, surf)" by (cases it)
  obtain r st1 where cf: "create_frame (de_import env) s st = (r, st1)" by fastforce
  have "(kms_handover st' = kms_handover st \<and> kms_cache st' = kms_cache st \<and> k_worker_stop st' = k_worker_stop st) \<or>
      (kms_handover st' = kms_handover st1 \<and> kms_cache st' = kms_cache st1 \<and> k_worker_stop st' = k_worker_stop st1)"
    using assms
    by (auto simp: display_sample_def it cf Let_def establish_phase_def kms_handover_def kms_cache_def
        split: if_splits option.splits)
  then show "kms_handover st' = kms_handover st" "k_worker_stop st' = k_worker_stop st" "cache_ok st \<Longrightarrow> cache_ok st'"
    using create_frame_keeps [OF cf] create_frame_cache_ok [OF cf] cache_ok_cong by metis+
qed

lemma display_worker_keeps:
  assumes "display_worker env it st = Some (w, st')"
  shows "kms_handover st' = kms_handover st" "cache_ok st \<Longrightarrow> cache_ok st'"
    "k_worker_stop st \<Longrightarrow> k_worker_stop st'" "w = KmsWorkerWaiting \<or> w = KmsWorkerEnded"
proof -
  obtain ok st1 where d: "display_sample env it st = Some (ok, st1)"
    using assms by (auto simp: display_worker_def split: option.splits)
  note k = display_sample_keeps [OF d]
  have e: "kms_handover st' = kms_handover st1 \<and> kms_cache st' = kms_cache st1 \<and> (k_worker_stop st1 \<longrightarrow> k_worker_stop st')
      \<and> (w = KmsWorkerWaiting \<or> w = KmsWorkerEnded)"
    using assms by (cases ok) (auto simp: display_worker_def d kms_handover_def kms_cache_def)
  then show "kms_handover st' = kms_handover st" "cache_ok st \<Longrightarrow> cache_ok st'"
    "k_worker_stop st \<Longrightarrow> k_worker_stop st'" "w = KmsWorkerWaiting \<or> w = KmsWorkerEnded"
    using k cache_ok_cong by metis+
qed

lemma kms_step_cache: "kms_step c e c' \<Longrightarrow> cache_ok (k_shared c) \<Longrightarrow> cache_ok (k_shared c')"
proof (induction rule: kms_step.induct)
  case (input env c r st)
  then show ?case using cache_ok_cong [OF kms_input_keeps(1)] by simp
next
  case (match c pulled surf found st)
  then have "kms_cache st = kms_cache (k_shared c)"
    by (auto simp: match_stamp_def Let_def kms_cache_def split: option.splits list.splits)
  from cache_ok_cong [OF this] show ?case using match by simp
next
  case (publish c it f st)
  then have "kms_cache st = kms_cache (k_shared c)"
    by (cases it) (auto simp: Let_def kms_cache_def split: if_splits)
  from cache_ok_cong [OF this] show ?case using publish by simp
next
  case (wake c w st)
  then have "kms_cache st = kms_cache (k_shared c)"
    by (auto simp: kms_worker_wake_def kms_cache_def split: if_splits option.splits)
  from cache_ok_cong [OF this] show ?case using wake by simp
next
  case (display c it env w st)
  then show ?case using display_worker_keeps(2) by simp
next
  case (finish c eos)
  have "kms_cache (kms_finish eos (k_shared c)) = kms_cache (k_shared c)"
    by (simp add: kms_finish_def Let_def kms_cache_def)
  from cache_ok_cong [OF this] show ?case using finish by simp
qed

lemma kms_slot_step:
  assumes "kms_step c e c'"
  shows "queue_step 1 (kms_ready_items (k_shared c)) e (kms_ready_items (k_shared c'))"
  using assms
proof (induction rule: kms_step.induct)
  case (input env c r st)
  then show ?case using kms_input_keeps(2) [OF input]
    by (auto simp: kms_stamp_event_def intro: queue_step.intros)
next
  case (match c pulled surf found st)
  then have "kms_ready_items st = kms_ready_items (k_shared c)"
    by (auto simp: match_stamp_def Let_def kms_ready_items_def split: option.splits list.splits)
  then show ?case by (simp add: queue_step.silent)
next
  case (publish c it f st)
  then show ?case using queue_step.published [of "[]" 1 it]
    by (cases it) (auto simp: kms_producer_wait_over_def kms_ready_items_def Let_def intro: queue_step.silent
        split: if_splits option.splits)
next
  case (wake c w st)
  then show ?case
    using queue_step.dropped [of 1 "kms_ready_items (k_shared c)" "[]"] queue_step.taken [of 1 _ "[]"]
    by (auto simp: kms_worker_wake_def kms_ready_items_def split: if_splits option.splits)
next
  case (display c it env w st)
  then show ?case using ready_cong [OF display_worker_keeps(1)] by (simp add: queue_step.silent)
next
  case (finish c eos)
  have "kms_ready_items (kms_finish eos (k_shared c)) = kms_ready_items (k_shared c)"
    by (simp add: kms_finish_def Let_def kms_ready_items_def split: option.split)
  then show ?case by (simp add: queue_step.silent)
qed

interpretation kms_slot: bounded_queue 1 kms_step "\<lambda>c. cache_ok (k_shared c)" "\<lambda>c. kms_ready_items (k_shared c)"
  by unfold_locales (assumption | rule kms_step_cache kms_slot_step)+

section \<open>Runs\<close>

definition kms_start :: "KmsState \<Rightarrow> kms_system" where
  "kms_start st = \<lparr>k_shared = st, k_producer = KmsIdle, k_worker = KmsWorkerWaiting\<rparr>"

lemma kms_start_ok: "cache_ok (k_shared (kms_start (kms_init args sel)))"
  "kms_ready_items (k_shared (kms_start (kms_init args sel))) = []"
  by (simp_all add: kms_start_def kms_init_def cache_ok_def cache_keys_def gem_balanced_def kms_ready_items_def)

definition kms_waiting :: "kms_producer \<Rightarrow> kms_item list" where
  "kms_waiting p = (case p of KmsWaiting it \<Rightarrow> [it] | _ \<Rightarrow> [])"

definition kms_stamp_of :: "kms_item \<Rightarrow> KmsStamp" where
  "kms_stamp_of it = fst (snd it)"

definition same_pts :: "kms_item \<Rightarrow> bool" where
  "same_pts it \<longleftrightarrow> kb_buffer (fst it) \<and> ks_pts (kms_stamp_of it) = kb_pts (fst it)"

definition kms_paired :: "KmsStamp list \<Rightarrow> kms_item list \<Rightarrow> kms_system \<Rightarrow> bool" where
  "kms_paired pushed published c \<longleftrightarrow> list_all same_pts (published @ kms_waiting (k_producer c)) \<and>
     subseq (map kms_stamp_of (published @ kms_waiting (k_producer c)) @ k_submit_queue (k_shared c)) pushed"

lemma match_stamp_cases:
  assumes "match_stamp pulled surf st = (found, st')"
  shows "(found = None \<and> k_submit_queue st' = k_submit_queue st) \<or>
    (\<exists>it older. found = Some it \<and> same_pts it \<and> k_submit_queue st = older @ kms_stamp_of it # k_submit_queue st')"
proof (cases pulled)
  case None
  then show ?thesis using assms by (simp add: match_stamp_def)
next
  case (Some s)
  define pts where "pts = (if kb_buffer s then kb_pts s else CLOCK_TIME_NONE)"
  define P :: "KmsStamp \<Rightarrow> bool" where "P = (\<lambda>c. \<not> (pts \<noteq> CLOCK_TIME_NONE \<and> ks_pts c = pts))"
  have m: "match_stamp pulled surf st =
      (case dropWhile P (k_submit_queue st) of [] \<Rightarrow> (None, st\<lparr>k_failed := True\<rparr>)
       | submit # rest \<Rightarrow> (Some (s, submit, surf), st\<lparr>k_submit_queue := rest\<rparr>))"
    unfolding match_stamp_def Some option.case Let_def P_def pts_def ..
  show ?thesis
  proof (cases "dropWhile P (k_submit_queue st)")
    case Nil
    then have "(None, st\<lparr>k_failed := True\<rparr>) = (found, st')" using assms unfolding m Nil by simp
    then show ?thesis by auto
  next
    case (Cons stamp rest)
    have "\<not> P stamp" using hd_dropWhile [of P "k_submit_queue st"] Cons by auto
    then have "same_pts (s, stamp, surf)"
      by (simp add: P_def pts_def same_pts_def kms_stamp_of_def split: if_splits)
    moreover have "k_submit_queue st = takeWhile P (k_submit_queue st) @ stamp # rest"
      using takeWhile_dropWhile_id [of P "k_submit_queue st"] Cons by simp
    moreover have "found = Some (s, stamp, surf)" "k_submit_queue st' = rest"
      using assms Cons unfolding m by auto
    ultimately show ?thesis by (auto simp: kms_stamp_of_def)
  qed
qed

lemma kms_paired_step:
  assumes "kms_step c e c'" and "kms_paired pushed published c"
  shows "kms_paired (pushed @ calls [e]) (published @ added [e]) c'"
  using assms
proof (induction rule: kms_step.induct)
  case (input env c r st)
  have "added [kms_stamp_event (k_shared c) st] = []" by (simp add: kms_stamp_event_def)
  then show ?case
    using input(2) kms_input_keeps(3) [OF input(1)]
    by (simp add: kms_paired_def) (metis append.assoc list_emb_append_mono subseq_order.order_refl)
next
  case (match c pulled surf found st)
  have sub: "subseq (b # r) (o' @ b # r)" for b :: KmsStamp and r o' by (simp add: list_emb_append2)
  show ?case
    using match(1,3) match_stamp_cases [OF match(2)]
    by (auto simp: kms_paired_def kms_waiting_def elim!: subseq_order.order_trans [rotated]
        intro!: list_emb_append_mono sub)
next
  case (publish c it f st)
  have q: "k_submit_queue st = k_submit_queue (k_shared c)"
    using publish(3) by (cases it) (auto simp: Let_def split: if_splits)
  have drop: "subseq (a @ r) (a @ b # r)" for a :: "KmsStamp list" and b r
    by (simp add: list_emb_append_mono list_emb_Cons)
  show ?case
    using publish(1,4) q by (auto simp: kms_paired_def kms_waiting_def intro: subseq_order.order_trans [OF drop])
next
  case (wake c w st)
  have "k_submit_queue st = k_submit_queue (k_shared c)"
    using wake(3) by (auto simp: kms_worker_wake_def split: if_splits option.splits)
  moreover define ev :: "(KmsStamp, kms_item) queue_event" where
    "ev = (case w of KmsWorkerHolding it \<Rightarrow> Taken it | _ \<Rightarrow> Dropped (kms_ready_items (k_shared c)))"
  then have "added [ev] = []" "calls [ev] = []" by (simp_all split: kms_worker.split)
  ultimately show ?case using wake(4) unfolding ev_def [symmetric] by (simp add: kms_paired_def)
next
  case (display c it env w st)
  have "k_submit_queue st = k_submit_queue (k_shared c)"
    using display_worker_keeps(1) [OF display(2)] by (simp add: kms_handover_def)
  then show ?case using display(3) by (simp add: kms_paired_def)
next
  case (finish c eos)
  then show ?case by (simp add: kms_paired_def kms_finish_def Let_def)
qed

lemma kms_paired_run:
  assumes "trace_run kms_step (kms_start (kms_init args sel)) t c"
  shows "kms_paired (calls t) (added t) c"
  using assms
proof (induction rule: trace_run.induct)
  case start
  then show ?case by (simp add: kms_paired_def kms_start_def kms_init_def kms_waiting_def)
next
  case (snoc t c e c')
  then show ?case using kms_paired_step by simp
qed

section \<open>Properties\<close>

text \<open>C23. In every run of the direct-KMS client the framebuffer cache holds one entry per DMA-BUF, and
  once the cache is released every GEM handle that was imported has been closed as often as it was imported
  and every framebuffer removed as often as it was made.\<close>

theorem kms_framebuffers_released:
  assumes "trace_run kms_step (kms_start (kms_init args sel)) t c"
  defines "calls_made \<equiv> k_gem_calls (release_framebuffer_cache (k_shared c))"
  shows "distinct (cache_keys (k_shared c)) \<and>
    k_framebuffer_cache_misses (k_shared c) = of_nat (length (k_framebuffer_cache (k_shared c))) \<and>
    (\<forall>x. x \<noteq> 0 \<longrightarrow> count_list calls_made (GemImport x) = count_list calls_made (GemClose x) \<and>
       count_list calls_made (AddFb x) = count_list calls_made (RmFb x))"
proof -
  have ok: "cache_ok (k_shared c)" using kms_slot.run_inv [OF assms(1) kms_start_ok(1)] .
  then have "gem_balanced (release_framebuffer_cache (k_shared c))"
    by (simp add: cache_ok_def release_balanced)
  then show ?thesis
    using ok by (simp add: cache_ok_def gem_balanced_def calls_made_def release_framebuffer_cache_def)
qed

text \<open>The samples the presentation thread of the direct-KMS client takes are paired with the stamp of
  the same time stamp, the stamps follow the order they were pushed in, and what was published is what was
  taken or dropped followed by what waits.\<close>

theorem kms_samples_paired:
  assumes "trace_run kms_step (kms_start (kms_init args sel)) t c"
  shows "list_all same_pts (taken_views t) \<and> subseq (map kms_stamp_of (taken_views t)) (calls t) \<and>
    added t = removed t @ kms_ready_items (k_shared c)"
proof -
  have p: "list_all same_pts (added t)" "subseq (map kms_stamp_of (added t)) (calls t)"
    using kms_paired_run [OF assms]
    by (auto simp: kms_paired_def dest: subseq_order.order_trans [rotated] list_emb_append2
        intro: subseq_order.order_trans)
  have s: "subseq (taken_views t) (added t)"
    using kms_slot.run_taken [OF assms kms_start_ok] .
  then have "set (taken_views t) \<subseteq> set (added t)" by (auto elim: list_emb_set)
  then have "list_all same_pts (taken_views t)" using p(1) by (auto simp: list_all_iff)
  moreover have "subseq (map kms_stamp_of (taken_views t)) (calls t)"
    using subseq_map [OF s, of kms_stamp_of] p(2) by (rule subseq_order.order_trans)
  ultimately show ?thesis using kms_slot.run_fifo [OF assms kms_start_ok] by blast
qed

text \<open>The direct-KMS client schedules with the same grid as the Wayland client: its wake-up time and
  its moved epoch are those of the shared schedule, and its target lies the lead after the wake-up.\<close>

theorem kms_schedule_is_grid:
  "kms_schedule n now st =
     (let epoch = (if n = 2 then k_first_target_ns st else k_steady_first_target_ns st);
          lead = kms_lead n st;
          (wake, epoch) = schedule_wake epoch (if n = 2 then 1 else n - 2) (k_refresh_ns st) lead now
      in (wake + lead, wake,
          if n = 2 then st\<lparr>k_first_target_ns := epoch\<rparr> else st\<lparr>k_steady_first_target_ns := epoch\<rparr>))"
  by (simp add: kms_schedule_def schedule_wake_def Let_def algebra_simps split: if_splits)

section \<open>An example run\<close>

definition demo_kms_sample :: kms_sample where
  "demo_kms_sample = \<lparr>kb_buffer = True, kb_pts = 0, kb_meta = Some (1920, 1080, 0, 7680),
     kb_drm_format = Some ''Y410:1'', kb_n_memory = 1, kb_is_dmabuf = True, kb_fd = 9, kb_stat = Some (3, 77)\<rparr>"

definition demo_kms_init :: KmsState where
  "demo_kms_init = kms_init (600, 6000000)
     (\<lparr>sel_connector = 7, sel_crtc_index = 1, sel_crtc = 41, sel_mode = demo_mode 120000 8\<rparr>, 16666667)"

definition demo_kms_stamp :: KmsStamp where
  "demo_kms_stamp = \<lparr>ks_frame = 1, ks_submitted_ns = 500, ks_target_ns = 0, ks_pts = 0\<rparr>"

definition demo_kms_input :: kms_input where
  "demo_kms_input = \<lparr>ki_buffer = True, ki_writable = True, ki_now = 400, ki_sleep = [], ki_actual = 0, ki_stamp = 500\<rparr>"

definition demo_display :: display_env where
  "demo_display = \<lparr>de_worker_started = 900, de_import = \<lparr>ie_gem = Some 5, ie_framebuffer = Some 60\<rparr>,
     de_framebuffer_ready = 950, de_set_crtc = True, de_vblank = Some (1, 0), de_flip_queued = 0, de_page_flip = True,
     de_polls = [], de_delivered = 0\<rparr>"

lemma demo_frame_key: "frame_key demo_kms_sample (demo_mode 120000 8) = Some ((3, 77), ''Y410:1'')"
proof -
  have "parse_modifier ''Y410:1'' = Some 1"
    by (simp add: parse_modifier_def strtoull_def choose_base_def hex_prefix_def c_isspace_def is_digit_def digit_value_def)
  moreover have "0 \<le>s (9 :: i32)" by (simp add: word_sle_eq)
  ultimately show ?thesis by (simp add: frame_key_def demo_kms_sample_def demo_mode_def)
qed

lemma demo_kms_run:
  obtains t c where "trace_run kms_step (kms_start demo_kms_init) t c" "taken_views t = [(demo_kms_sample, demo_kms_stamp, 800)]"
    "k_gem_calls (k_shared c) = [GemImport 5, AddFb 60]"
proof -
  define it where "it = (demo_kms_sample, demo_kms_stamp, 800 :: u64)"
  define c0 where "c0 = kms_start demo_kms_init"
  define c1 where "c1 = c0\<lparr>k_shared := (k_shared c0)\<lparr>k_submitted := 1, k_submit_queue := [demo_kms_stamp]\<rparr>\<rparr>"
  define c2 where "c2 = c1\<lparr>k_shared := (k_shared c1)\<lparr>k_submit_queue := []\<rparr>, k_producer := KmsWaiting it\<rparr>"
  define c3 where "c3 = c2\<lparr>k_shared := (k_shared c2)\<lparr>k_ready_sample := Some demo_kms_sample,
    k_ready_submit := demo_kms_stamp, k_ready_surface_ns := 800, k_max_ready_depth := 1, k_queued := 1\<rparr>, k_producer := KmsIdle\<rparr>"
  define c4 where "c4 = c3\<lparr>k_shared := (k_shared c3)\<lparr>k_ready_sample := None\<rparr>, k_worker := KmsWorkerHolding it\<rparr>"
  note c = c0_def c1_def c2_def c3_def c4_def kms_start_def demo_kms_init_def kms_init_def it_def
  have "kms_decoder_input demo_kms_input (k_shared c0) = Some (KmsProbeOk, k_shared c1)"
    by (simp add: kms_decoder_input_def demo_kms_input_def demo_kms_stamp_def synthetic_pts_def Let_def c word_le_nat_alt)
  then have s1: "kms_step c0 (kms_stamp_event (k_shared c0) (k_shared c1)) c1"
    using kms_step.input [of demo_kms_input c0] by (simp add: c1_def)
  have "match_stamp (Some demo_kms_sample) 800 (k_shared c1) = (Some it, k_shared c2)"
    by (simp add: match_stamp_def Let_def c demo_kms_sample_def demo_kms_stamp_def CLOCK_TIME_NONE_def)
  then have s2: "kms_step c1 Silent c2"
    using kms_step.match [of c1 "Some demo_kms_sample" 800] by (simp add: c)
  have "kms_publish it (k_shared c2) = (KmsFlowOk, k_shared c3)"
    by (simp add: c Let_def word_le_nat_alt)
  then have s3: "kms_step c2 (Published it) c3"
    using kms_step.publish [of c2 it] by (simp add: c kms_producer_wait_over_def)
  have "kms_worker_wake (k_shared c3) = (KmsWorkerHolding it, k_shared c4)"
    by (simp add: kms_worker_wake_def c)
  then have s4: "kms_step c3 (Taken it) c4"
    using kms_step.wake [of c3 "KmsWorkerHolding it" "k_shared c4"] by (simp add: c kms_worker_wait_over_def)
  obtain st where "display_worker demo_display it (k_shared c4) = Some (KmsWorkerWaiting, st)"
    "k_gem_calls st = [GemImport 5, AddFb 60]"
    by (simp add: display_worker_def display_sample_def flip_stale_def create_frame_def demo_frame_key
        cached_framebuffer_def establish_phase_def demo_display_def Let_def c)
  then have s5: "kms_step c4 Silent (c4\<lparr>k_shared := st, k_worker := KmsWorkerWaiting\<rparr>)"
    and g: "k_gem_calls st = [GemImport 5, AddFb 60]"
    using kms_step.display [of c4 it demo_display] by (simp_all add: c4_def)
  have r: "trace_run kms_step c0
      ((((([] @ [kms_stamp_event (k_shared c0) (k_shared c1)]) @ [Silent]) @ [Published it]) @ [Taken it]) @ [Silent])
      (c4\<lparr>k_shared := st, k_worker := KmsWorkerWaiting\<rparr>)"
    using trace_run.start [of kms_step c0] s1 s2 s3 s4 s5 by (blast intro: trace_run.snoc)
  show ?thesis
    by (rule that [OF r [unfolded c0_def]]) (simp_all add: kms_stamp_event_def it_def g c)
qed

theorem kms_framebuffers_released_witness:
  "\<exists>t c. trace_run kms_step (kms_start demo_kms_init) t c \<and> k_gem_calls (k_shared c) = [GemImport 5, AddFb 60] \<and>
     count_list (k_gem_calls (release_framebuffer_cache (k_shared c))) (GemImport 5) =
     count_list (k_gem_calls (release_framebuffer_cache (k_shared c))) (GemClose 5)"
proof (rule demo_kms_run)
  fix t c
  assume *: "trace_run kms_step (kms_start demo_kms_init) t c" "k_gem_calls (k_shared c) = [GemImport 5, AddFb 60]"
  have "(5 :: u32) \<noteq> 0" by simp
  with kms_framebuffers_released [OF *(1) [unfolded demo_kms_init_def]] * show ?thesis by blast
qed

theorem kms_samples_paired_witness:
  "\<exists>t c. trace_run kms_step (kms_start demo_kms_init) t c \<and> length (taken_views t) = 1 \<and>
     list_all same_pts (taken_views t)"
proof (rule demo_kms_run)
  fix t c
  assume *: "trace_run kms_step (kms_start demo_kms_init) t c"
    "taken_views t = [(demo_kms_sample, demo_kms_stamp, 800)]"
  with kms_samples_paired [OF *(1) [unfolded demo_kms_init_def]] show ?thesis by auto
qed

end
