(* ===== verification/Kms_Scanout.thy ===== *)
theory Kms_Scanout
  imports Kms_Modes C_Strings
begin

text \<open>
  \<^verbatim>\<open>probes/kms/plank-probe-kms-xb30.cpp\<close>: a 10-bit gradient is drawn into a dumb buffer, scanned out
  and exported; every exit path releases what it acquired. \<^verbatim>\<open>probes/kms/plank-probe-kms.cpp\<close>: the
  inventory of scan-out framebuffers.

  The kernel's answers are arguments; the calls that acquire and release are listed in order.
\<close>

section \<open>The gradient\<close>

definition gradient_pixel :: "u32 \<Rightarrow> u32 \<Rightarrow> u32 \<Rightarrow> u32 \<Rightarrow> u32" where
  "gradient_pixel w h x y =
     (let red = x * 1023 div (w - 1); green = y * 1023 div (h - 1); blue = 1023 - red
      in red OR push_bit 10 green OR push_bit 20 blue)"

definition gradient_row :: "u32 \<Rightarrow> u32 \<Rightarrow> nat \<Rightarrow> u32 list" where
  "gradient_row w h y = map (\<lambda>x. gradient_pixel w h (of_nat x) (of_nat y)) [0..<unat w]"

definition gradient_rows :: "drmModeModeInfo \<Rightarrow> u32 list list" where
  "gradient_rows m = map (gradient_row (ucast (hdisplay m)) (ucast (vdisplay m))) [0..<unat (vdisplay m)]"

section \<open>The XB30 probe\<close>

text \<open>
  The EGL devices tried in turn: whether the display initialises, its extension string, whether the image
  is created.
\<close>

type_synonym egl_device = "bool \<times> string option \<times> bool"

fun import_on_device :: "egl_device list \<Rightarrow> bool" where
  "import_on_device [] = False"
| "import_on_device ((initialises, extensions, created) # devices) =
     (if \<not> initialises then import_on_device devices
      else case extensions of
        None \<Rightarrow> import_on_device devices
      | Some e \<Rightarrow>
          if strstr e ''EGL_EXT_image_dma_buf_import'' = None then import_on_device devices
          else if created then True else import_on_device devices)"

text \<open>The entry points are present or not; \<open>None\<close> is a failed query of the devices, of which there are at most eight.\<close>

definition import_dma_buf_to_egl :: "bool \<Rightarrow> egl_device list option \<Rightarrow> bool" where
  "import_dma_buf_to_egl entry_points devices \<longleftrightarrow>
     entry_points \<and> (case devices of None \<Rightarrow> False | Some ds \<Rightarrow> import_on_device ds)"

datatype drm_call =
  OpenDevice | CloseDevice | SetMaster | DropMaster | CreateDumb | DestroyDumb | MapDumb | UnmapDumb
  | AddFramebuffer | RemoveFramebuffer | Draw "u32 list list" | ScanOut | Restore | Blank | ExportDmaBuf | CloseDmaBuf

record scanout_env =
  so_open :: bool
  so_master :: bool
  so_resources :: "drmModeRes option"
  so_previous :: bool \<comment> \<open>the CRTC had a valid mode\<close>
  so_create :: bool
  so_map_request :: bool
  so_mmap :: bool
  so_add_fb :: bool
  so_modeset :: bool
  so_export :: bool
  so_entry_points :: bool
  so_egl :: "egl_device list option"

text \<open>The exit status and the calls.\<close>

definition xb30_main :: "nat \<Rightarrow> scanout_env \<Rightarrow> int \<times> drm_call list" where
  "xb30_main argc env =
     (if argc > 2 then (2, [])
      else if \<not> so_open env then (3, [])
      else if \<not> so_master env then (4, [OpenDevice, CloseDevice])
      else case Option.bind (so_resources env) choose_output of
        None \<Rightarrow> (5, [OpenDevice, SetMaster, DropMaster, CloseDevice])
      | Some selection \<Rightarrow>
          if \<not> so_create env then (6, [OpenDevice, SetMaster, DropMaster, CloseDevice])
          else if \<not> so_map_request env
          then (7, [OpenDevice, SetMaster, CreateDumb, DestroyDumb, DropMaster, CloseDevice])
          else if \<not> so_mmap env
          then (8, [OpenDevice, SetMaster, CreateDumb, DestroyDumb, DropMaster, CloseDevice])
          else if \<not> so_add_fb env
          then (9, [OpenDevice, SetMaster, CreateDumb, MapDumb, Draw (gradient_rows (sel_mode selection)), UnmapDumb,
                    DestroyDumb, DropMaster, CloseDevice])
          else
            let (result, shown) =
                  (if \<not> so_modeset env then (10, [])
                   else if \<not> so_export env then (11, [ScanOut])
                   else if \<not> import_dma_buf_to_egl (so_entry_points env) (so_egl env) then (12, [ScanOut, ExportDmaBuf, CloseDmaBuf])
                   else (0, [ScanOut, ExportDmaBuf, CloseDmaBuf]))
            in (result, [OpenDevice, SetMaster, CreateDumb, MapDumb, Draw (gradient_rows (sel_mode selection)), AddFramebuffer] @ shown @
                 [if so_previous env then Restore else Blank, RemoveFramebuffer, UnmapDumb, DestroyDumb, DropMaster,
                  CloseDevice]))"

section \<open>The inventory probe\<close>

definition fourcc_name :: "u32 \<Rightarrow> string" where
  "fourcc_name format =
     map (\<lambda>shift. char_of (unat (drop_bit shift format AND 0xff))) [0, 8, 16, 24]"

text \<open>The formats of \<^verbatim>\<open>drm_fourcc.h\<close>, as the four characters they are made of.\<close>

definition is_native_10_bit_rgb :: "u32 \<Rightarrow> bool" where
  "is_native_10_bit_rgb format \<longleftrightarrow>
     format = 0x30335258 \<or> format = 0x30335241 \<or> format = 0x30334258 \<or> format = 0x30334241"

text \<open>The planes whose handle is exported: each handle once, zero never.\<close>

fun export_planes :: "u32 list \<Rightarrow> u32 list \<Rightarrow> u32 list" where
  "export_planes [] exported = []"
| "export_planes (handle # handles) exported =
     (if handle = 0 \<or> handle \<in> set exported then export_planes handles exported
      else handle # export_planes handles (handle # exported))"

text \<open>The value of an enumerated property: the last property of the name, its first matching entry.\<close>

definition object_property_name :: "string \<Rightarrow> ((string \<times> (u64 \<times> string) list) option \<times> u64) list option \<Rightarrow> string" where
  "object_property_name wanted properties =
     (case properties of
        None \<Rightarrow> ''unknown''
      | Some ps \<Rightarrow>
          foldl (\<lambda>value (property, selected).
              case property of
                None \<Rightarrow> value
              | Some (name, enums) \<Rightarrow>
                  if name = wanted
                  then (case find (\<lambda>e. fst e = selected) enums of None \<Rightarrow> value | Some e \<Rightarrow> snd e)
                  else value)
            ''unknown'' ps)"

text \<open>The arguments after the program name: the device and whether only the inventory is wanted.\<close>

definition default_device :: string where "default_device = ''/dev/dri/card0''"

fun inventory_options :: "string list \<Rightarrow> string \<times> bool \<Rightarrow> (string \<times> bool) option" where
  "inventory_options [] r = Some r"
| "inventory_options (a # as) (device, inventory_only) =
     (if a = ''--inventory-only'' then inventory_options as (device, True)
      else if device = default_device then inventory_options as (a, inventory_only)
      else None)"

definition active_framebuffers :: "u32 option list \<Rightarrow> u32 option list \<Rightarrow> u32 list" where
  "active_framebuffers crtc_buffers plane_buffers =
     remdups (concat (map (\<lambda>b. case b of None \<Rightarrow> [] | Some fb \<Rightarrow> if fb \<noteq> 0 then [fb] else [])
       (crtc_buffers @ plane_buffers)))"

definition DRM_FORMAT_XRGB2101010 :: u32 where "DRM_FORMAT_XRGB2101010 = 0x30335258"
definition DRM_FORMAT_ARGB2101010 :: u32 where "DRM_FORMAT_ARGB2101010 = 0x30335241"
definition DRM_FORMAT_XRGB8888 :: u32 where "DRM_FORMAT_XRGB8888 = 0x34325258"

definition self_test :: int where
  "self_test =
     (if fourcc_name DRM_FORMAT_XRGB2101010 = ''XR30'' \<and> fourcc_name DRM_FORMAT_ARGB2101010 = ''AR30'' \<and>
         is_native_10_bit_rgb DRM_FORMAT_XRGB2101010 \<and> \<not> is_native_10_bit_rgb DRM_FORMAT_XRGB8888
      then 0 else 1)"

definition inventory_status :: "string list \<Rightarrow> bool \<Rightarrow> bool \<Rightarrow> u32 option list \<Rightarrow> u32 option list \<Rightarrow> int" where
  "inventory_status args opened resources crtc_buffers plane_buffers =
     (if args = [''--self-test''] then self_test
      else case inventory_options args (default_device, False) of
        None \<Rightarrow> 2
      | Some (device, inventory_only) \<Rightarrow>
          if length args > 2 then 2
          else if \<not> opened then 3
          else if \<not> resources then 4
          else if active_framebuffers crtc_buffers plane_buffers = [] \<and> \<not> inventory_only then 5
          else 0)"

section \<open>Every exit path releases what it acquired\<close>

definition released_by :: "drm_call \<Rightarrow> drm_call option" where
  "released_by c = (case c of
     OpenDevice \<Rightarrow> Some CloseDevice | SetMaster \<Rightarrow> Some DropMaster | CreateDumb \<Rightarrow> Some DestroyDumb
   | MapDumb \<Rightarrow> Some UnmapDumb | AddFramebuffer \<Rightarrow> Some RemoveFramebuffer | ExportDmaBuf \<Rightarrow> Some CloseDmaBuf
   | _ \<Rightarrow> None)"

text \<open>
  Acquired objects are released in the reverse order, the stack being empty at the end; a release of
  anything but the last acquired object is an error.
\<close>

fun nested :: "drm_call list \<Rightarrow> drm_call list \<Rightarrow> bool" where
  "nested stack [] \<longleftrightarrow> stack = []"
| "nested stack (c # cs) \<longleftrightarrow>
     (case released_by c of
        Some r \<Rightarrow> nested (r # stack) cs
      | None \<Rightarrow>
          if c \<in> {CloseDevice, DropMaster, DestroyDumb, UnmapDumb, RemoveFramebuffer, CloseDmaBuf}
          then (case stack of [] \<Rightarrow> False | s # rest \<Rightarrow> s = c \<and> nested rest cs)
          else nested stack cs)"

text \<open>No framebuffer is removed while it is scanned out.\<close>

fun shown_safely :: "bool \<Rightarrow> drm_call list \<Rightarrow> bool" where
  "shown_safely shown [] \<longleftrightarrow> \<not> shown"
| "shown_safely shown (c # cs) \<longleftrightarrow>
     (c = RemoveFramebuffer \<longrightarrow> \<not> shown) \<and>
     shown_safely (if c = ScanOut then True else if c = Restore \<or> c = Blank then False else shown) cs"


lemma self_test_passes: "self_test = 0"
  by (simp add: self_test_def fourcc_name_def is_native_10_bit_rgb_def DRM_FORMAT_XRGB2101010_def
      DRM_FORMAT_ARGB2101010_def DRM_FORMAT_XRGB8888_def drop_bit_eq_div char_of_def bit_simps)

section \<open>The gradient covers the range of each component\<close>

lemma packed_components:
  fixes r g b :: u32
  assumes "unat r < 1024" "unat g < 1024" "unat b < 1024"
  shows "(r OR push_bit 10 g OR push_bit 20 b) AND 0x3ff = r"
    "drop_bit 10 (r OR push_bit 10 g OR push_bit 20 b) AND 0x3ff = g"
    "drop_bit 20 (r OR push_bit 10 g OR push_bit 20 b) AND 0x3ff = b"
proof -
  have small: "\<not> bit x n" if "unat x < 1024" "10 \<le> n" for x :: u32 and n
  proof -
    have "take_bit 10 (unat x) = unat x" using that(1) by (simp add: take_bit_nat_eq_self)
    then have "\<not> bit (unat x) n" using that(2) by (metis bit_take_bit_iff linorder_not_less)
    then show ?thesis by (simp add: bit_unsigned_iff)
  qed
  have low: "n < 10" if "bit x n" "unat x < 1024" for x :: u32 and n
    using small [OF that(2)] that(1) by (cases "n < 10") auto
  note r = low [OF _ assms(1)] and g = low [OF _ assms(2)] and b = low [OF _ assms(3)]
  have mask: "(0x3ff :: u32) = mask 10" by (simp add: mask_eq_exp_minus_1)
  show "(r OR push_bit 10 g OR push_bit 20 b) AND 0x3ff = r"
    "drop_bit 10 (r OR push_bit 10 g OR push_bit 20 b) AND 0x3ff = g"
    "drop_bit 20 (r OR push_bit 10 g OR push_bit 20 b) AND 0x3ff = b"
    unfolding mask
    by (rule bit_word_eqI; fastforce simp: bit_simps dest: r g b)+
qed

lemma ramp:
  fixes x w :: u32
  assumes "x < w" and "w \<le> 0xffff" and "1 < w"
  shows "unat (x * 1023 div (w - 1)) = unat x * 1023 div (unat w - 1)" "unat x * 1023 div (unat w - 1) \<le> 1023"
proof -
  have b: "unat x < unat w" "unat w \<le> 65535" "1 < unat w"
    using assms by (simp_all add: word_less_nat_alt word_le_nat_alt)
  then have "unat (x * 1023) = unat x * 1023" by (simp add: unat_word_ariths)
  moreover have "unat (w - 1) = unat w - 1" using b(3) by (simp add: unat_sub word_le_nat_alt)
  ultimately show "unat (x * 1023 div (w - 1)) = unat x * 1023 div (unat w - 1)" by (simp add: unat_div)
  have "unat x * 1023 \<le> (unat w - 1) * 1023" using b(1) by simp
  then have "unat x * 1023 div (unat w - 1) \<le> (unat w - 1) * 1023 div (unat w - 1)" by (rule div_le_mono)
  then show "unat x * 1023 div (unat w - 1) \<le> 1023" using b(3) by simp
qed

text \<open>For every mode of at least two by two pixels each pixel of the gradient carries three
  components of at most 1023 in their ten bits: red grows with the column, green with the row, blue is the
  complement of red.\<close>

theorem gradient_components:
  assumes "x < w" "w \<le> 0xffff" "1 < w" "y < h" "h \<le> 0xffff" "1 < h"
  defines "p \<equiv> gradient_pixel w h x y" and "r \<equiv> unat x * 1023 div (unat w - 1)"
  shows "unat (p AND 0x3ff) = r \<and> r \<le> 1023 \<and>
    unat (drop_bit 10 p AND 0x3ff) = unat y * 1023 div (unat h - 1) \<and>
    unat (drop_bit 20 p AND 0x3ff) = 1023 - r"
proof -
  note rx = ramp [OF assms(1-3)] and ry = ramp [OF assms(4-6)]
  let ?r = "x * 1023 div (w - 1)" and ?g = "y * 1023 div (h - 1)"
  have le: "unat ?r \<le> 1023" "unat ?g \<le> 1023" using rx ry by simp_all
  then have b: "unat (1023 - ?r) = 1023 - unat ?r" by (simp add: unat_sub word_le_nat_alt)
  have p: "p = ?r OR push_bit 10 ?g OR push_bit 20 (1023 - ?r)"
    by (simp add: p_def gradient_pixel_def Let_def)
  have "unat ?r < 1024" "unat ?g < 1024" "unat (1023 - ?r) < 1024" using le b by linarith+
  from packed_components [OF this] show ?thesis
    unfolding p r_def using b rx ry by simp
qed

theorem gradient_components_witness:
  "unat (gradient_pixel 3840 2160 3839 2159 AND 0x3ff) = 1023 \<and> unat (drop_bit 20 (gradient_pixel 3840 2160 3839 2159) AND 0x3ff) = 0"
  using gradient_components [of 3839 3840 2159 2160] by simp

end
