(* ===== verification/Uhid_Probe.thy ===== *)
theory Uhid_Probe
  imports Wacom_Host C_Strings
begin

text \<open>
  \<^verbatim>\<open>probes/wacom/plank-probe-uhid.cpp\<close>: virtual HID devices are created from report descriptors and
  the kernel's feature report requests are answered from the command line. Also the bit set of
  \<^verbatim>\<open>probes/wacom/plank-probe-wacom.cpp\<close>.

  \<^verbatim>\<open>unsigned long\<close> has 64 bits, so \<^verbatim>\<open>strtoul\<close> is \<^const>\<open>strtoull\<close>. The map of replies is
  keyed by interface and report.
\<close>

section \<open>Feature replies\<close>

type_synonym feature_replies = "nat \<times> u8 \<rightharpoonup> bytes"

definition strtoul_all :: "nat \<Rightarrow> string \<Rightarrow> nat option" where
  "strtoul_all base s = (case strtoull base s of (v, rest) \<Rightarrow> if rest = s \<or> rest \<noteq> [] then None else Some v)"

text \<open>The bytes of an even number of characters, two at a time.\<close>

fun parse_bytes :: "string \<Rightarrow> bytes option" where
  "parse_bytes [] = Some []"
| "parse_bytes [a] = None"
| "parse_bytes (a # b # rest) =
     (case strtoul_all 16 [a, b] of
        None \<Rightarrow> None
      | Some v \<Rightarrow> if v > 0xff then None else map_option (\<lambda>bs. of_nat v # bs) (parse_bytes rest))"

definition not_colon :: "char \<Rightarrow> bool" where "not_colon c \<longleftrightarrow> c \<noteq> CHR '':''"

definition parse_feature_reply :: "string \<Rightarrow> feature_replies \<Rightarrow> feature_replies option" where
  "parse_feature_reply value replies =
     (case dropWhile not_colon value of
        [] \<Rightarrow> None
      | colon1 # rest \<Rightarrow>
          (case dropWhile not_colon rest of
             [] \<Rightarrow> None
           | colon2 # data_text \<Rightarrow>
               (case (strtoul_all 10 (takeWhile not_colon value), strtoul_all 16 (takeWhile not_colon rest)) of
                  (Some interface, Some report) \<Rightarrow>
                    if report > 0xff \<or> data_text = [] \<or> odd (length data_text) \<or> length data_text div 2 > UHID_DATA_MAX
                    then None
                    else (case parse_bytes data_text of
                            None \<Rightarrow> None
                          | Some bs \<Rightarrow>
                              if hd bs \<noteq> of_nat report then None
                              else Some (replies((interface, of_nat report) \<mapsto> bs)))
                | _ \<Rightarrow> None)))"

section \<open>Options\<close>

record uhid_options =
  uo_generic :: bool
  uo_accept_set_report :: bool
  uo_paths :: "string list"
  uo_replies :: feature_replies
  uo_product :: u32

definition uhid_defaults :: uhid_options where
  "uhid_defaults = \<lparr>uo_generic = False, uo_accept_set_report = False, uo_paths = [], uo_replies = Map.empty,
     uo_product = 0x0317\<rparr>"

fun uhid_parse_options :: "string list \<Rightarrow> uhid_options \<Rightarrow> uhid_options option" where
  "uhid_parse_options [] o' = Some o'"
| "uhid_parse_options (a # as) o' =
     (if a = ''--generic'' then uhid_parse_options as (o'\<lparr>uo_generic := True\<rparr>)
      else if a = ''--accept-set-report'' then uhid_parse_options as (o'\<lparr>uo_accept_set_report := True\<rparr>)
      else if a = ''--feature'' \<and> as \<noteq> []
      then (case parse_feature_reply (hd as) (uo_replies o') of
              None \<Rightarrow> None
            | Some r \<Rightarrow> uhid_parse_options (tl as) (o'\<lparr>uo_replies := r\<rparr>))
      else if a = ''--product'' \<and> as \<noteq> []
      then (case strtoul_all 16 (hd as) of
              None \<Rightarrow> None
            | Some v \<Rightarrow> if v > 0xffff then None else uhid_parse_options (tl as) (o'\<lparr>uo_product := of_nat v\<rparr>))
      else if a = ''--self-test-mouse'' \<or> take 2 a \<noteq> ''--''
      then uhid_parse_options as (o'\<lparr>uo_paths := uo_paths o' @ [a]\<rparr>)
      else None)"

definition uhid_usable :: "uhid_options \<Rightarrow> bool" where
  "uhid_usable o' \<longleftrightarrow> uo_paths o' \<noteq> [] \<and> \<not> (hd (uo_paths o') = ''--self-test-mouse'' \<and> length (uo_paths o') \<noteq> 1)"

section \<open>Devices\<close>

definition self_test_mouse :: bytes where
  "self_test_mouse =
     [0x05, 0x01, 0x09, 0x02, 0xa1, 0x01, 0x09, 0x01, 0xa1, 0x00, 0x05, 0x09, 0x19, 0x01, 0x29, 0x03, 0x15, 0x00,
      0x25, 0x01, 0x95, 0x03, 0x75, 0x01, 0x81, 0x02, 0x95, 0x01, 0x75, 0x05, 0x81, 0x01, 0x05, 0x01, 0x09, 0x30,
      0x09, 0x31, 0x15, 0x81, 0x25, 0x7f, 0x75, 0x08, 0x95, 0x02, 0x81, 0x06, 0xc0, 0xc0]"

definition ascii :: "string \<Rightarrow> bytes" where "ascii = map of_char"

text \<open>A file: whether reading it failed, and its contents.\<close>

definition usable_descriptor :: "bool \<times> bytes \<Rightarrow> bool" where
  "usable_descriptor f \<longleftrightarrow> \<not> fst f \<and> snd f \<noteq> [] \<and> length (snd f) \<le> HID_MAX_DESCRIPTOR_SIZE"

record uhid_identity =
  ui_name :: string
  ui_vendor :: u32
  ui_product :: u32

definition uhid_devices :: "(string \<Rightarrow> bool \<times> bytes) \<Rightarrow> uhid_options \<Rightarrow> (uhid_identity \<times> bytes list) option" where
  "uhid_devices files o' =
     (if hd (uo_paths o') = ''--self-test-mouse''
      then Some (\<lparr>ui_name = ''PLANK UHID Self-Test Mouse'', ui_vendor = 0x15d9, ui_product = 0x0a37\<rparr>, [self_test_mouse])
      else if list_all (\<lambda>p. usable_descriptor (files p)) (uo_paths o')
      then Some (if uo_generic o'
                 then \<lparr>ui_name = ''PLANK Generic HID Tablet'', ui_vendor = 0x1209, ui_product = 0x5343\<rparr>
                 else \<lparr>ui_name = ''PLANK Virtual Wacom Tablet'', ui_vendor = 0x056a, ui_product = uo_product o'\<rparr>,
                 map (\<lambda>p. snd (files p)) (uo_paths o'))
      else None)"

definition BUS_USB :: u16 where "BUS_USB = 3"

definition zero_filled :: "nat \<Rightarrow> bytes \<Rightarrow> bytes" where
  "zero_filled n bs = bs @ replicate (n - length bs) 0"

definition uhid_create :: "uhid_identity \<Rightarrow> bytes \<Rightarrow> uhid_event" where
  "uhid_create i descriptor = UHID_CREATE2
     \<lparr>c2_name = zero_filled 128 (ascii (ui_name i)), c2_phys = zero_filled 64 (ascii ''plank/uhid0''),
      c2_uniq = replicate 64 0, c2_rd_size = of_nat (length descriptor), c2_bus = BUS_USB, c2_vendor = ui_vendor i,
      c2_product = ui_product i, c2_version = 0x0110, c2_country = 0,
      c2_rd_data = zero_filled HID_MAX_DESCRIPTOR_SIZE descriptor\<rparr>"

section \<open>The event loop\<close>

datatype uhid_input =
    UhidStart | UhidOpen | UhidClose | UhidOutput
  | UhidGetReport u32 u8 u8 \<comment> \<open>id, report number and type\<close>
  | UhidSetReport u32 u8 u8
  | UhidOther

record uhid_run =
  ur_starts :: int
  ur_requests :: int
  ur_written :: "(nat \<times> uhid_event) list"

definition EIO :: u16 where "EIO = 5"
definition FEATURE_REPORT :: u8 where "FEATURE_REPORT = 0"

definition get_report_answer :: "uhid_options \<Rightarrow> nat \<Rightarrow> u32 \<Rightarrow> u8 \<Rightarrow> u8 \<Rightarrow> uhid_event" where
  "get_report_answer o' index id' rnum rtype =
     (case uo_replies o' (index, rnum) of
        Some bs \<Rightarrow> if rtype = FEATURE_REPORT then UHID_GET_REPORT_REPLY id' 0 (of_nat (length bs)) bs
                   else UHID_GET_REPORT_REPLY id' EIO 0 []
      | None \<Rightarrow> UHID_GET_REPORT_REPLY id' EIO 0 [])"

text \<open>One event read from the device of an interface.\<close>

fun uhid_handle :: "uhid_options \<Rightarrow> nat \<times> uhid_input \<Rightarrow> uhid_run \<Rightarrow> uhid_run" where
  "uhid_handle o' (index, UhidStart) r = r\<lparr>ur_starts := ur_starts r + 1\<rparr>"
| "uhid_handle o' (index, UhidGetReport id' rnum rtype) r =
     r\<lparr>ur_requests := ur_requests r + 1,
       ur_written := ur_written r @ [(index, get_report_answer o' index id' rnum rtype)]\<rparr>"
| "uhid_handle o' (index, UhidSetReport id' rnum rtype) r =
     r\<lparr>ur_requests := ur_requests r + 1,
       ur_written := ur_written r @ [(index, UHID_SET_REPORT_REPLY id' (if uo_accept_set_report o' then 0 else EIO))]\<rparr>"
| "uhid_handle o' _ r = r"

definition uhid_loop :: "uhid_options \<Rightarrow> (nat \<times> uhid_input) list \<Rightarrow> uhid_run" where
  "uhid_loop o' events = fold (uhid_handle o') events \<lparr>ur_starts = 0, ur_requests = 0, ur_written = []\<rparr>"

text \<open>
  The whole program: the files, which devices open and take the creation event, the events read until the
  deadline and which devices take the destroy event.
\<close>

record uhid_env =
  ue_files :: "string \<Rightarrow> bool \<times> bytes"
  ue_open :: "nat \<Rightarrow> bool"
  ue_create :: "nat \<Rightarrow> bool"
  ue_events :: "(nat \<times> uhid_input) list"
  ue_destroy :: "nat \<Rightarrow> bool"

fun create_status :: "(nat \<Rightarrow> bool) \<Rightarrow> (nat \<Rightarrow> bool) \<Rightarrow> nat list \<Rightarrow> int" where
  "create_status opens creates [] = 0"
| "create_status opens creates (i # is) =
     (if \<not> opens i then 4 else if \<not> creates i then 5 else create_status opens creates is)"

definition uhid_main :: "string list \<Rightarrow> uhid_env \<Rightarrow> int" where
  "uhid_main args env =
     (case uhid_parse_options args uhid_defaults of
        None \<Rightarrow> 2
      | Some o' \<Rightarrow>
          if \<not> uhid_usable o' then 2
          else (case uhid_devices (ue_files env) o' of
                  None \<Rightarrow> 3
                | Some (identity, descriptors) \<Rightarrow>
                    let n = length descriptors; status = create_status (ue_open env) (ue_create env) [0..<n]
                    in if status \<noteq> 0 then status
                       else if list_all (ue_destroy env) [0..<n] \<and> ur_starts (uhid_loop o' (ue_events env)) = int n
                       then 0 else 6))"

section \<open>The input bit sets of the tablet probe\<close>

definition bit_is_set :: "u64 list \<Rightarrow> nat \<Rightarrow> bool" where
  "bit_is_set bits n \<longleftrightarrow> n div 64 < length bits \<and> bits ! (n div 64) AND push_bit (n mod 64) 1 \<noteq> 0"

text \<open>The words the kernel filled, or none when the request failed.\<close>

definition get_bits :: "(nat \<Rightarrow> u64 list option) \<Rightarrow> nat \<Rightarrow> u64 list" where
  "get_bits ioctl maximum = (case ioctl (maximum div 64 + 1) of None \<Rightarrow> [] | Some ws \<Rightarrow> ws)"

definition is_wacom :: "u16 \<Rightarrow> string \<Rightarrow> bool" where
  "is_wacom vendor_id name \<longleftrightarrow> vendor_id = 0x056a \<or> strstr name ''Wacom'' \<noteq> None"

section \<open>Feature replies are read back\<close>

definition hex_digit :: "nat \<Rightarrow> char" where
  "hex_digit d = char_of (if d < 10 then 48 + d else 87 + d)"

definition hex_byte :: "u8 \<Rightarrow> string" where
  "hex_byte b = [hex_digit (unat b div 16), hex_digit (unat b mod 16)]"

lemma hex_digit_simps:
  assumes "d < 16"
  shows "digit_value (hex_digit d) = Some d" "is_digit 16 (hex_digit d)" "\<not> c_isspace (hex_digit d)"
    "hex_digit d \<noteq> CHR ''-''" "hex_digit d \<noteq> CHR ''+''" "not_colon (hex_digit d)"
proof -
  have code: "of_char (hex_digit d) = (if d < 10 then 48 + d else 87 + d)"
    using assms by (simp add: hex_digit_def)
  show v: "digit_value (hex_digit d) = Some d" using assms by (simp add: digit_value_def code)
  show "is_digit 16 (hex_digit d)" using assms by (simp add: is_digit_def v)
  show "\<not> c_isspace (hex_digit d)" using assms by (simp add: c_isspace_def code)
  have "of_char (hex_digit d) \<noteq> (45 :: nat)" "of_char (hex_digit d) \<noteq> (43 :: nat)" "of_char (hex_digit d) \<noteq> (58 :: nat)"
    using assms by (simp_all add: code)
  then show "hex_digit d \<noteq> CHR ''-''" "hex_digit d \<noteq> CHR ''+''" "not_colon (hex_digit d)"
    by (auto simp: not_colon_def)
qed

lemma strtoull_hex_digits:
  assumes "d < 16" and "e < 16"
  shows "strtoull 16 [hex_digit d, hex_digit e] = (d * 16 + e, [])"
  using assms
  by (simp add: strtoull_def choose_base_def hex_prefix_def hex_digit_simps [OF assms(1)] hex_digit_simps [OF assms(2)])

lemma strtoul_hex_byte: "strtoul_all 16 (hex_byte b) = Some (unat b)"
proof -
  have d: "unat b div 16 < 16" "unat b mod 16 < 16" using unat_bound [of b] by auto
  have "strtoull 16 (hex_byte b) = (unat b, [])"
    unfolding hex_byte_def strtoull_hex_digits [OF d] by (simp only: div_mult_mod_eq)
  moreover have "[] \<noteq> hex_byte b" by (simp add: hex_byte_def)
  ultimately show ?thesis unfolding strtoul_all_def by simp
qed

lemma parse_bytes_hex: "parse_bytes (concat (map hex_byte bs)) = Some bs"
proof (induction bs)
  case (Cons b bs)
  have "parse_bytes (hex_byte b @ rest) = map_option ((#) b) (parse_bytes rest)" for rest
    using strtoul_hex_byte [of b] unat_bound [of b] by (simp add: hex_byte_def)
  then show ?case using Cons by simp
qed simp

lemma decimal_no_colon: "list_all not_colon (decimal n)"
proof (induction n rule: decimal.induct)
  case (1 n)
  have "not_colon (digit_char d)" if "d < 10" for d
    using digit_char_code [OF that] that by (auto simp: not_colon_def)
  then show ?case using 1 by (subst decimal.simps) simp
qed

lemma hex_no_colon: "list_all not_colon (hex_byte b)"
  using unat_bound [of b] by (simp add: hex_byte_def hex_digit_simps)

lemma split_colon:
  assumes "list_all not_colon a"
  shows "takeWhile not_colon (a @ CHR '':'' # r) = a" "dropWhile not_colon (a @ CHR '':'' # r) = CHR '':'' # r"
  using assms by (induction a) (auto simp: not_colon_def)

lemma strtoul_decimal: "n < 2 ^ 64 \<Longrightarrow> strtoul_all 10 (decimal n) = Some n"
  using strtoull_decimal [of n] decimal_head [of n] by (auto simp: strtoul_all_def)

text \<open>A feature reply spelled as an interface number, a report number and its bytes in hexadecimal is
  registered for that interface and report with exactly those bytes, provided they start with the report number
  and fit a uhid event.\<close>

theorem feature_reply_round_trip:
  assumes "i < 2 ^ 64" and "bs \<noteq> []" and "length bs \<le> UHID_DATA_MAX"
  shows "parse_feature_reply (decimal i @ '':'' @ hex_byte (hd bs) @ '':'' @ concat (map hex_byte bs)) replies =
    Some (replies((i, hd bs) \<mapsto> bs))"
proof -
  define data where "data = concat (map hex_byte bs)"
  have len: "length data = 2 * length bs"
    unfolding data_def by (induction bs) (simp_all add: hex_byte_def)
  then have data: "data \<noteq> []" "even (length data)" "\<not> length data div 2 > UHID_DATA_MAX"
    using assms(2,3) by auto
  have p: "parse_bytes data = Some bs" by (simp add: data_def parse_bytes_hex)
  have r: "\<not> unat (hd bs) > 0xff" using unat_bound [of "hd bs"] by simp
  have "decimal i @ '':'' @ hex_byte (hd bs) @ '':'' @ concat (map hex_byte bs) =
      decimal i @ CHR '':'' # hex_byte (hd bs) @ CHR '':'' # data"
    by (simp add: data_def)
  then show ?thesis
    unfolding parse_feature_reply_def
    by (simp only: split_colon [OF decimal_no_colon] split_colon [OF hex_no_colon] list.case option.case prod.case
        strtoul_decimal [OF assms(1)] strtoul_hex_byte p data r if_False de_Morgan_disj simp_thms of_nat_unat_id)
qed

theorem feature_reply_round_trip_witness:
  "parse_feature_reply ''0:01:0102'' Map.empty = Some [(0, 1) \<mapsto> [1, 2]]"
  using feature_reply_round_trip [of 0 "[1, 2]" Map.empty]
  by (simp add: hex_byte_def hex_digit_def decimal.simps digit_char_def UHID_DATA_MAX_def char_of_def bit_Suc_0_iff)

section \<open>Requests are answered within the event\<close>

text \<open>A registered reply starts with its report number and fits the data array of a uhid event.\<close>

definition fitting_replies :: "feature_replies \<Rightarrow> bool" where
  "fitting_replies replies \<longleftrightarrow>
     (\<forall>i r bs. replies (i, r) = Some bs \<longrightarrow> bs \<noteq> [] \<and> hd bs = r \<and> length bs \<le> UHID_DATA_MAX)"

lemma parse_bytes_length: "parse_bytes s = Some bs \<Longrightarrow> length s = 2 * length bs"
  by (induction s arbitrary: bs rule: parse_bytes.induct) (auto split: option.splits if_splits)

lemma parse_feature_reply_fits:
  assumes "parse_feature_reply value replies = Some replies'" and "fitting_replies replies"
  shows "fitting_replies replies'"
proof -
  obtain i r bs where "replies' = replies((i, r) \<mapsto> bs)" and "bs \<noteq> []" and "hd bs = r" and "length bs \<le> UHID_DATA_MAX"
    using assms(1)
    by (fastforce simp: parse_feature_reply_def dest!: parse_bytes_length split: list.splits option.splits if_splits)
  then show ?thesis using assms(2) by (simp add: fitting_replies_def)
qed

lemma uhid_parse_options_fit:
  "uhid_parse_options args o' = Some o'' \<Longrightarrow> fitting_replies (uo_replies o') \<Longrightarrow> fitting_replies (uo_replies o'')"
proof (induction args o' rule: uhid_parse_options.induct)
  case (2 a as o')
  then show ?case by (auto simp: parse_feature_reply_fits split: if_splits option.splits)
qed simp

text \<open>The requests among the events, by device and identifier, and the request a reply answers.\<close>

fun uhid_request :: "nat \<times> uhid_input \<Rightarrow> (nat \<times> u32) option" where
  "uhid_request (index, UhidGetReport id' rnum rtype) = Some (index, id')"
| "uhid_request (index, UhidSetReport id' rnum rtype) = Some (index, id')"
| "uhid_request _ = None"

fun uhid_reply :: "nat \<times> uhid_event \<Rightarrow> (nat \<times> u32) option" where
  "uhid_reply (index, UHID_GET_REPORT_REPLY id' err sz data) = Some (index, id')"
| "uhid_reply (index, UHID_SET_REPORT_REPLY id' err) = Some (index, id')"
| "uhid_reply _ = None"

definition reply_in_bounds :: "uhid_event \<Rightarrow> bool" where
  "reply_in_bounds e = (case e of
     UHID_GET_REPORT_REPLY id' err sz data \<Rightarrow>
       unat sz = length data \<and> length data \<le> UHID_DATA_MAX \<and> (err = 0 \<longleftrightarrow> data \<noteq> [])
   | _ \<Rightarrow> True)"

lemma get_report_answer_in_bounds:
  assumes "fitting_replies (uo_replies o')"
  shows "reply_in_bounds (get_report_answer o' index id' rnum rtype)"
proof -
  have "unat (of_nat (length bs) :: u16) = length bs" if "length bs \<le> UHID_DATA_MAX" for bs :: bytes
    using that by (intro unat_of_nat_eq) (simp add: UHID_DATA_MAX_def)
  then show ?thesis
    using assms by (auto simp: reply_in_bounds_def get_report_answer_def fitting_replies_def EIO_def split: option.split)
qed

lemma get_report_answer_reply [simp]: "uhid_reply (index, get_report_answer o' index' id' rnum rtype) = Some (index, id')"
  by (simp add: get_report_answer_def split: option.split)

definition uhid_run_ok :: "(nat \<times> uhid_input) list \<Rightarrow> uhid_run \<Rightarrow> bool" where
  "uhid_run_ok events r \<longleftrightarrow>
     map uhid_reply (ur_written r) = map Some (List.map_filter uhid_request events) \<and>
     ur_requests r = int (length (ur_written r)) \<and>
     list_all (\<lambda>w. reply_in_bounds (snd w)) (ur_written r) \<and>
     ur_starts r = int (length (filter (\<lambda>e. snd e = UhidStart) events))"

lemma uhid_handle_ok:
  assumes "uhid_run_ok events r" and "fitting_replies (uo_replies o')"
  shows "uhid_run_ok (events @ [e]) (uhid_handle o' e r)"
proof (cases e)
  case (Pair index i)
  show ?thesis
    using assms get_report_answer_in_bounds [OF assms(2)]
    by (cases i) (auto simp: Pair uhid_run_ok_def List.map_filter_def reply_in_bounds_def)
qed

lemma uhid_loop_ok:
  assumes "fitting_replies (uo_replies o')"
  shows "uhid_run_ok events (uhid_loop o' events)"
proof (induction events rule: rev_induct)
  case Nil
  then show ?case by (simp add: uhid_run_ok_def uhid_loop_def List.map_filter_def)
next
  case (snoc e events)
  then show ?case using uhid_handle_ok [OF snoc assms] by (simp add: uhid_loop_def)
qed



end
