(* ===== verification/X264_Benchmark.thy ===== *)
theory X264_Benchmark
  imports C_Strings Ieee_Double Bounded_Queue
begin

text \<open>
  \<^verbatim>\<open>probes/video/plank-benchmark-x264.cpp\<close>: the command line, the layout of a frame, the reader and the
  encoder with the three input slots between them, the preloaded variant and the exit status. The encoder library is
  an argument of each step: the byte count it returns and the time stamp of its output picture.
\<close>

section \<open>Options\<close>

datatype PixelFormat = kBgr0 | kIdentity8 | kIdentity10

record x264_options =
  x_input :: string
  x_format :: PixelFormat
  x_width :: u32
  x_height :: u32
  x_frames :: u32
  x_fps :: u32
  x_bitrate_kbps :: u32
  x_vbv_kbits :: u32
  x_preload :: bool

definition x264_defaults :: x264_options where
  "x264_defaults = \<lparr>x_input = ''-'', x_format = kBgr0, x_width = 3840, x_height = 2160, x_frames = 600, x_fps = 60,
     x_bitrate_kbps = 100000, x_vbv_kbits = 2000, x_preload = False\<rparr>"

text \<open>The message of the inner exception is replaced by the handler of the same function.\<close>

definition parse_unsigned :: "string \<Rightarrow> string \<Rightarrow> nat \<Rightarrow> string + u32" where
  "parse_unsigned v name maximum =
     (case stoul v of
        None \<Rightarrow> Inl (''invalid '' @ name)
      | Some parsed \<Rightarrow> if parsed = 0 \<or> parsed > maximum then Inl (''invalid '' @ name) else Inr (of_nat parsed))"

definition x264_value_argument :: "string \<Rightarrow> string \<Rightarrow> x264_options \<Rightarrow> string + x264_options" where
  "x264_value_argument a v o' =
     (if a = ''--input'' then Inr (o'\<lparr>x_input := v\<rparr>)
      else if a = ''--format''
      then if v = ''bgr0'' then Inr (o'\<lparr>x_format := kBgr0\<rparr>)
           else if v = ''identity8'' then Inr (o'\<lparr>x_format := kIdentity8\<rparr>)
           else if v = ''identity10'' then Inr (o'\<lparr>x_format := kIdentity10\<rparr>)
           else Inl (''unsupported format: '' @ v)
      else if a = ''--width'' then map_sum id (\<lambda>n. o'\<lparr>x_width := n\<rparr>) (parse_unsigned v ''width'' 16384)
      else if a = ''--height'' then map_sum id (\<lambda>n. o'\<lparr>x_height := n\<rparr>) (parse_unsigned v ''height'' 16384)
      else if a = ''--frames'' then map_sum id (\<lambda>n. o'\<lparr>x_frames := n\<rparr>) (parse_unsigned v ''frame count'' 36000)
      else if a = ''--fps'' then map_sum id (\<lambda>n. o'\<lparr>x_fps := n\<rparr>) (parse_unsigned v ''frame rate'' 240)
      else if a = ''--bitrate-kbps''
      then map_sum id (\<lambda>n. o'\<lparr>x_bitrate_kbps := n\<rparr>) (parse_unsigned v ''bitrate'' 1000000)
      else map_sum id (\<lambda>n. o'\<lparr>x_vbv_kbits := n\<rparr>) (parse_unsigned v ''VBV size'' 1000000))"

definition x264_value_names :: "string list" where
  "x264_value_names = [''--input'', ''--format'', ''--width'', ''--height'', ''--frames'', ''--fps'', ''--bitrate-kbps'',
     ''--vbv-kbits'']"

text \<open>\<open>None\<close> is \<^verbatim>\<open>--help\<close>, which leaves with status 0.\<close>

fun parse_x264 :: "string list \<Rightarrow> x264_options \<Rightarrow> string + x264_options option" where
  "parse_x264 [] o' = Inr (Some o')"
| "parse_x264 (a # as) o' =
     (if a \<in> set x264_value_names \<and> as \<noteq> []
      then (case as of
              [] \<Rightarrow> Inr (Some o')
            | v # rest \<Rightarrow> (case x264_value_argument a v o' of Inl e \<Rightarrow> Inl e | Inr o' \<Rightarrow> parse_x264 rest o'))
      else if a = ''--preload'' then parse_x264 as (o'\<lparr>x_preload := True\<rparr>)
      else if a = ''--help'' then Inr None
      else Inl (''unknown or incomplete argument: '' @ a))"

definition x264_parse_options :: "string list \<Rightarrow> string + x264_options option" where
  "x264_parse_options args =
     (case parse_x264 args x264_defaults of
        Inl e \<Rightarrow> Inl e
      | Inr None \<Rightarrow> Inr None
      | Inr (Some o') \<Rightarrow>
          if x_preload o' \<and> x_input o' = ''-'' then Inl ''--preload requires a regular input file'' else Inr (Some o'))"

section \<open>The layout of a frame\<close>

definition checked_multiply :: "u64 \<Rightarrow> u64 \<Rightarrow> u64 option" where
  "checked_multiply left right =
     (if left \<noteq> 0 \<and> right > (- 1) div left then None else Some (left * right))"

definition bytes_per_frame :: "x264_options \<Rightarrow> u64 option" where
  "bytes_per_frame o' =
     Option.bind (checked_multiply (ucast (x_width o')) (ucast (x_height o'))) (\<lambda>pixels.
       checked_multiply pixels (case x_format o' of kBgr0 \<Rightarrow> 4 | kIdentity8 \<Rightarrow> 3 | kIdentity10 \<Rightarrow> 6))"

datatype x264_csp = CSP_BGRA | CSP_I444 | CSP_I444_HIGH_DEPTH

text \<open>The planes of a picture: offsets into the frame and strides.\<close>

record x264_picture =
  i_csp :: x264_csp
  planes :: "(u64 \<times> 32 word) list"

definition configure_picture :: "x264_options \<Rightarrow> x264_picture option" where
  "configure_picture o' =
     (if x_format o' = kBgr0 then Some \<lparr>i_csp = CSP_BGRA, planes = [(0, x_width o' * 4)]\<rparr>
      else
        let depth = (if x_format o' = kIdentity10 then 2 else 1)
        in map_option
             (\<lambda>plane_bytes.
                \<lparr>i_csp = (if x_format o' = kIdentity10 then CSP_I444_HIGH_DEPTH else CSP_I444),
                 planes = map (\<lambda>plane. (plane_bytes * plane, x_width o' * (if x_format o' = kIdentity10 then 2 else 1))) [0, 1, 2]\<rparr>)
             (Option.bind (checked_multiply (ucast (x_width o')) (ucast (x_height o'))) (\<lambda>pixels. checked_multiply pixels depth)))"

section \<open>Statistics\<close>

definition percentile_lower :: "nat \<Rightarrow> rat \<Rightarrow> nat" where
  "percentile_lower n fraction = nat \<lfloor>dbl_mul fraction (rnd64 (of_nat (n - 1)))\<rfloor>"

definition percentile_upper :: "nat \<Rightarrow> rat \<Rightarrow> nat" where
  "percentile_upper n fraction = nat \<lceil>dbl_mul fraction (rnd64 (of_nat (n - 1)))\<rceil>"

definition blended_percentile :: "rat list \<Rightarrow> rat \<Rightarrow> rat" where
  "blended_percentile samples fraction =
     (if samples = [] then 0
      else
        let position = dbl_mul fraction (rnd64 (of_nat (length samples - 1)));
            low = samples ! percentile_lower (length samples) fraction;
            blend = rnd64 (position - rnd64 (of_nat (percentile_lower (length samples) fraction)))
        in rnd64 (low + dbl_mul (rnd64 (samples ! percentile_upper (length samples) fraction - low)) blend))"

text \<open>The first frames up to one second are left out of the steady samples, never all of them.\<close>

definition steady_start :: "x264_options \<Rightarrow> 'a list \<Rightarrow> nat" where
  "steady_start o' encode_us = min (unat (x_fps o')) (if length encode_us > 1 then length encode_us - 1 else 0)"

section \<open>Reading\<close>

datatype read_result = Interrupted | ReadError | Received nat

text \<open>\<^verbatim>\<open>read_exact\<close> with the results of its calls: what arrived, what is left of the input, and success.\<close>

fun read_exact :: "read_result list \<Rightarrow> nat \<Rightarrow> bytes \<Rightarrow> bytes \<Rightarrow> (bool \<times> bytes \<times> bytes) option" where
  "read_exact rs n got src =
     (if length got \<ge> n then Some (True, got, src)
      else (case rs of
              [] \<Rightarrow> None
            | Interrupted # rs \<Rightarrow> read_exact rs n got src
            | ReadError # rs \<Rightarrow> Some (False, got, src)
            | Received k # rs \<Rightarrow>
                (let data = take (min k (n - length got)) src
                 in if data = [] then Some (False, got, src)
                    else read_exact rs n (got @ data) (drop (length data) src))))"

declare read_exact.simps [simp del]

section \<open>Accepted options and their layout\<close>

lemma checked_multiply_Some:
  "checked_multiply a b = Some p \<longleftrightarrow> unat a * unat b < 2 ^ 64 \<and> p = a * b"
proof (cases "a = 0")
  case True
  then show ?thesis by (auto simp: checked_multiply_def)
next
  case False
  then have a: "0 < unat a" by (simp add: unat_gt_0)
  have "b > (- 1) div a \<longleftrightarrow> \<not> unat b \<le> (2 ^ 64 - 1) div unat a"
    by (simp add: word_less_nat_alt unat_div unsigned_minus_1_eq_mask mask_eq_exp_minus_1 not_le)
  also have "unat b \<le> (2 ^ 64 - 1) div unat a \<longleftrightarrow> unat a * unat b \<le> 2 ^ 64 - 1"
    using a by (simp only: less_eq_div_iff_mult_less_eq mult.commute)
  finally show ?thesis using False by (auto simp: checked_multiply_def)
qed

definition x264_ok :: "x264_options \<Rightarrow> bool" where
  "x264_ok o' \<longleftrightarrow> 0 < unat (x_width o') \<and> unat (x_width o') \<le> 16384 \<and> 0 < unat (x_height o') \<and> unat (x_height o') \<le> 16384 \<and>
     0 < unat (x_frames o') \<and> unat (x_frames o') \<le> 36000 \<and> 0 < unat (x_fps o') \<and> unat (x_fps o') \<le> 240 \<and>
     0 < unat (x_bitrate_kbps o') \<and> unat (x_bitrate_kbps o') \<le> 1000000 \<and>
     0 < unat (x_vbv_kbits o') \<and> unat (x_vbv_kbits o') \<le> 1000000"

lemma parse_unsigned_bounds:
  "parse_unsigned v name maximum = Inr n \<Longrightarrow> maximum < 2 ^ 32 \<Longrightarrow> 0 < unat n \<and> unat n \<le> maximum"
  by (auto simp: parse_unsigned_def unat_of_nat_eq split: option.splits if_splits)

definition accepted_ok :: "string + x264_options \<Rightarrow> bool" where
  "accepted_ok r \<longleftrightarrow> (case r of Inl e \<Rightarrow> True | Inr o' \<Rightarrow> x264_ok o')"

lemma accepted_okI:
  "accepted_ok (Inl e)" "x264_ok o' \<Longrightarrow> accepted_ok (Inr o')"
  "accepted_ok r \<Longrightarrow> accepted_ok r' \<Longrightarrow> accepted_ok (if c then r else r')"
  "maximum < 2 ^ 32 \<Longrightarrow> (\<And>n. 0 < unat n \<Longrightarrow> unat n \<le> maximum \<Longrightarrow> x264_ok (f n)) \<Longrightarrow>
     accepted_ok (map_sum id f (parse_unsigned v name maximum))"
proof -
  show "accepted_ok (map_sum id f (parse_unsigned v name maximum))"
    if "maximum < 2 ^ 32" "\<And>n. 0 < unat n \<Longrightarrow> unat n \<le> maximum \<Longrightarrow> x264_ok (f n)"
    using parse_unsigned_bounds [of v name maximum] that
    by (cases "parse_unsigned v name maximum") (simp_all add: accepted_ok_def)
qed (simp_all add: accepted_ok_def)

lemma x264_value_ok: "x264_ok o' \<Longrightarrow> accepted_ok (x264_value_argument a v o')"
  unfolding x264_value_argument_def by (intro accepted_okI) (simp_all add: x264_ok_def)

lemma parse_x264_ok: "parse_x264 args o' = Inr (Some o'') \<Longrightarrow> x264_ok o' \<Longrightarrow> x264_ok o''"
proof (induction args o' rule: parse_x264.induct)
  case (2 a as o')
  show ?case
  proof (cases "a \<in> set x264_value_names \<and> as \<noteq> []")
    case True
    then obtain v rest where as: "as = v # rest" by (cases as) auto
    then obtain o1 where "x264_value_argument a v o' = Inr o1" "parse_x264 rest o1 = Inr (Some o'')"
      using True 2(3) by (auto split: sum.splits)
    then show ?thesis using 2(1) [OF True as] x264_value_ok [OF 2(4), of a v] by (simp add: accepted_ok_def)
  next
    case False
    then show ?thesis using 2(2) [OF False] 2(3,4) by (auto simp: x264_ok_def split: if_split_asm)
  qed
qed simp

lemma x264_options_ok: "x264_parse_options args = Inr (Some o') \<Longrightarrow> x264_ok o'"
  by (auto simp: x264_parse_options_def x264_defaults_def x264_ok_def split: sum.splits option.splits if_split_asm
      dest!: parse_x264_ok)

definition pixel_bytes :: "x264_options \<Rightarrow> nat" where
  "pixel_bytes o' = (case x_format o' of kBgr0 \<Rightarrow> 4 | kIdentity8 \<Rightarrow> 1 | kIdentity10 \<Rightarrow> 2)"

lemma frame_pixels:
  assumes "x264_ok o'"
  shows "checked_multiply (ucast (x_width o')) (ucast (x_height o')) = Some (ucast (x_width o') * ucast (x_height o'))"
    "unat (ucast (x_width o') * ucast (x_height o') :: u64) = unat (x_width o') * unat (x_height o')"
    "unat (x_width o') * unat (x_height o') \<le> 16384 * 16384"
proof -
  show le: "unat (x_width o') * unat (x_height o') \<le> 16384 * 16384"
    using assms by (intro mult_le_mono) (simp_all add: x264_ok_def)
  then have lt: "unat (x_width o') * unat (x_height o') < 2 ^ 64" by simp
  then show "checked_multiply (ucast (x_width o')) (ucast (x_height o')) = Some (ucast (x_width o') * ucast (x_height o'))"
    by (simp add: checked_multiply_Some unat_ucast_up)
  show "unat (ucast (x_width o') * ucast (x_height o') :: u64) = unat (x_width o') * unat (x_height o')"
    using lt by (simp add: unat_word_ariths unat_ucast_up)
qed

lemma scaled_pixels:
  assumes "x264_ok o'" and "unat k \<le> 6"
  shows "checked_multiply (ucast (x_width o') * ucast (x_height o')) k = Some (ucast (x_width o') * ucast (x_height o') * k)"
    "unat (ucast (x_width o') * ucast (x_height o') * k :: u64) = unat (x_width o') * unat (x_height o') * unat k"
proof -
  note p = frame_pixels [OF assms(1)]
  have "unat (x_width o') * unat (x_height o') * unat k \<le> 16384 * 16384 * 6"
    by (rule mult_le_mono [OF p(3) assms(2)])
  then have lt: "unat (x_width o') * unat (x_height o') * unat k < 2 ^ 64" by simp
  then show "checked_multiply (ucast (x_width o') * ucast (x_height o')) k = Some (ucast (x_width o') * ucast (x_height o') * k)"
    by (simp add: checked_multiply_Some p(2))
  show "unat (ucast (x_width o') * ucast (x_height o') * k :: u64) = unat (x_width o') * unat (x_height o') * unat k"
    using lt by (simp only: p(2) [symmetric] unat_mult_lem [symmetric]) (simp add: unat_word_ariths)
qed

text \<open>A small unsigned number keeps its value as an \<^verbatim>\<open>int\<close>.\<close>

lemma small_sint:
  fixes w :: u32
  assumes "unat w < 2 ^ 31"
  shows "sint w = int (unat w)"
proof -
  have u: "int (unat w) = uint w" by simp
  have "int (unat w) < int (2 ^ 31)" using assms by (simp only: of_nat_less_iff)
  then have "uint w < 2 ^ 31" unfolding u by simp
  then have "signed_take_bit 31 (uint w) = uint w" by (intro signed_take_bit_int_eq_self) (use u in linarith)+
  then show ?thesis unfolding u by (simp add: sint_uint)
qed

lemma stride_value:
  assumes "x264_ok o'" and "unat k \<le> 4"
  shows "sint (x_width o' * k) = int (unat (x_width o') * unat k)"
proof -
  have "unat (x_width o') * unat k \<le> 16384 * 4" using assms by (intro mult_le_mono) (simp_all add: x264_ok_def)
  then have "unat (x_width o' * k) = unat (x_width o') * unat k" "unat (x_width o') * unat k < 2 ^ 31"
    by (simp_all add: unat_word_ariths)
  then show ?thesis using small_sint by metis
qed

text \<open>
  C32. For every accepted command line the planes the picture points at tile the frame: each starts where the one before
  ends, its stride is a positive \<^verbatim>\<open>int\<close>, and the last ends at the frame's byte count, which never overflows.
\<close>

theorem x264_planes_tile:
  assumes "x264_parse_options args = Inr (Some o')"
  shows "\<exists>n pic. bytes_per_frame o' = Some n \<and> configure_picture o' = Some pic \<and>
    (\<forall>i < length (planes pic).
       sint (snd (planes pic ! i)) = int (unat (x_width o') * pixel_bytes o') \<and>
       unat (fst (planes pic ! i)) = i * (unat (x_width o') * pixel_bytes o' * unat (x_height o'))) \<and>
    unat n = length (planes pic) * (unat (x_width o') * pixel_bytes o' * unat (x_height o')) \<and> 0 < unat n \<and> unat n < 2 ^ 31"
proof -
  have ok: "x264_ok o'" using x264_options_ok [OF assms] .
  note p = frame_pixels [OF ok] and s = scaled_pixels [OF ok] and t = stride_value [OF ok]
  let ?w = "unat (x_width o')" and ?h = "unat (x_height o')" and ?px = "ucast (x_width o') * ucast (x_height o') :: u64"
  have pos: "0 < ?w * ?h" using ok by (simp add: x264_ok_def)
  have le: "?w * ?h \<le> 268435456" "?h * ?w \<le> 268435456" using p(3) by (simp_all add: mult.commute)
  show ?thesis
  proof (cases "x_format o'")
    case kBgr0
    then show ?thesis
      using p(1) s [of 4] t [of 4] pos le by (simp add: bytes_per_frame_def configure_picture_def pixel_bytes_def mult.assoc)
  next
    case kIdentity8
    have "checked_multiply ?px 3 = Some (?px * 3)" "unat (?px * 3) = ?w * ?h * 3" "checked_multiply ?px 1 = Some ?px"
      "unat (?px * 2) = ?w * ?h * 2"
      using s [of 3] s [of 1] s [of 2] by simp_all
    then show ?thesis
      using kIdentity8 p t [of 1] pos le
      by (simp add: bytes_per_frame_def configure_picture_def pixel_bytes_def Let_def All_less_Suc mult.commute)
  next
    case kIdentity10
    have "checked_multiply ?px 6 = Some (?px * 6)" "unat (?px * 6) = ?w * ?h * 6" "checked_multiply ?px 2 = Some (?px * 2)"
      "unat (?px * 2) = ?w * ?h * 2" "unat (?px * 2 * 2) = ?w * ?h * 4"
      using s [of 6] s [of 2] s [of 4] by (simp_all add: mult.assoc)
    then show ?thesis
      using kIdentity10 p t [of 2] pos le
      by (simp add: bytes_per_frame_def configure_picture_def pixel_bytes_def Let_def All_less_Suc mult.commute mult.left_commute)
  qed
qed

theorem x264_planes_tile_witness:
  "\<exists>n. x264_parse_options [''--format'', ''identity10''] = Inr (Some (x264_defaults\<lparr>x_format := kIdentity10\<rparr>)) \<and>
     bytes_per_frame (x264_defaults\<lparr>x_format := kIdentity10\<rparr>) = Some n \<and> 0 < unat n \<and> unat n < 2 ^ 31"
proof -
  have a: "x264_parse_options [''--format'', ''identity10''] = Inr (Some (x264_defaults\<lparr>x_format := kIdentity10\<rparr>))"
    by (simp add: x264_parse_options_def x264_value_names_def x264_value_argument_def x264_defaults_def)
  then show ?thesis using x264_planes_tile [OF a] by blast
qed

section \<open>Reading and ranks\<close>

text \<open>However the input arrives, a frame is the next bytes of the input.\<close>

lemma take_then_take:
  assumes "k \<le> m"
  shows "take k xs @ take (m - length (take k xs)) (drop (length (take k xs)) xs) = take m xs \<and>
    drop (m - length (take k xs)) (drop (length (take k xs)) xs) = drop m xs"
proof (cases "length xs \<le> k")
  case True
  then show ?thesis using assms by simp
next
  case False
  then have "length (take k xs) = k" by simp
  then show ?thesis using assms take_add [of k "m - k" xs] by simp
qed

lemma read_exact_frame:
  "read_exact rs n got src = Some (True, got', src') \<Longrightarrow> length got \<le> n \<Longrightarrow>
     length got' = n \<and> got' = got @ take (n - length got) src \<and> src' = drop (n - length got) src"
proof (induction rs n got src rule: read_exact.induct)
  case (1 rs n got src)
  show ?case
  proof (cases "length got \<ge> n")
    case True
    then show ?thesis using 1(3,4) by (simp add: read_exact.simps)
  next
    case False
    then obtain r rest where rs: "rs = r # rest" using 1(3) by (cases rs) (simp_all add: read_exact.simps)
    note u = 1(3) [unfolded rs read_exact.simps [of "r # rest" n got src]]
    show ?thesis
    proof (cases r)
      case Interrupted
      then have "read_exact rest n got src = Some (True, got', src')" using u False by simp
      then show ?thesis by (rule 1(1) [OF False rs Interrupted _ 1(4)])
    next
      case ReadError
      then show ?thesis using u False by simp
    next
      case (Received k)
      let ?d = "take (min k (n - length got)) src"
      have d: "?d \<noteq> []" and r: "read_exact rest n (got @ ?d) (drop (length ?d) src) = Some (True, got', src')"
        using u False Received by (auto simp: Let_def split: if_splits)
      have len: "length (got @ ?d) \<le> n" using False by simp
      have m: "min k (n - length got) \<le> n - length got" by simp
      have e: "n - length (got @ ?d) = n - length got - length ?d" by simp
      show ?thesis
        using 1(2) [OF False rs Received refl d r len] take_then_take [OF m, of src] unfolding e append_assoc by (elim conjE) (simp only: simp_thms)
    qed
  qed
qed

text \<open>Both ranks of the interpolated percentile are inside the samples.\<close>

lemma blended_ranks:
  assumes "0 < n" and "n \<le> 2 ^ 53" and "0 \<le> fraction" and "fraction \<le> 1"
  shows "percentile_lower n fraction \<le> percentile_upper n fraction" "percentile_upper n fraction < n"
proof -
  let ?x = "dbl_mul fraction (rnd64 (of_nat (n - 1)))"
  have e: "rnd64 (of_nat (n - 1)) = of_nat (n - 1)" using assms(2) by (intro rnd64_nat) simp
  have "fraction * of_nat (n - 1) \<le> of_nat (n - 1)" using mult_right_mono [OF assms(4), of "of_nat (n - 1)"] by simp
  then have "?x \<le> of_nat (n - 1)" using rnd64_le [of "fraction * of_nat (n - 1)" "of_nat (n - 1)"] e by (simp add: dbl_mul_def)
  then have "\<lceil>?x\<rceil> \<le> int (n - 1)" by (simp add: ceiling_le_iff)
  then show "percentile_upper n fraction < n" using assms(1) by (simp add: percentile_upper_def)
  show "percentile_lower n fraction \<le> percentile_upper n fraction"
    unfolding percentile_lower_def percentile_upper_def by (intro nat_mono) (metis floor_le_ceiling)
qed

lemma steady_not_empty: "encode_us \<noteq> [] \<Longrightarrow> drop (steady_start o' encode_us) encode_us \<noteq> []"
  by (cases encode_us) (auto simp: steady_start_def)

end
