(* ===== verification/X264_Run.thy ===== *)
theory X264_Run
  imports X264_Benchmark
begin

text \<open>
  The reader and the encoder of \<^verbatim>\<open>probes/video/plank-benchmark-x264.cpp\<close> with the three input slots between
  them, the preloaded run, the flush and the exit status. A phase carries the thread's loop index. \<open>n\<close> is the byte
  count of a frame. Times are nanoseconds.
\<close>

section \<open>State\<close>

datatype reader_phase = RIdle nat | RReading nat | RRead nat | REnded nat
datatype encoder_phase = EIdle nat | EEncode nat | ERelease nat | EFailed nat | EAborting nat | EJoining nat | EDone nat | EThrown nat

record x264_counts =
  encode_ns :: "int list"
  output_bytes :: nat
  output_frames :: nat
  delayed_calls :: nat

record x264_state =
  x_source :: bytes
  input_slots :: "bytes list"
  slot_ready :: "bool list"
  stop_reader :: bool
  reader_error :: bool
  read_ns :: "int list"
  x_counts :: x264_counts
  x_reader :: reader_phase
  x_encoder :: encoder_phase

section \<open>Encoding a frame\<close>

text \<open>The library's answer: byte count, output time stamp, duration.\<close>

definition encode_one :: "nat \<Rightarrow> int \<times> int \<times> int \<Rightarrow> x264_counts \<Rightarrow> bool \<times> x264_counts" where
  "encode_one index answer k =
     (case answer of (bytes, pts, duration) \<Rightarrow>
        if bytes < 0 then (False, k)
        else
          let k = k\<lparr>encode_ns := encode_ns k @ [duration], output_bytes := output_bytes k + nat bytes\<rparr>
          in if bytes = 0 then (True, k\<lparr>delayed_calls := delayed_calls k + 1\<rparr>)
             else (pts = int index, k\<lparr>output_frames := output_frames k + 1\<rparr>))"

text \<open>The delayed frames at the end, with the byte count of each.\<close>

fun flush_delayed :: "int list \<Rightarrow> x264_counts \<Rightarrow> bool \<times> x264_counts" where
  "flush_delayed [] k = (True, k)"
| "flush_delayed (bytes # rest) k =
     (if bytes < 0 then (False, k)
      else flush_delayed rest (k\<lparr>output_bytes := output_bytes k + nat bytes,
             output_frames := output_frames k + (if bytes > 0 then 1 else 0)\<rparr>))"

definition x264_status :: "x264_options \<Rightarrow> x264_counts \<Rightarrow> int" where
  "x264_status o' k = (if output_frames k = unat (x_frames o') \<and> delayed_calls k = 0 then 0 else 2)"

section \<open>The two threads\<close>

inductive x264_step ::
    "nat \<Rightarrow> nat \<Rightarrow> x264_state \<Rightarrow> (nat, bytes) queue_event \<Rightarrow> x264_state \<Rightarrow> bool"
  for frames n where
  reader_go: "x_reader c = RIdle i \<Longrightarrow> i < frames \<Longrightarrow> stop_reader c \<or> \<not> slot_ready c ! (i mod 3) \<Longrightarrow>
    x264_step frames n c Silent (c\<lparr>x_reader := if stop_reader c then REnded i else RReading i\<rparr>)"
| reader_finished: "x_reader c = RIdle i \<Longrightarrow> \<not> i < frames \<Longrightarrow> x264_step frames n c Silent (c\<lparr>x_reader := REnded i\<rparr>)"
| reader_read: "x_reader c = RReading i \<Longrightarrow> read_exact rs n [] (x_source c) = Some (True, got, src) \<Longrightarrow>
    x264_step frames n c Silent
      (c\<lparr>x_source := src, input_slots := (input_slots c)[i mod 3 := got], read_ns := (read_ns c)[i := duration], x_reader := RRead i\<rparr>)"
| reader_failed: "x_reader c = RReading i \<Longrightarrow> read_exact rs n [] (x_source c) = Some (False, got, src) \<Longrightarrow>
    x264_step frames n c Silent
      (c\<lparr>x_source := src,
         input_slots := (input_slots c)[i mod 3 := got @ drop (length got) (input_slots c ! (i mod 3))],
         reader_error := True, x_reader := REnded i\<rparr>)"
| reader_publish: "x_reader c = RRead i \<Longrightarrow>
    x264_step frames n c (Published (input_slots c ! (i mod 3)))
      (c\<lparr>slot_ready := (slot_ready c)[i mod 3 := True], x_reader := RIdle (Suc i)\<rparr>)"
| encoder_go: "x_encoder c = EIdle i \<Longrightarrow> i < frames \<Longrightarrow> slot_ready c ! (i mod 3) \<or> reader_error c \<Longrightarrow>
    x264_step frames n c Silent (c\<lparr>x_encoder := if reader_error c then EFailed i else EEncode i\<rparr>)"
| encoder_encode: "x_encoder c = EEncode i \<Longrightarrow> encode_one i answer (x_counts c) = (ok, k) \<Longrightarrow>
    x264_step frames n c (Taken (input_slots c ! (i mod 3)))
      (c\<lparr>x_counts := k, x_encoder := if ok then ERelease i else EFailed (Suc i)\<rparr>)"
| encoder_release: "x_encoder c = ERelease i \<Longrightarrow>
    x264_step frames n c Silent (c\<lparr>slot_ready := (slot_ready c)[i mod 3 := False], x_encoder := EIdle (Suc i)\<rparr>)"
| encoder_finished: "x_encoder c = EIdle i \<Longrightarrow> \<not> i < frames \<Longrightarrow> x264_step frames n c Silent (c\<lparr>x_encoder := EJoining i\<rparr>)"
| encoder_join: "x_encoder c = EJoining i \<Longrightarrow> x_reader c = REnded j \<Longrightarrow> x264_step frames n c Silent (c\<lparr>x_encoder := EDone i\<rparr>)"
| encoder_abort: "x_encoder c = EFailed i \<Longrightarrow>
    x264_step frames n c Silent (c\<lparr>stop_reader := True, x_encoder := EAborting i\<rparr>)"
| encoder_abort_join: "x_encoder c = EAborting i \<Longrightarrow> x_reader c = REnded j \<Longrightarrow>
    x264_step frames n c Silent (c\<lparr>x_encoder := EThrown i\<rparr>)"

definition blank_counts :: x264_counts where
  "blank_counts = \<lparr>encode_ns = [], output_bytes = 0, output_frames = 0, delayed_calls = 0\<rparr>"

definition x264_start :: "nat \<Rightarrow> nat \<Rightarrow> bytes \<Rightarrow> x264_state" where
  "x264_start frames n src =
     \<lparr>x_source = src, input_slots = replicate 3 (replicate n 0), slot_ready = [False, False, False], stop_reader = False,
      reader_error = False, read_ns = replicate frames 0, x_counts = blank_counts, x_reader = RIdle 0, x_encoder = EIdle 0\<rparr>"

section \<open>The preloaded run\<close>

text \<open>\<^verbatim>\<open>--preload\<close> reads all frames first; the calls of each frame's reads are given.\<close>

fun preload_frames :: "read_result list list \<Rightarrow> nat \<Rightarrow> bytes \<Rightarrow> bytes list option" where
  "preload_frames [] n src = Some []"
| "preload_frames (rs # rss) n src =
     (case read_exact rs n [] src of
        Some (True, got, src) \<Rightarrow> map_option (\<lambda>fs. got # fs) (preload_frames rss n src)
      | _ \<Rightarrow> None)"

fun encode_preloaded :: "nat \<Rightarrow> bytes list \<Rightarrow> (int \<times> int \<times> int) list \<Rightarrow> x264_counts \<Rightarrow> bool \<times> bytes list \<times> x264_counts" where
  "encode_preloaded index (frame # frames) (answer # answers) k =
     (case encode_one index answer k of
        (False, k) \<Rightarrow> (False, [frame], k)
      | (True, k) \<Rightarrow>
          (case encode_preloaded (Suc index) frames answers k of (r, given, k) \<Rightarrow> (r, frame # given, k)))"
| "encode_preloaded index frames answers k = (True, [], k)"

section \<open>The slots\<close>

fun read_count :: "reader_phase \<Rightarrow> nat" where
  "read_count (RIdle i) = i" | "read_count (RReading i) = i" | "read_count (RRead i) = i" | "read_count (REnded i) = i"

fun taken_count :: "encoder_phase \<Rightarrow> nat" where
  "taken_count (EIdle i) = i" | "taken_count (EEncode i) = i" | "taken_count (ERelease i) = Suc i"
| "taken_count (EFailed i) = i" | "taken_count (EAborting i) = i" | "taken_count (EJoining i) = i"
| "taken_count (EDone i) = i" | "taken_count (EThrown i) = i"

text \<open>How many slots the encoder has given back.\<close>

fun released_ok :: "encoder_phase \<Rightarrow> nat \<Rightarrow> bool" where
  "released_ok (EIdle i) e = (e = i)" | "released_ok (EEncode i) e = (e = i)" | "released_ok (ERelease i) e = (e = i)"
| "released_ok (EJoining i) e = (e = i)" | "released_ok (EDone i) e = (e = i)"
| "released_ok (EFailed i) e = (e = i \<or> Suc e = i)" | "released_ok (EAborting i) e = (e = i \<or> Suc e = i)"
| "released_ok (EThrown i) e = (e = i \<or> Suc e = i)"

definition slots_ok :: "nat \<Rightarrow> nat \<Rightarrow> bool list \<Rightarrow> bool" where
  "slots_ok e r ready \<longleftrightarrow> length ready = 3 \<and> e \<le> r \<and> r \<le> e + 3 \<and>
     (\<forall>j < 3. ready ! j \<longleftrightarrow> (\<exists>i. e \<le> i \<and> i < r \<and> i mod 3 = j))"

definition x264_inv :: "x264_state \<Rightarrow> bool" where
  "x264_inv c \<longleftrightarrow> length (input_slots c) = 3 \<and>
     (\<exists>e. released_ok (x_encoder c) e \<and> slots_ok e (read_count (x_reader c)) (slot_ready c)) \<and>
     taken_count (x_encoder c) \<le> read_count (x_reader c) \<and>
     (\<forall>i. x_reader c = RReading i \<or> x_reader c = RRead i \<longrightarrow> \<not> slot_ready c ! (i mod 3)) \<and>
     (\<forall>i. x_encoder c = EEncode i \<longrightarrow> i < read_count (x_reader c))"

definition held_frames :: "x264_state \<Rightarrow> bytes list" where
  "held_frames c = map (\<lambda>i. input_slots c ! (i mod 3)) [taken_count (x_encoder c)..<read_count (x_reader c)]"

lemma released_taken: "released_ok p e \<Longrightarrow> e \<le> taken_count p \<and> taken_count p \<le> Suc e"
  by (cases p) auto

lemma slots_room:
  assumes "slots_ok e r ready" and "\<not> ready ! (r mod 3)"
  shows "r < e + 3"
proof (rule ccontr)
  assume "\<not> r < e + 3"
  then have r: "r = e + 3" using assms(1) by (simp add: slots_ok_def)
  then have "e mod 3 = r mod 3" by simp
  moreover have "r mod 3 < 3" by simp
  ultimately show False using assms r unfolding slots_ok_def by (metis le_refl less_add_same_cancel1 zero_less_numeral)
qed

lemma mod3_differ: "(i :: nat) < r \<Longrightarrow> r < i + 3 \<Longrightarrow> i mod 3 \<noteq> r mod 3"
  by presburger

lemma slots_publish:
  assumes "slots_ok e r ready" and "\<not> ready ! (r mod 3)"
  shows "slots_ok e (Suc r) (ready[r mod 3 := True])"
proof -
  have "r < e + 3" using slots_room [OF assms] .
  moreover have "ready[r mod 3 := True] ! j \<longleftrightarrow> (\<exists>i. e \<le> i \<and> i < Suc r \<and> i mod 3 = j)" if "j < 3" for j
  proof (cases "j = r mod 3")
    case True
    then show ?thesis using assms(1) that by (auto simp: slots_ok_def)
  next
    case False
    then show ?thesis using assms(1) that by (auto simp: slots_ok_def less_Suc_eq)
  qed
  ultimately show ?thesis using assms(1) by (simp add: slots_ok_def)
qed

lemma slots_release:
  assumes "slots_ok e r ready" and "e < r"
  shows "slots_ok (Suc e) r (ready[e mod 3 := False])"
proof -
  have "ready[e mod 3 := False] ! j \<longleftrightarrow> (\<exists>i. Suc e \<le> i \<and> i < r \<and> i mod 3 = j)" if "j < 3" for j
  proof (cases "j = e mod 3")
    case True
    have "\<not> (\<exists>i. Suc e \<le> i \<and> i < r \<and> i mod 3 = e mod 3)"
    proof safe
      fix i assume i: "Suc e \<le> i" "i < r" "i mod 3 = e mod 3"
      then have "e < i" "i < e + 3" using assms(1) by (simp_all add: slots_ok_def)
      then show False using mod3_differ [of e i] i(3) by simp
    qed
    then show ?thesis using True assms(1) that by (simp add: slots_ok_def)
  next
    case False
    then have "(\<exists>i. e \<le> i \<and> i < r \<and> i mod 3 = j) = (\<exists>i. Suc e \<le> i \<and> i < r \<and> i mod 3 = j)"
      by (metis Suc_leD Suc_leI le_neq_implies_less)
    then show ?thesis using False assms(1) that by (simp add: slots_ok_def)
  qed
  then show ?thesis using assms by (simp add: slots_ok_def)
qed

lemma x264_inv_start: "x264_inv (x264_start frames n src)"
proof -
  have "\<forall>j < 3. \<not> [False, False, False] ! j" by (simp add: numeral_3_eq_3 All_less_Suc)
  then have "slots_ok 0 0 [False, False, False]" by (simp add: slots_ok_def)
  then show ?thesis by (simp add: x264_inv_def x264_start_def)
qed

lemma x264_inv_step:
  assumes inv: "x264_inv c" and step: "x264_step frames n c e c'"
  shows "x264_inv c'"
  using step
proof cases
  case (reader_publish i)
  obtain m where m: "released_ok (x_encoder c) m" "slots_ok m i (slot_ready c)" using inv reader_publish(3) by (auto simp: x264_inv_def)
  have "\<not> slot_ready c ! (i mod 3)" using inv reader_publish(3) by (simp add: x264_inv_def)
  from slots_publish [OF m(2) this] m(1) show ?thesis using reader_publish inv by (auto simp: x264_inv_def)
next
  case (encoder_release i)
  have m: "slots_ok i (read_count (x_reader c)) (slot_ready c)" "i < read_count (x_reader c)"
    using inv encoder_release(3) by (auto simp: x264_inv_def)
  have free: "\<not> (slot_ready c)[i mod 3 := False] ! (j mod 3)" if "\<not> slot_ready c ! (j mod 3)" for j
    using that m(1) by (cases "j mod 3 = i mod 3") (simp_all add: slots_ok_def)
  show ?thesis using slots_release [OF m] encoder_release inv free by (auto simp: x264_inv_def)
next
  case (encoder_encode i answer ok k)
  then show ?thesis using inv by (cases ok) (auto simp: x264_inv_def)
next
  case (encoder_go i)
  then show ?thesis
    using inv by (cases "reader_error c") (auto simp: x264_inv_def slots_ok_def)
qed (use inv in \<open>auto simp: x264_inv_def\<close>)

section \<open>Frames reach the encoder in order\<close>

lemma upt_head: "a < b \<Longrightarrow> [a..<b] = a # [Suc a..<b]"
  by (rule upt_conv_Cons)

lemma x264_held_step:
  assumes inv: "x264_inv c" and step: "x264_step frames n c e c'"
  shows "queue_step 3 (held_frames c) e (held_frames c')"
proof -
  let ?t = "taken_count (x_encoder c)" and ?r = "read_count (x_reader c)"
  obtain m where m: "released_ok (x_encoder c) m" "slots_ok m ?r (slot_ready c)" using inv by (auto simp: x264_inv_def)
  have t: "m \<le> ?t" "?t \<le> ?r" using released_taken [OF m(1)] inv by (simp_all add: x264_inv_def)
  have other: "map (\<lambda>i. (input_slots c)[?r mod 3 := x] ! (i mod 3)) [?t..<?r] = held_frames c"
    if "\<not> slot_ready c ! (?r mod 3)" for x
  proof -
    have "?r < m + 3" using slots_room [OF m(2) that] .
    then have "?r mod 3 \<noteq> i mod 3" if "i \<in> set [?t..<?r]" for i using mod3_differ [of i ?r] t that by simp
    then show ?thesis unfolding held_frames_def by (intro map_cong) simp_all
  qed
  show ?thesis
    using step
  proof cases
    case (reader_read i rs got src duration)
    then have "\<not> slot_ready c ! (i mod 3)" using inv by (simp add: x264_inv_def)
    then have "held_frames c' = held_frames c" using other [of got] reader_read by (simp add: held_frames_def)
    then show ?thesis using reader_read(1) by (simp add: queue_step.silent)
  next
    case (reader_failed i rs got src)
    then have "\<not> slot_ready c ! (i mod 3)" using inv by (simp add: x264_inv_def)
    then have "held_frames c' = held_frames c"
      using other [of "got @ drop (length got) (input_slots c ! (i mod 3))"] reader_failed by (simp add: held_frames_def)
    then show ?thesis using reader_failed(1) by (simp add: queue_step.silent)
  next
    case (reader_publish i)
    have "held_frames c' = held_frames c @ [input_slots c ! (i mod 3)]"
      using reader_publish t by (simp add: held_frames_def)
    moreover have "\<not> slot_ready c ! (i mod 3)" using inv reader_publish by (simp add: x264_inv_def)
    then have "?r < m + 3" using slots_room [OF m(2)] reader_publish by simp
    then have "length (held_frames c) < 3" using t by (simp add: held_frames_def)
    ultimately show ?thesis using reader_publish(1) by (simp add: queue_step.published)
  next
    case (encoder_encode i answer ok k)
    then have "i < ?r" "?t = i" using inv by (auto simp: x264_inv_def)
    then have "held_frames c = input_slots c ! (i mod 3) # held_frames c'"
      using encoder_encode upt_head [of i ?r] by (cases ok) (simp_all add: held_frames_def)
    then show ?thesis using encoder_encode(1) by (simp add: queue_step.taken)
  qed (simp_all add: held_frames_def queue_step.silent)
qed

interpretation input_queue: bounded_queue 3 "x264_step frames n" x264_inv held_frames
  by unfold_locales (assumption | rule x264_inv_step x264_held_step)+

text \<open>The frames of the input.\<close>

definition frame_at :: "nat \<Rightarrow> bytes \<Rightarrow> nat \<Rightarrow> bytes" where
  "frame_at n src i = take n (drop (i * n) src)"

text \<open>Where the reader is in the input.\<close>

fun reader_at :: "nat \<Rightarrow> nat \<Rightarrow> bytes \<Rightarrow> x264_state \<Rightarrow> reader_phase \<Rightarrow> bool" where
  "reader_at frames n src c (RIdle i) \<longleftrightarrow> i \<le> frames \<and> i * n \<le> length src \<and> x_source c = drop (i * n) src"
| "reader_at frames n src c (RReading i) \<longleftrightarrow> i < frames \<and> i * n \<le> length src \<and> x_source c = drop (i * n) src"
| "reader_at frames n src c (RRead i) \<longleftrightarrow> i < frames \<and> Suc i * n \<le> length src \<and> x_source c = drop (Suc i * n) src \<and>
     input_slots c ! (i mod 3) = frame_at n src i"
| "reader_at frames n src c (REnded i) \<longleftrightarrow> i \<le> frames \<and> i * n \<le> length src \<and> (reader_error c \<or> stop_reader c \<or> i = frames)"

text \<open>Where the encoder is, and what it has counted.\<close>

fun encoder_at :: "nat \<Rightarrow> encoder_phase \<Rightarrow> bool" where
  "encoder_at frames (EIdle i) \<longleftrightarrow> i \<le> frames" | "encoder_at frames (EEncode i) \<longleftrightarrow> i < frames"
| "encoder_at frames (ERelease i) \<longleftrightarrow> i < frames" | "encoder_at frames (EJoining i) \<longleftrightarrow> i = frames"
| "encoder_at frames (EDone i) \<longleftrightarrow> i = frames" | "encoder_at frames (EFailed i) \<longleftrightarrow> True"
| "encoder_at frames (EAborting i) \<longleftrightarrow> True" | "encoder_at frames (EThrown i) \<longleftrightarrow> True"

fun encoder_failed :: "encoder_phase \<Rightarrow> bool" where
  "encoder_failed (EFailed i) = True" | "encoder_failed (EAborting i) = True" | "encoder_failed (EThrown i) = True"
| "encoder_failed _ = False"

fun encoder_stopped :: "encoder_phase \<Rightarrow> bool" where
  "encoder_stopped (EAborting i) = True" | "encoder_stopped (EThrown i) = True" | "encoder_stopped _ = False"

fun encoder_over :: "encoder_phase \<Rightarrow> bool" where
  "encoder_over (EDone i) = True" | "encoder_over (EThrown i) = True" | "encoder_over _ = False"

fun reader_over :: "reader_phase \<Rightarrow> bool" where
  "reader_over (REnded i) = True" | "reader_over _ = False"

definition x264_trace :: "nat \<Rightarrow> nat \<Rightarrow> bytes \<Rightarrow> (nat, bytes) queue_event list \<Rightarrow> x264_state \<Rightarrow> bool" where
  "x264_trace frames n src t c \<longleftrightarrow>
     added t = map (frame_at n src) [0..<read_count (x_reader c)] \<and> reader_at frames n src c (x_reader c) \<and>
     encoder_at frames (x_encoder c) \<and> encoder_stopped (x_encoder c) = stop_reader c \<and>
     (encoder_over (x_encoder c) \<longrightarrow> reader_over (x_reader c)) \<and>
     (\<not> encoder_failed (x_encoder c) \<longrightarrow>
        length (encode_ns (x_counts c)) = taken_count (x_encoder c) \<and>
        output_frames (x_counts c) + delayed_calls (x_counts c) = taken_count (x_encoder c))"

lemma at_update [simp]:
  "reader_at frames n src (c\<lparr>x_encoder := p\<rparr>) q = reader_at frames n src c q"
  "reader_at frames n src (c\<lparr>x_counts := k\<rparr>) q = reader_at frames n src c q"
  "reader_at frames n src (c\<lparr>slot_ready := b\<rparr>) q = reader_at frames n src c q"
  "reader_at frames n src (c\<lparr>x_reader := z\<rparr>) q = reader_at frames n src c q"
  by (cases q; simp)+

lemma at_stop: "reader_at frames n src c q \<Longrightarrow> reader_at frames n src (c\<lparr>stop_reader := True\<rparr>) q"
  by (cases q) simp_all

lemma x264_trace_start: "x264_trace frames n src [] (x264_start frames n src)"
  by (simp add: x264_trace_def x264_start_def blank_counts_def)

lemma encode_one_counts:
  "encode_one i answer k = (True, k') \<Longrightarrow>
     length (encode_ns k') = Suc (length (encode_ns k)) \<and>
     output_frames k' + delayed_calls k' = Suc (output_frames k + delayed_calls k)"
  by (cases answer) (auto simp: encode_one_def Let_def split: if_splits)

lemma x264_trace_step:
  assumes inv: "x264_inv c" and tr: "x264_trace frames n src t c" and step: "x264_step frames n c e c'"
  shows "x264_trace frames n src (t @ [e]) c'"
  using step
proof cases
  case (reader_go i)
  then show ?thesis using tr by (cases "stop_reader c") (auto simp: x264_trace_def)
next
  case (reader_read i rs got rest duration)
  have at: "i * n \<le> length src" "x_source c = drop (i * n) src" using tr reader_read(3) by (simp_all add: x264_trace_def)
  have "length ([] :: bytes) \<le> n" by simp
  note r = read_exact_frame [OF reader_read(4) this, unfolded at(2) append_Nil list.size(3) diff_zero]
  have "length got = n" "got = take n (drop (i * n) src)" "rest = drop n (drop (i * n) src)" using r by blast+
  then have "got = frame_at n src i" "rest = drop (Suc i * n) src" "Suc i * n \<le> length src"
    using at(1) by (auto simp: frame_at_def)
  moreover have "(input_slots c)[i mod 3 := got] ! (i mod 3) = got" using inv by (simp add: x264_inv_def)
  ultimately show ?thesis using reader_read tr by (simp add: x264_trace_def)
next
  case (encoder_go i)
  then show ?thesis using tr by (cases "reader_error c") (simp_all add: x264_trace_def)
next
  case (encoder_encode i answer ok k)
  then show ?thesis using tr encode_one_counts [of i answer "x_counts c" k] by (cases ok) (simp_all add: x264_trace_def)
qed (use tr at_stop in \<open>auto simp: x264_trace_def\<close>)

lemma x264_run_trace:
  "trace_run (x264_step frames n) (x264_start frames n src) t c \<Longrightarrow> x264_inv c \<and> x264_trace frames n src t c"
  by (induction rule: trace_run.induct)
    (auto intro: x264_inv_start x264_trace_start x264_inv_step x264_trace_step)

lemma x264_no_drops:
  "trace_run (x264_step frames n) s t c \<Longrightarrow> taken_views t = removed t"
proof (induction rule: trace_run.induct)
  case (snoc t c e c')
  have a: "taken_views (t @ [e]) = taken_views t @ taken_views [e]" for e :: "(nat, bytes) queue_event" and t
    by (induction t rule: taken_views.induct) simp_all
  show ?case using snoc.hyps(2) by cases (simp_all add: a snoc.IH)
qed simp

lemma x264_done:
  assumes "trace_run (x264_step frames n) (x264_start frames n src) t c" and "x_encoder c = EDone i"
  shows "taken_views t = map (frame_at n src) [0..<frames]" "frames * n \<le> length src"
    "length (encode_ns (x_counts c)) = frames" "output_frames (x_counts c) + delayed_calls (x_counts c) = frames"
proof -
  have inv: "x264_inv c" and tr: "x264_trace frames n src t c" using x264_run_trace [OF assms(1)] by simp_all
  have i: "i = frames" and over: "reader_over (x_reader c)" and stop: "\<not> stop_reader c"
    using tr assms(2) by (simp_all add: x264_trace_def)
  then obtain j where j: "x_reader c = REnded j" by (cases "x_reader c") simp_all
  have "frames \<le> j" "j \<le> frames" using inv tr assms(2) i j by (simp_all add: x264_inv_def x264_trace_def)
  then have r: "j = frames" by simp
  have "held_frames c = []" using assms(2) i j r by (simp add: held_frames_def)
  then have "added t = removed t"
    using input_queue.run_fifo [OF assms(1) x264_inv_start] by (simp add: held_frames_def x264_start_def)
  then show "taken_views t = map (frame_at n src) [0..<frames]"
    using tr j r x264_no_drops [OF assms(1)] by (simp add: x264_trace_def)
  show "frames * n \<le> length src" "length (encode_ns (x_counts c)) = frames"
    "output_frames (x_counts c) + delayed_calls (x_counts c) = frames"
    using tr j r i assms(2) by (simp_all add: x264_trace_def)
qed

text \<open>
  C20. When the frame loop ends normally the encoder has been given exactly the frames of the input, whole and in order,
  however the reads were split and the threads interleaved; and the exit status is 0 only if every frame was completed
  by its own call: none was delayed and the flush produced nothing.
\<close>

theorem x264_frames_in_order:
  assumes "trace_run (x264_step (unat (x_frames o')) n) (x264_start (unat (x_frames o')) n src) t c" and "x_encoder c = EDone i"
    and "flush_delayed bs (x_counts c) = (True, k)"
  shows "taken_views t = map (frame_at n src) [0..<unat (x_frames o')] \<and>
    (\<forall>f \<in> set (taken_views t). length f = n) \<and>
    (x264_status o' k = 0 \<longrightarrow> delayed_calls (x_counts c) = 0 \<and> (\<forall>b \<in> set bs. b = 0))"
proof -
  note d = x264_done [OF assms(1,2)]
  have len: "length (frame_at n src j) = n" if "j < unat (x_frames o')" for j
  proof -
    have "Suc j * n \<le> unat (x_frames o') * n" using that by (intro mult_le_mono1) simp
    then show ?thesis using d(2) by (simp add: frame_at_def)
  qed
  have flush: "delayed_calls k' = delayed_calls k0 \<and> output_frames k' = output_frames k0 + length (filter (\<lambda>b. b > 0) bs) \<and>
      (\<forall>b \<in> set bs. b \<ge> 0)" if "flush_delayed bs k0 = (True, k')" for bs k0 k'
    using that by (induction bs k0 rule: flush_delayed.induct) (auto split: if_splits)
  have "delayed_calls (x_counts c) = 0 \<and> (\<forall>b \<in> set bs. b = 0)" if "x264_status o' k = 0"
  proof -
    have "delayed_calls k = 0" "output_frames k = unat (x_frames o')"
      using that by (simp_all add: x264_status_def split: if_splits)
    then have "delayed_calls (x_counts c) = 0" "filter (\<lambda>b. b > 0) bs = []" using flush [OF assms(3)] d(4) by auto
    then show ?thesis using flush [OF assms(3)] by (force simp: filter_empty_conv)
  qed
  then show ?thesis using d(1) len by auto
qed

section \<open>Preloading makes no difference\<close>

lemma preload_frames_at:
  "preload_frames rss n src = Some fs \<Longrightarrow> fs = map (frame_at n src) [0..<length rss]"
proof (induction rss n src arbitrary: fs rule: preload_frames.induct)
  case (2 rs rss n src)
  obtain got rest fs' where r: "read_exact rs n [] src = Some (True, got, rest)" "preload_frames rss n rest = Some fs'" "fs = got # fs'"
    using 2(2) by (auto split: option.splits prod.splits bool.splits)
  have e: "got = frame_at n src 0" "rest = drop n src" using read_exact_frame [OF r(1)] by (simp_all add: frame_at_def)
  have "fs' = map (frame_at n rest) [0..<length rss]" using 2(1) r by fastforce
  then have "fs' = map (\<lambda>i. frame_at n src (Suc i)) [0..<length rss]" by (simp add: e frame_at_def add.commute)
  then show ?case using r(3) e by (simp add: upt_head [of 0] map_Suc_upt [symmetric] comp_def del: upt_Suc)
qed simp

lemma encode_preloaded_given:
  "encode_preloaded index fs answers k = (True, given, k') \<Longrightarrow> length fs \<le> length answers \<Longrightarrow> given = fs"
  by (induction index fs answers k arbitrary: given k' rule: encode_preloaded.induct)
    (auto split: prod.splits bool.splits)

text \<open>
  The preloaded run gives the encoder the same frames in the same order as the run with the reader thread.
\<close>

theorem x264_preload_same_frames:
  assumes "trace_run (x264_step frames n) (x264_start frames n src) t c" and "x_encoder c = EDone i"
    and "preload_frames rss n src = Some fs" and "length rss = frames"
    and "encode_preloaded 0 fs answers k = (True, given, k')" and "length answers = frames"
  shows "given = taken_views t"
proof -
  have fs: "fs = map (frame_at n src) [0..<frames]" using preload_frames_at [OF assms(3)] assms(4) by simp
  then have "given = fs" using encode_preloaded_given [OF assms(5)] assms(6) by simp
  then show ?thesis using x264_done(1) [OF assms(1,2)] fs by simp
qed

section \<open>A run ends\<close>

fun reader_cost :: "nat \<Rightarrow> reader_phase \<Rightarrow> nat" where
  "reader_cost frames (RIdle i) = 3 * (frames - i) + 1"
| "reader_cost frames (RReading i) = 3 * (frames - i)"
| "reader_cost frames (RRead i) = 3 * (frames - i) - 1"
| "reader_cost frames (REnded i) = 0"

fun encoder_cost :: "nat \<Rightarrow> encoder_phase \<Rightarrow> nat" where
  "encoder_cost frames (EIdle i) = 3 * (frames - i) + 4"
| "encoder_cost frames (EEncode i) = 3 * (frames - i) + 3"
| "encoder_cost frames (ERelease i) = 3 * (frames - i) + 2"
| "encoder_cost frames (EFailed i) = 3"
| "encoder_cost frames (EAborting i) = 2"
| "encoder_cost frames (EJoining i) = 2"
| "encoder_cost frames (EDone i) = 0"
| "encoder_cost frames (EThrown i) = 0"

definition x264_left :: "nat \<Rightarrow> x264_state \<Rightarrow> nat" where
  "x264_left frames c = reader_cost frames (x_reader c) + encoder_cost frames (x_encoder c)"

lemma x264_left_step:
  assumes "x264_trace frames n src t c" and "x264_step frames n c e c'"
  shows "x264_left frames c' < x264_left frames c"
  using assms(2) by cases (use assms(1) in \<open>auto simp: x264_left_def x264_trace_def\<close>)

lemma x264_left_run:
  "trace_run (x264_step frames n) (x264_start frames n src) t c \<Longrightarrow> length t + x264_left frames c \<le> 6 * frames + 5"
proof (induction rule: trace_run.induct)
  case (snoc t c e c')
  then show ?case using x264_left_step [of frames n src t c e c'] x264_run_trace by fastforce
qed (simp add: x264_left_def x264_start_def)

lemma reader_moves:
  assumes "\<not> reader_over (x_reader c)"
    and "\<And>i. x_reader c = RIdle i \<Longrightarrow> i < frames \<Longrightarrow> stop_reader c \<or> \<not> slot_ready c ! (i mod 3)"
  shows "\<exists>e c'. x264_step frames n c e c'"
proof (cases "x_reader c")
  case (RIdle i)
  then show ?thesis using assms(2) x264_step.reader_go x264_step.reader_finished by metis
next
  case (RReading i)
  show ?thesis
  proof (cases "n = 0")
    case True
    then have "read_exact [] n [] (x_source c) = Some (True, [], x_source c)" by (simp add: read_exact.simps)
    then show ?thesis using RReading x264_step.reader_read by metis
  next
    case False
    then have "read_exact [ReadError] n [] (x_source c) = Some (False, [], x_source c)" by (simp add: read_exact.simps)
    then show ?thesis using RReading x264_step.reader_failed by metis
  qed
next
  case (RRead i)
  then show ?thesis using x264_step.reader_publish by metis
qed (use assms(1) in simp)

lemma x264_not_stuck:
  assumes inv: "x264_inv c" and tr: "x264_trace frames n src t c" and enc: "\<not> encoder_over (x_encoder c)"
  shows "\<exists>e c'. x264_step frames n c e c'"
proof (cases "x_encoder c")
  case (EIdle i)
  obtain r where r: "r = read_count (x_reader c)" "slots_ok i r (slot_ready c)" using inv EIdle by (auto simp: x264_inv_def)
  have stop: "\<not> stop_reader c" using tr EIdle by (simp add: x264_trace_def)
  have full: "slot_ready c ! (i mod 3)" if "i < r"
    using r(2) that unfolding slots_ok_def by (metis le_refl mod_less_divisor zero_less_numeral)
  show ?thesis
  proof (cases "i < frames \<and> \<not> slot_ready c ! (i mod 3) \<and> \<not> reader_error c")
    case True
    then have ir: "r = i" using full r(2) by (fastforce simp: slots_ok_def)
    have "\<not> reader_over (x_reader c)"
      using tr True stop ir r(1) by (cases "x_reader c") (auto simp: x264_trace_def)
    moreover have "\<not> slot_ready c ! (k mod 3)" if "x_reader c = RIdle k" for k using that True ir r(1) by simp
    ultimately show ?thesis using reader_moves by blast
  next
    case False
    then show ?thesis using EIdle x264_step.encoder_go x264_step.encoder_finished by metis
  qed
next
  case (EEncode i)
  obtain ok k where "encode_one i (0, 0, 0) (x_counts c) = (ok, k)" by fastforce
  then show ?thesis using EEncode x264_step.encoder_encode by metis
next
  case (ERelease i)
  then show ?thesis using x264_step.encoder_release by metis
next
  case (EFailed i)
  then show ?thesis using x264_step.encoder_abort by metis
next
  case (EAborting i)
  show ?thesis
  proof (cases "reader_over (x_reader c)")
    case True
    then obtain j where "x_reader c = REnded j" by (cases "x_reader c") simp_all
    then show ?thesis using EAborting x264_step.encoder_abort_join by metis
  next
    case False
    have "stop_reader c" using tr EAborting by (simp add: x264_trace_def)
    then show ?thesis using reader_moves [OF False] by blast
  qed
next
  case (EJoining i)
  show ?thesis
  proof (cases "reader_over (x_reader c)")
    case True
    then obtain j where "x_reader c = REnded j" by (cases "x_reader c") simp_all
    then show ?thesis using EJoining x264_step.encoder_join by metis
  next
    case False
    have "k = frames" if "x_reader c = RIdle k" for k
      using that inv tr EJoining by (auto simp: x264_inv_def x264_trace_def)
    then show ?thesis using reader_moves [OF False] by blast
  qed
qed (use enc in simp_all)


section \<open>A run of one frame\<close>

lemma x264_one_run:
  obtains t c where "trace_run (x264_step 1 2) (x264_start 1 2 [7, 8]) t c" "x_encoder c = EDone 1" "length t = 9"
    "x_counts c = \<lparr>encode_ns = [9000], output_bytes = 5, output_frames = 1, delayed_calls = 0\<rparr>" "taken_views t = [[7, 8]]"
proof -
  let ?R = "x264_step 1 2" and ?s = "x264_start 1 2 [7, 8]"
  note s = x264_start_def blank_counts_def
  define c1 where "c1 = ?s\<lparr>x_reader := RReading 0\<rparr>"
  define c2 where "c2 = c1\<lparr>x_source := [], input_slots := (input_slots c1)[0 := [7, 8]], read_ns := (read_ns c1)[0 := 3000], x_reader := RRead 0\<rparr>"
  define c3 where "c3 = c2\<lparr>slot_ready := (slot_ready c2)[0 := True], x_reader := RIdle 1\<rparr>"
  define c4 where "c4 = c3\<lparr>x_reader := REnded 1\<rparr>"
  define c5 where "c5 = c4\<lparr>x_encoder := EEncode 0\<rparr>"
  define c6 where "c6 = c5\<lparr>x_counts := \<lparr>encode_ns = [9000], output_bytes = 5, output_frames = 1, delayed_calls = 0\<rparr>, x_encoder := ERelease 0\<rparr>"
  define c7 where "c7 = c6\<lparr>slot_ready := (slot_ready c6)[0 := False], x_encoder := EIdle 1\<rparr>"
  define c8 where "c8 = c7\<lparr>x_encoder := EJoining 1\<rparr>"
  define c9 where "c9 = c8\<lparr>x_encoder := EDone 1\<rparr>"
  note defs = c1_def c2_def c3_def c4_def c5_def c6_def c7_def c8_def c9_def s
  have rd: "read_exact [Interrupted, Received 1, Received 4] 2 [] (x_source c1) = Some (True, [7, 8], [])"
    by (simp add: defs read_exact.simps)
  have en: "encode_one 0 (5, 0, 9000) (x_counts c5) = (True, \<lparr>encode_ns = [9000], output_bytes = 5, output_frames = 1, delayed_calls = 0\<rparr>)"
    by (simp add: defs encode_one_def)
  have "?R ?s Silent c1" using x264_step.reader_go [of ?s 0 1 2] by (simp add: c1_def s)
  moreover have "?R c1 Silent c2" using x264_step.reader_read [OF _ rd, of 0 1 3000] by (simp add: c2_def c1_def)
  moreover have "?R c2 (Published [7, 8]) c3"
    using x264_step.reader_publish [of c2 0 1 2] by (simp add: c3_def) (simp add: defs)
  moreover have "?R c3 Silent c4" using x264_step.reader_finished [of c3 1 1 2] by (simp add: c4_def c3_def)
  moreover have "?R c4 Silent c5"
    using x264_step.encoder_go [of c4 0 1 2] by (simp add: c5_def) (simp add: defs)
  moreover have "?R c5 (Taken [7, 8]) c6"
    using x264_step.encoder_encode [OF _ en, of 1 2] by (simp add: c6_def) (simp add: defs)
  moreover have "?R c6 Silent c7" using x264_step.encoder_release [of c6 0 1 2] by (simp add: c7_def c6_def)
  moreover have "?R c7 Silent c8" using x264_step.encoder_finished [of c7 1 1 2] by (simp add: c8_def c7_def)
  moreover have "?R c8 Silent c9"
    using x264_step.encoder_join [of c8 1 1 1 2] by (simp add: c9_def c8_def c7_def c6_def c5_def c4_def)
  ultimately have r: "trace_run ?R ?s
      ([] @ [Silent] @ [Silent] @ [Published [7, 8]] @ [Silent] @ [Silent] @ [Taken [7, 8]] @ [Silent] @ [Silent] @ [Silent]) c9"
    unfolding append_assoc [symmetric] by (intro trace_run.snoc) (assumption | rule trace_run.start)+
  show thesis by (rule that [OF r]) (simp_all add: c9_def c8_def c7_def c6_def)
qed

theorem x264_frames_in_order_witness:
  "\<exists>t c k. trace_run (x264_step 1 2) (x264_start 1 2 [7, 8]) t c \<and> x_encoder c = EDone 1 \<and>
     flush_delayed [] (x_counts c) = (True, k) \<and> x264_status (x264_defaults\<lparr>x_frames := 1\<rparr>) k = 0 \<and>
     taken_views t = [[7, 8]] \<and> delayed_calls (x_counts c) = 0"
proof -
  let ?o = "x264_defaults\<lparr>x_frames := 1\<rparr>"
  obtain t c where r: "trace_run (x264_step 1 2) (x264_start 1 2 [7, 8]) t c" "x_encoder c = EDone 1"
    "x_counts c = \<lparr>encode_ns = [9000], output_bytes = 5, output_frames = 1, delayed_calls = 0\<rparr>"
    by (rule x264_one_run)
  have o: "unat (x_frames ?o) = 1" by simp
  have f: "flush_delayed [] (x_counts c) = (True, x_counts c)" by simp
  have st: "x264_status ?o (x_counts c) = 0" by (simp add: x264_status_def r(3))
  have "taken_views t = [[7, 8]]" "delayed_calls (x_counts c) = 0"
    using x264_frames_in_order [of ?o 2 "[7, 8]" t c 1 "[]" "x_counts c"] r f st o by (simp_all add: frame_at_def)
  then show ?thesis using r(1,2) f st by blast
qed

theorem x264_preload_same_frames_witness:
  "\<exists>t c given k. trace_run (x264_step 1 2) (x264_start 1 2 [7, 8]) t c \<and>
     preload_frames [[Received 2]] 2 [7, 8] = Some [[7, 8]] \<and>
     encode_preloaded 0 [[7, 8]] [(5, 0, 9000)] blank_counts = (True, given, k) \<and> given = taken_views t"
proof -
  obtain t c where r: "trace_run (x264_step 1 2) (x264_start 1 2 [7, 8]) t c" "x_encoder c = EDone 1"
    by (rule x264_one_run)
  have p: "preload_frames [[Received 2]] 2 [7, 8] = Some [[7, 8]]" by (simp add: read_exact.simps)
  obtain k where e: "encode_preloaded 0 [[7, 8]] [(5, 0, 9000)] blank_counts = (True, [[7, 8]], k)"
    by (simp add: encode_one_def)
  from x264_preload_same_frames [OF r p _ e] show ?thesis using r p e by auto
qed


end
