(* ===== verification/X11_Channels.thy ===== *)
theory X11_Channels
  imports Plank_Prelude
begin

text \<open>
  The channels of \<^verbatim>\<open>probes/x11/plank-probe-x11-native10.cpp\<close>: how a mask becomes a shift and a
  number of bits, how a code is packed into a pixel and read back, which ten-bit codes an eight-bit source can
  produce, and the sampling of a captured image (its distinct codes and its fingerprint).

  \<^verbatim>\<open>unsigned long\<close> has 64 bits and \<^verbatim>\<open>unsigned int\<close> 32. Counts of bits and shifts are at most 64 and are
  natural numbers. Xlib's \<^verbatim>\<open>XGetPixel\<close> is the field of an image that gives the pixel at a column and a row.
\<close>

section \<open>Masks\<close>

record channel_t =
  ch_name :: string
  ch_mask :: u64
  ch_shift :: nat
  ch_bits :: nat

lemma drop_bit1_less: "v \<noteq> 0 \<Longrightarrow> unat (drop_bit (Suc 0) v) < unat v" for v :: u64
  by (simp add: drop_bit_eq_div unat_div unat_gt_0)

text \<open>
  The loop over a mask with its lowest bits clear. It is only entered with a mask that is not zero, and stays with
  one; on zero it would not end.
\<close>

function shift_to_first :: "u64 \<Rightarrow> nat \<Rightarrow> nat" where
  "shift_to_first v count =
     (if v \<noteq> 0 \<and> v AND 1 = 0 then shift_to_first (drop_bit 1 v) (Suc count) else count)"
  by pat_completeness auto
termination by (relation "measure (unat \<circ> fst)") (auto simp: drop_bit1_less)

definition trailing_zeroes :: "u64 \<Rightarrow> nat" where
  "trailing_zeroes v = (if v = 0 then 0 else shift_to_first v 0)"

function count_ones :: "u64 \<Rightarrow> nat \<Rightarrow> nat" where
  "count_ones v count = (if v \<noteq> 0 then count_ones (drop_bit 1 v) (count + unat (v AND 1)) else count)"
  by pat_completeness auto
termination by (relation "measure (unat \<circ> fst)") (auto simp: drop_bit1_less)

definition bit_count :: "u64 \<Rightarrow> nat" where
  "bit_count v = count_ones v 0"

definition make_channel :: "string \<Rightarrow> u64 \<Rightarrow> channel_t" where
  "make_channel name m = \<lparr>ch_name = name, ch_mask = m, ch_shift = trailing_zeroes m, ch_bits = bit_count m\<rparr>"

definition pack_code :: "channel_t \<Rightarrow> u32 \<Rightarrow> u64" where
  "pack_code channel code = push_bit (ch_shift channel) (ucast code) AND ch_mask channel"

definition unpack_code :: "channel_t \<Rightarrow> u64 \<Rightarrow> u32" where
  "unpack_code channel pixel = ucast (drop_bit (ch_shift channel) (pixel AND ch_mask channel))"

text \<open>The pixel in which every channel has the same code.\<close>

definition pack_pixel :: "channel_t list \<Rightarrow> u32 \<Rightarrow> u64" where
  "pack_pixel channels code = fold (\<lambda>channel pixel. pixel OR pack_code channel code) channels 0"

definition masks_overlap :: "channel_t list \<Rightarrow> bool" where
  "masks_overlap channels \<longleftrightarrow>
     ch_mask (channels ! 0) AND ch_mask (channels ! 1) \<noteq> 0 \<or> ch_mask (channels ! 0) AND ch_mask (channels ! 2) \<noteq> 0 \<or>
     ch_mask (channels ! 1) AND ch_mask (channels ! 2) \<noteq> 0"

definition is_eight_to_ten_expansion :: "u32 \<Rightarrow> bool" where
  "is_eight_to_ten_expansion v \<longleftrightarrow>
     list_ex (\<lambda>s. push_bit 2 (of_nat s) OR drop_bit 6 (of_nat s) = v) [0..<256]"

text \<open>
  The test of both round trips: every one of the 1024 codes is read back from its pixel in every channel. The
  loops stop at the first code that is not.
\<close>

definition exact_codes :: "channel_t list \<Rightarrow> (nat \<Rightarrow> u64) \<Rightarrow> bool" where
  "exact_codes channels pixel_at \<longleftrightarrow>
     list_all (\<lambda>code. list_all (\<lambda>channel. unpack_code channel (pixel_at code) = of_nat code) channels) [0..<1024]"

section \<open>Samples of an image\<close>

record XImage =
  im_width :: nat
  im_height :: nat
  im_depth :: nat
  im_bits_per_pixel :: nat
  im_bytes_per_line :: nat
  im_pixel :: "nat \<Rightarrow> nat \<Rightarrow> u64"
  im_data :: bytes

text \<open>The values of a counter from \<open>i\<close> in steps while it is below the limit.\<close>

function steps_from :: "nat \<Rightarrow> nat \<Rightarrow> nat \<Rightarrow> nat list" where
  "steps_from step limit i = (if i < limit \<and> 0 < step then i # steps_from step limit (i + step) else [])"
  by pat_completeness auto
termination by (relation "measure (\<lambda>(step, limit, i). limit - i)") auto

declare steps_from.simps [simp del]

definition sample_step :: "nat \<Rightarrow> nat \<Rightarrow> nat" where
  "sample_step extent parts = max 1 (extent div parts)"

text \<open>The pixels at the sampled columns of the sampled rows, row by row.\<close>

definition sampled_pixels :: "XImage \<Rightarrow> nat \<Rightarrow> nat \<Rightarrow> u64 list" where
  "sampled_pixels im columns rows =
     concat (map (\<lambda>y. map (\<lambda>x. im_pixel im x y)
         (steps_from (sample_step (im_width im) columns) (im_width im) 0))
       (steps_from (sample_step (im_height im) rows) (im_height im) 0))"

text \<open>A channel's observed codes and its count of codes no eight-bit source gives.\<close>

type_synonym channel_stats = "bool list \<times> u64"

definition observe_code :: "channel_t \<Rightarrow> u64 \<Rightarrow> channel_stats \<Rightarrow> channel_stats" where
  "observe_code channel pixel st =
     (let v = unpack_code channel pixel
      in (if unat v < 1024 then (fst st)[unat v := True] else fst st,
          if ch_bits channel = 10 \<and> \<not> is_eight_to_ten_expansion v then snd st + 1 else snd st))"

text \<open>The report: the number of samples, then the distinct codes and the foreign codes of each channel.\<close>

definition analyze_capture_image :: "XImage \<Rightarrow> channel_t list \<Rightarrow> u64 \<times> (nat \<times> u64) list" where
  "analyze_capture_image im channels =
     (let (stats, samples) =
        fold (\<lambda>pixel (stats, samples). (map2 (\<lambda>channel st. observe_code channel pixel st) channels stats, samples + 1))
          (sampled_pixels im 512 256) (map (\<lambda>_. (replicate 1024 False, 0)) channels, 0 :: u64)
      in (samples, map (\<lambda>st. (length (filter id (fst st)), snd st)) stats))"

definition fingerprint_step :: "u64 \<Rightarrow> u64 \<Rightarrow> u64" where
  "fingerprint_step pixel hash = (hash XOR pixel) * 1099511628211"

definition sample_fingerprint :: "XImage \<Rightarrow> u64" where
  "sample_fingerprint im = fold fingerprint_step (sampled_pixels im 128 72) 1469598103934665603"

declare shift_to_first.simps [simp del] count_ones.simps [simp del]

section \<open>What the loops compute\<close>

lemma even_word: "(v AND 1 = 0) = (\<not> bit v 0)" for v :: "'a::len word"
  by (simp add: and_one_eq odd_iff_mod_2_eq_one bit_0 even_iff_mod_2_eq_zero)

lemma shift_to_first_bit:
  "v \<noteq> 0 \<Longrightarrow> \<exists>k. shift_to_first v count = count + k \<and> bit v k \<and> (\<forall>i<k. \<not> bit v i)"
proof (induction v count rule: shift_to_first.induct)
  case (1 v count)
  show ?case
  proof (cases "v AND 1 = 0")
    case True
    have nz: "drop_bit 1 v \<noteq> 0"
    proof
      assume z: "drop_bit 1 v = 0"
      have "\<not> bit v i" for i
        using True arg_cong [OF z, of "\<lambda>w. bit w (i - 1)"] by (cases i) (auto simp: bit_drop_bit_eq even_word)
      then show False using 1(2) by (auto simp: bit_eq_iff)
    qed
    from 1(1) [OF _ nz] 1(2) True obtain k where
      k: "shift_to_first (drop_bit 1 v) (Suc count) = Suc count + k" "bit (drop_bit 1 v) k"
        "\<forall>i<k. \<not> bit (drop_bit 1 v) i" by auto
    have "\<not> bit v i" if "i < Suc k" for i
      using that k(3) True by (cases i) (auto simp: bit_drop_bit_eq even_word)
    moreover have "bit v (Suc k)" using k(2) by (simp add: bit_drop_bit_eq)
    ultimately show ?thesis
      using k(1) 1(2) True by (intro exI [of _ "Suc k"]) (simp add: shift_to_first.simps [of v])
  next
    case False
    then show ?thesis by (intro exI [of _ 0]) (simp add: shift_to_first.simps [of v] even_word)
  qed
qed

lemma trailing_zeroes_bit:
  assumes "v \<noteq> 0"
  shows "bit v (trailing_zeroes v)" and "i < trailing_zeroes v \<Longrightarrow> \<not> bit v i"
  using shift_to_first_bit [OF assms, of 0] assms by (auto simp: trailing_zeroes_def)

lemma finite_bits: "finite {i. bit (v :: 'a::len word) i}"
  by (rule finite_subset [of _ "{..<LENGTH('a)}"]) (auto dest: bit_imp_le_length)

lemma count_ones_card: "count_ones v count = count + card {i. bit v i}"
proof (induction v count rule: count_ones.induct)
  case (1 v count)
  show ?case
  proof (cases "v = 0")
    case False
    have "{i. bit v i} = {i. i = 0 \<and> bit v 0} \<union> Suc ` {i. bit (drop_bit 1 v) i}"
    proof (rule set_eqI)
      fix i show "i \<in> {i. bit v i} \<longleftrightarrow> i \<in> {i. i = 0 \<and> bit v 0} \<union> Suc ` {i. bit (drop_bit 1 v) i}"
        by (cases i) (auto simp: bit_drop_bit_eq)
    qed
    moreover have "card ({i. i = 0 \<and> bit v 0} \<union> Suc ` {i. bit (drop_bit 1 v) i}) =
        of_bool (bit v 0) + card {i. bit (drop_bit 1 v) i}"
      by (subst card_Un_disjoint) (auto simp: card_image finite_bits intro: finite_imageI)
    moreover have "unat (v AND 1) = of_bool (bit v 0)"
      by (simp add: and_one_eq bit_0 odd_iff_mod_2_eq_one)
    ultimately show ?thesis using 1 False by (simp add: count_ones.simps [of v])
  qed (simp add: count_ones.simps)
qed

lemma bit_count_card: "bit_count v = card {i. bit v i}"
  by (simp add: bit_count_def count_ones_card)

section \<open>Packing and unpacking\<close>

definition contiguous :: "nat \<Rightarrow> u64 \<Rightarrow> bool" where
  "contiguous n m \<longleftrightarrow> m = push_bit (trailing_zeroes m) (mask n)"

lemma contiguous_bits:
  assumes "m \<noteq> 0" and "bit_count m = n"
  shows "contiguous n m \<longleftrightarrow> (\<forall>i<n. bit m (trailing_zeroes m + i))"
proof
  let ?s = "trailing_zeroes m"
  assume c: "contiguous n m"
  have "bit m i \<longleftrightarrow> bit (push_bit ?s (mask n) :: u64) i" for i
    by (rule arg_cong [OF c [unfolded contiguous_def], of "\<lambda>w. bit w i"])
  then have "bit m i \<Longrightarrow> i \<in> {?s ..< ?s + n}" for i
    by (simp add: bit_push_bit_iff bit_mask_iff) (elim conjE, linarith)
  then have sub: "{i. bit m i} \<subseteq> {?s ..< ?s + n}" by blast
  have "card {i. bit m i} = card {?s ..< ?s + n}" using assms(2) by (simp add: bit_count_card)
  from card_subset_eq [OF _ sub this] have "{i. bit m i} = {?s ..< ?s + n}" by simp
  then have "bit m i \<longleftrightarrow> i \<in> {?s ..< ?s + n}" for i by (simp only: set_eq_iff mem_Collect_eq)
  then show "\<forall>i<n. bit m (?s + i)" by simp
next
  let ?s = "trailing_zeroes m"
  assume b: "\<forall>i<n. bit m (?s + i)"
  have "bit m i" if "i \<in> {?s ..< ?s + n}" for i using that b [rule_format, of "i - ?s"] by auto
  then have "{?s ..< ?s + n} = {i. bit m i}"
    using assms(2) by (intro card_subset_eq finite_bits) (auto simp: bit_count_card)
  then have m: "bit m i \<longleftrightarrow> i \<in> {?s ..< ?s + n}" for i by (simp only: set_eq_iff mem_Collect_eq)
  show "contiguous n m"
    unfolding contiguous_def
  proof (rule bit_word_eqI)
    fix i assume i: "i < LENGTH(64)"
    show "bit m i = bit (push_bit ?s (mask n) :: u64) i"
      unfolding m bit_push_bit_iff bit_mask_iff using i by auto
  qed
qed

text \<open>A code is read back as its bits under the mask, shifted down.\<close>

lemma unpack_pack:
  "unpack_code (make_channel name m) (pack_code (make_channel name m) code) =
     code AND ucast (drop_bit (trailing_zeroes m) m)"
  by (rule bit_word_eqI) (auto simp: unpack_code_def pack_code_def make_channel_def bit_simps dest: bit_imp_le_length)

lemma unpack_other:
  assumes "m AND m' = 0"
  shows "unpack_code (make_channel name m) (p OR pack_code (make_channel name' m') code) = unpack_code (make_channel name m) p"
proof -
  have "\<not> (bit m i \<and> bit m' i)" for i
    using arg_cong [OF assms, of "\<lambda>w. bit w i"] by (simp add: bit_simps)
  then show ?thesis
    by (intro bit_word_eqI) (auto simp: unpack_code_def pack_code_def make_channel_def bit_simps)
qed

lemma unpack_other0:
  assumes "m AND m' = 0"
  shows "unpack_code (make_channel name m) (pack_code (make_channel name' m') code) = 0"
  using unpack_other [OF assms, of name 0 name' code] by (simp add: unpack_code_def)

lemma unpack_own:
  "unpack_code (make_channel name m) (p OR pack_code (make_channel name m) code) =
     unpack_code (make_channel name m) p OR code AND ucast (drop_bit (trailing_zeroes m) m)"
  by (rule bit_word_eqI) (auto simp: unpack_code_def pack_code_def make_channel_def bit_simps dest: bit_imp_le_length)

lemma unpack_zero [simp]: "unpack_code channel 0 = 0"
  by (simp add: unpack_code_def)

abbreviation rgb_channels :: "u64 \<Rightarrow> u64 \<Rightarrow> u64 \<Rightarrow> channel_t list" where
  "rgb_channels r g b \<equiv> [make_channel ''red'' r, make_channel ''green'' g, make_channel ''blue'' b]"

lemma channel_sel [simp]:
  "ch_mask (make_channel name m) = m" "ch_shift (make_channel name m) = trailing_zeroes m"
  "ch_bits (make_channel name m) = bit_count m" "ch_name (make_channel name m) = name"
  by (simp_all add: make_channel_def)

lemma unpack_pixel:
  assumes "\<not> masks_overlap (rgb_channels r g b)" and "channel \<in> set (rgb_channels r g b)"
  shows "unpack_code channel (pack_pixel (rgb_channels r g b) code) =
    code AND ucast (drop_bit (ch_shift channel) (ch_mask channel))"
proof -
  have d: "r AND g = 0" "r AND b = 0" "g AND b = 0" "g AND r = 0" "b AND r = 0" "b AND g = 0"
    using assms(1) by (simp_all add: masks_overlap_def and.commute)
  show ?thesis
    using assms(2) d by (auto simp: pack_pixel_def unpack_other unpack_other0 unpack_own unpack_pack)
qed

text \<open>All codes of ten bits survive an AND exactly when the ten lowest bits of the mask are set.\<close>

lemma and_all_codes:
  fixes w :: u32
  shows "(\<forall>code<1024. of_nat code AND w = of_nat code) \<longleftrightarrow> (\<forall>i<10. bit w i)"
proof
  assume a: "\<forall>code<1024. of_nat code AND w = of_nat code"
  have "of_nat 1023 = (mask 10 :: u32)" by (simp add: mask_eq_exp_minus_1)
  then have "mask 10 AND w = mask 10" using a [rule_format, of 1023] by simp
  then have "bit (mask 10 AND w) i \<longleftrightarrow> bit (mask 10 :: u32) i" for i by simp
  then have m: "i < 32 \<and> i < 10 \<and> bit w i \<longleftrightarrow> i < 32 \<and> i < 10" for i by (simp add: bit_and_iff bit_mask_iff)
  have "bit w i" if "i < 10" for i
  proof -
    have "i < 32" using that by simp
    with m [of i] that show ?thesis by blast
  qed
  then show "\<forall>i<10. bit w i" by blast
next
  assume b: "\<forall>i<10. bit w i"
  show "\<forall>code<1024. of_nat code AND w = of_nat code"
  proof (intro allI impI)
    fix code :: nat assume "code < 1024"
    then have "code = take_bit 10 code" by (simp add: take_bit_nat_eq_self)
    then have "\<not> bit code i" if "\<not> i < 10" for i using that by (metis bit_take_bit_iff)
    then show "of_nat code AND w = of_nat code"
      using b by (intro bit_word_eqI) (auto simp: bit_simps)
  qed
qed

lemma exact_codes_pixel:
  assumes "\<not> masks_overlap (rgb_channels r g b)" and "\<forall>channel \<in> set (rgb_channels r g b). ch_bits channel = 10"
  shows "exact_codes (rgb_channels r g b) (\<lambda>code. pack_pixel (rgb_channels r g b) (of_nat code)) \<longleftrightarrow>
    contiguous 10 r \<and> contiguous 10 g \<and> contiguous 10 b"
proof -
  have one: "(\<forall>code<1024. of_nat code AND (ucast (drop_bit (trailing_zeroes m) m) :: u32) = of_nat code) \<longleftrightarrow> contiguous 10 m"
    if "bit_count m = 10" for m
  proof -
    have "m \<noteq> 0" using that by (auto simp: bit_count_card)
    then show ?thesis
      unfolding and_all_codes using that by (simp add: contiguous_bits bit_simps add.commute)
  qed
  have "exact_codes (rgb_channels r g b) (\<lambda>code. pack_pixel (rgb_channels r g b) (of_nat code)) \<longleftrightarrow>
    (\<forall>channel \<in> set (rgb_channels r g b). \<forall>code<1024.
       of_nat code AND (ucast (drop_bit (ch_shift channel) (ch_mask channel)) :: u32) = of_nat code)"
    using unpack_pixel [OF assms(1)] by (auto simp: exact_codes_def list_all_iff simp del: of_nat_less_iff)
  then show ?thesis using one assms(2) by simp
qed

section \<open>Expanded codes\<close>

lemma expansion_nat:
  assumes "s < 256"
  shows "push_bit 2 (of_nat s) OR drop_bit 6 (of_nat s) = (of_nat (4 * s + s div 64) :: u32)"
proof -
  have "list_all (\<lambda>s. push_bit 2 (of_nat s) OR drop_bit 6 (of_nat s) = (of_nat (4 * s + s div 64) :: u32)) [0..<256]"
    by code_simp
  then show ?thesis using assms by (simp add: list_all_iff)
qed

text \<open>An eight-bit source gives a ten-bit code exactly when the code's two lowest bits repeat its two highest.\<close>

lemma expansion_iff:
  "is_eight_to_ten_expansion v \<longleftrightarrow> unat v < 1024 \<and> unat v mod 4 = unat v div 256"
proof
  assume "is_eight_to_ten_expansion v"
  then obtain s where s: "s < 256" "v = of_nat (4 * s + s div 64)"
    using expansion_nat by (auto simp: is_eight_to_ten_expansion_def list_ex_iff)
  have "s div 64 < 4" "4 * s + s div 64 < 1024" using s(1) by linarith+
  moreover from this have u: "unat v = 4 * s + s div 64" unfolding s(2) by (intro unat_of_nat_eq) simp
  moreover have "(4 * s + s div 64) div 256 = (4 * s + s div 64) div 4 div 64" by (simp add: div_mult2_eq [symmetric])
  ultimately show "unat v < 1024 \<and> unat v mod 4 = unat v div 256" by simp
next
  assume v: "unat v < 1024 \<and> unat v mod 4 = unat v div 256"
  let ?s = "unat v div 4"
  have "?s < 256" "4 * ?s + ?s div 64 = unat v"
    using v mult_div_mod_eq [of 4 "unat v"] by (auto simp: div_mult2_eq [symmetric])
  then have "push_bit 2 (of_nat ?s) OR drop_bit 6 (of_nat ?s) = v" using expansion_nat [of ?s] by simp
  then show "is_eight_to_ten_expansion v"
    using \<open>?s < 256\<close> by (auto simp: is_eight_to_ten_expansion_def list_ex_iff)
qed

section \<open>Sampling\<close>

lemma length_steps_from: "0 < step \<Longrightarrow> length (steps_from step limit i) = (limit - i + step - 1) div step"
proof (induction step limit i rule: steps_from.induct)
  case (1 step limit i)
  show ?case
  proof (cases "i < limit")
    case True
    then have "length (steps_from step limit i) = Suc ((limit - (i + step) + step - 1) div step)"
      using 1 by (simp add: steps_from.simps [of step limit i])
    also have "\<dots> = (limit - i + step - 1) div step"
    proof (cases "i + step \<le> limit")
      case True
      then have "limit - i + step - 1 = (limit - (i + step) + step - 1) + step" using 1(2) by simp
      then show ?thesis using 1(2) by (simp only: div_add_self2)
    next
      case False
      then have "limit - i + step - 1 = (limit - i - 1) + step" "limit - i - 1 < step"
        "limit - (i + step) + step - 1 < step" using True 1(2) by simp_all
      then show ?thesis using 1(2) by (simp only: div_add_self2 div_less)
    qed
    finally show ?thesis .
  qed (use 1(2) in \<open>simp add: steps_from.simps [of step limit i]\<close>)
qed

lemma steps_from_below: "j \<in> set (steps_from step limit i) \<Longrightarrow> j < limit"
  by (induction step limit i rule: steps_from.induct) (subst (asm) (2) steps_from.simps, auto split: if_splits)

text \<open>Fewer than twice the intended number of columns or rows are sampled.\<close>

lemma length_sampled:
  assumes "0 < parts"
  shows "length (steps_from (sample_step extent parts) extent 0) < 2 * parts"
proof (cases "extent < parts")
  case True
  then show ?thesis using assms by (simp add: sample_step_def length_steps_from)
next
  case False
  define q where "q = extent div parts"
  have q: "1 \<le> q" using False assms by (simp add: q_def Suc_le_eq div_greater_zero_iff)
  have "extent < q * parts + parts"
    unfolding q_def using mod_less_divisor [OF assms, of extent] div_mult_mod_eq [of extent parts] by linarith
  moreover have "parts + q \<le> q * parts + 1" using q assms by (cases q; cases parts) auto
  ultimately have "extent + q - 1 < q * (2 * parts)" using q by (simp add: algebra_simps)
  then show ?thesis
    using q by (simp add: sample_step_def length_steps_from less_mult_imp_div_less mult.commute flip: q_def)
qed

section \<open>Fingerprints\<close>

lemma prime_inverse: "1099511628211 * 14886173955864302971 = (1 :: u64)"
  by simp

lemma times_unit_inject:
  fixes a b :: "'a::comm_monoid_mult"
  assumes "p * q = 1" and "a * p = b * p"
  shows "a = b"
proof -
  have "a = a * p * q" using assms(1) by (simp add: mult.assoc)
  also have "\<dots> = b * p * q" using assms(2) by simp
  also have "\<dots> = b" using assms(1) by (simp add: mult.assoc)
  finally show ?thesis .
qed

lemmas times_prime_inject = times_unit_inject [OF prime_inverse]

lemma fingerprint_step_inject:
  "fingerprint_step p h = fingerprint_step p h' \<longleftrightarrow> h = h'"
  "fingerprint_step p h = fingerprint_step p' h \<longleftrightarrow> p = p'"
proof -
  have x: "a XOR b = a XOR c \<Longrightarrow> b = c" for a b c :: u64
    by (metis xor.left_commute xor.right_neutral xor_self_eq)
  show "fingerprint_step p h = fingerprint_step p h' \<longleftrightarrow> h = h'"
    unfolding fingerprint_step_def using times_prime_inject x by (metis xor.commute)
  show "fingerprint_step p h = fingerprint_step p' h \<longleftrightarrow> p = p'"
    unfolding fingerprint_step_def using times_prime_inject x by metis
qed

lemma fold_fingerprint_inject: "fold fingerprint_step ps h = fold fingerprint_step ps h' \<longleftrightarrow> h = h'"
  by (induction ps arbitrary: h h') (simp_all add: fingerprint_step_inject)

lemma fingerprint_differs:
  assumes "p \<noteq> p'"
  shows "fold fingerprint_step (pre @ p # post) h \<noteq> fold fingerprint_step (pre @ p' # post) h"
  using assms by (simp add: fold_fingerprint_inject fingerprint_step_inject)

section \<open>The report on a captured image\<close>

lemma fold_channels:
  "length stats = length channels \<Longrightarrow>
   fold (\<lambda>pixel (stats, samples). (map2 (\<lambda>channel st. observe_code channel pixel st) channels stats, samples + 1)) ps (stats, n) =
     (map2 (\<lambda>channel st. fold (observe_code channel) ps st) channels stats, n + of_nat (length ps :: nat) :: u64)"
proof (induction ps arbitrary: stats n)
  case Nil
  then show ?case by (simp add: list_eq_iff_nth_eq)
next
  case (Cons p ps)
  then show ?case by (simp add: list_eq_iff_nth_eq add.assoc)
qed

definition code_set :: "channel_t \<Rightarrow> u64 list \<Rightarrow> nat set" where
  "code_set channel ps = {k. k < 1024 \<and> (\<exists>p \<in> set ps. unat (unpack_code channel p) = k)}"

definition foreign_codes :: "channel_t \<Rightarrow> u64 list \<Rightarrow> nat" where
  "foreign_codes channel ps =
     (if ch_bits channel = 10 then length (filter (\<lambda>p. \<not> is_eight_to_ten_expansion (unpack_code channel p)) ps) else 0)"

lemma fold_observe:
  "length obs = 1024 \<Longrightarrow>
     snd (fold (observe_code channel) ps (obs, n)) = n + of_nat (foreign_codes channel ps) \<and>
     length (fst (fold (observe_code channel) ps (obs, n))) = 1024 \<and>
     (\<forall>k<1024. fst (fold (observe_code channel) ps (obs, n)) ! k \<longleftrightarrow> obs ! k \<or> k \<in> code_set channel ps)"
proof (induction ps arbitrary: obs n)
  case Nil
  then show ?case by (simp add: foreign_codes_def code_set_def)
next
  case (Cons p ps)
  define st where "st = observe_code channel p (obs, n)"
  have l: "length (fst st) = 1024" using Cons.prems by (simp add: st_def observe_code_def Let_def)
  have o: "fst st ! k \<longleftrightarrow> obs ! k \<or> unat (unpack_code channel p) = k" if "k < 1024" for k
    using that Cons.prems by (auto simp: st_def observe_code_def Let_def nth_list_update)
  have c: "snd st + of_nat (foreign_codes channel ps) = n + of_nat (foreign_codes channel (p # ps))"
    by (auto simp: st_def observe_code_def Let_def foreign_codes_def)
  have s: "k \<in> code_set channel (p # ps) \<longleftrightarrow> unat (unpack_code channel p) = k \<or> k \<in> code_set channel ps"
    if "k < 1024" for k using that by (auto simp: code_set_def)
  have "fold (observe_code channel) (p # ps) (obs, n) = fold (observe_code channel) ps (fst st, snd st)"
    by (simp add: st_def)
  then show ?case using Cons.IH [OF l, of "snd st"] c o s by simp
qed

lemma analyze_channel:
  "(\<lambda>st. (length (filter id (fst st)), snd st)) (fold (observe_code channel) ps (replicate 1024 False, 0)) =
     (card (code_set channel ps), of_nat (foreign_codes channel ps))"
proof -
  let ?st = "fold (observe_code channel) ps (replicate 1024 False, 0)"
  have l: "length (fst ?st) = 1024" using fold_observe [of "replicate 1024 False"] by simp
  have "{k. k < length (fst ?st) \<and> id (fst ?st ! k)} = code_set channel ps"
    unfolding l using fold_observe [of "replicate 1024 False" channel ps 0] by (auto simp: code_set_def)
  then have "length (filter id (fst ?st)) = card (code_set channel ps)"
    by (simp only: length_filter_conv_card)
  moreover have "snd ?st = of_nat (foreign_codes channel ps)"
    using fold_observe [of "replicate 1024 False" channel ps 0] by simp
  ultimately show ?thesis by simp
qed

lemma analyze_spec:
  "analyze_capture_image im channels =
     (of_nat (length (sampled_pixels im 512 256)),
      map (\<lambda>channel. (card (code_set channel (sampled_pixels im 512 256)),
                      of_nat (foreign_codes channel (sampled_pixels im 512 256)))) channels)"
proof -
  have "map2 (\<lambda>channel st. fold (observe_code channel) ps st) channels (map (\<lambda>_. (replicate 1024 False, 0)) channels) =
      map (\<lambda>channel. fold (observe_code channel) ps (replicate 1024 False, 0)) channels" for ps
    by (simp add: list_eq_iff_nth_eq)
  then show ?thesis
    unfolding analyze_capture_image_def
    by (subst fold_channels) (simp_all add: analyze_channel)
qed

section \<open>Properties\<close>

text \<open>
  The report on a captured image counts what it says, for every image and every channel list: the samples lie in
  the image and are fewer than 1024 by 512, the distinct codes of a channel are the codes below 1024 among them, and
  the codes counted as foreign to eight bits are those of a ten-bit channel whose two lowest bits do not repeat the
  two highest.
\<close>

theorem capture_analysis_counts:
  "analyze_capture_image im channels =
     (of_nat (length (sampled_pixels im 512 256)),
      map (\<lambda>channel.
        (card {k. k < 1024 \<and> (\<exists>p \<in> set (sampled_pixels im 512 256). unat (unpack_code channel p) = k)},
         if ch_bits channel = 10
         then of_nat (length (filter (\<lambda>p. \<not> (unat (unpack_code channel p) < 1024 \<and>
           unat (unpack_code channel p) mod 4 = unat (unpack_code channel p) div 256)) (sampled_pixels im 512 256)))
         else 0)) channels) \<and>
   set (sampled_pixels im 512 256) \<subseteq> {im_pixel im x y |x y. x < im_width im \<and> y < im_height im} \<and>
   length (sampled_pixels im 512 256) \<le> 1023 * 511"
proof -
  let ?xs = "steps_from (sample_step (im_width im) 512) (im_width im) 0"
  let ?ys = "steps_from (sample_step (im_height im) 256) (im_height im) 0"
  have "length ?xs < 2 * 512" "length ?ys < 2 * 256" by (rule length_sampled, simp)+
  then have "length ?xs \<le> 1023" "length ?ys \<le> 511" by simp_all
  then have "length ?ys * length ?xs \<le> 511 * 1023" by (intro mult_le_mono)
  moreover have "length (sampled_pixels im 512 256) = length ?ys * length ?xs"
    by (simp add: sampled_pixels_def length_concat comp_def sum_list_triv)
  moreover have "set (sampled_pixels im 512 256) \<subseteq> {im_pixel im x y |x y. x < im_width im \<and> y < im_height im}"
    using steps_from_below by (fastforce simp: sampled_pixels_def)
  ultimately show ?thesis
    unfolding analyze_spec by (simp add: code_set_def foreign_codes_def expansion_iff)
qed

text \<open>
  Two images of which exactly one sampled pixel differs have different fingerprints, so that the probe counts
  the transition.
\<close>

theorem fingerprint_sees_one_pixel:
  assumes "length (sampled_pixels im 128 72) = length (sampled_pixels im' 128 72)"
    and "i < length (sampled_pixels im 128 72)"
    and "\<And>j. j < length (sampled_pixels im 128 72) \<Longrightarrow>
      sampled_pixels im 128 72 ! j = sampled_pixels im' 128 72 ! j \<longleftrightarrow> j \<noteq> i"
  shows "sample_fingerprint im \<noteq> sample_fingerprint im'"
proof -
  let ?a = "sampled_pixels im 128 72" and ?b = "sampled_pixels im' 128 72"
  have "?b = ?a[i := ?b ! i]"
  proof (rule nth_equalityI)
    fix j assume "j < length ?b"
    then show "?b ! j = ?a[i := ?b ! i] ! j" using assms(1) assms(3) [of j] by (cases "j = i") auto
  qed (simp add: assms(1))
  then have b: "?b = take i ?a @ (?b ! i) # drop (Suc i) ?a" using assms(2) by (simp add: upd_conv_take_nth_drop)
  have a: "?a = take i ?a @ (?a ! i) # drop (Suc i) ?a" using assms(2) by (rule id_take_nth_drop)
  have "?a ! i \<noteq> ?b ! i" using assms(2,3) by simp
  then show ?thesis unfolding sample_fingerprint_def by (subst a, subst b) (rule fingerprint_differs)
qed

definition grey_image :: "u64 \<Rightarrow> XImage" where
  "grey_image p = \<lparr>im_width = 1, im_height = 1, im_depth = 30, im_bits_per_pixel = 32, im_bytes_per_line = 4,
     im_pixel = (\<lambda>x y. p), im_data = [0, 0, 0, 0]\<rparr>"

theorem fingerprint_sees_one_pixel_witness:
  "sampled_pixels (grey_image 1) 128 72 = [1] \<and> sample_fingerprint (grey_image 1) \<noteq> sample_fingerprint (grey_image 2)"
proof -
  have s: "sampled_pixels (grey_image p) 128 72 = [p]" for p
    by (simp add: sampled_pixels_def grey_image_def sample_step_def steps_from.simps)
  have "sample_fingerprint (grey_image 1) \<noteq> sample_fingerprint (grey_image 2)"
    by (rule fingerprint_sees_one_pixel [of _ _ 0]) (simp_all add: s)
  with s show ?thesis by simp
qed

end
