(* ===== verification/X11_Unpack.thy ===== *)
theory X11_Unpack
  imports X11_Channels Wacom_Wire Ieee_Double "HOL-Library.Multiset"
begin

text \<open>
  The host processing of \<^verbatim>\<open>probes/x11/plank-probe-x11-native10.cpp\<close>: a packed frame is unpacked into a
  green, a blue and a red plane, by one thread or by several that share the rows, and the timings are summarised.

  The planes are the three thirds of one buffer, as in \<^verbatim>\<open>benchmark_host_processing\<close>. The source is only
  read, so a worker is the list of the stores it makes; what the workers do together is any interleaving of their
  lists. Rows are 32-bit words in the byte order of the machine.
\<close>

section \<open>Unpacking\<close>

type_synonym sample_store = "nat \<times> u16"

definition source_pixel :: "bytes \<Rightarrow> nat \<Rightarrow> nat \<Rightarrow> nat \<Rightarrow> u64" where
  "source_pixel source row_pitch y x = ucast (load_le32 source (y * row_pitch + 4 * x))"

definition unpack_identity_pixel ::
    "bytes \<Rightarrow> nat \<Rightarrow> nat \<Rightarrow> nat \<Rightarrow> nat \<Rightarrow> nat \<Rightarrow> channel_t list \<Rightarrow> nat \<Rightarrow> nat \<Rightarrow> sample_store list" where
  "unpack_identity_pixel source w row_pitch green blue red channels y x =
     (let pixel = source_pixel source row_pitch y x; offset = y * w + x
      in [(red + offset, ucast (unpack_code (channels ! 0) pixel)),
          (green + offset, ucast (unpack_code (channels ! 1) pixel)),
          (blue + offset, ucast (unpack_code (channels ! 2) pixel))])"

definition unpack_identity_rows ::
    "bytes \<Rightarrow> nat \<Rightarrow> nat \<Rightarrow> nat \<Rightarrow> nat \<Rightarrow> nat \<Rightarrow> nat \<Rightarrow> nat \<Rightarrow> channel_t list \<Rightarrow> sample_store list" where
  "unpack_identity_rows source w row_pitch first_row end_row green blue red channels =
     concat (map (\<lambda>y. concat (map (unpack_identity_pixel source w row_pitch green blue red channels y) [0..<w]))
       [first_row..<end_row])"

definition store_samples :: "sample_store list \<Rightarrow> u16 list \<Rightarrow> u16 list" where
  "store_samples ws buf = fold (\<lambda>(a, v) b. b[a := v]) ws buf"

definition unpack_identity_single :: "bytes \<Rightarrow> nat \<Rightarrow> nat \<Rightarrow> nat \<Rightarrow> channel_t list \<Rightarrow> u16 list \<Rightarrow> u16 list" where
  "unpack_identity_single source w h row_pitch channels buf =
     store_samples (unpack_identity_rows source w row_pitch 0 h 0 (w * h) (2 * (w * h)) channels) buf"

text \<open>The rows of a worker: from \<^verbatim>\<open>height * index / thread_count\<close> to the same of the next index.\<close>

definition identity_workers :: "bytes \<Rightarrow> nat \<Rightarrow> nat \<Rightarrow> nat \<Rightarrow> channel_t list \<Rightarrow> nat \<Rightarrow> sample_store list list" where
  "identity_workers source w h row_pitch channels thread_count =
     map (\<lambda>i. unpack_identity_rows source w row_pitch (h * i div thread_count) (h * (i + 1) div thread_count)
           0 (w * h) (2 * (w * h)) channels) [0..<thread_count]"

text \<open>
  A schedule names the worker that makes the next store. It is complete when every worker has finished, which is
  what the joins wait for; an incomplete or impossible one is \<open>None\<close>.
\<close>

fun interleave :: "nat list \<Rightarrow> 'a list list \<Rightarrow> 'a list option" where
  "interleave [] ws = (if list_all (\<lambda>w. w = []) ws then Some [] else None)"
| "interleave (t # ts) ws =
     (if t < length ws \<and> ws ! t \<noteq> [] then map_option (Cons (hd (ws ! t))) (interleave ts (ws[t := tl (ws ! t)]))
      else None)"

definition unpack_identity_parallel ::
    "nat list \<Rightarrow> bytes \<Rightarrow> nat \<Rightarrow> nat \<Rightarrow> nat \<Rightarrow> channel_t list \<Rightarrow> nat \<Rightarrow> u16 list \<Rightarrow> u16 list option" where
  "unpack_identity_parallel schedule source w h row_pitch channels thread_count buf =
     map_option (\<lambda>ws. store_samples ws buf)
       (interleave schedule (identity_workers source w h row_pitch channels thread_count))"

section \<open>Timings\<close>

record timing_t =
  minimum_ms :: rat
  median_ms :: rat
  p95_ms :: rat
  maximum_ms :: rat

definition summarize :: "rat list \<Rightarrow> timing_t" where
  "summarize samples =
     \<lparr>minimum_ms = hd (sort samples), median_ms = percentile samples (rnd64 (50 / 100)),
      p95_ms = percentile samples (rnd64 (95 / 100)), maximum_ms = last (sort samples)\<rparr>"

text \<open>What \<^verbatim>\<open>print_timing\<close> prints after the timing itself.\<close>

definition median_gib_per_second :: "timing_t \<Rightarrow> u64 \<Rightarrow> rat" where
  "median_gib_per_second timing byte_count =
     (if 0 < median_ms timing
      then dbl_div (dbl_mul (dbl_div (dbl_of_u64 byte_count) 1073741824) 1000) (median_ms timing) else 0)"

definition parallel_threads :: "u32 \<Rightarrow> nat" where
  "parallel_threads hardware_concurrency = unat (min 8 (max 1 hardware_concurrency))"

record host_processing =
  hp_copy :: timing_t
  hp_single :: timing_t
  hp_parallel :: timing_t
  hp_threads :: nat
  hp_checksum :: u64

text \<open>
  The benchmark: a copy and a single-threaded pass to warm up, then ten times a single-threaded and a parallel pass
  over the same planes. The measured times and the schedules of the parallel passes are arguments.
\<close>

fun unpack_passes ::
    "nat list list \<Rightarrow> bytes \<Rightarrow> nat \<Rightarrow> nat \<Rightarrow> nat \<Rightarrow> channel_t list \<Rightarrow> nat \<Rightarrow> u16 list \<Rightarrow> u16 list option" where
  "unpack_passes [] source w h p ch n buf = Some buf"
| "unpack_passes (s # ss) source w h p ch n buf =
     (case unpack_identity_parallel s source w h p ch n (unpack_identity_single source w h p ch buf) of
        None \<Rightarrow> None
      | Some buf' \<Rightarrow> unpack_passes ss source w h p ch n buf')"

definition benchmark_host_processing ::
    "XImage \<Rightarrow> channel_t list \<Rightarrow> u32 \<Rightarrow> nat list list \<Rightarrow> rat list \<Rightarrow> rat list \<Rightarrow> rat list \<Rightarrow> host_processing option" where
  "benchmark_host_processing im channels hardware_concurrency schedules copy_times single_times parallel_times =
     (let n = parallel_threads hardware_concurrency;
          byte_count = im_bytes_per_line im * im_height im;
          plane_samples = im_width im * im_height im;
          copied = memcpy_at (replicate byte_count 0) 0 (im_data im) byte_count;
          planar = unpack_identity_single (im_data im) (im_width im) (im_height im) (im_bytes_per_line im) channels
            (replicate (plane_samples * 3) 0)
      in case unpack_passes schedules (im_data im) (im_width im) (im_height im) (im_bytes_per_line im) channels n planar of
           None \<Rightarrow> None
         | Some planar \<Rightarrow>
             Some \<lparr>hp_copy = summarize copy_times, hp_single = summarize single_times,
                   hp_parallel = summarize parallel_times, hp_threads = n,
                   hp_checksum = ucast (copied ! (byte_count div 2)) + ucast (planar ! (plane_samples div 2)) +
                     ucast (planar ! (plane_samples + plane_samples div 2)) +
                     ucast (planar ! (2 * plane_samples + plane_samples div 2))\<rparr>)"

section \<open>Interleavings\<close>

lemma concat_update:
  assumes "t < length ws" and "ws ! t = a # l"
  shows "mset (concat ws) = add_mset a (mset (concat (ws[t := l])))"
proof -
  have "ws = take t ws @ (a # l) # drop (Suc t) ws" using assms by (metis id_take_nth_drop)
  then have "mset (concat ws) = mset (concat (take t ws @ (a # l) # drop (Suc t) ws))" by simp
  also have "\<dots> = add_mset a (mset (concat (ws[t := l])))"
    by (simp only: upd_conv_take_nth_drop [OF assms(1)]) simp
  finally show ?thesis .
qed

lemma interleave_mset: "interleave schedule ws = Some xs \<Longrightarrow> mset xs = mset (concat ws)"
proof (induction schedule ws arbitrary: xs rule: interleave.induct)
  case (1 ws)
  then have "concat ws = []" "xs = []" by (auto simp: list_all_iff split: if_splits)
  then show ?case by simp
next
  case (2 t ts ws)
  then obtain ys where t: "t < length ws" "ws ! t \<noteq> []" and
    ys: "interleave ts (ws[t := tl (ws ! t)]) = Some ys" "xs = hd (ws ! t) # ys" by (auto split: if_splits)
  then have "ws ! t = hd (ws ! t) # tl (ws ! t)" by simp
  from concat_update [OF t(1) this] show ?case using 2(1) [OF _ ys(1)] t ys(2) by simp
qed

lemma store_samples_nth:
  assumes "distinct (map fst ws)" and "k < length buf"
  shows "store_samples ws buf ! k = (case map_of ws k of None \<Rightarrow> buf ! k | Some v \<Rightarrow> v)"
  using assms
proof (induction ws arbitrary: buf)
  case (Cons w ws)
  have "store_samples (w # ws) buf = store_samples ws (buf[fst w := snd w])"
    by (simp add: store_samples_def case_prod_beta)
  moreover have "map_of ws (fst w) = None" using Cons.prems by (simp add: map_of_eq_None_iff)
  ultimately show ?case
    using Cons by (cases "k = fst w") (simp_all split: option.splits)
qed (simp add: store_samples_def)

lemma length_store_samples [simp]: "length (store_samples ws buf) = length buf"
  by (induction ws arbitrary: buf) (auto simp: store_samples_def)

text \<open>Workers that never store to the same place: the order in which they run does not matter.\<close>

locale race_free =
  fixes workers :: "sample_store list list"
  assumes race_free: "distinct (map fst (concat workers))"
begin

lemma schedule_irrelevant:
  assumes "interleave schedule workers = Some ws"
  shows "store_samples ws buf = store_samples (concat workers) buf"
proof -
  have m: "mset ws = mset (concat workers)" by (rule interleave_mset [OF assms])
  then have "mset (map fst ws) = mset (map fst (concat workers))" by (simp only: mset_map)
  then have d: "distinct (map fst ws)" using race_free by (metis mset_eq_imp_distinct_iff)
  have "map_of ws = map_of (concat workers)"
    using map_of_inject_set [OF d race_free] m by (metis set_mset_mset)
  then show ?thesis
    using store_samples_nth [OF d] store_samples_nth [OF race_free] by (intro nth_equalityI) simp_all
qed

end

section \<open>The workers share the rows\<close>

lemma rows_append:
  assumes "a \<le> b" and "b \<le> c"
  shows "unpack_identity_rows source w p a b g bl r ch @ unpack_identity_rows source w p b c g bl r ch =
    unpack_identity_rows source w p a c g bl r ch"
  using upt_add_eq_append [OF assms(1), of "c - b"] assms by (simp add: unpack_identity_rows_def)

lemma workers_prefix:
  "concat (map (\<lambda>i. unpack_identity_rows source w p (h * i div n) (h * (i + 1) div n) g bl r ch) [0..<k]) =
     unpack_identity_rows source w p 0 (h * k div n) g bl r ch"
proof (induction k)
  case 0
  then show ?case by (simp add: unpack_identity_rows_def)
next
  case (Suc k)
  have "h * k div n \<le> h * Suc k div n" by (intro div_le_mono) simp
  then show ?case using Suc rows_append [of 0 "h * k div n" "h * Suc k div n"] by simp
qed

lemma concat_workers:
  assumes "0 < n"
  shows "concat (identity_workers source w h p ch n) = unpack_identity_rows source w p 0 h 0 (w * h) (2 * (w * h)) ch"
  unfolding identity_workers_def workers_prefix using assms by simp

section \<open>The places a frame is stored to\<close>

definition plane_address :: "nat \<Rightarrow> nat \<Rightarrow> nat \<times> nat \<times> nat \<Rightarrow> nat" where
  "plane_address w h = (\<lambda>(plane, y, x). plane * (w * h) + (y * w + x))"

lemma offset_below:
  fixes w h :: nat
  assumes "x < w" and "y < h"
  shows "y * w + x < w * h"
proof -
  have "y * w + x < Suc y * w" using assms by simp
  also have "\<dots> \<le> h * w" using assms(2) by (intro mult_le_mono1) simp
  finally show ?thesis by (simp add: mult.commute)
qed

lemma radix_inject: "a * n + b = a' * n + b' \<Longrightarrow> b < n \<Longrightarrow> b' < n \<Longrightarrow> a = a' \<and> b = b'" for a b n :: nat
  by (metis add.commute div_mult_self1 div_less mod_mult_self1 mod_less add_0 not_less_zero)

lemma plane_address_inject:
  "inj_on (plane_address w h) {(plane, y, x). y < h \<and> x < w}"
proof (rule inj_onI)
  fix s t assume "s \<in> {(plane, y, x). y < h \<and> x < w}" "t \<in> {(plane, y, x). y < h \<and> x < w}"
    and "plane_address w h s = plane_address w h t"
  then obtain q y x q' y' x' where st: "s = (q, y, x)" "t = (q', y', x')" and
    b: "y < h" "x < w" "y' < h" "x' < w" and e: "plane_address w h (q, y, x) = plane_address w h (q', y', x')" by auto
  have "q = q' \<and> y * w + x = y' * w + x'"
    using e offset_below b by (intro radix_inject [of q "w * h"]) (simp_all add: plane_address_def)
  then show "s = t" using b radix_inject [of y w x y' x'] by (simp add: st)
qed

text \<open>The sample of the planes green, blue and red, in that order, at a place.\<close>

definition plane_sample :: "bytes \<Rightarrow> nat \<Rightarrow> channel_t list \<Rightarrow> nat \<times> nat \<times> nat \<Rightarrow> u16" where
  "plane_sample source p ch = (\<lambda>(plane, y, x).
     ucast (unpack_code (ch ! (if plane = 0 then 1 else if plane = 1 then 2 else 0)) (source_pixel source p y x)))"

definition places :: "nat \<Rightarrow> nat \<Rightarrow> nat \<Rightarrow> (nat \<times> nat \<times> nat) list" where
  "places w a b = map (\<lambda>(y, x, q). (q, y, x)) (List.product [a..<b] (List.product [0..<w] [2, 0, 1]))"

lemma rows_places:
  "unpack_identity_rows source w p a b 0 (w * h) (2 * (w * h)) ch =
     map (\<lambda>t. (plane_address w h t, plane_sample source p ch t)) (places w a b)"
  by (simp add: unpack_identity_rows_def unpack_identity_pixel_def [abs_def] plane_address_def plane_sample_def places_def
      product_concat_map map_concat comp_def Let_def)

lemma set_places: "set (places w a b) = {(q, y, x). q < 3 \<and> a \<le> y \<and> y < b \<and> x < w}"
  by (auto simp: places_def image_iff)

lemma distinct_places: "distinct (places w a b)"
  unfolding places_def by (auto simp: distinct_map distinct_product inj_on_def)

lemma rows_distinct:
  "distinct (map fst (unpack_identity_rows source w p 0 h 0 (w * h) (2 * (w * h)) ch))"
proof -
  have "inj_on (plane_address w h) (set (places w 0 h))"
    by (rule inj_on_subset [OF plane_address_inject]) (auto simp: set_places)
  then show ?thesis by (simp add: rows_places comp_def distinct_map distinct_places)
qed

interpretation identity: race_free "identity_workers source w h p ch n" for source w h p ch n
proof unfold_locales
  show "distinct (map fst (concat (identity_workers source w h p ch n)))"
  proof (cases "n = 0")
    case False
    then show ?thesis using rows_distinct by (simp add: concat_workers)
  qed (simp add: identity_workers_def)
qed

text \<open>Every store is inside the planes.\<close>

lemma plane_address_below: "q < 3 \<Longrightarrow> y < h \<Longrightarrow> x < w \<Longrightarrow> plane_address w h (q, y, x) < 3 * (w * h)"
proof -
  assume "q < 3" and b: "y < h" "x < w"
  then have "q * (w * h) \<le> 2 * (w * h)" by (intro mult_le_mono1) simp
  then show "plane_address w h (q, y, x) < 3 * (w * h)"
    using offset_below [OF b(2,1)] by (simp only: plane_address_def split)
qed

lemma single_sample:
  assumes "length buf = 3 * (w * h)" and "q < 3" and "y < h" and "x < w"
  shows "unpack_identity_single source w h p ch buf ! plane_address w h (q, y, x) = plane_sample source p ch (q, y, x)"
proof -
  let ?ws = "unpack_identity_rows source w p 0 h 0 (w * h) (2 * (w * h)) ch"
  have "(plane_address w h (q, y, x), plane_sample source p ch (q, y, x)) \<in> set ?ws"
    using assms(2-4) by (auto simp: rows_places set_places)
  then have "map_of ?ws (plane_address w h (q, y, x)) = Some (plane_sample source p ch (q, y, x))"
    by (rule map_of_is_SomeI [OF rows_distinct])
  then show ?thesis
    using store_samples_nth [OF rows_distinct, of _ buf source w p h ch] plane_address_below [OF assms(2-4)] assms(1)
    by (simp add: unpack_identity_single_def)
qed

lemma parallel_single:
  assumes "0 < n" and "unpack_identity_parallel schedule source w h p ch n buf = Some buf'"
  shows "buf' = unpack_identity_single source w h p ch buf"
proof -
  obtain ws where "interleave schedule (identity_workers source w h p ch n) = Some ws" "buf' = store_samples ws buf"
    using assms(2) by (auto simp: unpack_identity_parallel_def)
  then show ?thesis
    using identity.schedule_irrelevant concat_workers [OF assms(1)] by (simp add: unpack_identity_single_def)
qed

text \<open>No schedule is stuck: while a worker has stores left, some schedule completes them all.\<close>

lemma complete_schedule: "\<exists>schedule. interleave schedule ws \<noteq> None"
proof (induction "size (mset (concat ws))" arbitrary: ws rule: less_induct)
  case less
  show ?case
  proof (cases "list_all (\<lambda>w. w = []) ws")
    case True
    then show ?thesis by (intro exI [of _ "[]"]) simp
  next
    case False
    then obtain t where t: "t < length ws" "ws ! t \<noteq> []" by (auto simp: list_all_length)
    then have "ws ! t = hd (ws ! t) # tl (ws ! t)" by simp
    then have "size (mset (concat (ws[t := tl (ws ! t)]))) < size (mset (concat ws))"
      using concat_update [OF t(1)] by (metis lessI size_add_mset)
    from less [OF this] obtain schedule where "interleave schedule (ws[t := tl (ws ! t)]) \<noteq> None" by blast
    then show ?thesis using t by (intro exI [of _ "t # schedule"]) simp
  qed
qed

section \<open>The benchmark\<close>

lemma threads_bounds: "1 \<le> parallel_threads hc \<and> parallel_threads hc \<le> 8"
proof -
  have "1 \<le> min 8 (max 1 hc)" "min 8 (max 1 hc) \<le> 8" by simp_all
  then have "unat (1 :: u32) \<le> unat (min 8 (max 1 hc))" "unat (min 8 (max 1 hc)) \<le> unat (8 :: u32)"
    by (simp_all only: word_le_nat_alt)
  then show ?thesis by (simp add: parallel_threads_def)
qed

lemma single_idem:
  "unpack_identity_single source w h p ch (unpack_identity_single source w h p ch buf) =
     unpack_identity_single source w h p ch buf"
  unfolding unpack_identity_single_def
  by (rule nth_equalityI) (simp_all add: store_samples_nth [OF rows_distinct] split: option.split)

lemma passes_single:
  assumes "0 < n"
  shows "unpack_passes ss source w h p ch n (unpack_identity_single source w h p ch buf) = Some buf' \<Longrightarrow>
    buf' = unpack_identity_single source w h p ch buf"
proof (induction ss)
  case (Cons s ss)
  then obtain b where
    b: "unpack_identity_parallel s source w h p ch n
      (unpack_identity_single source w h p ch (unpack_identity_single source w h p ch buf)) = Some b"
      "unpack_passes ss source w h p ch n b = Some buf'"
    by (auto split: option.splits)
  from parallel_single [OF assms b(1)] b(2) Cons.IH show ?case by (simp add: single_idem)
qed simp

lemma percentile_index_mono:
  assumes "0 \<le> f" and "f \<le> g"
  shows "percentile_index n f \<le> percentile_index n g"
proof -
  have "f * rnd64 (of_nat (n - 1)) \<le> g * rnd64 (of_nat (n - 1))"
    using assms(2) rnd64_nonneg [of "of_nat (n - 1)"] by (intro mult_right_mono) auto
  moreover have "0 \<le> f * rnd64 (of_nat (n - 1))"
    using assms(1) rnd64_nonneg [of "of_nat (n - 1)"] by simp
  ultimately show ?thesis
    unfolding percentile_index_def dbl_mul_def by (intro nat_mono floor_mono rnd64_mono)
qed

lemma summarize_ordered:
  assumes "samples \<noteq> []" and "length samples \<le> 2 ^ 53"
  shows "minimum_ms (summarize samples) \<le> median_ms (summarize samples)"
    "median_ms (summarize samples) \<le> p95_ms (summarize samples)"
    "p95_ms (summarize samples) \<le> maximum_ms (summarize samples)"
    "{minimum_ms (summarize samples), median_ms (summarize samples), p95_ms (summarize samples),
      maximum_ms (summarize samples)} \<subseteq> set samples"
proof -
  let ?i = "percentile_index (length samples) (rnd64 (50 / 100))"
  let ?j = "percentile_index (length samples) (rnd64 (95 / 100))"
  let ?s = "sort samples"
  have m: "rnd64 (50 / 100) \<le> rnd64 (95 / 100)" by (intro rnd64_mono) simp_all
  have ij: "?i \<le> ?j" using rnd64_fraction [of "50 / 100"] m by (intro percentile_index_mono) simp_all
  have j: "?j < length ?s"
    using assms rnd64_fraction [of "95 / 100"] by (simp add: percentile_index_bound)
  have ne: "?s \<noteq> []" using assms(1) by (metis length_0_conv length_sort)
  have eq: "minimum_ms (summarize samples) = ?s ! 0" "median_ms (summarize samples) = ?s ! ?i"
    "p95_ms (summarize samples) = ?s ! ?j" "maximum_ms (summarize samples) = ?s ! (length ?s - 1)"
    using assms(1) ne by (simp_all add: summarize_def percentile_def hd_conv_nth last_conv_nth)
  show "minimum_ms (summarize samples) \<le> median_ms (summarize samples)"
    "median_ms (summarize samples) \<le> p95_ms (summarize samples)"
    "p95_ms (summarize samples) \<le> maximum_ms (summarize samples)"
    unfolding eq by (rule sorted_nth_mono [OF sorted_sort], use ij j in linarith, use ij j in linarith)+
  have "?s ! k \<in> set samples" if "k < length ?s" for k using nth_mem [OF that] by simp
  moreover have "0 < length ?s" "?i < length ?s" "length ?s - 1 < length ?s" using ij j by linarith+
  ultimately show "{minimum_ms (summarize samples), median_ms (summarize samples), p95_ms (summarize samples),
      maximum_ms (summarize samples)} \<subseteq> set samples"
    unfolding eq using j by (intro insert_subsetI) (simp_all only: empty_subsetI)
qed

section \<open>Properties\<close>

text \<open>
  C15. However the workers that share the rows of a frame are interleaved, and however many they are, the planes end
  up as one thread alone leaves them: every pixel's green, blue and red sample at its place of its plane, and no
  worker stores outside the planes. Some complete schedule always exists.
\<close>

theorem parallel_unpack_any_schedule:
  assumes "0 < thread_count" and "length buf = 3 * (w * h)"
    and "unpack_identity_parallel schedule source w h row_pitch channels thread_count buf = Some buf'"
  shows "buf' = unpack_identity_single source w h row_pitch channels buf \<and>
    (\<forall>y<h. \<forall>x<w.
      buf' ! (y * w + x) = ucast (unpack_code (channels ! 1) (source_pixel source row_pitch y x)) \<and>
      buf' ! (w * h + (y * w + x)) = ucast (unpack_code (channels ! 2) (source_pixel source row_pitch y x)) \<and>
      buf' ! (2 * (w * h) + (y * w + x)) = ucast (unpack_code (channels ! 0) (source_pixel source row_pitch y x))) \<and>
    fst ` set (concat (identity_workers source w h row_pitch channels thread_count)) \<subseteq> {..<length buf} \<and>
    (\<exists>schedule'. unpack_identity_parallel schedule' source w h row_pitch channels thread_count buf \<noteq> None)"
proof (intro conjI allI impI)
  show s: "buf' = unpack_identity_single source w h row_pitch channels buf" by (rule parallel_single [OF assms(1,3)])
  fix y x assume b: "y < h" "x < w"
  show "buf' ! (y * w + x) = ucast (unpack_code (channels ! 1) (source_pixel source row_pitch y x))"
    "buf' ! (w * h + (y * w + x)) = ucast (unpack_code (channels ! 2) (source_pixel source row_pitch y x))"
    "buf' ! (2 * (w * h) + (y * w + x)) = ucast (unpack_code (channels ! 0) (source_pixel source row_pitch y x))"
    using single_sample [OF assms(2) _ b, of 0 source row_pitch channels]
      single_sample [OF assms(2) _ b, of 1 source row_pitch channels]
      single_sample [OF assms(2) _ b, of 2 source row_pitch channels]
    by (simp_all add: s plane_address_def plane_sample_def)
next
  show "fst ` set (concat (identity_workers source w h row_pitch channels thread_count)) \<subseteq> {..<length buf}"
    unfolding concat_workers [OF assms(1)] rows_places assms(2)
    using plane_address_below by (auto simp: set_places)
  show "\<exists>schedule'. unpack_identity_parallel schedule' source w h row_pitch channels thread_count buf \<noteq> None"
    using complete_schedule by (simp add: unpack_identity_parallel_def)
qed

definition example_channels :: "channel_t list" where
  "example_channels = [\<lparr>ch_name = ''red'', ch_mask = 0x3FF00000, ch_shift = 20, ch_bits = 10\<rparr>,
     \<lparr>ch_name = ''green'', ch_mask = 0xFFC00, ch_shift = 10, ch_bits = 10\<rparr>,
     \<lparr>ch_name = ''blue'', ch_mask = 0x3FF, ch_shift = 0, ch_bits = 10\<rparr>]"

theorem parallel_unpack_any_schedule_witness:
  "\<exists>buf'. unpack_identity_parallel [1, 0, 0, 1, 0, 1] [1, 0, 0, 0, 2, 0, 0, 0] 1 2 4 example_channels 2 (replicate 6 0) =
     Some buf' \<and> buf' = unpack_identity_single [1, 0, 0, 0, 2, 0, 0, 0] 1 2 4 example_channels (replicate 6 0)"
proof -
  have "unpack_identity_parallel [1, 0, 0, 1, 0, 1] [1, 0, 0, 0, 2, 0, 0, 0] 1 2 4 example_channels 2
      (replicate 6 0) \<noteq> None" by code_simp
  then obtain buf' where b: "unpack_identity_parallel [1, 0, 0, 1, 0, 1] [1, 0, 0, 0, 2, 0, 0, 0] 1 2 4 example_channels 2
      (replicate 6 0) = Some buf'" by blast
  have "length (replicate 6 (0 :: u16)) = 3 * (1 * 2)" by simp
  with parallel_unpack_any_schedule [OF _ this b] b show ?thesis by auto
qed

end
