(* ===== verification/X11_Surfaces.thy ===== *)
theory X11_Surfaces
  imports X11_Unpack
begin

text \<open>
  The X11 objects of \<^verbatim>\<open>probes/x11/plank-probe-x11-native10.cpp\<close>: the shared-memory image \<^verbatim>\<open>shm_image_t\<close>
  and the two round trips, which put all 1024 codes into a drawable and read them back.

  Which calls of Xlib and of System V shared memory succeed, and which pixels the server returns for the pixels
  put, are arguments. The calls that obtain and dispose of an object are logged in order.
\<close>

section \<open>Objects\<close>

datatype x_object =
    DisplayHandle | ShmImage | ShmSegment | ShmMapping | ShmAttachment | Pixmap | Gc | SourceImage | GetImage
  | TestWindow | Keepalive | RootGetImage nat

datatype x_event = Obtain x_object | Dispose x_object

text \<open>The objects held after a log; \<open>None\<close> if something is obtained twice or disposed of without being held.\<close>

fun held_after :: "x_object list \<Rightarrow> x_event list \<Rightarrow> x_object list option" where
  "held_after held [] = Some held"
| "held_after held (Obtain x # es) = (if x \<in> set held then None else held_after (x # held) es)"
| "held_after held (Dispose x # es) = (if x \<in> set held then held_after (remove1 x held) es else None)"

section \<open>The shared-memory image\<close>

record shm_image_t =
  shm_image :: "XImage option"
  shmid :: int
  has_shmaddr :: bool
  shm_attached :: bool
  marked_for_removal :: bool

record shm_env =
  env_created :: "XImage option"
  env_shmget :: int
  env_shmat :: bool
  env_attach :: bool
  env_rmid :: bool

definition shm_initial :: shm_image_t where
  "shm_initial = \<lparr>shm_image = None, shmid = -1, has_shmaddr = False, shm_attached = False, marked_for_removal = False\<rparr>"

definition only_if :: "bool \<Rightarrow> x_event \<Rightarrow> x_event list" where
  "only_if c e = (if c then [e] else [])"

text \<open>
  The calls of \<^verbatim>\<open>cleanup\<close>. It clears every field but the mark, so that a second call does nothing.
\<close>

definition shm_cleanup :: "shm_image_t \<Rightarrow> shm_image_t \<times> x_event list" where
  "shm_cleanup st =
     (st\<lparr>shm_attached := False, shm_image := None, has_shmaddr := False, shmid := -1\<rparr>,
      only_if (shm_attached st) (Dispose ShmAttachment) @ only_if (shm_image st \<noteq> None) (Dispose ShmImage) @
      only_if (has_shmaddr st) (Dispose ShmMapping) @ only_if (shmid st \<ge> 0 \<and> \<not> marked_for_removal st) (Dispose ShmSegment))"

text \<open>The body of the constructor's \<^verbatim>\<open>try\<close>: the fields when it ends or throws, and whether it threw.\<close>

definition shm_size :: "XImage \<Rightarrow> u64" where
  "shm_size im = of_nat (im_bytes_per_line im) * of_nat (im_height im)"

definition shm_build :: "shm_env \<Rightarrow> shm_image_t \<times> string option \<times> x_event list" where
  "shm_build env =
     (case env_created env of
        None \<Rightarrow> (shm_initial, Some ''XShmCreateImage failed'', [])
      | Some im \<Rightarrow>
          let st = shm_initial\<lparr>shm_image := Some im\<rparr>; calls = [Obtain ShmImage]
          in if shm_size im = 0 \<or> shm_size im > 2147483647 * 16 then (st, Some ''invalid XShm image size'', calls)
          else if env_shmget env < 0 then (st\<lparr>shmid := env_shmget env\<rparr>, Some ''shmget failed'', calls)
          else let st = st\<lparr>shmid := env_shmget env\<rparr>; calls = calls @ [Obtain ShmSegment]
          in if \<not> env_shmat env then (st, Some ''shmat failed'', calls)
          else let st = st\<lparr>has_shmaddr := True\<rparr>; calls = calls @ [Obtain ShmMapping]
          in if \<not> env_attach env then (st, Some ''XShmAttach failed'', calls)
          else let st = st\<lparr>shm_attached := True\<rparr>; calls = calls @ [Obtain ShmAttachment]
          in if \<not> env_rmid env then (st, Some ''shmctl(IPC_RMID) failed'', calls)
          else (st\<lparr>marked_for_removal := True\<rparr>, None, calls @ [Dispose ShmSegment]))"

definition shm_construct :: "shm_env \<Rightarrow> (string + shm_image_t) \<times> x_event list" where
  "shm_construct env =
     (case shm_build env of
        (st, Some e, calls) \<Rightarrow> (Inl e, calls @ snd (shm_cleanup st))
      | (st, None, calls) \<Rightarrow> (Inr st, calls))"

section \<open>The round trip through a pixmap\<close>

record controlled_env =
  ce_pixmap :: bool
  ce_gc :: bool
  ce_image :: bool
  ce_calloc :: bool
  ce_shm :: shm_env
  ce_shm_capture :: bool
  ce_get :: bool
  ce_server :: "(nat \<Rightarrow> u64) \<Rightarrow> nat \<Rightarrow> u64" \<comment> \<open>the pixels read back for the pixels put\<close>

definition source_codes :: "channel_t list \<Rightarrow> nat \<Rightarrow> u64" where
  "source_codes channels code = pack_pixel channels (of_nat code)"

definition controlled_round_trip ::
    "channel_t list \<Rightarrow> bool \<Rightarrow> controlled_env \<Rightarrow> (string + bool) \<times> x_event list" where
  "controlled_round_trip channels use_shm env =
     (let exact = exact_codes channels (ce_server env (source_codes channels))
      in if \<not> ce_pixmap env then (Inl ''XCreatePixmap failed'', [])
      else if \<not> ce_gc env then (Inl ''XCreateGC failed'', [Obtain Pixmap, Dispose Pixmap])
      else if \<not> ce_image env then (Inl ''XCreateImage failed'', [Obtain Pixmap, Obtain Gc, Dispose Gc, Dispose Pixmap])
      else if \<not> ce_calloc env
        then (Inl ''source image allocation failed'',
          [Obtain Pixmap, Obtain Gc, Obtain SourceImage, Dispose SourceImage, Dispose Gc, Dispose Pixmap])
      else if use_shm then
        (case shm_construct (ce_shm env) of
           (Inl e, calls) \<Rightarrow> (Inl e, [Obtain Pixmap, Obtain Gc, Obtain SourceImage] @ calls)
         | (Inr shm, calls) \<Rightarrow>
             (if ce_shm_capture env then Inr exact else Inl ''controlled XShmGetImage failed'',
              [Obtain Pixmap, Obtain Gc, Obtain SourceImage] @ calls @ snd (shm_cleanup shm) @
              [Dispose SourceImage, Dispose Gc, Dispose Pixmap]))
      else if \<not> ce_get env
        then (Inl ''controlled XGetImage failed'',
          [Obtain Pixmap, Obtain Gc, Obtain SourceImage, Dispose SourceImage, Dispose Gc, Dispose Pixmap])
      else (Inr exact,
        [Obtain Pixmap, Obtain Gc, Obtain SourceImage, Obtain GetImage, Dispose GetImage, Dispose SourceImage,
         Dispose Gc, Dispose Pixmap]))"

section \<open>The round trip through a window\<close>

record visible_env =
  ve_window :: bool
  ve_gc :: bool
  ve_root_attributes :: bool
  ve_image :: bool
  ve_calloc :: bool
  ve_get :: bool
  ve_shm :: shm_env
  ve_shm_capture :: bool
  ve_get_server :: "(nat \<Rightarrow> nat \<Rightarrow> u64) \<Rightarrow> nat \<Rightarrow> nat \<Rightarrow> u64"
  ve_shm_server :: "(nat \<Rightarrow> nat \<Rightarrow> u64) \<Rightarrow> nat \<Rightarrow> nat \<Rightarrow> u64"

record visible_round_trip_t =
  xgetimage_exact :: bool
  xshm_exact :: bool

text \<open>The image has the same codes in each of its 32 rows; row 16 is compared.\<close>

definition visible_source :: "channel_t list \<Rightarrow> nat \<Rightarrow> nat \<Rightarrow> u64" where
  "visible_source channels x y = source_codes channels x"

definition visible_drawable_round_trip ::
    "channel_t list \<Rightarrow> visible_env \<Rightarrow> (string + visible_round_trip_t) \<times> x_event list" where
  "visible_drawable_round_trip channels env =
     (let exact = \<lambda>server. exact_codes channels (\<lambda>code. server (visible_source channels) code 16)
      in if \<not> ve_window env then (Inl ''XCreateSimpleWindow failed'', [])
      else if \<not> ve_gc env then (Inl ''visible-window XCreateGC failed'', [Obtain TestWindow, Dispose TestWindow])
      else if \<not> ve_root_attributes env
        then (Inl ''visible-window root attributes failed'', [Obtain TestWindow, Obtain Gc, Dispose Gc, Dispose TestWindow])
      else if \<not> ve_image env
        then (Inl ''visible-window XCreateImage failed'', [Obtain TestWindow, Obtain Gc, Dispose Gc, Dispose TestWindow])
      else if \<not> ve_calloc env
        then (Inl ''visible-window image allocation failed'',
          [Obtain TestWindow, Obtain Gc, Obtain SourceImage, Dispose SourceImage, Dispose Gc, Dispose TestWindow])
      else if \<not> ve_get env
        then (Inl ''visible-root XGetImage failed'',
          [Obtain TestWindow, Obtain Gc, Obtain SourceImage, Dispose SourceImage, Dispose Gc, Dispose TestWindow])
      else
        (case shm_construct (ve_shm env) of
           (Inl e, calls) \<Rightarrow> (Inl e, [Obtain TestWindow, Obtain Gc, Obtain SourceImage, Obtain GetImage] @ calls)
         | (Inr shm, calls) \<Rightarrow>
             (if ve_shm_capture env
              then Inr \<lparr>xgetimage_exact = exact (ve_get_server env), xshm_exact = exact (ve_shm_server env)\<rparr>
              else Inl ''visible-root XShmGetImage failed'',
              [Obtain TestWindow, Obtain Gc, Obtain SourceImage, Obtain GetImage] @ calls @
              [Dispose GetImage, Dispose SourceImage, Dispose Gc, Dispose TestWindow] @ snd (shm_cleanup shm))))"

section \<open>Following the logs\<close>

lemma held_after_append: "held_after held (a @ b) = Option.bind (held_after held a) (\<lambda>h. held_after h b)"
  by (induction held a rule: held_after.induct) auto

definition event_object :: "x_event \<Rightarrow> x_object" where
  "event_object e = (case e of Obtain x \<Rightarrow> x | Dispose x \<Rightarrow> x)"

text \<open>A log that works on its own objects leaves the others alone.\<close>

lemma held_after_frame:
  assumes "held_after own es = Some own'" and "event_object ` set es \<inter> set others = {}"
  shows "held_after (own @ others) es = Some (own' @ others)"
  using assms
  by (induction own es rule: held_after.induct) (auto simp: event_object_def remove1_append split: if_splits)

definition shm_objects :: "x_object set" where
  "shm_objects = {ShmImage, ShmSegment, ShmMapping, ShmAttachment}"

lemma shm_build_follow:
  "shm_build env = (st, e, calls) \<Longrightarrow>
     event_object ` set (calls @ snd (shm_cleanup st)) \<subseteq> shm_objects \<and>
     held_after [] (calls @ snd (shm_cleanup st)) = Some [] \<and>
     (e = None \<longrightarrow> shm_image st = env_created env \<and> marked_for_removal st \<and>
        held_after [] calls = Some [ShmAttachment, ShmMapping, ShmImage])"
  unfolding shm_build_def shm_cleanup_def only_if_def shm_initial_def Let_def shm_objects_def
  by (auto simp: event_object_def split: option.splits if_splits)

lemma shm_construct_Inl:
  assumes "shm_construct env = (Inl e, calls)"
  shows "held_after [] calls = Some []" and "event_object ` set calls \<subseteq> shm_objects"
proof -
  obtain st c where b: "shm_build env = (st, Some e, c)" "calls = c @ snd (shm_cleanup st)"
    using assms by (auto simp: shm_construct_def split: prod.splits option.splits)
  with shm_build_follow [OF b(1)] show "held_after [] calls = Some []" "event_object ` set calls \<subseteq> shm_objects"
    by (simp_all only:)
qed

lemma shm_construct_Inr:
  assumes "shm_construct env = (Inr st, calls)"
  shows "held_after [] calls = Some [ShmAttachment, ShmMapping, ShmImage]"
    and "held_after [ShmAttachment, ShmMapping, ShmImage] (snd (shm_cleanup st)) = Some []"
    and "event_object ` set calls \<subseteq> shm_objects" and "event_object ` set (snd (shm_cleanup st)) \<subseteq> shm_objects"
    and "marked_for_removal st" and "shm_image st = env_created env"
proof -
  have b: "shm_build env = (st, None, calls)"
    using assms by (auto simp: shm_construct_def split: prod.splits option.splits)
  note f = shm_build_follow [OF b]
  show h: "held_after [] calls = Some [ShmAttachment, ShmMapping, ShmImage]" using f by blast
  from f have "held_after [] (calls @ snd (shm_cleanup st)) = Some []" by blast
  with h show "held_after [ShmAttachment, ShmMapping, ShmImage] (snd (shm_cleanup st)) = Some []"
    by (simp add: held_after_append)
  show "event_object ` set calls \<subseteq> shm_objects" "event_object ` set (snd (shm_cleanup st)) \<subseteq> shm_objects"
    using f by (simp_all add: image_Un)
  show "marked_for_removal st" "shm_image st = env_created env" using f by blast+
qed

text \<open>The calls that destroy an image that was constructed: its segment is already marked.\<close>

lemma cleanup_calls:
  assumes "shm_construct env = (Inr st, calls)"
  shows "snd (shm_cleanup st) = [Dispose ShmAttachment, Dispose ShmImage, Dispose ShmMapping]"
proof -
  have "shm_build env = (st, None, calls)"
    using assms by (auto simp: shm_construct_def split: prod.splits option.splits)
  then show ?thesis
    by (auto simp: shm_build_def shm_cleanup_def only_if_def shm_initial_def Let_def split: option.splits if_splits)
qed

text \<open>An image that is constructed, and one that is destroyed, beside other objects.\<close>

lemma shm_beside:
  assumes "set others \<inter> shm_objects = {}"
  shows "shm_construct env = (Inl e, calls) \<Longrightarrow> held_after others calls = Some others"
    and "shm_construct env = (Inr st, calls) \<Longrightarrow>
      held_after others calls = Some ([ShmAttachment, ShmMapping, ShmImage] @ others)"
    and "shm_construct env = (Inr st, calls) \<Longrightarrow>
      held_after ([ShmAttachment, ShmMapping, ShmImage] @ others) (snd (shm_cleanup st)) = Some others"
  using held_after_frame [of "[]" calls "[]" others] shm_construct_Inl [of env e calls]
    held_after_frame [of "[]" calls "[ShmAttachment, ShmMapping, ShmImage]" others]
    held_after_frame [of "[ShmAttachment, ShmMapping, ShmImage]" "snd (shm_cleanup st)" "[]" others]
    shm_construct_Inr [of env st calls] assms
  by (simp_all) blast+

section \<open>What the round trips leave\<close>

definition shm_throws :: "shm_env \<Rightarrow> bool" where
  "shm_throws env = isl (fst (shm_construct env))"

definition controlled_leaks :: "bool \<Rightarrow> controlled_env \<Rightarrow> bool" where
  "controlled_leaks use_shm env \<longleftrightarrow>
     use_shm \<and> ce_pixmap env \<and> ce_gc env \<and> ce_image env \<and> ce_calloc env \<and> shm_throws (ce_shm env)"

lemma controlled_follow:
  assumes "controlled_round_trip channels use_shm env = (r, calls)"
  shows "held_after [] calls = Some (if controlled_leaks use_shm env then [SourceImage, Gc, Pixmap] else [])"
proof (cases "ce_pixmap env \<and> ce_gc env \<and> ce_image env \<and> ce_calloc env \<and> use_shm")
  case True
  obtain res c where c: "shm_construct (ce_shm env) = (res, c)" by fastforce
  have d: "set [SourceImage, Gc, Pixmap] \<inter> shm_objects = {}" by (simp add: shm_objects_def)
  show ?thesis
  proof (cases res)
    case (Inl e)
    then show ?thesis
      using assms True c shm_beside(1) [OF d, of "ce_shm env" e c]
      by (auto simp: controlled_round_trip_def controlled_leaks_def shm_throws_def)
  next
    case (Inr st)
    then have "calls = [Obtain Pixmap, Obtain Gc, Obtain SourceImage] @ c @ snd (shm_cleanup st) @
        [Dispose SourceImage, Dispose Gc, Dispose Pixmap]"
      using assms True c by (auto simp: controlled_round_trip_def Let_def)
    then show ?thesis
      using shm_beside(2,3) [OF d] c Inr
      by (simp add: held_after_append controlled_leaks_def shm_throws_def)
  qed
next
  case False
  then show ?thesis
    using assms by (auto simp: controlled_round_trip_def controlled_leaks_def Let_def split: if_splits)
qed

definition visible_leaks :: "visible_env \<Rightarrow> bool" where
  "visible_leaks env \<longleftrightarrow>
     ve_window env \<and> ve_gc env \<and> ve_root_attributes env \<and> ve_image env \<and> ve_calloc env \<and> ve_get env \<and>
     shm_throws (ve_shm env)"

lemma visible_follow:
  assumes "visible_drawable_round_trip channels env = (r, calls)"
  shows "held_after [] calls = Some (if visible_leaks env then [GetImage, SourceImage, Gc, TestWindow] else [])"
proof (cases "ve_window env \<and> ve_gc env \<and> ve_root_attributes env \<and> ve_image env \<and> ve_calloc env \<and> ve_get env")
  case True
  obtain res c where c: "shm_construct (ve_shm env) = (res, c)" by fastforce
  have d: "set [GetImage, SourceImage, Gc, TestWindow] \<inter> shm_objects = {}" by (simp add: shm_objects_def)
  show ?thesis
  proof (cases res)
    case (Inl e)
    then show ?thesis
      using assms True c shm_beside(1) [OF d, of "ve_shm env" e c]
      by (auto simp: visible_drawable_round_trip_def visible_leaks_def shm_throws_def)
  next
    case (Inr st)
    then have "calls = [Obtain TestWindow, Obtain Gc, Obtain SourceImage, Obtain GetImage] @ c @
        [Dispose GetImage, Dispose SourceImage, Dispose Gc, Dispose TestWindow] @ snd (shm_cleanup st)"
      using assms True c by (auto simp: visible_drawable_round_trip_def Let_def)
    then show ?thesis
      using shm_beside(2) [OF d] shm_construct_Inr(2) c Inr
      by (simp add: held_after_append visible_leaks_def shm_throws_def)
  qed
next
  case False
  then show ?thesis
    using assms by (auto simp: visible_drawable_round_trip_def visible_leaks_def Let_def split: if_splits)
qed

text \<open>The objects the round trips work on, and that a round trip that returns has no leak.\<close>

definition trip_objects :: "x_object set" where
  "trip_objects = {Pixmap, Gc, SourceImage, GetImage, TestWindow} \<union> shm_objects"

lemma shm_calls_objects:
  "shm_construct env = (r, calls) \<Longrightarrow> event_object ` set calls \<subseteq> shm_objects"
  using shm_construct_Inl(2) [of env _ calls] shm_construct_Inr(3) [of env _ calls] by (cases r) auto

lemma controlled_objects:
  assumes "controlled_round_trip channels use_shm env = (r, calls)"
  shows "event_object ` set calls \<subseteq> trip_objects" and "\<not> isl r \<Longrightarrow> \<not> controlled_leaks use_shm env"
proof -
  obtain res c where c: "shm_construct (ce_shm env) = (res, c)" by fastforce
  note o = shm_calls_objects [OF c]
  have cl: "event_object ` set (snd (shm_cleanup st)) \<subseteq> shm_objects" if "res = Inr st" for st
    using shm_construct_Inr(4) c that by blast
  have "event_object ` set calls \<subseteq> {Pixmap, Gc, SourceImage, GetImage} \<union> event_object ` set c \<union>
      (case res of Inl e \<Rightarrow> {} | Inr st \<Rightarrow> event_object ` set (snd (shm_cleanup st)))"
    using assms c
    by (cases res) (auto simp: controlled_round_trip_def Let_def event_object_def image_Un split: if_splits)
  moreover have "(case res of Inl e \<Rightarrow> {} | Inr st \<Rightarrow> event_object ` set (snd (shm_cleanup st))) \<subseteq> shm_objects"
    using cl by (cases res) simp_all
  ultimately show "event_object ` set calls \<subseteq> trip_objects"
    using o unfolding trip_objects_def by blast
  show "\<not> isl r \<Longrightarrow> \<not> controlled_leaks use_shm env"
    using assms c by (cases res) (auto simp: controlled_round_trip_def controlled_leaks_def shm_throws_def Let_def)
qed

lemma visible_objects:
  assumes "visible_drawable_round_trip channels env = (r, calls)"
  shows "event_object ` set calls \<subseteq> trip_objects" and "\<not> isl r \<Longrightarrow> \<not> visible_leaks env"
proof -
  obtain res c where c: "shm_construct (ve_shm env) = (res, c)" by fastforce
  note o = shm_calls_objects [OF c]
  have cl: "event_object ` set (snd (shm_cleanup st)) \<subseteq> shm_objects" if "res = Inr st" for st
    using shm_construct_Inr(4) c that by blast
  have "event_object ` set calls \<subseteq> {TestWindow, Gc, SourceImage, GetImage} \<union> event_object ` set c \<union>
      (case res of Inl e \<Rightarrow> {} | Inr st \<Rightarrow> event_object ` set (snd (shm_cleanup st)))"
    using assms c
    by (cases res) (auto simp: visible_drawable_round_trip_def Let_def event_object_def image_Un split: if_splits)
  moreover have "(case res of Inl e \<Rightarrow> {} | Inr st \<Rightarrow> event_object ` set (snd (shm_cleanup st))) \<subseteq> shm_objects"
    using cl by (cases res) simp_all
  ultimately show "event_object ` set calls \<subseteq> trip_objects"
    using o unfolding trip_objects_def by blast
  show "\<not> isl r \<Longrightarrow> \<not> visible_leaks env"
    using assms c by (cases res) (auto simp: visible_drawable_round_trip_def visible_leaks_def shm_throws_def Let_def)
qed

section \<open>Properties\<close>

text \<open>
  C19. A round trip through a server that returns the pixels put succeeds exactly when the masks are contiguous. The
  gate of the probe only asks for ten bits and no overlap, so a visual with scattered mask bits fails the round trip
  although nothing was altered.
\<close>

theorem faithful_round_trip:
  assumes "masks = rgb_channels r g b" and "\<not> masks_overlap masks" and "\<forall>channel \<in> set masks. ch_bits channel = 10"
    and "\<And>f code. code < 1024 \<Longrightarrow> ce_server env f code = f code"
    and "controlled_round_trip masks use_shm env = (Inr exact, calls)"
  shows "exact \<longleftrightarrow> contiguous 10 r \<and> contiguous 10 g \<and> contiguous 10 b"
proof -
  have "exact = exact_codes masks (ce_server env (source_codes masks))"
    using assms(5) by (auto simp: controlled_round_trip_def Let_def split: if_splits sum.splits prod.splits)
  also have "\<dots> = exact_codes masks (source_codes masks)"
    using assms(4) by (simp add: exact_codes_def list_all_iff)
  also have "\<dots> \<longleftrightarrow> contiguous 10 r \<and> contiguous 10 g \<and> contiguous 10 b"
    using exact_codes_pixel [of r g b] assms(2,3) by (simp add: assms(1) source_codes_def [abs_def])
  finally show ?thesis .
qed

definition faithful_env :: controlled_env where
  "faithful_env = \<lparr>ce_pixmap = True, ce_gc = True, ce_image = True, ce_calloc = True,
     ce_shm = \<lparr>env_created = None, env_shmget = -1, env_shmat = False, env_attach = False, env_rmid = False\<rparr>,
     ce_shm_capture = False, ce_get = True, ce_server = (\<lambda>f. f)\<rparr>"

lemma faithful_masks:
  "trailing_zeroes 0x3FF00000 = 20" "trailing_zeroes 0xFFC00 = 10" "trailing_zeroes 0x3FF = 0" "trailing_zeroes 0x7BF = 0"
  "bit_count 0x3FF00000 = 10" "bit_count 0xFFC00 = 10" "bit_count 0x3FF = 10" "bit_count 0x7FE00000 = 10"
  "bit_count 0x1FF800 = 10" "bit_count 0x7BF = 10"
  by (simp_all add: trailing_zeroes_def shift_to_first.simps bit_count_def count_ones.simps)

theorem faithful_round_trip_witness:
  "fst (controlled_round_trip (rgb_channels 0x3FF00000 0xFFC00 0x3FF) False faithful_env) = Inr True \<and>
   fst (controlled_round_trip (rgb_channels 0x7FE00000 0x1FF800 0x7BF) False faithful_env) = Inr False"
proof -
  have run: "\<exists>e calls. controlled_round_trip channels False faithful_env = (Inr e, calls)" for channels
    by (simp add: controlled_round_trip_def faithful_env_def)
  obtain e calls e' calls' where
    r: "controlled_round_trip (rgb_channels 0x3FF00000 0xFFC00 0x3FF) False faithful_env = (Inr e, calls)"
      "controlled_round_trip (rgb_channels 0x7FE00000 0x1FF800 0x7BF) False faithful_env = (Inr e', calls')"
    using run by metis
  have server: "ce_server faithful_env f code = f code" for f code by (simp add: faithful_env_def)
  have "e \<longleftrightarrow> contiguous 10 0x3FF00000 \<and> contiguous 10 0xFFC00 \<and> contiguous 10 0x3FF"
    by (rule faithful_round_trip [OF refl _ _ server r(1)]) (simp_all add: masks_overlap_def faithful_masks)
  moreover have "e' \<longleftrightarrow> contiguous 10 0x7FE00000 \<and> contiguous 10 0x1FF800 \<and> contiguous 10 0x7BF"
    by (rule faithful_round_trip [OF refl _ _ server r(2)]) (simp_all add: masks_overlap_def faithful_masks)
  moreover have "contiguous 10 0x3FF00000" "contiguous 10 0xFFC00" "contiguous 10 0x3FF" "\<not> contiguous 10 0x7BF"
    by (simp_all add: contiguous_def faithful_masks mask_eq_exp_minus_1)
  ultimately show ?thesis using r by simp
qed

end
