(* ===== verification/X11_Run.thy ===== *)
theory X11_Run
  imports X11_Surfaces C_Strings
begin

text \<open>
  The program of \<^verbatim>\<open>probes/x11/plank-probe-x11-native10.cpp\<close>: its arguments, the gates on the root window, the
  compositor's overlay and the captured drawable, the round trips, the two capture loops, the verdict and the
  exit status, with everything the program obtains and disposes of on the way.

  What the X server and the clock answer is one record of arguments.
\<close>

section \<open>Arguments\<close>

text \<open>The first place of the option counts; the last argument is never one, as it has no value.\<close>

fun x11_parse_frames :: "string list \<Rightarrow> string \<Rightarrow> int \<Rightarrow> string + int" where
  "x11_parse_frames (a # v # rest) name default_value =
     (if a = name then
        (case stoi v of
           None \<Rightarrow> Inl ''stoi''
         | Some n \<Rightarrow> if n \<le> 0 \<or> n > 1000 then Inl (name @ '' must be between 1 and 1000'') else Inr n)
      else x11_parse_frames (v # rest) name default_value)"
| "x11_parse_frames [] name default_value = Inr default_value"
| "x11_parse_frames [a] name default_value = Inr default_value"

text \<open>\<^verbatim>\<open>std::stoul\<close> in a given base, with the text after the number.\<close>

definition stoul_base :: "nat \<Rightarrow> string \<Rightarrow> (nat \<times> string) option" where
  "stoul_base base str =
     (let s = dropWhile c_isspace str;
          negative = (s \<noteq> [] \<and> hd s = CHR ''-'');
          s = (if s \<noteq> [] \<and> (hd s = CHR ''-'' \<or> hd s = CHR ''+'') then tl s else s);
          (b, s) = choose_base base s
      in if s = [] \<or> \<not> is_digit b (hd s) then None
         else let (v, rest) = read_digits b 0 s
              in if v \<ge> 2 ^ 64 then None else Some (if negative then (2 ^ 64 - v) mod 2 ^ 64 else v, rest))"

fun parse_drawable :: "string list \<Rightarrow> string + u64 option" where
  "parse_drawable (a # v # rest) =
     (if a = ''--drawable'' then
        (case stoul_base 0 v of
           None \<Rightarrow> Inl ''stoul''
         | Some (n, remaining) \<Rightarrow>
             if remaining \<noteq> [] \<or> n = 0 then Inl ''--drawable must be a nonzero X11 window ID'' else Inr (Some (of_nat n)))
      else parse_drawable (v # rest))"
| "parse_drawable [] = Inr None"
| "parse_drawable [a] = Inr None"

definition has_flag :: "string list \<Rightarrow> string \<Rightarrow> bool" where
  "has_flag args name = list_ex (\<lambda>a. a = name) args"

record x11_arguments =
  xa_shm_frames :: nat
  xa_get_frames :: nat
  xa_fps :: nat
  xa_drawable :: "u64 option"
  xa_force_composite :: bool

definition x11_parse :: "string list \<Rightarrow> string + x11_arguments" where
  "x11_parse args =
     (case x11_parse_frames args ''--shm-frames'' 20 of Inl e \<Rightarrow> Inl e | Inr shm_frames \<Rightarrow>
      case x11_parse_frames args ''--get-frames'' 3 of Inl e \<Rightarrow> Inl e | Inr get_frames \<Rightarrow>
      case x11_parse_frames args ''--fps'' 0 of Inl e \<Rightarrow> Inl e | Inr fps \<Rightarrow>
      case parse_drawable args of Inl e \<Rightarrow> Inl e | Inr drawable \<Rightarrow>
      Inr \<lparr>xa_shm_frames = nat shm_frames, xa_get_frames = nat get_frames, xa_fps = nat fps, xa_drawable = drawable,
           xa_force_composite = has_flag args ''--force-composite''\<rparr>)"

section \<open>What the server answers\<close>

record x_attributes =
  at_width :: nat
  at_height :: nat
  at_depth :: nat
  at_red :: u64
  at_green :: u64
  at_blue :: u64

record x11_env =
  xe_open :: bool
  xe_root :: "x_attributes option"
  xe_shm_extension :: bool
  xe_composite :: bool
  xe_overlay :: u64
  xe_overlay_attributes :: "x_attributes option"
  xe_keepalive :: bool
  xe_drawable_attributes :: "u64 \<Rightarrow> x_attributes option"
  xe_get_trip :: controlled_env
  xe_shm_trip :: controlled_env
  xe_visible_root :: visible_env
  xe_visible_overlay :: visible_env
  xe_root_shm :: shm_env
  xe_shm_frame :: "nat \<Rightarrow> ((nat \<Rightarrow> nat \<Rightarrow> u64) \<times> bytes) option" \<comment> \<open>the contents captured, or a failure\<close>
  xe_get_frame :: "nat \<Rightarrow> bool"
  xe_shm_ms :: "nat \<Rightarrow> rat"
  xe_get_ms :: "nat \<Rightarrow> rat"
  xe_start :: nat \<comment> \<open>the clock before the first capture, in nanoseconds\<close>
  xe_hardware_concurrency :: u32
  xe_schedules :: "nat list list"
  xe_copy_ms :: "rat list"
  xe_single_ms :: "rat list"
  xe_parallel_ms :: "rat list"

definition attribute_channels :: "x_attributes \<Rightarrow> channel_t list" where
  "attribute_channels a = rgb_channels (at_red a) (at_green a) (at_blue a)"

datatype x_exit = Threw string | Returned int

type_synonym 'a phase = "(x_exit + 'a) \<times> x_event list"

definition x_then :: "'a phase \<Rightarrow> ('a \<Rightarrow> 'b phase) \<Rightarrow> 'b phase" where
  "x_then m f =
     (case m of
        (Inl e, calls) \<Rightarrow> (Inl e, calls)
      | (Inr a, calls) \<Rightarrow> (fst (f a), calls @ snd (f a)))"

definition throwing :: "(string + 'a) \<times> x_event list \<Rightarrow> 'a phase" where
  "throwing m = (case m of (Inl e, calls) \<Rightarrow> (Inl (Threw e), calls) | (Inr a, calls) \<Rightarrow> (Inr a, calls))"

section \<open>The gates\<close>

definition channels_match :: "channel_t list \<Rightarrow> channel_t list \<Rightarrow> bool" where
  "channels_match left right = list_all2 (\<lambda>l r. ch_mask l = ch_mask r \<and> ch_bits l = ch_bits r) left right"

definition native_10_bit :: "channel_t list \<Rightarrow> x_attributes \<Rightarrow> bool" where
  "native_10_bit channels a \<longleftrightarrow> at_depth a = 30 \<and> channels_match channels (attribute_channels a)"

definition masks_are_10_bit :: "channel_t list \<Rightarrow> bool" where
  "masks_are_10_bit channels = list_all (\<lambda>channel. ch_bits channel = 10) channels"

text \<open>The root window and the overlay.\<close>

definition x11_gate :: "x11_env \<Rightarrow> (x_attributes \<times> x_attributes) phase" where
  "x11_gate env =
     (case xe_root env of
        None \<Rightarrow> (Inl (Threw ''XGetWindowAttributes failed''), [])
      | Some rootw \<Rightarrow>
          let channels = attribute_channels rootw
          in if at_depth rootw \<noteq> 30 \<or> \<not> masks_are_10_bit channels \<or> masks_overlap channels then (Inl (Returned 2), [])
          else if \<not> xe_shm_extension env then (Inl (Returned 2), [])
          else if \<not> xe_composite env then (Inl (Returned 2), [])
          else if xe_overlay env = 0 then (Inl (Threw ''XComposite overlay discovery failed''), [])
          else (case xe_overlay_attributes env of
             None \<Rightarrow> (Inl (Threw ''XComposite overlay discovery failed''), [])
           | Some overlay \<Rightarrow>
               if \<not> native_10_bit channels overlay \<or> at_width overlay \<noteq> at_width rootw \<or> at_height overlay \<noteq> at_height rootw
               then (Inl (Returned 2), []) else (Inr (rootw, overlay), [])))"

text \<open>The window that keeps the compositor running, and the captured drawable.\<close>

definition x11_target :: "x11_env \<Rightarrow> x11_arguments \<Rightarrow> x_attributes \<Rightarrow> x_attributes \<Rightarrow> x_attributes phase" where
  "x11_target env a rootw overlay =
     (if xa_force_composite a \<and> \<not> xe_keepalive env
      then (Inl (Threw ''compositor keepalive window creation failed''), [])
      else
        (case (case xa_drawable a of None \<Rightarrow> Some overlay | Some d \<Rightarrow> xe_drawable_attributes env d) of
           None \<Rightarrow> Inl (Threw ''explicit capture drawable attributes failed'')
         | Some capture \<Rightarrow> if native_10_bit (attribute_channels rootw) capture then Inr capture else Inl (Returned 2),
         only_if (xa_force_composite a) (Obtain Keepalive)))"

section \<open>The round trips\<close>

record x11_trips =
  get_round_trip :: bool
  shm_round_trip :: bool
  visible_root_round_trip :: visible_round_trip_t
  visible_overlay_round_trip :: visible_round_trip_t

definition not_visible :: visible_round_trip_t where
  "not_visible = \<lparr>xgetimage_exact = False, xshm_exact = False\<rparr>"

definition x11_round_trips :: "x11_env \<Rightarrow> x11_arguments \<Rightarrow> x_attributes \<Rightarrow> x_attributes \<Rightarrow> x11_trips phase" where
  "x11_round_trips env a rootw overlay =
     x_then (throwing (controlled_round_trip (attribute_channels rootw) False (xe_get_trip env))) (\<lambda>get.
     x_then (throwing (controlled_round_trip (attribute_channels rootw) True (xe_shm_trip env))) (\<lambda>shm.
     if xa_drawable a \<noteq> None
     then (Inr \<lparr>get_round_trip = get, shm_round_trip = shm, visible_root_round_trip = not_visible,
                visible_overlay_round_trip = not_visible\<rparr>, [])
     else
       x_then (throwing (visible_drawable_round_trip (attribute_channels rootw) (xe_visible_root env))) (\<lambda>vroot.
       x_then (throwing (visible_drawable_round_trip (attribute_channels overlay) (xe_visible_overlay env))) (\<lambda>voverlay.
       (Inr \<lparr>get_round_trip = get, shm_round_trip = shm, visible_root_round_trip = vroot,
             visible_overlay_round_trip = voverlay\<rparr>, [])))))"

section \<open>The capture loops\<close>

record capture_stats =
  cs_image :: XImage
  cs_fingerprints :: "u64 list" \<comment> \<open>the set, without repetitions\<close>
  cs_previous :: u64
  cs_changed :: nat
  cs_next :: nat

text \<open>A captured frame; with a frame rate the next wake-up moves by one interval.\<close>

definition x11_capture_frame :: "nat \<Rightarrow> nat \<Rightarrow> (nat \<Rightarrow> nat \<Rightarrow> u64) \<times> bytes \<Rightarrow> capture_stats \<Rightarrow> capture_stats" where
  "x11_capture_frame fps frame contents st =
     (let im = (cs_image st)\<lparr>im_pixel := fst contents, im_data := snd contents\<rparr>; fingerprint = sample_fingerprint im
      in \<lparr>cs_image = im, cs_fingerprints = List.insert fingerprint (cs_fingerprints st), cs_previous = fingerprint,
          cs_changed = (if frame \<noteq> 0 \<and> fingerprint \<noteq> cs_previous st then Suc (cs_changed st) else cs_changed st),
          cs_next = (if fps > 0 then cs_next st + 1000000000 div fps else cs_next st)\<rparr>)"

fun capture_loop :: "x11_env \<Rightarrow> nat \<Rightarrow> nat \<Rightarrow> nat \<Rightarrow> capture_stats \<Rightarrow> string + capture_stats" where
  "capture_loop env fps frame 0 st = Inr st"
| "capture_loop env fps frame (Suc n) st =
     (case xe_shm_frame env frame of
        None \<Rightarrow> Inl ''capture drawable XShmGetImage failed''
      | Some contents \<Rightarrow> capture_loop env fps (Suc frame) n (x11_capture_frame fps frame contents st))"

text \<open>Every image replaces the one before; the last is kept.\<close>

fun get_loop :: "(nat \<Rightarrow> bool) \<Rightarrow> nat \<Rightarrow> nat \<Rightarrow> nat option \<Rightarrow> (string + nat option) \<times> x_event list" where
  "get_loop ok frame 0 kept = (Inr kept, [])"
| "get_loop ok frame (Suc n) kept =
     (if \<not> ok frame then (Inl ''capture drawable XGetImage failed'', [])
      else case get_loop ok (Suc frame) n (Some frame) of
        (r, calls) \<Rightarrow>
          (r, Obtain (RootGetImage frame) # (case kept of None \<Rightarrow> [] | Some k \<Rightarrow> [Dispose (RootGetImage k)]) @ calls))"

section \<open>The verdict\<close>

record x11_report =
  xr_shm_timing :: timing_t
  xr_get_timing :: timing_t
  xr_distinct :: nat
  xr_changed :: nat
  xr_analysis :: "u64 \<times> (nat \<times> u64) list"
  xr_host :: "host_processing option"
  xr_pass :: bool

definition x11_pass :: "x11_arguments \<Rightarrow> x11_trips \<Rightarrow> XImage \<Rightarrow> bool" where
  "x11_pass a trips im \<longleftrightarrow>
     get_round_trip trips \<and> shm_round_trip trips \<and>
     (xa_drawable a \<noteq> None \<or>
      xgetimage_exact (visible_overlay_round_trip trips) \<and> xshm_exact (visible_overlay_round_trip trips)) \<and>
     im_depth im = 30 \<and> im_bits_per_pixel im = 32"

definition x11_report_of ::
    "x11_env \<Rightarrow> x11_arguments \<Rightarrow> x_attributes \<Rightarrow> x11_trips \<Rightarrow> capture_stats \<Rightarrow> x11_report" where
  "x11_report_of env a capture trips st =
     \<lparr>xr_shm_timing = summarize (map (xe_shm_ms env) [0..<xa_shm_frames a]),
      xr_get_timing = summarize (map (xe_get_ms env) [0..<xa_get_frames a]),
      xr_distinct = length (cs_fingerprints st), xr_changed = cs_changed st,
      xr_analysis = analyze_capture_image (cs_image st) (attribute_channels capture),
      xr_host = benchmark_host_processing (cs_image st) (attribute_channels capture) (xe_hardware_concurrency env)
        (xe_schedules env) (xe_copy_ms env) (xe_single_ms env) (xe_parallel_ms env),
      xr_pass = x11_pass a trips (cs_image st)\<rparr>"

text \<open>The captures with the shared-memory image, up to its destruction. An image that was constructed is never null.\<close>

definition x11_captures ::
    "x11_env \<Rightarrow> x11_arguments \<Rightarrow> x_attributes \<Rightarrow> x11_trips \<Rightarrow> XImage \<Rightarrow> x11_report phase" where
  "x11_captures env a capture trips im =
     (case capture_loop env (xa_fps a) 0 (xa_shm_frames a)
             \<lparr>cs_image = im, cs_fingerprints = [], cs_previous = 0, cs_changed = 0, cs_next = xe_start env\<rparr> of
        Inl e \<Rightarrow> (Inl (Threw e), [])
      | Inr st \<Rightarrow>
          x_then (throwing (get_loop (xe_get_frame env) 0 (xa_get_frames a) None)) (\<lambda>kept.
            (Inr (x11_report_of env a capture trips st),
             (case kept of None \<Rightarrow> [] | Some k \<Rightarrow> [Dispose (RootGetImage k)]) @
             only_if (xa_force_composite a) (Dispose Keepalive))))"

definition x11_capture ::
    "x11_env \<Rightarrow> x11_arguments \<Rightarrow> x_attributes \<Rightarrow> x11_trips \<Rightarrow> x11_report phase" where
  "x11_capture env a capture trips =
     x_then (throwing (shm_construct (xe_root_shm env))) (\<lambda>shm.
       case shm_image shm of
         None \<Rightarrow> (Inl (Threw ''no image''), [])
       | Some im \<Rightarrow>
           (fst (x11_captures env a capture trips im), snd (x11_captures env a capture trips im) @ snd (shm_cleanup shm)))"

definition x11_body :: "x11_env \<Rightarrow> x11_arguments \<Rightarrow> x11_report phase" where
  "x11_body env a =
     x_then (x11_gate env) (\<lambda>(rootw, overlay).
     x_then (x11_target env a rootw overlay) (\<lambda>capture.
     x_then (x11_round_trips env a rootw overlay) (\<lambda>trips. x11_capture env a capture trips)))"

definition x11_main :: "x11_env \<Rightarrow> string list \<Rightarrow> x11_report phase" where
  "x11_main env args =
     (case x11_parse args of
        Inl e \<Rightarrow> (Inl (Threw e), [])
      | Inr a \<Rightarrow>
          if \<not> xe_open env then (Inl (Threw ''XOpenDisplay failed''), [])
          else (fst (x11_body env a), Obtain DisplayHandle # snd (x11_body env a) @ [Dispose DisplayHandle]))"

definition x11_status :: "x_exit + x11_report \<Rightarrow> int" where
  "x11_status r =
     (case r of Inl (Threw e) \<Rightarrow> 1 | Inl (Returned n) \<Rightarrow> n | Inr report \<Rightarrow> if xr_pass report then 0 else 2)"

section \<open>What the program holds\<close>

text \<open>
  Starting with the objects \<open>h\<close> a phase disposes of nothing twice and keeps the objects \<open>P\<close>; when it does not
  end the program it leaves exactly \<open>h'\<close>.
\<close>

definition leaves :: "x_object set \<Rightarrow> x_object list \<Rightarrow> 'a phase \<Rightarrow> x_object list \<Rightarrow> bool" where
  "leaves P h m h' \<longleftrightarrow>
     (\<exists>k. held_after h (snd m) = Some k \<and> P \<subseteq> set k \<and> (\<not> isl (fst m) \<longrightarrow> k = h'))"

lemma leaves_then:
  assumes "leaves P h m h1" and "\<And>a. fst m = Inr a \<Longrightarrow> leaves P h1 (f a) h2"
  shows "leaves P h (x_then m f) h2"
proof (cases "fst m")
  case (Inl e)
  then show ?thesis using assms(1) by (cases m) (auto simp: leaves_def x_then_def)
next
  case (Inr a)
  then show ?thesis
    using assms(1) assms(2) [OF Inr] by (cases m) (auto simp: leaves_def x_then_def held_after_append)
qed

lemma leaves_balanced:
  assumes "held_after [] calls = Some left" and "event_object ` set calls \<subseteq> objs" and "set h \<inter> objs = {}"
    and "P \<subseteq> set h" and "\<not> isl r \<Longrightarrow> left = []"
  shows "leaves P h (throwing (r, calls)) h"
proof -
  have "held_after h calls = Some (left @ h)"
    using held_after_frame [OF assms(1), of h] assms(2,3) by auto
  then show ?thesis
    using assms(4,5) by (cases r) (auto simp: leaves_def throwing_def)
qed

lemma leaves_trips:
  assumes "set h \<inter> trip_objects = {}" and "P \<subseteq> set h"
  shows "leaves P h (throwing (controlled_round_trip channels use_shm env)) h"
    and "leaves P h (throwing (visible_drawable_round_trip channels env')) h"
proof -
  obtain r calls r' calls' where c: "controlled_round_trip channels use_shm env = (r, calls)"
    "visible_drawable_round_trip channels env' = (r', calls')" by (metis surj_pair)
  show "leaves P h (throwing (controlled_round_trip channels use_shm env)) h"
    unfolding c(1) using controlled_objects [OF c(1)]
    by (intro leaves_balanced [OF controlled_follow [OF c(1)] _ assms]) auto
  show "leaves P h (throwing (visible_drawable_round_trip channels env')) h"
    unfolding c(2) using visible_objects [OF c(2)]
    by (intro leaves_balanced [OF visible_follow [OF c(2)] _ assms]) auto
qed

lemma get_loop_held:
  assumes "get_loop ok frame n kept = (r, calls)" and "\<forall>i. RootGetImage i \<notin> set h"
    and "\<forall>k. kept = Some k \<longrightarrow> k < frame"
  shows "\<exists>last. held_after ((case kept of None \<Rightarrow> [] | Some k \<Rightarrow> [RootGetImage k]) @ h) calls =
      Some ((case last of None \<Rightarrow> [] | Some k \<Rightarrow> [RootGetImage k]) @ h) \<and> (\<forall>kept'. r = Inr kept' \<longrightarrow> last = kept')"
  using assms
proof (induction ok frame n kept arbitrary: calls rule: get_loop.induct)
  case (2 ok frame n kept)
  show ?case
  proof (cases "ok frame")
    case True
    obtain c where c: "get_loop ok (Suc frame) n (Some frame) = (r, c)"
      "calls = Obtain (RootGetImage frame) # (case kept of None \<Rightarrow> [] | Some k \<Rightarrow> [Dispose (RootGetImage k)]) @ c"
      using 2(2) True by (auto split: prod.splits)
    have "\<forall>k. Some frame = Some k \<longrightarrow> k < Suc frame" by simp
    from 2(1) [OF _ c(1) 2(3) this] True obtain last where
      l: "held_after (RootGetImage frame # h) c = Some ((case last of None \<Rightarrow> [] | Some k \<Rightarrow> [RootGetImage k]) @ h)"
        "\<forall>kept'. r = Inr kept' \<longrightarrow> last = kept'" by auto
    then show ?thesis
      using 2(3,4) c(2) by (intro exI [of _ last]) (cases kept; auto)
  qed (use 2(2) in auto)
qed auto

lemma leaves_captures:
  assumes "\<forall>i. RootGetImage i \<notin> set h" and "P \<subseteq> set h"
    and "held_after h (only_if (xa_force_composite a) (Dispose Keepalive)) = Some h'" and "P \<subseteq> set h'"
  shows "leaves P h (x11_captures env a capture trips im) h'"
proof (cases "capture_loop env (xa_fps a) 0 (xa_shm_frames a)
    \<lparr>cs_image = im, cs_fingerprints = [], cs_previous = 0, cs_changed = 0, cs_next = xe_start env\<rparr>")
  case (Inl e)
  then show ?thesis using assms(2) by (simp add: x11_captures_def leaves_def)
next
  case (Inr st)
  obtain r calls where g: "get_loop (xe_get_frame env) 0 (xa_get_frames a) None = (r, calls)" by fastforce
  obtain last where l: "held_after h calls = Some ((case last of None \<Rightarrow> [] | Some k \<Rightarrow> [RootGetImage k]) @ h)"
    "\<forall>kept'. r = Inr kept' \<longrightarrow> last = kept'"
    using get_loop_held [OF g assms(1)] by auto
  show ?thesis
  proof (cases r)
    case (Inl e)
    then show ?thesis
      using Inr g l assms(2) by (auto simp: x11_captures_def leaves_def x_then_def throwing_def)
  next
    case (Inr kept)
    then show ?thesis
      using \<open>capture_loop _ _ _ _ _ = Inr st\<close> g l assms
      by (cases kept) (simp_all add: x11_captures_def leaves_def x_then_def throwing_def held_after_append)
  qed
qed

definition keep_of :: "x11_arguments \<Rightarrow> x_object list" where
  "keep_of a = (if xa_force_composite a then [Keepalive, DisplayHandle] else [DisplayHandle])"

lemma keep_of_facts:
  "set (keep_of a) \<inter> trip_objects = {}" "DisplayHandle \<in> set (keep_of a)" "set (keep_of a) \<inter> shm_objects = {}"
  by (simp_all add: keep_of_def trip_objects_def shm_objects_def)

lemma leaves_capture: "leaves {DisplayHandle} (keep_of a) (x11_capture env a capture trips) [DisplayHandle]"
proof -
  obtain r calls where c: "shm_construct (xe_root_shm env) = (r, calls)" by fastforce
  show ?thesis
  proof (cases r)
    case (Inl e)
    then show ?thesis
      using c shm_beside(1) [OF keep_of_facts(3)] keep_of_facts(2)
      by (auto simp: x11_capture_def leaves_def x_then_def throwing_def)
  next
    case (Inr st)
    let ?shm = "[ShmAttachment, ShmMapping, ShmImage]"
    note cr = c [unfolded Inr]
    have built: "held_after (keep_of a) calls = Some (?shm @ keep_of a)" by (rule shm_beside(2) [OF keep_of_facts(3) cr])
    obtain im where im: "shm_image st = Some im"
      using shm_construct_Inr(1,6) [OF cr] cr
      by (cases "env_created (xe_root_shm env)") (auto simp: shm_construct_def shm_build_def)
    have "leaves {DisplayHandle, ShmAttachment, ShmMapping, ShmImage} (?shm @ keep_of a)
        (x11_captures env a capture trips im) (?shm @ [DisplayHandle])"
      by (rule leaves_captures) (auto simp: keep_of_def only_if_def)
    then obtain k where k: "held_after (?shm @ keep_of a) (snd (x11_captures env a capture trips im)) = Some k"
      "{DisplayHandle, ShmAttachment, ShmMapping, ShmImage} \<subseteq> set k"
      "\<not> isl (fst (x11_captures env a capture trips im)) \<longrightarrow> k = ?shm @ [DisplayHandle]"
      by (auto simp: leaves_def)
    then show ?thesis
      unfolding x11_capture_def cr leaves_def throwing_def x_then_def
      by (simp add: im built [simplified] cleanup_calls [OF cr] held_after_append)
  qed
qed

lemma leaves_target: "leaves {DisplayHandle} [DisplayHandle] (x11_target env a rootw overlay) (keep_of a)"
  by (simp add: leaves_def x11_target_def keep_of_def only_if_def)

lemma leaves_round_trips: "leaves {DisplayHandle} (keep_of a) (x11_round_trips env a rootw overlay) (keep_of a)"
proof -
  have done': "leaves {DisplayHandle} (keep_of a) (Inr t, []) (keep_of a)" for t :: x11_trips
    using keep_of_facts(2) by (simp add: leaves_def)
  show ?thesis
    unfolding x11_round_trips_def
    by (intro leaves_then leaves_trips keep_of_facts(1)) (auto simp: keep_of_facts(2) done' intro!: leaves_then leaves_trips keep_of_facts(1))
qed

lemma leaves_body: "leaves {DisplayHandle} [DisplayHandle] (x11_body env a) [DisplayHandle]"
proof -
  have gate: "leaves {DisplayHandle} [DisplayHandle] (x11_gate env) [DisplayHandle]"
  proof -
    have "snd (x11_gate env) = []" by (simp add: x11_gate_def Let_def split: option.splits)
    then show ?thesis by (simp add: leaves_def)
  qed
  show ?thesis
    unfolding x11_body_def
    by (rule leaves_then [OF gate]) (auto intro!: leaves_then leaves_target leaves_round_trips leaves_capture)
qed

lemma main_held:
  "\<exists>left. held_after [] (snd (x11_main env args)) = Some left \<and> (\<not> isl (fst (x11_main env args)) \<longrightarrow> left = [])"
proof (cases "x11_parse args")
  case (Inr a)
  obtain k where "held_after [DisplayHandle] (snd (x11_body env a)) = Some k" "DisplayHandle \<in> set k"
    "\<not> isl (fst (x11_body env a)) \<longrightarrow> k = [DisplayHandle]"
    using leaves_body [of env a] by (auto simp: leaves_def)
  then show ?thesis using Inr by (auto simp: x11_main_def held_after_append)
qed (simp add: x11_main_def)

section \<open>What a pass means\<close>

lemma then_Inr: "fst (x_then m f) = Inr b \<longleftrightarrow> (\<exists>a. fst m = Inr a \<and> fst (f a) = Inr b)"
  by (cases m; cases "fst m") (auto simp: x_then_def)

lemma then_Inl: "fst (x_then m f) = Inl e \<longleftrightarrow> fst m = Inl e \<or> (\<exists>a. fst m = Inr a \<and> fst (f a) = Inl e)"
  by (cases m; cases "fst m") (auto simp: x_then_def)

lemma throwing_Inr: "fst (throwing m) = Inr a \<longleftrightarrow> fst m = Inr a"
  by (cases m; cases "fst m") (auto simp: throwing_def)

lemma throwing_Inl: "fst (throwing m) = Inl e \<longleftrightarrow> (\<exists>t. e = Threw t \<and> fst m = Inl t)"
  by (cases m; cases "fst m") (auto simp: throwing_def)

lemma gate_Inr:
  assumes "fst (x11_gate env) = Inr (rootw, overlay)"
  shows "xe_root env = Some rootw" "at_depth rootw = 30" "masks_are_10_bit (attribute_channels rootw)"
    "\<not> masks_overlap (attribute_channels rootw)" "native_10_bit (attribute_channels rootw) overlay"
  using assms by (auto simp: x11_gate_def Let_def split: option.splits if_splits)

lemma early_exit: "fst (x11_main env args) = Inl (Returned n) \<Longrightarrow> n = 2"
proof (cases "x11_parse args")
  case (Inr a)
  assume "fst (x11_main env args) = Inl (Returned n)"
  then have "fst (x11_body env a) = Inl (Returned n)" using Inr by (auto simp: x11_main_def split: if_splits)
  moreover have "fst (x11_gate env) = Inl (Returned n) \<Longrightarrow> n = 2"
    by (auto simp: x11_gate_def Let_def split: option.splits if_splits)
  moreover have "fst (x11_target env a rootw overlay) = Inl (Returned n) \<Longrightarrow> n = 2" for rootw overlay
    by (auto simp: x11_target_def split: option.splits if_splits)
  moreover have "fst (x11_round_trips env a rootw overlay) \<noteq> Inl (Returned n)" for rootw overlay
    by (auto simp: x11_round_trips_def then_Inl throwing_Inl split: if_splits)
  moreover have "fst (x11_captures env a capture trips im) \<noteq> Inl (Returned n)" for capture trips im
    by (auto simp: x11_captures_def then_Inl throwing_Inl split: sum.splits)
  then have "fst (x11_capture env a capture trips) \<noteq> Inl (Returned n)" for capture trips
    by (auto simp: x11_capture_def then_Inl throwing_Inl split: option.splits)
  ultimately show "n = 2" by (auto simp: x11_body_def then_Inl)
qed (simp add: x11_main_def)

lemma status_zero:
  assumes "x11_status (fst (x11_main env args)) = 0"
  obtains report where "fst (x11_main env args) = Inr report" "xr_pass report"
  using assms early_exit [of env args]
  by (cases "fst (x11_main env args)") (auto simp: x11_status_def split: x_exit.splits if_splits)

lemma channels_match_eq:
  "channels_match (attribute_channels a) (attribute_channels b) \<Longrightarrow> attribute_channels b = attribute_channels a"
  by (simp add: channels_match_def attribute_channels_def)

lemma controlled_exact:
  "fst (controlled_round_trip channels use_shm env) = Inr exact \<Longrightarrow>
     exact = exact_codes channels (ce_server env (source_codes channels))"
  by (auto simp: controlled_round_trip_def Let_def split: if_splits sum.splits prod.splits)

lemma visible_exact:
  assumes "fst (visible_drawable_round_trip channels env) = Inr t"
  shows "xgetimage_exact t = exact_codes channels (\<lambda>code. ve_get_server env (visible_source channels) code 16)"
    "xshm_exact t = exact_codes channels (\<lambda>code. ve_shm_server env (visible_source channels) code 16)"
  using assms by (auto simp: visible_drawable_round_trip_def Let_def split: if_splits sum.splits prod.splits)

lemma captures_report:
  assumes "fst (x11_captures env a capture trips im) = Inr report"
  obtains st where "capture_loop env (xa_fps a) 0 (xa_shm_frames a)
      \<lparr>cs_image = im, cs_fingerprints = [], cs_previous = 0, cs_changed = 0, cs_next = xe_start env\<rparr> = Inr st"
    "report = x11_report_of env a capture trips st"
  using assms by (auto simp: x11_captures_def then_Inr throwing_Inr split: sum.split_asm)

lemma capture_report:
  assumes "fst (x11_capture env a capture trips) = Inr report"
  obtains im st where "env_created (xe_root_shm env) = Some im" "capture_loop env (xa_fps a) 0 (xa_shm_frames a)
      \<lparr>cs_image = im, cs_fingerprints = [], cs_previous = 0, cs_changed = 0, cs_next = xe_start env\<rparr> = Inr st"
    "report = x11_report_of env a capture trips st"
proof -
  obtain shm im where "fst (shm_construct (xe_root_shm env)) = Inr shm" "shm_image shm = Some im"
    "fst (x11_captures env a capture trips im) = Inr report"
    using assms by (auto simp: x11_capture_def then_Inr throwing_Inr split: option.split_asm)
  then show ?thesis
    using captures_report that shm_construct_Inr(6) by (metis surjective_pairing)
qed

text \<open>What a run that comes to its report has done.\<close>

lemma main_report:
  assumes "fst (x11_main env args) = Inr report"
  obtains a rootw overlay capture trips where "x11_parse args = Inr a" "fst (x11_gate env) = Inr (rootw, overlay)"
    "fst (x11_round_trips env a rootw overlay) = Inr trips" "fst (x11_capture env a capture trips) = Inr report"
proof -
  obtain a where "x11_parse args = Inr a" "fst (x11_body env a) = Inr report"
    using assms by (auto simp: x11_main_def split: sum.split_asm if_splits)
  then show ?thesis using that by (auto simp: x11_body_def then_Inr)
qed

lemma round_trips_exact:
  assumes "fst (x11_round_trips env a rootw overlay) = Inr trips"
  shows "get_round_trip trips =
      exact_codes (attribute_channels rootw) (ce_server (xe_get_trip env) (source_codes (attribute_channels rootw)))"
    "shm_round_trip trips =
      exact_codes (attribute_channels rootw) (ce_server (xe_shm_trip env) (source_codes (attribute_channels rootw)))"
    "xa_drawable a = None \<Longrightarrow> fst (visible_drawable_round_trip (attribute_channels overlay) (xe_visible_overlay env)) =
      Inr (visible_overlay_round_trip trips)"
proof -
  have "fst (controlled_round_trip (attribute_channels rootw) False (xe_get_trip env)) = Inr (get_round_trip trips)"
    "fst (controlled_round_trip (attribute_channels rootw) True (xe_shm_trip env)) = Inr (shm_round_trip trips)"
    using assms by (auto simp: x11_round_trips_def then_Inr throwing_Inr split: if_splits)
  then show "get_round_trip trips =
      exact_codes (attribute_channels rootw) (ce_server (xe_get_trip env) (source_codes (attribute_channels rootw)))"
    "shm_round_trip trips =
      exact_codes (attribute_channels rootw) (ce_server (xe_shm_trip env) (source_codes (attribute_channels rootw)))"
    by (simp_all only: controlled_exact)
  show "xa_drawable a = None \<Longrightarrow> fst (visible_drawable_round_trip (attribute_channels overlay) (xe_visible_overlay env)) =
      Inr (visible_overlay_round_trip trips)"
    using assms by (auto simp: x11_round_trips_def then_Inr throwing_Inr split: if_splits)
qed

lemma x11_accept:
  assumes "x11_status (fst (x11_main env args)) = 0"
  shows "\<exists>a rootw. x11_parse args = Inr a \<and> xe_root env = Some rootw \<and>
    (let channels = attribute_channels rootw in
     at_depth rootw = 30 \<and> masks_are_10_bit channels \<and> \<not> masks_overlap channels \<and>
     exact_codes channels (ce_server (xe_get_trip env) (source_codes channels)) \<and>
     exact_codes channels (ce_server (xe_shm_trip env) (source_codes channels)) \<and>
     (xa_drawable a = None \<longrightarrow>
        exact_codes channels (\<lambda>code. ve_get_server (xe_visible_overlay env) (visible_source channels) code 16) \<and>
        exact_codes channels (\<lambda>code. ve_shm_server (xe_visible_overlay env) (visible_source channels) code 16)))"
proof -
  obtain report where report: "fst (x11_main env args) = Inr report" "xr_pass report" using status_zero [OF assms] by blast
  obtain a rootw overlay capture trips where
    a: "x11_parse args = Inr a" and g: "fst (x11_gate env) = Inr (rootw, overlay)" and
    t: "fst (x11_round_trips env a rootw overlay) = Inr trips" and
    c: "fst (x11_capture env a capture trips) = Inr report" using main_report [OF report(1)] .
  obtain st where "report = x11_report_of env a capture trips st" using capture_report [OF c] by metis
  then have "x11_pass a trips (cs_image st)" using report(2) by (simp add: x11_report_of_def)
  moreover have "attribute_channels overlay = attribute_channels rootw"
    using gate_Inr(5) [OF g] by (auto simp: native_10_bit_def dest: channels_match_eq)
  ultimately show ?thesis
    using a gate_Inr [OF g] round_trips_exact [OF t] visible_exact
    by (intro exI [of _ a] exI [of _ rootw]) (auto simp: x11_pass_def Let_def)
qed

section \<open>Transitions and distinct frames\<close>

text \<open>After at least one frame: every fingerprint but the first came with a transition.\<close>

definition stats_ok :: "nat \<Rightarrow> capture_stats \<Rightarrow> bool" where
  "stats_ok frame st \<longleftrightarrow>
     cs_previous st \<in> set (cs_fingerprints st) \<and> 1 \<le> length (cs_fingerprints st) \<and>
     length (cs_fingerprints st) \<le> cs_changed st + 1 \<and> cs_changed st < frame"

lemma capture_frame_ok: "stats_ok frame st \<Longrightarrow> stats_ok (Suc frame) (x11_capture_frame fps frame contents st)"
  by (auto simp: stats_ok_def x11_capture_frame_def Let_def List.insert_def)

lemma capture_first_ok:
  "cs_fingerprints st = [] \<Longrightarrow> cs_changed st = 0 \<Longrightarrow> stats_ok (Suc 0) (x11_capture_frame fps 0 contents st)"
  by (simp add: stats_ok_def x11_capture_frame_def Let_def List.insert_def)

lemma capture_loop_ok: "capture_loop env fps frame n st = Inr st' \<Longrightarrow> stats_ok frame st \<Longrightarrow> stats_ok (frame + n) st'"
proof (induction env fps frame n st rule: capture_loop.induct)
  case (2 env fps frame n st)
  then show ?case using capture_frame_ok by (fastforce split: option.split_asm)
qed simp

lemma parse_frames_range: "x11_parse_frames args name d = Inr n \<Longrightarrow> n = d \<or> 1 \<le> n \<and> n \<le> 1000"
  by (induction args name d rule: x11_parse_frames.induct) (auto split: if_splits option.split_asm)

lemma parsed_frames:
  assumes "x11_parse args = Inr a"
  shows "1 \<le> xa_shm_frames a" "xa_shm_frames a \<le> 1000" "1 \<le> xa_get_frames a" "xa_get_frames a \<le> 1000"
    "xa_fps a \<le> 1000"
proof -
  obtain s g f where p: "x11_parse_frames args ''--shm-frames'' 20 = Inr s" "x11_parse_frames args ''--get-frames'' 3 = Inr g"
    "x11_parse_frames args ''--fps'' 0 = Inr f" "xa_shm_frames a = nat s" "xa_get_frames a = nat g" "xa_fps a = nat f"
    using assms by (auto simp: x11_parse_def split: sum.split_asm)
  have "1 \<le> s \<and> s \<le> 1000" "1 \<le> g \<and> g \<le> 1000" "f \<le> 1000"
    using parse_frames_range [OF p(1)] parse_frames_range [OF p(2)] parse_frames_range [OF p(3)] by auto
  then show "1 \<le> xa_shm_frames a" "xa_shm_frames a \<le> 1000" "1 \<le> xa_get_frames a" "xa_get_frames a \<le> 1000"
    "xa_fps a \<le> 1000" unfolding p(4-6) by linarith+
qed

lemma report_transitions:
  assumes "x11_main env args = (Inr report, calls)"
  shows "\<exists>a. x11_parse args = Inr a \<and> 1 \<le> xr_distinct report \<and> xr_distinct report \<le> xr_changed report + 1 \<and>
    xr_changed report < xa_shm_frames a \<and> xa_shm_frames a \<le> 1000"
proof -
  have "fst (x11_main env args) = Inr report" using assms by simp
  from main_report [OF this] obtain a rootw overlay capture trips where
    a: "x11_parse args = Inr a" and c: "fst (x11_capture env a capture trips) = Inr report" by blast
  obtain im st where l: "capture_loop env (xa_fps a) 0 (xa_shm_frames a)
      \<lparr>cs_image = im, cs_fingerprints = [], cs_previous = 0, cs_changed = 0, cs_next = xe_start env\<rparr> = Inr st"
    "report = x11_report_of env a capture trips st" using capture_report [OF c] by metis
  obtain n where n: "xa_shm_frames a = Suc n" using parsed_frames(1) [OF a] by (cases "xa_shm_frames a") auto
  have "stats_ok (Suc n) st"
    using l(1) unfolding n
    by (auto split: option.split_asm dest!: capture_loop_ok intro!: capture_first_ok)
  then show ?thesis
    using a l(2) n parsed_frames(2) [OF a] by (simp add: stats_ok_def x11_report_of_def)
qed

lemma capture_loop_total:
  "(\<And>k. xe_shm_frame env k \<noteq> None) \<Longrightarrow>
     \<exists>st'. capture_loop env fps frame n st = Inr st' \<and> im_depth (cs_image st') = im_depth (cs_image st) \<and>
       im_bits_per_pixel (cs_image st') = im_bits_per_pixel (cs_image st)"
proof (induction env fps frame n st rule: capture_loop.induct)
  case (2 env fps frame n st)
  obtain contents where c: "xe_shm_frame env frame = Some contents" using 2(2) by blast
  then show ?case using 2(1) [OF c 2(2)] by (simp add: x11_capture_frame_def Let_def)
qed simp

lemma get_loop_total: "(\<And>k. ok k) \<Longrightarrow> \<exists>kept'. fst (get_loop ok frame n kept) = Inr kept'"
  by (induction ok frame n kept rule: get_loop.induct) (auto split: prod.splits)

section \<open>Properties\<close>


text \<open>
  Whatever the X server answers, the native ten-bit probe obtains no object twice and disposes of none twice or
  without holding it; a run that comes to its verdict has disposed of everything. A shared-memory segment that was
  attached is already marked for removal.
\<close>

theorem x11_disposes_once:
  "held_after [] (snd (x11_main env args)) \<noteq> None \<and>
   (\<not> isl (fst (x11_main env args)) \<longrightarrow> held_after [] (snd (x11_main env args)) = Some []) \<and>
   (\<forall>shm calls. shm_construct (xe_root_shm env) = (Inr shm, calls) \<longrightarrow>
      held_after [] calls = Some [ShmAttachment, ShmMapping, ShmImage] \<and> marked_for_removal shm)"
  using main_held [of env args] shm_construct_Inr by auto

text \<open>
  The probe's counts of a run: between one and a thousand frames were captured, there are fewer transitions than
  frames, and no more distinct fingerprints than transitions and one.
\<close>

theorem x11_transitions:
  assumes "x11_main env args = (Inr report, calls)"
  shows "\<exists>a. x11_parse args = Inr a \<and> 1 \<le> xr_distinct report \<and> xr_distinct report \<le> xr_changed report + 1 \<and>
    xr_changed report < xa_shm_frames a \<and> xa_shm_frames a \<le> 1000"
  by (rule report_transitions [OF assms])

section \<open>A run of the probe\<close>

text \<open>A server that keeps every pixel, with a root window of one pixel, depth 30 and the usual masks.\<close>

definition sample_image :: XImage where
  "sample_image = \<lparr>im_width = 1, im_height = 1, im_depth = 30, im_bits_per_pixel = 32, im_bytes_per_line = 4,
     im_pixel = (\<lambda>x y. 0), im_data = [0, 0, 0, 0]\<rparr>"

definition sample_shm :: shm_env where
  "sample_shm = \<lparr>env_created = Some sample_image, env_shmget = 7, env_shmat = True, env_attach = True, env_rmid = True\<rparr>"

definition sample_trip :: controlled_env where
  "sample_trip = \<lparr>ce_pixmap = True, ce_gc = True, ce_image = True, ce_calloc = True, ce_shm = sample_shm,
     ce_shm_capture = True, ce_get = True, ce_server = (\<lambda>f. f)\<rparr>"

definition sample_visible :: visible_env where
  "sample_visible = \<lparr>ve_window = True, ve_gc = True, ve_root_attributes = True, ve_image = True, ve_calloc = True,
     ve_get = True, ve_shm = sample_shm, ve_shm_capture = True, ve_get_server = (\<lambda>f. f), ve_shm_server = (\<lambda>f. f)\<rparr>"

definition sample_attributes :: x_attributes where
  "sample_attributes = \<lparr>at_width = 1, at_height = 1, at_depth = 30, at_red = 0x3FF00000, at_green = 0xFFC00, at_blue = 0x3FF\<rparr>"

definition sample_env :: x11_env where
  "sample_env = \<lparr>xe_open = True, xe_root = Some sample_attributes, xe_shm_extension = True, xe_composite = True,
     xe_overlay = 9, xe_overlay_attributes = Some sample_attributes, xe_keepalive = True,
     xe_drawable_attributes = (\<lambda>d. None), xe_get_trip = sample_trip, xe_shm_trip = sample_trip,
     xe_visible_root = sample_visible, xe_visible_overlay = sample_visible, xe_root_shm = sample_shm,
     xe_shm_frame = (\<lambda>n. Some (\<lambda>x y. of_nat n, [0, 0, 0, 0])), xe_get_frame = (\<lambda>n. True), xe_shm_ms = (\<lambda>n. 1),
     xe_get_ms = (\<lambda>n. 1), xe_start = 0, xe_hardware_concurrency = 2, xe_schedules = [], xe_copy_ms = [1],
     xe_single_ms = [1], xe_parallel_ms = [1]\<rparr>"

lemma sample_codes: "exact_codes (attribute_channels sample_attributes) (source_codes (attribute_channels sample_attributes))"
proof -
  have "contiguous 10 0x3FF00000" "contiguous 10 0xFFC00" "contiguous 10 0x3FF"
    by (simp_all add: contiguous_def faithful_masks mask_eq_exp_minus_1)
  then show ?thesis
    using exact_codes_pixel [of "0x3FF00000" "0xFFC00" "0x3FF"]
    by (simp add: attribute_channels_def sample_attributes_def source_codes_def [abs_def] masks_overlap_def faithful_masks)
qed

lemma sample_construct: "\<exists>shm. fst (shm_construct sample_shm) = Inr shm \<and> shm_image shm = Some sample_image"
  by (simp add: shm_construct_def shm_build_def sample_shm_def sample_image_def shm_size_def shm_initial_def Let_def)

lemma sample_phases:
  "fst (x11_gate sample_env) = Inr (sample_attributes, sample_attributes)"
  "x11_parse [] = Inr a \<Longrightarrow> fst (x11_target sample_env a sample_attributes sample_attributes) = Inr sample_attributes"
  by (auto simp: x11_gate_def x11_target_def x11_parse_def sample_env_def sample_attributes_def attribute_channels_def
      masks_are_10_bit_def masks_overlap_def native_10_bit_def channels_match_def faithful_masks)

lemma sample_trips:
  "fst (controlled_round_trip (attribute_channels sample_attributes) use_shm sample_trip) = Inr True"
  "fst (visible_drawable_round_trip (attribute_channels sample_attributes) sample_visible) =
     Inr \<lparr>xgetimage_exact = True, xshm_exact = True\<rparr>"
  using sample_construct sample_codes
  by (auto simp: controlled_round_trip_def visible_drawable_round_trip_def sample_trip_def sample_visible_def
      visible_source_def [abs_def] split: prod.splits)

lemma sample_run: "\<exists>report. fst (x11_main sample_env []) = Inr report \<and> xr_pass report"
proof -
  obtain a where a: "x11_parse [] = Inr a" "xa_drawable a = None" by (simp add: x11_parse_def)
  let ?t = "\<lparr>get_round_trip = True, shm_round_trip = True,
    visible_root_round_trip = \<lparr>xgetimage_exact = True, xshm_exact = True\<rparr>,
    visible_overlay_round_trip = \<lparr>xgetimage_exact = True, xshm_exact = True\<rparr>\<rparr>"
  have t: "fst (x11_round_trips sample_env a sample_attributes sample_attributes) = Inr ?t"
    using sample_trips a(2) by (auto simp: x11_round_trips_def then_Inr throwing_Inr sample_env_def)
  obtain shm where shm: "fst (shm_construct sample_shm) = Inr shm" "shm_image shm = Some sample_image"
    using sample_construct by blast
  obtain st where st: "capture_loop sample_env (xa_fps a) 0 (xa_shm_frames a)
      \<lparr>cs_image = sample_image, cs_fingerprints = [], cs_previous = 0, cs_changed = 0, cs_next = xe_start sample_env\<rparr> = Inr st"
    "im_depth (cs_image st) = 30" "im_bits_per_pixel (cs_image st) = 32"
    using capture_loop_total [of sample_env "xa_fps a" 0 "xa_shm_frames a"
      "\<lparr>cs_image = sample_image, cs_fingerprints = [], cs_previous = 0, cs_changed = 0, cs_next = xe_start sample_env\<rparr>"]
    by (auto simp: sample_env_def sample_image_def)
  have c: "fst (x11_captures sample_env a sample_attributes ?t sample_image) =
      Inr (x11_report_of sample_env a sample_attributes ?t st)"
    using st(1) get_loop_total [of "xe_get_frame sample_env" 0 "xa_get_frames a" None]
    by (simp add: x11_captures_def then_Inr throwing_Inr) (simp add: sample_env_def)
  have "fst (x11_capture sample_env a sample_attributes ?t) = Inr (x11_report_of sample_env a sample_attributes ?t st)"
    unfolding x11_capture_def then_Inr throwing_Inr
    by (rule exI [of _ shm]) (simp add: shm c, simp add: sample_env_def shm)
  then have "fst (x11_body sample_env a) = Inr (x11_report_of sample_env a sample_attributes ?t st)"
    using sample_phases(1) sample_phases(2) [OF a(1)] t by (auto simp: x11_body_def then_Inr)
  moreover have "xr_pass (x11_report_of sample_env a sample_attributes ?t st)"
    using st(2,3) by (simp add: x11_report_of_def x11_pass_def)
  moreover have "xe_open sample_env" by (simp add: sample_env_def)
  ultimately show ?thesis using a(1) by (simp add: x11_main_def)
qed


theorem x11_disposes_once_witness: "held_after [] (snd (x11_main sample_env [])) = Some []"
proof -
  have "\<not> isl (fst (x11_main sample_env []))" using sample_run by auto
  with x11_disposes_once [of sample_env "[]"] show ?thesis by blast
qed

theorem x11_transitions_witness:
  "\<exists>report. fst (x11_main sample_env []) = Inr report \<and> xr_changed report < 20 \<and> xr_distinct report \<le> xr_changed report + 1"
proof -
  obtain report calls where r: "x11_main sample_env [] = (Inr report, calls)" using sample_run by (metis surjective_pairing)
  have "\<forall>a. x11_parse [] = Inr a \<longrightarrow> xa_shm_frames a = 20" by (simp add: x11_parse_def)
  with x11_transitions [OF r] r show ?thesis by auto
qed

end
