(* ===== verification/Pixel_Kernel.thy ===== *)
theory Pixel_Kernel
  imports Plank_Prelude
begin

text \<open>
  The colour conversion of \<^verbatim>\<open>probes/video/plank-probe-video-pipeline.cpp\<close>: the two PTX kernels of
  \<^verbatim>\<open>kIdentityKernelPtx\<close>, instruction by instruction on the registers they keep, the grid
  \<^verbatim>\<open>launch_conversion\<close> starts and the reference \<^verbatim>\<open>expand_to_msb_aligned_10_bit\<close>.

  Device memory maps 64-bit addresses to bytes. The threads of a launch run in any order, which is an
  argument; each runs without interruption, the threads of a launch sharing no address they write.
\<close>

section \<open>Memory\<close>

type_synonym memory = "u64 \<Rightarrow> u8"

text \<open>\<^verbatim>\<open>st.global\<close>: the bytes of a value, the low one first.\<close>

definition st_bytes :: "u64 \<Rightarrow> bytes \<Rightarrow> memory \<Rightarrow> memory" where
  "st_bytes a bs m = fold (\<lambda>(k, b) m. m(a + of_nat k := b)) (zip [0..<length bs] bs) m"

definition u16_bytes :: "u16 \<Rightarrow> bytes" where
  "u16_bytes v = [ucast v, ucast (drop_bit 8 v)]"

section \<open>The reference\<close>

definition expand_to_msb_aligned_10_bit :: "u8 \<Rightarrow> u16" where
  "expand_to_msb_aligned_10_bit value =
     (let expanded = (ucast value * 1023 + 127 :: u32) div 255 in ucast (push_bit 6 expanded))"

definition video_self_test :: int where
  "video_self_test =
     (if expand_to_msb_aligned_10_bit 0 = 0 \<and> expand_to_msb_aligned_10_bit 128 = 32896 \<and>
         expand_to_msb_aligned_10_bit 255 = 65472
      then 0 else 1)"

section \<open>The kernels\<close>

text \<open>The ten-bit expansion by comparisons, and its shift to the top of 16 bits.\<close>

definition ptx_expand :: "u32 \<Rightarrow> u32" where
  "ptx_expand r8 =
     (let r11 = push_bit 2 r8;
          r11 = r11 + (if r8 \<ge> 43 then 1 else 0);
          r11 = r11 + (if r8 \<ge> 128 then 1 else 0);
          r11 = r11 + (if r8 \<ge> 213 then 1 else 0)
      in push_bit 6 r11)"

record kernel_params =
  source_ptr :: u64
  destination_ptr :: u64
  width :: u32
  height :: u32
  destination_pitch :: u64

text \<open>A thread is its block and its place in the block; \<open>ntid\<close> is the size of a block.\<close>

definition bgra8_to_gbr8 :: "kernel_params \<Rightarrow> u32 \<Rightarrow> u32 \<times> u32 \<Rightarrow> memory \<Rightarrow> memory" where
  "bgra8_to_gbr8 p ntid t m =
     (let r6 = fst t * ntid + snd t; r7 = width p * height p
      in if r6 \<ge> r7 then m
         else
           let rd5 = source_ptr p + ucast r6 * 4;
               r8 = m rd5; r9 = m (rd5 + 1); r10 = m (rd5 + 2);
               rd8 = destination_pitch p * ucast (height p);
               rd9 = destination_ptr p + ucast r6; rd10 = rd9 + rd8; rd11 = rd10 + rd8
           in st_bytes rd11 [r10] (st_bytes rd10 [r8] (st_bytes rd9 [r9] m)))"

definition bgra8_to_gbr10 :: "kernel_params \<Rightarrow> u32 \<Rightarrow> u32 \<times> u32 \<Rightarrow> memory \<Rightarrow> memory" where
  "bgra8_to_gbr10 p ntid t m =
     (let r6 = fst t * ntid + snd t; r7 = width p * height p
      in if r6 \<ge> r7 then m
         else
           let rd5 = source_ptr p + ucast r6 * 4;
               r8 = ucast (m rd5); r9 = ucast (m (rd5 + 1)); r10 = ucast (m (rd5 + 2));
               r11 = ptx_expand r8; r12 = ptx_expand r9; r13 = ptx_expand r10;
               rd6 = ucast r6 * 2; rd8 = destination_pitch p * ucast (height p);
               rd9 = destination_ptr p + rd6; rd10 = rd9 + rd8; rd11 = rd10 + rd8
           in st_bytes rd11 (u16_bytes (ucast r13)) (st_bytes rd10 (u16_bytes (ucast r11))
                (st_bytes rd9 (u16_bytes (ucast r12)) m)))"

section \<open>The launch\<close>

definition launch_threads :: u32 where "launch_threads = 256"

definition launch_blocks :: "u32 \<Rightarrow> u32 \<Rightarrow> u32" where
  "launch_blocks w h =
     (let pixels = ucast w * ucast h :: u64 in ucast ((pixels + ucast launch_threads - 1) div ucast launch_threads))"

definition launch_grid :: "u32 \<Rightarrow> u32 \<Rightarrow> (u32 \<times> u32) list" where
  "launch_grid w h =
     concat (map (\<lambda>b. map (\<lambda>t. (of_nat b, of_nat t)) [0..<unat launch_threads]) [0..<unat (launch_blocks w h)])"

text \<open>A launch in a given order of its threads.\<close>

definition launch_conversion :: "bool \<Rightarrow> kernel_params \<Rightarrow> (u32 \<times> u32) list \<Rightarrow> memory \<Rightarrow> memory" where
  "launch_conversion ten_bit p order m =
     fold ((if ten_bit then bgra8_to_gbr10 else bgra8_to_gbr8) p launch_threads) order m"

section \<open>The conversion self-test\<close>

definition test_source :: bytes where
  "test_source = [0, 0, 0, 255, 255, 255, 255, 255, 255, 0, 0, 255, 0, 128, 255, 255]"

definition test_expected :: "bool \<Rightarrow> bytes" where
  "test_expected ten_bit =
     (if ten_bit
      then let maximum = expand_to_msb_aligned_10_bit 255; midpoint = expand_to_msb_aligned_10_bit 128
           in concat (map u16_bytes [0, maximum, 0, midpoint, 0, maximum, maximum, 0, 0, maximum, 0, maximum])
      else [0, 255, 0, 128, 0, 255, 255, 0, 0, 255, 0, 255])"

definition test_params :: "bool \<Rightarrow> u64 \<Rightarrow> u64 \<Rightarrow> kernel_params" where
  "test_params ten_bit device_source device_destination =
     \<lparr>source_ptr = device_source, destination_ptr = device_destination, width = 4, height = 1,
      destination_pitch = (if ten_bit then 8 else 4)\<rparr>"

text \<open>The bytes read back from the device are compared with the expected ones.\<close>

definition test_matches :: "bool \<Rightarrow> u64 \<Rightarrow> u64 \<Rightarrow> (u32 \<times> u32) list \<Rightarrow> memory \<Rightarrow> bool" where
  "test_matches ten_bit device_source device_destination order m =
     (let m = st_bytes device_source test_source m;
          m = launch_conversion ten_bit (test_params ten_bit device_source device_destination) order m
      in map (\<lambda>k. m (device_destination + of_nat k)) [0..<if ten_bit then 24 else 12] = test_expected ten_bit)"

section \<open>The expansion\<close>

text \<open>In numbers: scaling by 1023 / 255 is multiplication by four and at most three carries.\<close>

lemma expansion_steps:
  fixes v :: nat
  assumes "v < 256"
  shows "(v * 1023 + 127) div 255 = 4 * v + (if v \<ge> 43 then 1 else 0) + (if v \<ge> 128 then 1 else 0) + (if v \<ge> 213 then 1 else 0)"
proof -
  have "v * 1023 + 127 = (3 * v + 127) + (4 * v) * 255" by simp
  then have "(v * 1023 + 127) div 255 = 4 * v + (3 * v + 127) div 255"
    by (simp only: div_mult_self1 [of 255])
  moreover have "(3 * v + 127) div 255 = (if v \<ge> 43 then 1 else 0) + (if v \<ge> 128 then 1 else 0) + (if v \<ge> 213 then 1 else 0)"
    using assms by (auto simp: div_nat_eqI)
  ultimately show ?thesis by simp
qed

lemma unat_ptx_expand:
  assumes "unat r < 256"
  shows "unat (ptx_expand r) = 64 * ((unat r * 1023 + 127) div 255)"
proof -
  have le: "(43 \<le> r) = (43 \<le> unat r)" "(128 \<le> r) = (128 \<le> unat r)" "(213 \<le> r) = (213 \<le> unat r)"
    by (simp_all add: word_le_nat_alt)
  have p: "push_bit n x = x * 2 ^ n" for n and x :: u32 by (simp add: push_bit_eq_mult)
  show ?thesis
    unfolding expansion_steps [OF assms] ptx_expand_def Let_def p
    using assms by (auto simp: le unat_word_ariths)
qed

lemma ptx_expand_reference: "ucast (ptx_expand (ucast v)) = expand_to_msb_aligned_10_bit v"
proof (rule word_unat_eq_iff [THEN iffD2])
  have v: "unat (ucast v :: u32) = unat v" by (simp add: unat_ucast_up)
  have b: "unat v < 256" using unat_bound [of v] by simp
  then have d: "(unat v * 1023 + 127) div 255 \<le> 1023" by simp
  have "unat (ucast v * 1023 + 127 :: u32) = unat v * 1023 + 127"
    using b by (simp add: unat_word_ariths v)
  then have e: "unat ((ucast v * 1023 + 127 :: u32) div 255) = (unat v * 1023 + 127) div 255"
    by (simp add: unat_div)
  show "unat (ucast (ptx_expand (ucast v)) :: u16) = unat (expand_to_msb_aligned_10_bit v)"
    using d b unat_ptx_expand [of "ucast v"]
    by (simp add: expand_to_msb_aligned_10_bit_def Let_def push_bit_eq_mult unsigned_ucast_eq unat_word_ariths
        v e take_bit_nat_eq_self take_bit_eq_mod)
qed

lemma identity_self_test_passes: "video_self_test = 0"
  by (simp add: video_self_test_def expand_to_msb_aligned_10_bit_def Let_def push_bit_eq_mult)

section \<open>Writes of a launch\<close>

definition apply_writes :: "(nat \<times> u8) list \<Rightarrow> memory \<Rightarrow> memory" where
  "apply_writes ws m = fold (\<lambda>(a, b) m. m(of_nat a := b)) ws m"

lemma apply_writes_append: "apply_writes (ws @ vs) m = apply_writes vs (apply_writes ws m)"
  by (simp add: apply_writes_def)

lemma of_nat_address: "a < 2 ^ 64 \<Longrightarrow> b < 2 ^ 64 \<Longrightarrow> (of_nat a :: u64) = of_nat b \<longleftrightarrow> a = b"
  by (auto dest: arg_cong [where f = unat] simp: unat_of_nat_eq)

lemma apply_writes_other:
  assumes "\<forall>(a, b) \<in> set ws. of_nat a \<noteq> x"
  shows "apply_writes ws m x = m x"
  using assms by (induction ws arbitrary: m) (auto simp: apply_writes_def)

lemma apply_writes_at:
  assumes "\<forall>(a, b) \<in> set ws. a < 2 ^ 64" and "x < 2 ^ 64" and "(x, v) \<in> set ws"
    and "\<forall>(a, b) \<in> set ws. a = x \<longrightarrow> b = v"
  shows "apply_writes ws m (of_nat x) = v"
  using assms
proof (induction ws arbitrary: m)
  case (Cons w ws)
  obtain a b where w: "w = (a, b)" by fastforce
  have step: "apply_writes (w # ws) m = apply_writes ws (m(of_nat a := b))" by (simp add: apply_writes_def w)
  show ?case
  proof (cases "(x, v) \<in> set ws")
    case True
    then show ?thesis unfolding step using Cons.prems by (intro Cons.IH) auto
  next
    case False
    then have ab: "a = x" "b = v" using Cons.prems w by auto
    have "\<forall>(c, d) \<in> set ws. (of_nat c :: u64) \<noteq> of_nat x"
      using False Cons.prems of_nat_address by (auto split: prod.splits)
    then show ?thesis unfolding step ab by (simp add: apply_writes_other)
  qed
qed simp

lemma st_bytes_writes:
  "st_bytes (of_nat a) bs m = apply_writes (map (\<lambda>k. (a + k, bs ! k)) [0..<length bs]) m"
proof -
  have "zip [0..<length bs] bs = map (\<lambda>k. (k, bs ! k)) [0..<length bs]"
    by (rule nth_equalityI) simp_all
  then show ?thesis
    by (simp add: st_bytes_def apply_writes_def fold_map comp_def)
qed

section \<open>What a kernel does to a picture\<close>

text \<open>The address of a sample in a plane, counted from the start of the picture as the kernels do.\<close>

definition sample_address :: "kernel_params \<Rightarrow> nat \<Rightarrow> nat \<Rightarrow> nat \<Rightarrow> nat" where
  "sample_address p sz plane i =
     unat (destination_ptr p) + plane * (unat (destination_pitch p) * unat (height p)) + sz * i"

text \<open>The source byte of a plane: green, blue, red.\<close>

definition channel_address :: "kernel_params \<Rightarrow> nat \<Rightarrow> nat \<Rightarrow> nat" where
  "channel_address p plane i = unat (source_ptr p) + 4 * i + [1, 0, 2] ! plane"

text \<open>Room: no address or index wraps, the planes fit and the picture is not read from where it is written.\<close>

definition pixels_of :: "kernel_params \<Rightarrow> nat" where
  "pixels_of p = unat (width p) * unat (height p)"

definition conversion_room :: "nat \<Rightarrow> kernel_params \<Rightarrow> bool" where
  "conversion_room sz p \<longleftrightarrow>
     (let plane = unat (destination_pitch p) * unat (height p); n = pixels_of p;
          source = unat (source_ptr p); destination = unat (destination_ptr p)
      in n \<le> 2 ^ 32 - 256 \<and> sz * n \<le> plane \<and> source + 4 * n \<le> 2 ^ 64 \<and> destination + 3 * plane \<le> 2 ^ 64 \<and>
         (source + 4 * n \<le> destination \<or> destination + 3 * plane \<le> source))"

definition thread_index :: "u32 \<times> u32 \<Rightarrow> nat" where
  "thread_index t = unat (fst t * launch_threads + snd t)"

lemma mem_launch_grid:
  assumes "pixels_of p \<le> 2 ^ 32 - 256"
  shows "thread_index ` set (launch_grid (width p) (height p)) \<supseteq> {0..<pixels_of p}"
proof
  fix i assume "i \<in> {0..<pixels_of p}"
  then have i: "i < pixels_of p" by simp
  have b32: "unat (width p) < 2 ^ 32" "unat (height p) < 2 ^ 32"
    using unat_bound [of "width p"] unat_bound [of "height p"] by simp_all
  then have lt: "unat (width p) * unat (height p) < 2 ^ 32 * 2 ^ 32" by (intro mult_strict_mono) auto
  have px: "unat (ucast (width p) * ucast (height p) :: u64) = pixels_of p"
    using lt by (simp add: unat_word_ariths unat_ucast_up pixels_of_def)
  have "unat (ucast (width p) * ucast (height p) + 256 - 1 :: u64) = pixels_of p + 255"
  proof -
    have "(ucast (width p) * ucast (height p) + 256 - 1 :: u64) = ucast (width p) * ucast (height p) + 255" by simp
    then show ?thesis using px assms by (simp add: unat_word_ariths)
  qed
  then have "unat ((ucast (width p) * ucast (height p) + 256 - 1 :: u64) div 256) = (pixels_of p + 255) div 256"
    by (simp add: unat_div)
  then have blocks: "unat (launch_blocks (width p) (height p)) = (pixels_of p + 255) div 256"
    using assms by (simp add: launch_blocks_def launch_threads_def Let_def unsigned_ucast_eq take_bit_nat_eq_self)
  have q: "i div 256 < (pixels_of p + 255) div 256" "i div 256 * 256 + i mod 256 = i" "i < 2 ^ 32"
    using i assms by (simp_all add: less_eq_div_iff_mult_less_eq Suc_le_eq [symmetric])
  then have "(of_nat (i div 256), of_nat (i mod 256)) \<in> set (launch_grid (width p) (height p))"
    by (auto simp: launch_grid_def launch_threads_def blocks intro!: bexI [of _ "i div 256"] imageI)
  moreover have "thread_index (of_nat (i div 256), of_nat (i mod 256)) = i"
  proof -
    have "(of_nat (i div 256) * 256 + of_nat (i mod 256) :: u32) = of_nat (i div 256 * 256 + i mod 256)"
      by (simp only: of_nat_add of_nat_mult of_nat_numeral)
    then show ?thesis
      using q(2,3) by (simp add: thread_index_def launch_threads_def unat_of_nat_eq)
  qed
  ultimately show "i \<in> thread_index ` set (launch_grid (width p) (height p))" by (metis imageI)
qed

text \<open>
  What the two kernels have in common: a thread of the picture writes the sample of its green, blue and red
  byte into the three planes and nothing else.
\<close>

locale pixel_kernel =
  fixes sz :: nat
    and sample :: "u8 \<Rightarrow> bytes"
    and kernel :: "kernel_params \<Rightarrow> u32 \<Rightarrow> u32 \<times> u32 \<Rightarrow> memory \<Rightarrow> memory"
  assumes length_sample: "length (sample v) = sz"
    and kernel: "kernel p ntid t m =
      (let i = fst t * ntid + snd t; plane = destination_pitch p * ucast (height p);
           a = destination_ptr p + ucast i * of_nat sz; c = source_ptr p + ucast i * 4
       in if i \<ge> width p * height p then m
          else st_bytes (a + plane + plane) (sample (m (c + 2)))
                 (st_bytes (a + plane) (sample (m c)) (st_bytes a (sample (m (c + 1))) m)))"
begin

definition plane_writes :: "kernel_params \<Rightarrow> memory \<Rightarrow> nat \<Rightarrow> nat \<Rightarrow> (nat \<times> u8) list" where
  "plane_writes p m i plane =
     map (\<lambda>k. (sample_address p sz plane i + k, sample (m (of_nat (channel_address p plane i))) ! k)) [0..<sz]"

definition thread_writes :: "kernel_params \<Rightarrow> memory \<Rightarrow> nat \<Rightarrow> (nat \<times> u8) list" where
  "thread_writes p m i = plane_writes p m i 0 @ plane_writes p m i 1 @ plane_writes p m i 2"

lemma mem_thread_writes:
  "(a, b) \<in> set (thread_writes p m i) \<longleftrightarrow>
     (\<exists>plane < 3. \<exists>k < sz. a = sample_address p sz plane i + k \<and>
        b = sample (m (of_nat (channel_address p plane i))) ! k)"
proof -
  have "(\<exists>plane < 3. Q plane) \<longleftrightarrow> Q 0 \<or> Q 1 \<or> Q (2 :: nat)" for Q
    by (auto simp: less_Suc_eq numeral_3_eq_3 numeral_2_eq_2)
  then show ?thesis by (auto simp: thread_writes_def plane_writes_def)
qed

lemma address_word:
  "of_nat (sample_address p sz plane i) =
     destination_ptr p + of_nat plane * (destination_pitch p * of_nat (unat (height p))) + of_nat sz * of_nat i"
  by (simp add: sample_address_def)

lemma kernel_writes:
  assumes "pixels_of p \<le> 2 ^ 32 - 256"
  shows "kernel p launch_threads t m =
    (if thread_index t < pixels_of p then apply_writes (thread_writes p m (thread_index t)) m else m)"
proof -
  let ?i = "fst t * launch_threads + snd t"
  have "unat (width p * height p) = pixels_of p"
    using assms by (simp add: unat_word_ariths pixels_of_def)
  then have guard: "?i \<ge> width p * height p \<longleftrightarrow> \<not> thread_index t < pixels_of p"
    by (simp add: word_le_nat_alt thread_index_def not_less)
  have h: "ucast (height p) = (of_nat (unat (height p)) :: u64)" and i: "ucast ?i = (of_nat (thread_index t) :: u64)"
    by (simp_all add: thread_index_def)
  have a: "destination_ptr p + ucast ?i * of_nat sz = of_nat (sample_address p sz 0 (thread_index t))"
    "destination_ptr p + ucast ?i * of_nat sz + destination_pitch p * ucast (height p) =
       of_nat (sample_address p sz 1 (thread_index t))"
    "destination_ptr p + ucast ?i * of_nat sz + destination_pitch p * ucast (height p) +
       destination_pitch p * ucast (height p) = of_nat (sample_address p sz 2 (thread_index t))"
    unfolding address_word h i by (simp_all add: algebra_simps)
  have c: "source_ptr p + ucast ?i * 4 + 1 = of_nat (channel_address p 0 (thread_index t))"
    "source_ptr p + ucast ?i * 4 = of_nat (channel_address p 1 (thread_index t))"
    "source_ptr p + ucast ?i * 4 + 2 = of_nat (channel_address p 2 (thread_index t))"
    unfolding i by (simp_all add: channel_address_def algebra_simps)
  show ?thesis
    unfolding kernel Let_def guard unfolding a(3) c(1,3) unfolding a(2) c(2) unfolding a(1)
    by (simp add: thread_writes_def plane_writes_def apply_writes_append st_bytes_writes length_sample)
qed

text \<open>The samples lie apart from each other and from the source.\<close>

lemma sample_end:
  assumes "conversion_room sz p" and "plane < 3" and "i < pixels_of p" and "k < sz"
  shows "sample_address p sz plane i + k < unat (destination_ptr p) + (plane + 1) * (unat (destination_pitch p) * unat (height p))"
proof -
  have "sz * i + sz \<le> sz * pixels_of p" using assms(3) by (metis mult_Suc_right mult_le_mono2 Suc_leI add.commute)
  then have "sz * i + k < unat (destination_pitch p) * unat (height p)"
    using assms by (simp add: conversion_room_def Let_def)
  then show ?thesis by (simp add: sample_address_def)
qed

lemma sample_bound:
  assumes "conversion_room sz p" and "plane < 3" and "i < pixels_of p" and "k < sz"
  shows "unat (destination_ptr p) \<le> sample_address p sz plane i + k"
    "sample_address p sz plane i + k < unat (destination_ptr p) + 3 * (unat (destination_pitch p) * unat (height p))"
    "sample_address p sz plane i + k < 2 ^ 64"
proof -
  have "(plane + 1) * (unat (destination_pitch p) * unat (height p)) \<le> 3 * (unat (destination_pitch p) * unat (height p))"
    using assms(2) by (intro mult_le_mono1) simp
  then show *: "sample_address p sz plane i + k < unat (destination_ptr p) + 3 * (unat (destination_pitch p) * unat (height p))"
    using sample_end [OF assms] by linarith
  then show "sample_address p sz plane i + k < 2 ^ 64"
    using assms(1) by (simp add: conversion_room_def Let_def)
  show "unat (destination_ptr p) \<le> sample_address p sz plane i + k" by (simp add: sample_address_def)
qed

lemma sample_injective:
  assumes "conversion_room sz p" and "plane < 3" "i < pixels_of p" "k < sz" and "plane' < 3" "i' < pixels_of p" "k' < sz"
    and eq: "sample_address p sz plane i + k = sample_address p sz plane' i' + k'"
  shows "plane = plane' \<and> i = i' \<and> k = k'"
proof -
  let ?P = "unat (destination_pitch p) * unat (height p)"
  have off: "sz * i + k < ?P" "sz * i' + k' < ?P"
    using sample_end [OF assms(1-4)] sample_end [OF assms(1,5-7)] by (simp_all add: sample_address_def)
  have e: "plane * ?P + (sz * i + k) = plane' * ?P + (sz * i' + k')"
    using eq by (simp add: sample_address_def)
  then have "(plane * ?P + (sz * i + k)) div ?P = (plane' * ?P + (sz * i' + k')) div ?P" by simp
  moreover have "(a * ?P + b) div ?P = a" if "b < ?P" for a b using that by (cases "?P = 0") simp_all
  ultimately have p: "plane = plane'" using off by metis
  then have "i * sz + k = i' * sz + k'" using e by (simp add: mult.commute)
  then have "(i * sz + k) div sz = (i' * sz + k') div sz" "(i * sz + k) mod sz = (i' * sz + k') mod sz" by simp_all
  then show ?thesis using p assms(4,7) by simp
qed

lemma channel_apart:
  assumes "conversion_room sz p" and "plane < 3" "i < pixels_of p" "k < sz" and "plane' < 3" "i' < pixels_of p"
  shows "(of_nat (sample_address p sz plane i + k) :: u64) \<noteq> of_nat (channel_address p plane' i')"
proof -
  note b = sample_bound [OF assms(1-4)]
  have "[1, 0, 2 :: nat] ! plane' \<le> 2"
    using assms(5) by (auto simp: less_Suc_eq numeral_3_eq_3 numeral_2_eq_2)
  then have c: "unat (source_ptr p) \<le> channel_address p plane' i'"
    "channel_address p plane' i' < unat (source_ptr p) + 4 * pixels_of p"
    using assms(6) by (simp_all add: channel_address_def)
  then have "channel_address p plane' i' < 2 ^ 64" "channel_address p plane' i' \<noteq> sample_address p sz plane i + k"
    using assms(1) b by (auto simp: conversion_room_def Let_def)
  then show ?thesis using b(3) of_nat_address by metis
qed

lemma launch_writes:
  assumes "conversion_room sz p"
  shows "fold (kernel p launch_threads) order m =
    apply_writes (concat (map (thread_writes p m) (filter (\<lambda>i. i < pixels_of p) (map thread_index order)))) m"
proof (induction order rule: rev_induct)
  case Nil
  then show ?case by (simp add: apply_writes_def)
next
  case (snoc t order)
  let ?is = "filter (\<lambda>i. i < pixels_of p) (map thread_index order)"
  let ?m = "apply_writes (concat (map (thread_writes p m) ?is)) m"
  have n: "pixels_of p \<le> 2 ^ 32 - 256" using assms by (simp add: conversion_room_def Let_def)
  show ?case
  proof (cases "thread_index t < pixels_of p")
    case True
    have "?m (of_nat (channel_address p plane (thread_index t))) = m (of_nat (channel_address p plane (thread_index t)))"
      if "plane < 3" for plane
      by (rule apply_writes_other)
        (use channel_apart [OF assms _ _ _ that True] in \<open>auto simp: mem_thread_writes simp del: of_nat_add\<close>)
    then have "thread_writes p ?m (thread_index t) = thread_writes p m (thread_index t)"
      by (simp add: thread_writes_def plane_writes_def)
    then show ?thesis using snoc True by (simp add: kernel_writes [OF n] apply_writes_append)
  next
    case False
    then show ?thesis using snoc by (simp add: kernel_writes [OF n])
  qed
qed

lemma launch_samples:
  assumes "conversion_room sz p" and "set order = set (launch_grid (width p) (height p))"
    and "plane < 3" and "i < pixels_of p" and "k < sz"
  shows "fold (kernel p launch_threads) order m (of_nat (sample_address p sz plane i + k)) =
    sample (m (of_nat (channel_address p plane i))) ! k"
  unfolding launch_writes [OF assms(1)]
proof (rule apply_writes_at)
  let ?ws = "concat (map (thread_writes p m) (filter (\<lambda>i. i < pixels_of p) (map thread_index order)))"
  have "i \<in> thread_index ` set order"
    using mem_launch_grid [of p] assms by (auto simp: conversion_room_def Let_def)
  then show "(sample_address p sz plane i + k, sample (m (of_nat (channel_address p plane i))) ! k) \<in> set ?ws"
    using assms(3-5) by (auto simp: mem_thread_writes)
  show "\<forall>(a, b) \<in> set ?ws. a < 2 ^ 64"
    using sample_bound(3) [OF assms(1)] by (auto simp: mem_thread_writes)
  show "sample_address p sz plane i + k < 2 ^ 64" using sample_bound(3) [OF assms(1,3-5)] .
  show "\<forall>(a, b) \<in> set ?ws. a = sample_address p sz plane i + k \<longrightarrow>
      b = sample (m (of_nat (channel_address p plane i))) ! k"
    using sample_injective [OF assms(1) _ _ _ assms(3-5)] by (fastforce simp: mem_thread_writes)
qed

lemma launch_elsewhere:
  assumes "conversion_room sz p"
    and "unat a < unat (destination_ptr p) \<or>
         unat (destination_ptr p) + 3 * (unat (destination_pitch p) * unat (height p)) \<le> unat a"
  shows "fold (kernel p launch_threads) order m a = m a"
  unfolding launch_writes [OF assms(1)]
proof (rule apply_writes_other, clarsimp simp: mem_thread_writes simp del: of_nat_add)
  fix t plane k
  assume *: "thread_index t < pixels_of p" "plane < 3" "k < sz" "a = of_nat (sample_address p sz plane (thread_index t) + k)"
  note b = sample_bound [OF assms(1) *(2,1,3)]
  have "unat a = sample_address p sz plane (thread_index t) + k" unfolding *(4) using b(3) by (simp add: unat_of_nat_eq del: of_nat_add)
  then show False using assms(2) b(1,2) by simp
qed

end

interpretation gbr8: pixel_kernel 1 "\<lambda>v. [v]" bgra8_to_gbr8
  by unfold_locales (simp_all add: bgra8_to_gbr8_def Let_def)

interpretation gbr10: pixel_kernel 2 "\<lambda>v. u16_bytes (expand_to_msb_aligned_10_bit v)" bgra8_to_gbr10
  by unfold_locales (simp_all add: bgra8_to_gbr10_def Let_def ptx_expand_reference, simp add: u16_bytes_def)

section \<open>The converted picture\<close>

text \<open>The size of a sample and the bytes of a converted sample, for ten and for eight bits.\<close>

definition sample_size :: "bool \<Rightarrow> nat" where
  "sample_size ten_bit = (if ten_bit then 2 else 1)"

definition converted_sample :: "bool \<Rightarrow> u8 \<Rightarrow> bytes" where
  "converted_sample ten_bit v = (if ten_bit then u16_bytes (expand_to_msb_aligned_10_bit v) else [v])"

lemma launch_sample:
  assumes "conversion_room (sample_size ten_bit) p" and "set order = set (launch_grid (width p) (height p))"
    and "plane < 3" and "i < pixels_of p" and "k < sample_size ten_bit"
  shows "launch_conversion ten_bit p order m (of_nat (sample_address p (sample_size ten_bit) plane i + k)) =
    converted_sample ten_bit (m (of_nat (channel_address p plane i))) ! k"
proof (cases ten_bit)
  case True
  then show ?thesis
    using gbr10.launch_samples [OF _ assms(2-4), of k] assms(1,5)
    by (simp add: launch_conversion_def sample_size_def converted_sample_def del: of_nat_add)
next
  case False
  then show ?thesis
    using gbr8.launch_samples [OF _ assms(2-4), of k] assms(1,5)
    by (simp add: launch_conversion_def sample_size_def converted_sample_def del: of_nat_add)
qed

lemma launch_outside:
  assumes "conversion_room (sample_size ten_bit) p"
    and "unat a < unat (destination_ptr p) \<or>
         unat (destination_ptr p) + 3 * (unat (destination_pitch p) * unat (height p)) \<le> unat a"
  shows "launch_conversion ten_bit p order m a = m a"
  using gbr10.launch_elsewhere [OF _ assms(2)] gbr8.launch_elsewhere [OF _ assms(2)] assms(1)
  by (cases ten_bit) (simp_all add: launch_conversion_def sample_size_def)

text \<open>C14. In whatever order the threads of a launch run, a picture whose rows have no padding is converted
  completely: the encoder finds at row y and column x of the first, second and third plane the green, blue and
  red byte of that source pixel, expanded to the ten upper bits of a 16-bit sample by the reference formula or
  kept as it is in the 8-bit kernel; and nothing outside the three planes changes.\<close>

theorem conversion_complete:
  assumes "conversion_room (sample_size ten_bit) p" and "set order = set (launch_grid (width p) (height p))"
    and "unat (destination_pitch p) = sample_size ten_bit * unat (width p)"
    and "x < unat (width p)" and "y < unat (height p)" and "plane < 3" and "k < sample_size ten_bit"
  shows "launch_conversion ten_bit p order m
      (of_nat (unat (destination_ptr p) + (plane * unat (height p) + y) * unat (destination_pitch p) +
        sample_size ten_bit * x + k)) =
      converted_sample ten_bit (m (of_nat (unat (source_ptr p) + 4 * (y * unat (width p) + x) + [1, 0, 2] ! plane))) ! k \<and>
    (\<forall>a. unat a < unat (destination_ptr p) \<or>
       unat (destination_ptr p) + 3 * (unat (destination_pitch p) * unat (height p)) \<le> unat a \<longrightarrow>
       launch_conversion ten_bit p order m a = m a)"
proof -
  let ?i = "y * unat (width p) + x" and ?w = "unat (width p)" and ?h = "unat (height p)"
  have "?i < (y + 1) * ?w" using assms(4) by simp
  also have "\<dots> \<le> ?h * ?w" using assms(5) by (intro mult_le_mono1) simp
  finally have i: "?i < pixels_of p" by (simp add: pixels_of_def mult.commute)
  have "sample_address p (sample_size ten_bit) plane ?i =
      unat (destination_ptr p) + (plane * ?h + y) * unat (destination_pitch p) + sample_size ten_bit * x"
    unfolding sample_address_def assms(3) by (simp add: algebra_simps)
  then show ?thesis
    using launch_sample [OF assms(1,2,6) i assms(7), of m] launch_outside [OF assms(1)]
    by (simp add: channel_address_def del: of_nat_add)
qed


section \<open>The self-test passes\<close>

lemma st_bytes_read:
  assumes "unat a + length bs \<le> 2 ^ 64" and "j < length bs"
  shows "st_bytes a bs m (of_nat (unat a + j)) = bs ! j"
proof -
  have "st_bytes a bs m = apply_writes (map (\<lambda>k. (unat a + k, bs ! k)) [0..<length bs]) m"
    using st_bytes_writes [of "unat a" bs m] by simp
  then show ?thesis
    using assms by (auto intro!: apply_writes_at simp del: of_nat_add)
qed

lemma test_source_bytes:
  "plane < 3 \<Longrightarrow> i < 4 \<Longrightarrow> test_source ! (4 * i + [1, 0, 2] ! plane) =
     [0, 255, 0, 128, 0, 255, 255, 0, 0, 255, 0, 255] ! (4 * plane + i)"
  by (auto simp: test_source_def less_Suc_eq numeral_3_eq_3 numeral_2_eq_2 eval_nat_numeral)

lemma test_expected_bytes:
  assumes "plane < 3" and "i < 4" and "k < sample_size ten_bit"
  shows "test_expected ten_bit ! (sample_size ten_bit * (4 * plane + i) + k) =
    converted_sample ten_bit ([0, 255, 0, 128, 0, 255, 255, 0, 0, 255, 0, 255] ! (4 * plane + i)) ! k"
proof -
  have "expand_to_msb_aligned_10_bit 0 = 0" by (simp add: expand_to_msb_aligned_10_bit_def)
  then show ?thesis using assms
    by (cases ten_bit) (auto simp: test_expected_def converted_sample_def sample_size_def u16_bytes_def Let_def
        less_Suc_eq numeral_3_eq_3 numeral_2_eq_2 eval_nat_numeral)
qed

text \<open>On a device that runs every thread of the launch, in any order, the conversion self-test passes for
  both kernels, wherever its two buffers lie without overlapping.\<close>

theorem conversion_self_test_passes:
  assumes "conversion_room (sample_size ten_bit) (test_params ten_bit s d)" and "set order = set (launch_grid 4 1)"
  shows "test_matches ten_bit s d order m"
proof -
  let ?p = "test_params ten_bit s d" and ?z = "sample_size ten_bit"
  let ?m = "st_bytes s test_source m"
  have z: "0 < ?z" "(if ten_bit then 24 else 12) = 12 * ?z" by (simp_all add: sample_size_def)
  have px: "pixels_of ?p = 4" and order: "set order = set (launch_grid (width ?p) (height ?p))"
    using assms(2) by (simp_all add: pixels_of_def test_params_def)
  have room: "unat s + length test_source \<le> 2 ^ 64"
    using assms(1) unfolding conversion_room_def Let_def px by (simp add: test_params_def test_source_def)
  have "launch_conversion ten_bit ?p order ?m (d + of_nat j) = test_expected ten_bit ! j" if j: "j < 12 * ?z" for j
  proof -
    define q k where "q = j div ?z" and "k = j mod ?z"
    define plane i where "plane = q div 4" and "i = q mod 4"
    have q: "q < 12" using j z(1) by (simp add: q_def less_mult_imp_div_less)
    then have b: "plane < 3" "i < 4" "k < ?z" using z(1) by (simp_all add: plane_def i_def k_def)
    have jq: "j = ?z * (4 * plane + i) + k" unfolding plane_def i_def q_def k_def by simp
    have "unat d + j = sample_address ?p ?z plane i + k"
      unfolding jq by (cases ten_bit) (simp_all add: sample_address_def test_params_def sample_size_def)
    then have "d + of_nat j = of_nat (sample_address ?p ?z plane i + k)"
      by (metis of_nat_add of_nat_unat_id)
    moreover have "?m (of_nat (channel_address ?p plane i)) = test_source ! (4 * i + [1, 0, 2] ! plane)"
    proof -
      have "[1, 0, 2 :: nat] ! plane \<le> 2" using b(1) by (auto simp: less_Suc_eq numeral_3_eq_3 numeral_2_eq_2)
      then have "4 * i + [1, 0, 2] ! plane < length test_source" using b(2) by (simp add: test_source_def)
      then show ?thesis
        using st_bytes_read [OF room] by (simp add: channel_address_def test_params_def add.assoc del: of_nat_add)
    qed
    moreover have "i < pixels_of ?p" using b(2) px by simp
    ultimately show ?thesis
      using launch_sample [OF assms(1) order b(1) _ b(3), of i ?m]
        test_source_bytes [OF b(1,2)] test_expected_bytes [OF b] jq by metis
  qed
  moreover have "length (test_expected ten_bit) = 12 * ?z"
    by (simp add: test_expected_def sample_size_def u16_bytes_def Let_def)
  ultimately show ?thesis
    unfolding test_matches_def Let_def z(2) by (intro nth_equalityI) simp_all
qed

theorem conversion_self_test_passes_witness: "test_matches True 0 64 (launch_grid 4 1) (\<lambda>_. 0)"
  by (rule conversion_self_test_passes)
    (simp_all add: conversion_room_def test_params_def pixels_of_def sample_size_def)

theorem conversion_complete_witness:
  "launch_conversion True \<lparr>source_ptr = 0, destination_ptr = 64, width = 4, height = 2, destination_pitch = 8\<rparr>
     (launch_grid 4 2) (\<lambda>a. if a = 17 then 255 else 0) 73 = 255"
proof -
  let ?p = "\<lparr>source_ptr = 0, destination_ptr = 64, width = 4, height = 2, destination_pitch = 8\<rparr>"
  let ?m = "\<lambda>a :: u64. if a = 17 then 255 else (0 :: u8)"
  have room: "conversion_room (sample_size True) ?p"
    by (simp add: conversion_room_def pixels_of_def sample_size_def)
  have "launch_conversion True ?p (launch_grid 4 2) ?m (of_nat 73) = converted_sample True (?m (of_nat 17)) ! 1"
    using conversion_complete [of True ?p "launch_grid 4 2" 0 1 0 1 ?m, THEN conjunct1] room
    by (simp add: sample_size_def del: of_nat_numeral)
  then show ?thesis
    by (simp add: converted_sample_def u16_bytes_def expand_to_msb_aligned_10_bit_def push_bit_eq_mult drop_bit_eq_div)
qed


end
