(* ===== verification/Encode_Options.thy ===== *)
theory Encode_Options
  imports C_Strings Pixel_Kernel
begin

text \<open>
  The command line of \<^verbatim>\<open>probes/video/plank-probe-video-pipeline.cpp\<close>. A parse ends with an exit
  status on the left or the options on the right; the checks across options follow the parse.
\<close>

section \<open>Options\<close>

datatype Codec = kHevc10 | kH264EightBit
datatype split_mode = SPLIT_AUTO | SPLIT_AUTO_FORCED | SPLIT_DISABLE
datatype tuning_info = TUNING_LOW_LATENCY | TUNING_ULTRA_LOW_LATENCY

definition kDefaultBitrate :: u32 where "kDefaultBitrate = 100000000"
definition kDefaultVbvBits :: u32 where "kDefaultVbvBits = 2000000"

record encode_options =
  frame_count :: u32
  frame_rate :: u32
  queue_depth :: u32
  simulate_loss_frame :: u32
  invalidate_delay_frames :: u32
  force_idr_frame :: u32
  reference_frames :: u32
  reference_invalidation_enabled :: bool
  intra_refresh_period :: int
  intra_refresh_count :: int
  single_slice_intra_refresh :: bool
  require_changing_source :: bool
  require_robustness :: bool
  unpaced :: bool
  codec :: Codec
  bitrate :: u32
  vbv_bits :: u32
  output_name :: string
  bitstream_path :: string
  reference_bitstream_path :: string
  split_mode :: split_mode
  tuning :: tuning_info

definition encode_defaults :: encode_options where
  "encode_defaults =
     \<lparr>frame_count = 600, frame_rate = 60, queue_depth = 1, simulate_loss_frame = 0, invalidate_delay_frames = 2,
      force_idr_frame = 0, reference_frames = 0, reference_invalidation_enabled = True, intra_refresh_period = -1,
      intra_refresh_count = -1, single_slice_intra_refresh = True, require_changing_source = False,
      require_robustness = False, unpaced = False, codec = kHevc10, bitrate = kDefaultBitrate,
      vbv_bits = kDefaultVbvBits, output_name = ''DP-2'', bitstream_path = ''plank-identity-gbr.hevc'',
      reference_bitstream_path = [], split_mode = SPLIT_AUTO, tuning = TUNING_LOW_LATENCY\<rparr>"

section \<open>One argument\<close>

text \<open>The arguments without a value.\<close>

definition flag_argument :: "string \<Rightarrow> encode_options \<Rightarrow> encode_options option" where
  "flag_argument a o' =
     (if a = ''--require-changing'' then Some (o'\<lparr>require_changing_source := True\<rparr>)
      else if a = ''--require-robustness'' then Some (o'\<lparr>require_robustness := True\<rparr>)
      else if a = ''--unpaced'' then Some (o'\<lparr>unpaced := True\<rparr>)
      else if a = ''--no-reference-invalidation'' then Some (o'\<lparr>reference_invalidation_enabled := False\<rparr>)
      else None)"

definition rate_argument :: "string \<Rightarrow> string \<Rightarrow> encode_options \<Rightarrow> int + encode_options" where
  "rate_argument a v o' =
     (case stoul v of
        None \<Rightarrow> Inl 2
      | Some n \<Rightarrow>
          if n = 0 \<or> n > (if a = ''--bitrate-mbps'' then 4000 else 1000000) then Inl 2
          else if a = ''--bitrate-mbps'' then Inr (o'\<lparr>bitrate := of_nat (n * 1000000)\<rparr>)
          else Inr (o'\<lparr>vbv_bits := of_nat (n * 1000)\<rparr>))"

definition numeric_argument :: "string \<Rightarrow> string \<Rightarrow> encode_options \<Rightarrow> int + encode_options" where
  "numeric_argument a v o' =
     (case stoul v of
        None \<Rightarrow> Inl 2
      | Some n \<Rightarrow>
          if (a \<noteq> ''--reference-frames'' \<and> n = 0) \<or> n > 36000 then Inl 2
          else Inr (
            if a = ''--frames'' then o'\<lparr>frame_count := of_nat n\<rparr>
            else if a = ''--fps'' then o'\<lparr>frame_rate := of_nat n\<rparr>
            else if a = ''--simulate-loss-frame'' then o'\<lparr>simulate_loss_frame := of_nat n\<rparr>
            else if a = ''--invalidate-delay-frames'' then o'\<lparr>invalidate_delay_frames := of_nat n\<rparr>
            else if a = ''--force-idr-frame'' then o'\<lparr>force_idr_frame := of_nat n\<rparr>
            else o'\<lparr>reference_frames := of_nat n\<rparr>))"

definition intra_argument :: "string \<Rightarrow> string \<Rightarrow> encode_options \<Rightarrow> int + encode_options" where
  "intra_argument a v o' =
     (case stoi v of
        None \<Rightarrow> Inl 2
      | Some n \<Rightarrow>
          if a = ''--intra-refresh-count''
          then if n < 0 \<or> n > 36000 then Inl 2 else Inr (o'\<lparr>intra_refresh_count := n\<rparr>)
          else if n \<le> 0 \<or> n > 36000 then Inl 2 else Inr (o'\<lparr>intra_refresh_period := n\<rparr>))"

definition queue_argument :: "string \<Rightarrow> encode_options \<Rightarrow> int + encode_options" where
  "queue_argument v o' =
     (if v \<noteq> ''0'' \<and> v \<noteq> ''1'' then Inl 2 else Inr (o'\<lparr>queue_depth := of_nat (of_char (hd v) - 48)\<rparr>))"

text \<open>An argument with its value; any other argument is refused.\<close>

definition value_argument :: "string \<Rightarrow> string \<Rightarrow> encode_options \<Rightarrow> int + encode_options" where
  "value_argument a v o' =
     (if a = ''--codec''
      then if v = ''hevc-10bit-444'' then Inr (o'\<lparr>codec := kHevc10\<rparr>)
           else if v = ''h264-8bit-444'' then Inr (o'\<lparr>codec := kH264EightBit\<rparr>) else Inl 2
      else if a \<in> {''--bitrate-mbps'', ''--vbv-kbits''} then rate_argument a v o'
      else if a = ''--queue-depth'' then queue_argument v o'
      else if a \<in> {''--intra-refresh-count'', ''--intra-refresh-period''} then intra_argument a v o'
      else if a = ''--single-slice-intra-refresh''
      then if v \<noteq> ''0'' \<and> v \<noteq> ''1'' then Inl 2 else Inr (o'\<lparr>single_slice_intra_refresh := (v = ''1'')\<rparr>)
      else if a \<in> {''--frames'', ''--fps'', ''--simulate-loss-frame'', ''--invalidate-delay-frames'',
                   ''--force-idr-frame'', ''--reference-frames''}
      then numeric_argument a v o'
      else if a = ''--output'' then Inr (o'\<lparr>output_name := v\<rparr>)
      else if a = ''--bitstream'' then Inr (o'\<lparr>bitstream_path := v\<rparr>)
      else if a = ''--reference-bitstream'' then Inr (o'\<lparr>reference_bitstream_path := v\<rparr>)
      else if a = ''--split''
      then if v = ''auto'' then Inr (o'\<lparr>split_mode := SPLIT_AUTO\<rparr>)
           else if v = ''forced'' then Inr (o'\<lparr>split_mode := SPLIT_AUTO_FORCED\<rparr>)
           else if v = ''disabled'' then Inr (o'\<lparr>split_mode := SPLIT_DISABLE\<rparr>) else Inl 2
      else if a = ''--tuning''
      then if v = ''low-latency'' then Inr (o'\<lparr>tuning := TUNING_LOW_LATENCY\<rparr>)
           else if v = ''ultra-low-latency'' then Inr (o'\<lparr>tuning := TUNING_ULTRA_LOW_LATENCY\<rparr>) else Inl 2
      else Inl 2)"

section \<open>The command line\<close>

fun parse_encode :: "string list \<Rightarrow> encode_options \<Rightarrow> int + encode_options" where
  "parse_encode [] o' = Inr o'"
| "parse_encode (a # as) o' =
     (if a = ''--self-test'' then Inl video_self_test
      else case flag_argument a o' of
        Some o' \<Rightarrow> parse_encode as o'
      | None \<Rightarrow>
          (case as of
             [] \<Rightarrow> Inl 2
           | v # rest \<Rightarrow> (case value_argument a v o' of Inl e \<Rightarrow> Inl e | Inr o' \<Rightarrow> parse_encode rest o')))"

definition check_encode :: "encode_options \<Rightarrow> int + encode_options" where
  "check_encode o' =
     (if frame_rate o' > 240 then Inl 2
      else
        let o' = (if intra_refresh_period o' < 0 then o'\<lparr>intra_refresh_period := int (unat (frame_rate o'))\<rparr> else o');
            o' = (if intra_refresh_count o' < 0 then o'\<lparr>intra_refresh_count := intra_refresh_period o' div 2\<rparr> else o');
            loss = (simulate_loss_frame o' \<noteq> 0 \<and> reference_invalidation_enabled o')
        in if intra_refresh_count o' > 0 \<and> intra_refresh_count o' \<ge> intra_refresh_period o' then Inl 2
           else if simulate_loss_frame o' > frame_count o' \<or> force_idr_frame o' > frame_count o' \<or>
                   (loss \<and> simulate_loss_frame o' + invalidate_delay_frames o' > frame_count o')
           then Inl 2
           else if reference_frames o' > 8 then Inl 2
           else
             let o' = (if loss \<and> reference_frames o' = 0 then o'\<lparr>reference_frames := 4\<rparr> else o')
             in if loss \<and> queue_depth o' = 1 \<and> invalidate_delay_frames o' < 2 then Inl 2
                else if reference_bitstream_path o' \<noteq> [] \<and> reference_bitstream_path o' = bitstream_path o' then Inl 2
                else Inr o')"

definition encode_arguments :: "string list \<Rightarrow> int + encode_options" where
  "encode_arguments args =
     (case parse_encode args encode_defaults of Inl e \<Rightarrow> Inl e | Inr o' \<Rightarrow> check_encode o')"

section \<open>Accepted options\<close>

text \<open>What the parse keeps, and what the checks add.\<close>

definition parsed_ok :: "encode_options \<Rightarrow> bool" where
  "parsed_ok o' \<longleftrightarrow>
     0 < frame_count o' \<and> frame_count o' \<le> 36000 \<and> 0 < frame_rate o' \<and> frame_rate o' \<le> 36000 \<and>
     queue_depth o' \<le> 1 \<and> simulate_loss_frame o' \<le> 36000 \<and>
     0 < invalidate_delay_frames o' \<and> invalidate_delay_frames o' \<le> 36000 \<and> force_idr_frame o' \<le> 36000 \<and>
     (intra_refresh_period o' = -1 \<or> 0 < intra_refresh_period o' \<and> intra_refresh_period o' \<le> 36000) \<and>
     (intra_refresh_count o' = -1 \<or> 0 \<le> intra_refresh_count o' \<and> intra_refresh_count o' \<le> 36000) \<and>
     (\<exists>n. 0 < n \<and> n \<le> 4000 \<and> unat (bitrate o') = n * 1000000) \<and>
     (\<exists>n. 0 < n \<and> n \<le> 1000000 \<and> unat (vbv_bits o') = n * 1000)"

lemma defaults_ok: "parsed_ok encode_defaults"
  unfolding parsed_ok_def encode_defaults_def kDefaultBitrate_def kDefaultVbvBits_def
  by (auto intro: exI [of _ 100] exI [of _ 2000])

lemma small_u32:
  assumes "n \<le> 36000"
  shows "(of_nat n :: u32) \<le> 36000" "0 < n \<Longrightarrow> 0 < (of_nat n :: u32)"
proof -
  have "unat (of_nat n :: u32) = n" using assms by (intro unat_of_nat_eq) simp
  then show "(of_nat n :: u32) \<le> 36000" "0 < n \<Longrightarrow> 0 < (of_nat n :: u32)"
    using assms by (simp_all add: word_le_nat_alt word_less_nat_alt)
qed

text \<open>A result that keeps what the parse promises, and the branches that lead to one.\<close>

definition result_ok :: "int + encode_options \<Rightarrow> bool" where
  "result_ok r = (case r of Inl e \<Rightarrow> True | Inr o' \<Rightarrow> parsed_ok o')"

lemma result_okI:
  "result_ok (Inl e)" "parsed_ok o' \<Longrightarrow> result_ok (Inr o')"
  "result_ok r \<Longrightarrow> result_ok r' \<Longrightarrow> result_ok (if c then r else r')"
  "parsed_ok o' \<Longrightarrow> parsed_ok o'' \<Longrightarrow> parsed_ok (if c then o' else o'')"
  by (simp_all add: result_ok_def)

lemma parsed_ok_update:
  assumes "parsed_ok o'"
  shows "parsed_ok (o'\<lparr>require_changing_source := c\<rparr>)" "parsed_ok (o'\<lparr>require_robustness := c\<rparr>)"
    "parsed_ok (o'\<lparr>unpaced := c\<rparr>)" "parsed_ok (o'\<lparr>reference_invalidation_enabled := c\<rparr>)"
    "parsed_ok (o'\<lparr>codec := k\<rparr>)" "parsed_ok (o'\<lparr>single_slice_intra_refresh := c\<rparr>)"
    "parsed_ok (o'\<lparr>output_name := t\<rparr>)" "parsed_ok (o'\<lparr>bitstream_path := t\<rparr>)"
    "parsed_ok (o'\<lparr>reference_bitstream_path := t\<rparr>)" "parsed_ok (o'\<lparr>split_mode := sp\<rparr>)"
    "parsed_ok (o'\<lparr>tuning := tu\<rparr>)" "parsed_ok (o'\<lparr>reference_frames := x\<rparr>)"
    "0 < x \<Longrightarrow> x \<le> 36000 \<Longrightarrow> parsed_ok (o'\<lparr>frame_count := x\<rparr>)"
    "0 < x \<Longrightarrow> x \<le> 36000 \<Longrightarrow> parsed_ok (o'\<lparr>frame_rate := x\<rparr>)"
    "x \<le> 36000 \<Longrightarrow> parsed_ok (o'\<lparr>simulate_loss_frame := x\<rparr>)"
    "0 < x \<Longrightarrow> x \<le> 36000 \<Longrightarrow> parsed_ok (o'\<lparr>invalidate_delay_frames := x\<rparr>)"
    "x \<le> 36000 \<Longrightarrow> parsed_ok (o'\<lparr>force_idr_frame := x\<rparr>)"
    "x \<le> 1 \<Longrightarrow> parsed_ok (o'\<lparr>queue_depth := x\<rparr>)"
    "0 < n \<Longrightarrow> n \<le> 4000 \<Longrightarrow> parsed_ok (o'\<lparr>bitrate := of_nat (n * 1000000)\<rparr>)"
    "0 < n \<Longrightarrow> n \<le> 1000000 \<Longrightarrow> parsed_ok (o'\<lparr>vbv_bits := of_nat (n * 1000)\<rparr>)"
    "0 < i \<Longrightarrow> i \<le> 36000 \<Longrightarrow> parsed_ok (o'\<lparr>intra_refresh_period := i\<rparr>)"
    "0 \<le> i \<Longrightarrow> i \<le> 36000 \<Longrightarrow> parsed_ok (o'\<lparr>intra_refresh_count := i\<rparr>)"
proof -
  have "unat (of_nat (n * 1000000) :: u32) = n * 1000000" if "n \<le> 4000"
    using that by (intro unat_of_nat_eq) simp
  moreover have "unat (of_nat (n * 1000) :: u32) = n * 1000" if "n \<le> 1000000"
    using that by (intro unat_of_nat_eq) simp
  ultimately show "0 < n \<Longrightarrow> n \<le> 4000 \<Longrightarrow> parsed_ok (o'\<lparr>bitrate := of_nat (n * 1000000)\<rparr>)"
    "0 < n \<Longrightarrow> n \<le> 1000000 \<Longrightarrow> parsed_ok (o'\<lparr>vbv_bits := of_nat (n * 1000)\<rparr>)"
    using assms by (auto simp: parsed_ok_def simp del: of_nat_mult)
qed (use assms in \<open>simp_all add: parsed_ok_def\<close>)

lemma flag_argument_ok: "flag_argument a o' = Some o'' \<Longrightarrow> parsed_ok o' \<Longrightarrow> parsed_ok o''"
  by (simp add: flag_argument_def parsed_ok_update split: if_split_asm) (auto intro: parsed_ok_update)

lemma rate_argument_ok: "parsed_ok o' \<Longrightarrow> result_ok (rate_argument a v o')"
  by (cases "a = ''--bitrate-mbps''")
    (auto simp: rate_argument_def not_less simp del: of_nat_mult intro!: result_okI parsed_ok_update split: option.split)

lemma numeric_argument_ok:
  assumes "parsed_ok o'"
  shows "result_ok (numeric_argument a v o')"
proof (cases "stoul v")
  case None
  then show ?thesis by (simp add: numeric_argument_def result_okI)
next
  case (Some n)
  show ?thesis
  proof (cases "0 < n \<and> n \<le> 36000")
    case True
    then show ?thesis unfolding numeric_argument_def Some option.case
      using assms by (intro result_okI parsed_ok_update small_u32) simp_all
  next
    case False
    then consider "n > 36000" | "n = 0" by linarith
    then show ?thesis
      using assms by cases (simp_all add: numeric_argument_def Some result_ok_def parsed_ok_update)
  qed
qed

lemma intra_argument_ok: "parsed_ok o' \<Longrightarrow> result_ok (intra_argument a v o')"
  by (cases "a = ''--intra-refresh-count''")
    (auto simp: intra_argument_def not_less not_le intro!: result_okI parsed_ok_update split: option.split)

lemma queue_argument_ok: "parsed_ok o' \<Longrightarrow> result_ok (queue_argument v o')"
  by (auto simp: queue_argument_def intro!: result_okI parsed_ok_update)

lemma value_argument_ok:
  assumes "parsed_ok o'"
  shows "result_ok (value_argument a v o')"
  unfolding value_argument_def using assms
  by (intro result_okI parsed_ok_update rate_argument_ok numeric_argument_ok intra_argument_ok queue_argument_ok)

lemma parse_encode_ok: "parsed_ok o' \<Longrightarrow> result_ok (parse_encode args o')"
proof (induction args o' rule: parse_encode.induct)
  case (2 a as o')
  show ?case
  proof (cases "flag_argument a o'")
    case None
    show ?thesis
    proof (cases as)
      case Nil
      then show ?thesis using None by (simp add: result_ok_def)
    next
      case (Cons v rest)
      show ?thesis
      proof (cases "value_argument a v o'")
        case (Inl e)
        then show ?thesis using None Cons by (simp add: result_ok_def)
      next
        case (Inr o'')
        then have "parsed_ok o''" using value_argument_ok [OF 2(3), of a v] by (simp add: result_ok_def)
        then show ?thesis using 2(1) [OF _ None Cons Inr] None Cons Inr by (simp add: result_ok_def)
      qed
    qed
  next
    case (Some o'')
    then show ?thesis using 2 flag_argument_ok [OF Some] by (simp add: result_ok_def)
  qed
qed (simp add: result_ok_def)

lemma accepted_bounds:
  assumes "encode_arguments args = Inr o'"
  shows "0 < frame_count o' \<and> frame_count o' \<le> 36000 \<and> 0 < frame_rate o' \<and> frame_rate o' \<le> 240 \<and>
    queue_depth o' \<le> 1 \<and> reference_frames o' \<le> 8 \<and>
    (\<exists>n. 0 < n \<and> n \<le> 4000 \<and> unat (bitrate o') = n * 1000000) \<and>
    (\<exists>n. 0 < n \<and> n \<le> 1000000 \<and> unat (vbv_bits o') = n * 1000) \<and>
    0 < intra_refresh_period o' \<and> 0 \<le> intra_refresh_count o' \<and> intra_refresh_count o' < intra_refresh_period o' \<and>
    simulate_loss_frame o' \<le> frame_count o' \<and> force_idr_frame o' \<le> frame_count o' \<and>
    (simulate_loss_frame o' \<noteq> 0 \<and> reference_invalidation_enabled o' \<longrightarrow>
       unat (simulate_loss_frame o') + unat (invalidate_delay_frames o') \<le> unat (frame_count o') \<and>
       0 < reference_frames o' \<and> (queue_depth o' = 1 \<longrightarrow> 2 \<le> invalidate_delay_frames o')) \<and>
    (reference_bitstream_path o' = [] \<or> reference_bitstream_path o' \<noteq> bitstream_path o')"
proof -
  obtain o1 where p: "parse_encode args encode_defaults = Inr o1" and c: "check_encode o1 = Inr o'"
    using assms by (auto simp: encode_arguments_def split: sum.splits)
  have ok: "parsed_ok o1" using parse_encode_ok [OF defaults_ok, of args] by (simp add: p result_ok_def)
  define o2 where "o2 = (if intra_refresh_period o1 < 0 then o1\<lparr>intra_refresh_period := int (unat (frame_rate o1))\<rparr> else o1)"
  define o3 where "o3 = (if intra_refresh_count o2 < 0 then o2\<lparr>intra_refresh_count := intra_refresh_period o2 div 2\<rparr> else o2)"
  define loss where "loss \<longleftrightarrow> simulate_loss_frame o3 \<noteq> 0 \<and> reference_invalidation_enabled o3"
  define o4 where "o4 = (if loss \<and> reference_frames o3 = 0 then o3\<lparr>reference_frames := 4\<rparr> else o3)"
  have c: "frame_rate o1 \<le> 240 \<and> \<not> (intra_refresh_count o3 > 0 \<and> intra_refresh_count o3 \<ge> intra_refresh_period o3) \<and>
      \<not> (simulate_loss_frame o3 > frame_count o3 \<or> force_idr_frame o3 > frame_count o3 \<or>
         (loss \<and> simulate_loss_frame o3 + invalidate_delay_frames o3 > frame_count o3)) \<and>
      \<not> reference_frames o3 > 8 \<and> \<not> (loss \<and> queue_depth o4 = 1 \<and> invalidate_delay_frames o4 < 2) \<and>
      \<not> (reference_bitstream_path o4 \<noteq> [] \<and> reference_bitstream_path o4 = bitstream_path o4) \<and> o' = o4"
    using c unfolding check_encode_def Let_def o2_def [symmetric] o3_def [symmetric] loss_def [symmetric] o4_def [symmetric]
    by (simp only: not_less [symmetric] sum.inject sum.distinct split: if_split_asm) simp
  have o4: "simulate_loss_frame o4 = simulate_loss_frame o3" "frame_count o4 = frame_count o3"
    "force_idr_frame o4 = force_idr_frame o3" "invalidate_delay_frames o4 = invalidate_delay_frames o3"
    "reference_invalidation_enabled o4 = reference_invalidation_enabled o3" "frame_rate o4 = frame_rate o1"
    "bitrate o4 = bitrate o1" "vbv_bits o4 = vbv_bits o1" "queue_depth o4 = queue_depth o1"
    "intra_refresh_period o4 = intra_refresh_period o2" "intra_refresh_count o4 = intra_refresh_count o3"
    "intra_refresh_period o3 = intra_refresh_period o2"
    by (simp_all add: o4_def o3_def o2_def)
  have o3: "simulate_loss_frame o3 = simulate_loss_frame o1" "invalidate_delay_frames o3 = invalidate_delay_frames o1"
    "frame_count o3 = frame_count o1"
    by (simp_all add: o3_def o2_def)
  have "0 < uint (frame_rate o1)" using ok by (simp add: parsed_ok_def word_less_def)
  then have period: "0 < intra_refresh_period o2" using ok by (auto simp: o2_def parsed_ok_def)
  then have refresh: "0 \<le> intra_refresh_count o3" "intra_refresh_count o3 < intra_refresh_period o2"
    using c o4 by (auto simp: o3_def split: if_splits)
  have "unat (simulate_loss_frame o3 + invalidate_delay_frames o3) =
      unat (simulate_loss_frame o3) + unat (invalidate_delay_frames o3)"
    using ok unfolding o3 by (simp add: parsed_ok_def word_le_nat_alt unat_word_ariths)
  then have sum: "loss \<Longrightarrow> unat (simulate_loss_frame o3) + unat (invalidate_delay_frames o3) \<le> unat (frame_count o3)"
    using c by (simp add: not_less word_le_nat_alt)
  have refs: "reference_frames o4 \<le> 8" "loss \<Longrightarrow> 0 < reference_frames o4"
    using c by (auto simp: o4_def not_less word_gt_0)
  have bounds: "0 < frame_count o4" "frame_count o4 \<le> 36000" "0 < frame_rate o4" "queue_depth o4 \<le> 1"
    "\<exists>n. 0 < n \<and> n \<le> 4000 \<and> unat (bitrate o4) = n * 1000000"
    "\<exists>n. 0 < n \<and> n \<le> 1000000 \<and> unat (vbv_bits o4) = n * 1000"
    using ok unfolding o4 o3 parsed_ok_def by blast+
  show ?thesis
    using c bounds refresh period sum refs by (auto simp: loss_def o4 not_less)
qed

text \<open>C29. The options the probe runs with: at least one and at most 36000 frames at 1 to 240 a second; bit rate
  and buffer size computed without overflow; an intra refresh shorter than its period; the frame to lose, the
  frame to force and the frame at which the loss is reported all among the frames encoded, with reference frames
  to invalidate and, with a worker thread, at least two frames of delay; two different files.\<close>

theorem accepted_options:
  assumes "encode_arguments args = Inr o'"
  shows "0 < frame_count o' \<and> frame_count o' \<le> 36000 \<and> 0 < frame_rate o' \<and> frame_rate o' \<le> 240 \<and>
    queue_depth o' \<le> 1 \<and> reference_frames o' \<le> 8 \<and>
    (\<exists>n. 0 < n \<and> n \<le> 4000 \<and> unat (bitrate o') = n * 1000000) \<and>
    (\<exists>n. 0 < n \<and> n \<le> 1000000 \<and> unat (vbv_bits o') = n * 1000) \<and>
    0 < intra_refresh_period o' \<and> 0 \<le> intra_refresh_count o' \<and> intra_refresh_count o' < intra_refresh_period o' \<and>
    simulate_loss_frame o' \<le> frame_count o' \<and> force_idr_frame o' \<le> frame_count o' \<and>
    (simulate_loss_frame o' \<noteq> 0 \<and> reference_invalidation_enabled o' \<longrightarrow>
       unat (simulate_loss_frame o') + unat (invalidate_delay_frames o') \<le> unat (frame_count o') \<and>
       0 < reference_frames o' \<and> (queue_depth o' = 1 \<longrightarrow> 2 \<le> invalidate_delay_frames o')) \<and>
    (reference_bitstream_path o' = [] \<or> reference_bitstream_path o' \<noteq> bitstream_path o')"
  by (rule accepted_bounds [OF assms])

theorem accepted_options_witness:
  "\<exists>o'. encode_arguments [''--simulate-loss-frame'', ''9'', ''--fps'', ''5''] = Inr o' \<and> simulate_loss_frame o' = 9 \<and>
     0 < reference_frames o' \<and> 2 \<le> invalidate_delay_frames o'"
proof -
  let ?o = "encode_defaults\<lparr>simulate_loss_frame := 9, frame_rate := 5\<rparr>"
  let ?c = "?o\<lparr>intra_refresh_period := 5, intra_refresh_count := 2, reference_frames := 4\<rparr>"
  have n: "stoul ''9'' = Some 9" "stoul ''5'' = Some 5"
    by (simp_all add: stoul_def c_integer_def c_isspace_def is_digit_def digit_value_def)
  have "parse_encode [''--simulate-loss-frame'', ''9'', ''--fps'', ''5''] encode_defaults = Inr ?o"
    by (simp add: flag_argument_def value_argument_def numeric_argument_def n)
  moreover have "check_encode ?o = Inr ?c"
    by (simp add: check_encode_def encode_defaults_def)
  ultimately have a: "encode_arguments [''--simulate-loss-frame'', ''9'', ''--fps'', ''5''] = Inr ?c"
    by (simp add: encode_arguments_def)
  then show ?thesis using accepted_options [OF a] by (simp add: encode_defaults_def)
qed

end
