(* ===== verification/Encode_Resources.thy ===== *)
theory Encode_Resources
  imports Encode_Options "HOL-Library.Sublist"
begin

text \<open>
  The driver objects of \<^verbatim>\<open>probes/video/plank-probe-video-pipeline.cpp\<close>: what
  \<^verbatim>\<open>initialize_cuda\<close>, \<^verbatim>\<open>self_test_conversion\<close>, \<^verbatim>\<open>initialize_nvfbc\<close> and
  \<^verbatim>\<open>initialize_nvenc\<close> acquire before the first call that fails, what the destructor of
  \<^verbatim>\<open>Resources\<close> releases, and the configuration of the encoder.

  Whether a call succeeds is an argument, by the name the source gives the operation and, where it is repeated, a
  number. Calls that acquire and release are logged in order.
\<close>

section \<open>Objects and logs\<close>

datatype resource =
    CudaFunctions | CudaContext | ConversionStream | CudaModule | TestSource | TestDestination
  | NvfbcLibrary | NvfbcHandle | NvfbcCapture | NvencFunctions | Encoder
  | Surface nat | Registered nat | Bitstream nat | Mapped nat | Locked nat | ConvertedBuffer | HostBuffer

datatype resource_event = Acquire resource | Release resource

text \<open>The objects an object lives in or is made from. The last two are the buffers of the raw capture probe.\<close>

fun parents :: "resource \<Rightarrow> resource list" where
  "parents CudaFunctions = []"
| "parents CudaContext = [CudaFunctions]"
| "parents ConversionStream = [CudaContext]"
| "parents CudaModule = [CudaContext]"
| "parents TestSource = [CudaContext]"
| "parents TestDestination = [CudaContext]"
| "parents NvfbcLibrary = []"
| "parents NvfbcHandle = [NvfbcLibrary]"
| "parents NvfbcCapture = [NvfbcHandle]"
| "parents NvencFunctions = []"
| "parents Encoder = [NvencFunctions, CudaContext]"
| "parents (Surface i) = [CudaContext]"
| "parents (Registered i) = [Encoder, Surface i]"
| "parents (Bitstream i) = [Encoder]"
| "parents (Mapped i) = [Registered i]"
| "parents (Locked i) = [Bitstream i]"
| "parents ConvertedBuffer = [CudaContext]"
| "parents HostBuffer = [CudaContext]"

text \<open>
  A log is followed with the objects held: nothing is acquired twice or without its parents, nothing is
  released that is not held or while something made from it is held.
\<close>

fun follow :: "resource list \<Rightarrow> resource_event list \<Rightarrow> resource list option" where
  "follow held [] = Some held"
| "follow held (Acquire r # es) =
     (if r \<in> set held \<or> \<not> set (parents r) \<subseteq> set held then None else follow (r # held) es)"
| "follow held (Release r # es) =
     (if r \<notin> set held \<or> list_ex (\<lambda>c. r \<in> set (parents c)) held then None else follow (remove1 r held) es)"

section \<open>Initialisation\<close>

type_synonym api = "string \<times> nat \<Rightarrow> bool"

text \<open>Straight-line code: the calls in order, each with what it acquires; the first failure throws.\<close>

type_synonym setup_call = "(string \<times> nat) \<times> resource option"

fun run_setup :: "api \<Rightarrow> setup_call list \<Rightarrow> bool \<times> resource_event list" where
  "run_setup ok [] = (True, [])"
| "run_setup ok ((call, acquired) # calls) =
     (if \<not> ok call then (False, [])
      else case run_setup ok calls of
        (r, es) \<Rightarrow> (r, (case acquired of None \<Rightarrow> es | Some a \<Rightarrow> Acquire a # es)))"

definition initialize_cuda :: "setup_call list" where
  "initialize_cuda =
     [((''cuda_load_functions'', 0), Some CudaFunctions), ((''cuInit'', 0), None), ((''cuDeviceGet'', 0), None),
      ((''cuDeviceGetName'', 0), None), ((''cuCtxCreate'', 0), Some CudaContext),
      ((''cuCtxGetStreamPriorityRange'', 0), None), ((''cuStreamCreateWithPriority'', 0), Some ConversionStream),
      ((''cuModuleLoadData'', 0), Some CudaModule), ((''cuModuleGetFunction'', 0), None),
      ((''cuModuleGetFunction(8-bit)'', 0), None)]"

text \<open>
  One half of the self-test, for ten and for eight bits. An exception after both allocations frees both; an
  exception of the second allocation frees nothing.
\<close>

definition self_test_half :: "api \<Rightarrow> bool \<Rightarrow> nat \<Rightarrow> bool \<times> resource_event list" where
  "self_test_half ok matches n =
     (if \<not> ok (''cuMemAlloc(test source)'', n) then (False, [])
      else if \<not> ok (''cuMemAlloc(test destination)'', n) then (False, [Acquire TestSource])
      else
        (ok (''cuMemcpyHtoD(test)'', n) \<and> ok (''cuLaunchKernel'', n) \<and> ok (''cuStreamSynchronize'', n) \<and>
           ok (''cuMemcpyDtoH(test)'', n) \<and> matches,
         [Acquire TestSource, Acquire TestDestination, Release TestDestination, Release TestSource]))"

definition self_test_conversion :: "api \<Rightarrow> bool \<Rightarrow> bool \<Rightarrow> bool \<times> resource_event list" where
  "self_test_conversion ok matches10 matches8 =
     (case self_test_half ok matches10 0 of
        (False, es) \<Rightarrow> (False, es)
      | (True, es) \<Rightarrow> (case self_test_half ok matches8 1 of (r, es') \<Rightarrow> (r, es @ es')))"

record randr_output =
  out_name :: string
  out_w :: u32
  out_h :: u32

text \<open>The outputs the status lists; the first of the name is captured.\<close>

definition initialize_nvfbc ::
    "api \<Rightarrow> randr_output list \<Rightarrow> string \<Rightarrow> randr_output option \<times> resource_event list" where
  "initialize_nvfbc ok outputs wanted =
     (case run_setup ok
             [((''dlopen'', 0), Some NvfbcLibrary), ((''dlsym'', 0), None), ((''NvFBCCreateInstance'', 0), None),
              ((''NvFBCCreateHandle'', 0), Some NvfbcHandle), ((''NvFBCGetStatus'', 0), None), ((''bCanCreateNow'', 0), None)] of
        (False, es) \<Rightarrow> (None, es)
      | (True, es) \<Rightarrow>
          (case find (\<lambda>x. out_name x = wanted) outputs of
             None \<Rightarrow> (None, es)
           | Some x \<Rightarrow>
               (case run_setup ok [((''NvFBCCreateCaptureSession'', 0), Some NvfbcCapture), ((''NvFBCToCudaSetUp'', 0), None)] of
                  (r, es') \<Rightarrow> (if r then Some x else None, es @ es'))))"

definition slot_setup :: "nat \<Rightarrow> setup_call list" where
  "slot_setup i =
     [((''cuMemAllocPitch(encoder surface)'', i), Some (Surface i)), ((''nvEncRegisterResource'', i), Some (Registered i)),
      ((''nvEncCreateBitstreamBuffer'', i), Some (Bitstream i))]"

definition initialize_nvenc :: "setup_call list" where
  "initialize_nvenc =
     [((''nvenc_load_functions'', 0), Some NvencFunctions), ((''NvEncodeAPICreateInstance'', 0), None),
      ((''nvEncOpenEncodeSessionEx'', 0), Some Encoder), ((''nvEncGetEncodePresetConfigEx'', 0), None),
      ((''nvEncInitializeEncoder'', 0), None)] @ slot_setup 0 @ slot_setup 1"

section \<open>The configuration of the encoder\<close>

datatype buffer_format = YUV444 | YUV444_10BIT
datatype profile = HEVC_FREXT | H264_HIGH_444

record encoder_config =
  cfg_profile :: profile
  cfg_buffer_format :: buffer_format
  cfg_infinite_gop :: bool
  cfg_frame_interval :: nat
  cfg_average_bitrate :: u32
  cfg_max_bitrate :: u32
  cfg_vbv_buffer_size :: u32
  cfg_vbv_initial_delay :: u32
  cfg_chroma_format_idc :: nat
  cfg_bit_depth :: nat
  cfg_enable_intra_refresh :: bool
  cfg_intra_refresh_period :: u32
  cfg_intra_refresh_count :: u32
  cfg_single_slice :: bool
  cfg_reference_frames :: u32
  cfg_full_range :: bool
  cfg_matrix_rgb :: bool
  cfg_width :: u32
  cfg_height :: u32
  cfg_frame_rate :: u32
  cfg_tuning :: tuning_info
  cfg_split_mode :: split_mode

definition encoder_configuration :: "encode_options \<Rightarrow> u32 \<Rightarrow> u32 \<Rightarrow> encoder_config" where
  "encoder_configuration o' w h =
     \<lparr>cfg_profile = (if codec o' = kHevc10 then HEVC_FREXT else H264_HIGH_444),
      cfg_buffer_format = (if codec o' = kHevc10 then YUV444_10BIT else YUV444),
      cfg_infinite_gop = True, cfg_frame_interval = 1, cfg_average_bitrate = bitrate o', cfg_max_bitrate = bitrate o',
      cfg_vbv_buffer_size = vbv_bits o', cfg_vbv_initial_delay = vbv_bits o', cfg_chroma_format_idc = 3,
      cfg_bit_depth = (if codec o' = kHevc10 then 10 else 8),
      cfg_enable_intra_refresh = (intra_refresh_count o' > 0),
      cfg_intra_refresh_period = of_int (intra_refresh_period o'),
      cfg_intra_refresh_count = of_int (intra_refresh_count o'),
      cfg_single_slice = (intra_refresh_count o' > 0 \<and> single_slice_intra_refresh o'),
      cfg_reference_frames = reference_frames o', cfg_full_range = True, cfg_matrix_rgb = True, cfg_width = w,
      cfg_height = h, cfg_frame_rate = frame_rate o', cfg_tuning = tuning o', cfg_split_mode = split_mode o'\<rparr>"

text \<open>The row bytes and the rows of a slot's surface.\<close>

definition surface_geometry :: "encode_options \<Rightarrow> u32 \<Rightarrow> u32 \<Rightarrow> nat \<times> nat" where
  "surface_geometry o' w h = (unat w * (if codec o' = kHevc10 then 2 else 1), unat h * 3)"

section \<open>The destructor\<close>

record EncodeSlot =
  has_surface :: bool
  has_registered :: bool
  has_mapped :: bool
  has_bitstream :: bool
  bitstream_locked :: bool

record Resources =
  has_cuda :: bool
  has_nvenc_loader :: bool
  has_cuda_context :: bool
  has_conversion_stream :: bool
  has_cuda_module :: bool
  encode_slots :: "EncodeSlot list"
  has_nvfbc_library :: bool
  has_nvfbc_handle :: bool
  nvfbc_capture_created :: bool
  has_encoder :: bool

definition release_if :: "bool \<Rightarrow> resource \<Rightarrow> resource_event list" where
  "release_if c r = (if c then [Release r] else [])"

definition release_slot :: "bool \<Rightarrow> nat \<times> EncodeSlot \<Rightarrow> resource_event list" where
  "release_slot encoder s =
     release_if (bitstream_locked (snd s) \<and> encoder) (Locked (fst s)) @
     release_if (has_mapped (snd s) \<and> encoder) (Mapped (fst s)) @
     release_if (has_bitstream (snd s) \<and> encoder) (Bitstream (fst s)) @
     release_if (has_registered (snd s) \<and> encoder) (Registered (fst s))"

definition destroy_resources :: "Resources \<Rightarrow> resource_event list" where
  "destroy_resources r =
     concat (map (release_slot (has_encoder r)) (enumerate 0 (encode_slots r))) @
     release_if (has_encoder r) Encoder @ release_if (has_nvenc_loader r) NvencFunctions @
     release_if (nvfbc_capture_created r) NvfbcCapture @ release_if (has_nvfbc_handle r) NvfbcHandle @
     release_if (has_nvfbc_library r) NvfbcLibrary @
     concat (map (\<lambda>s. release_if (has_surface (snd s) \<and> has_cuda r) (Surface (fst s))) (enumerate 0 (encode_slots r))) @
     release_if (has_conversion_stream r \<and> has_cuda r) ConversionStream @
     release_if (has_cuda_module r \<and> has_cuda r) CudaModule @
     release_if (has_cuda_context r \<and> has_cuda r) CudaContext @ release_if (has_cuda r) CudaFunctions"

text \<open>The fields after a log: a pointer is set by its acquisition and cleared by its release.\<close>

definition resources_after :: "resource list \<Rightarrow> Resources" where
  "resources_after held =
     \<lparr>has_cuda = (CudaFunctions \<in> set held), has_nvenc_loader = (NvencFunctions \<in> set held),
      has_cuda_context = (CudaContext \<in> set held), has_conversion_stream = (ConversionStream \<in> set held),
      has_cuda_module = (CudaModule \<in> set held),
      encode_slots = map (\<lambda>i. \<lparr>has_surface = (Surface i \<in> set held), has_registered = (Registered i \<in> set held),
        has_mapped = (Mapped i \<in> set held), has_bitstream = (Bitstream i \<in> set held),
        bitstream_locked = (Locked i \<in> set held)\<rparr>) [0, 1],
      has_nvfbc_library = (NvfbcLibrary \<in> set held), has_nvfbc_handle = (NvfbcHandle \<in> set held),
      nvfbc_capture_created = (NvfbcCapture \<in> set held), has_encoder = (Encoder \<in> set held)\<rparr>"

text \<open>The start of the program: the initialisations in turn, up to the first exception.\<close>

definition encode_setup ::
    "api \<Rightarrow> bool \<Rightarrow> bool \<Rightarrow> randr_output list \<Rightarrow> string \<Rightarrow> randr_output option \<times> resource_event list" where
  "encode_setup ok matches10 matches8 outputs wanted =
     (case run_setup ok initialize_cuda of
        (False, es) \<Rightarrow> (None, es)
      | (True, es1) \<Rightarrow>
          (case self_test_conversion ok matches10 matches8 of
             (False, es) \<Rightarrow> (None, es1 @ es)
           | (True, es2) \<Rightarrow>
               (case initialize_nvfbc ok outputs wanted of
                  (None, es) \<Rightarrow> (None, es1 @ es2 @ es)
                | (Some x, es3) \<Rightarrow>
                    (case run_setup ok initialize_nvenc of
                       (r, es) \<Rightarrow> (if r then Some x else None, es1 @ es2 @ es3 @ es)))))"

section \<open>Following logs\<close>

lemma follow_append: "follow held (a @ b) = (case follow held a of None \<Rightarrow> None | Some h \<Rightarrow> follow h b)"
  by (induction held a rule: follow.induct) auto

definition closed :: "resource list \<Rightarrow> bool" where
  "closed held \<longleftrightarrow> distinct held \<and> (\<forall>r \<in> set held. set (parents r) \<subseteq> set held)"

lemma follow_closed: "follow held es = Some held' \<Longrightarrow> closed held \<Longrightarrow> closed held'"
proof (induction held es rule: follow.induct)
  case (3 held r es)
  then have "closed (remove1 r held)"
    by (auto simp: closed_def list_ex_iff set_remove1_eq split: if_splits)
  then show ?case using 3 by (auto split: if_splits)
qed (auto simp: closed_def split: if_splits)

lemma closed_Nil [simp]: "closed []"
  by (simp add: closed_def)

section \<open>The destructor releases everything\<close>

definition release_order :: "resource list" where
  "release_order =
     concat (map (\<lambda>i. [Locked i, Mapped i, Bitstream i, Registered i]) [0, 1]) @
     [Encoder, NvencFunctions, NvfbcCapture, NvfbcHandle, NvfbcLibrary, Surface 0, Surface 1, ConversionStream,
      CudaModule, CudaContext, CudaFunctions]"

lemma release_order_children: "sorted_wrt (\<lambda>r c. r \<notin> set (parents c)) release_order"
  by (simp add: release_order_def)

lemma not_own_parent: "r \<notin> set (parents r)"
  by (cases r) simp_all

lemma destroy_in_order:
  assumes "closed held"
  shows "destroy_resources (resources_after held) = map Release (filter (\<lambda>r. r \<in> set held) release_order)"
proof -
  have up: "r \<in> set held \<Longrightarrow> set (parents r) \<subseteq> set held" for r using assms by (simp add: closed_def)
  have "Locked i \<in> set held \<longrightarrow> Encoder \<in> set held" "Mapped i \<in> set held \<longrightarrow> Encoder \<in> set held"
    "Bitstream i \<in> set held \<longrightarrow> Encoder \<in> set held" "Registered i \<in> set held \<longrightarrow> Encoder \<in> set held"
    "Surface i \<in> set held \<longrightarrow> CudaFunctions \<in> set held" for i
    using up [of "Locked i"] up [of "Mapped i"] up [of "Bitstream i"] up [of "Registered i"] up [of "Surface i"]
      up [of CudaContext] by auto
  moreover have "ConversionStream \<in> set held \<longrightarrow> CudaFunctions \<in> set held"
    "CudaModule \<in> set held \<longrightarrow> CudaFunctions \<in> set held" "CudaContext \<in> set held \<longrightarrow> CudaFunctions \<in> set held"
    using up [of ConversionStream] up [of CudaModule] up [of CudaContext] by auto
  ultimately have "(Locked i \<in> set held \<and> Encoder \<in> set held) = (Locked i \<in> set held)"
    "(Mapped i \<in> set held \<and> Encoder \<in> set held) = (Mapped i \<in> set held)"
    "(Bitstream i \<in> set held \<and> Encoder \<in> set held) = (Bitstream i \<in> set held)"
    "(Registered i \<in> set held \<and> Encoder \<in> set held) = (Registered i \<in> set held)"
    "(Surface i \<in> set held \<and> CudaFunctions \<in> set held) = (Surface i \<in> set held)"
    "(ConversionStream \<in> set held \<and> CudaFunctions \<in> set held) = (ConversionStream \<in> set held)"
    "(CudaModule \<in> set held \<and> CudaFunctions \<in> set held) = (CudaModule \<in> set held)"
    "(CudaContext \<in> set held \<and> CudaFunctions \<in> set held) = (CudaContext \<in> set held)" for i
    by blast+
  then show ?thesis
    unfolding destroy_resources_def resources_after_def release_order_def
    by (simp add: release_slot_def release_if_def enumerate_eq_zip)
qed

lemma follow_release_all:
  assumes "sorted_wrt (\<lambda>r c. r \<notin> set (parents c)) order" and "distinct order" and "distinct held"
    and "set held \<subseteq> set order"
  shows "follow held (map Release (filter (\<lambda>r. r \<in> set held) order)) = Some []"
  using assms
proof (induction order arbitrary: held)
  case (Cons r order)
  show ?case
  proof (cases "r \<in> set held")
    case True
    have "\<not> list_ex (\<lambda>c. r \<in> set (parents c)) held"
      using Cons.prems not_own_parent by (auto simp: list_ex_iff)
    moreover have "filter (\<lambda>x. x \<in> set held) order = filter (\<lambda>x. x \<in> set (remove1 r held)) order"
      using Cons.prems by (intro filter_cong) (auto simp: set_remove1_eq)
    ultimately show ?thesis
      using True Cons.prems Cons.IH [of "remove1 r held"] by (auto simp: set_remove1_eq)
  next
    case False
    then show ?thesis using Cons by auto
  qed
qed simp

lemma destructor_releases:
  assumes "closed held" and "set held \<subseteq> set release_order"
  shows "follow held (destroy_resources (resources_after held)) = Some []"
  unfolding destroy_in_order [OF assms(1)]
  by (rule follow_release_all [OF release_order_children _ _ assms(2)])
    (use assms(1) in \<open>simp_all add: release_order_def closed_def\<close>)

section \<open>What the set-up holds\<close>

definition acquired :: "setup_call list \<Rightarrow> resource list" where
  "acquired calls = List.map_filter snd calls"

lemma run_setup_prefix:
  "run_setup ok calls = (r, es) \<Longrightarrow>
     \<exists>rs. es = map Acquire rs \<and> prefix rs (acquired calls) \<and> (r \<longrightarrow> rs = acquired calls)"
proof (induction ok calls arbitrary: r es rule: run_setup.induct)
  case (2 ok call a calls)
  show ?case
  proof (cases "ok call")
    case True
    obtain r' es' where rs: "run_setup ok calls = (r', es')" by fastforce
    from 2(1) [OF _ this] True obtain rs where
      "es' = map Acquire rs" "prefix rs (acquired calls)" "r' \<longrightarrow> rs = acquired calls" by auto
    then show ?thesis
      using 2(2) True rs
      by (cases a) (auto simp: acquired_def List.map_filter_def intro: exI [of _ "the a # rs"])
  qed (use 2(2) in simp)
qed (simp add: acquired_def List.map_filter_def)

lemma follow_acquire: "follow held (map Acquire rs) = Some held' \<Longrightarrow> held' = rev rs @ held"
  by (induction rs arbitrary: held) (auto split: if_splits)

lemma follow_acquire_prefix:
  assumes "follow held (map Acquire rs) = Some held'" and "prefix rs' rs"
  shows "follow held (map Acquire rs') = Some (rev rs' @ held)"
proof -
  obtain rest where "rs = rs' @ rest" using assms(2) by (auto elim: prefixE)
  then obtain h where "follow held (map Acquire rs') = Some h"
    using assms(1) by (auto simp: follow_append split: option.splits)
  then show ?thesis using follow_acquire by auto
qed

text \<open>A piece of the set-up that starts with the objects \<open>held\<close>.\<close>

lemma setup_piece:
  assumes "run_setup ok calls = (r, es)" and "follow held (map Acquire (acquired calls)) = Some full"
  shows "\<exists>rs. follow held es = Some (rev rs @ held) \<and> set rs \<subseteq> set (acquired calls) \<and> (r \<longrightarrow> rs = acquired calls)"
proof -
  obtain rs where rs: "es = map Acquire rs" "prefix rs (acquired calls)" "r \<longrightarrow> rs = acquired calls"
    using run_setup_prefix [OF assms(1)] by blast
  then show ?thesis using follow_acquire_prefix [OF assms(2) rs(2)] set_mono_prefix [OF rs(2)] by auto
qed

definition cuda_objects :: "resource list" where
  "cuda_objects = [CudaModule, ConversionStream, CudaContext, CudaFunctions]"

definition capture_objects :: "resource list" where
  "capture_objects = [NvfbcCapture, NvfbcHandle, NvfbcLibrary]"

definition encoder_objects :: "resource list" where
  "encoder_objects = [Bitstream 1, Registered 1, Surface 1, Bitstream 0, Registered 0, Surface 0, Encoder, NvencFunctions]"

lemma acquired_objects:
  "acquired initialize_cuda = rev cuda_objects"
  "acquired initialize_nvenc = rev encoder_objects"
  by (simp_all add: acquired_def initialize_cuda_def initialize_nvenc_def slot_setup_def List.map_filter_def
      cuda_objects_def encoder_objects_def)

text \<open>Both test buffers can be allocated, or not even the first.\<close>

definition no_test_leak :: "api \<Rightarrow> bool" where
  "no_test_leak ok \<longleftrightarrow>
     (ok (''cuMemAlloc(test source)'', 0) \<longrightarrow> ok (''cuMemAlloc(test destination)'', 0)) \<and>
     (ok (''cuMemAlloc(test source)'', 1) \<longrightarrow> ok (''cuMemAlloc(test destination)'', 1))"

lemma self_test_half_follow:
  assumes "self_test_half ok m n = (r, es)"
    and "ok (''cuMemAlloc(test source)'', n) \<longrightarrow> ok (''cuMemAlloc(test destination)'', n)"
  shows "follow cuda_objects es = Some cuda_objects"
  using assms by (auto simp: self_test_half_def cuda_objects_def split: if_splits)

lemma self_test_follow:
  assumes "self_test_conversion ok m10 m8 = (r, es)" and "no_test_leak ok"
  shows "follow cuda_objects es = Some cuda_objects"
proof -
  obtain ra ea where a: "self_test_half ok m10 0 = (ra, ea)" by fastforce
  obtain rb eb where b: "self_test_half ok m8 1 = (rb, eb)" by fastforce
  have "follow cuda_objects ea = Some cuda_objects" "follow cuda_objects eb = Some cuda_objects"
    using self_test_half_follow [OF a] self_test_half_follow [OF b] assms(2) by (auto simp: no_test_leak_def)
  moreover have "es = (if ra then ea @ eb else ea)"
    using assms(1) unfolding self_test_conversion_def a b by (cases ra) auto
  ultimately show ?thesis by (simp add: follow_append)
qed

lemma nvfbc_follow:
  assumes "initialize_nvfbc ok outputs wanted = (r, es)"
  shows "\<exists>rs. follow cuda_objects es = Some (rs @ cuda_objects) \<and> set rs \<subseteq> set capture_objects \<and>
    (r \<noteq> None \<longrightarrow> rs = capture_objects)"
proof -
  let ?a = "[((''dlopen'', 0), Some NvfbcLibrary), ((''dlsym'', 0), None), ((''NvFBCCreateInstance'', 0), None),
      ((''NvFBCCreateHandle'', 0), Some NvfbcHandle), ((''NvFBCGetStatus'', 0), None), ((''bCanCreateNow'', 0), None)]
      :: setup_call list"
  let ?b = "[((''NvFBCCreateCaptureSession'', 0), Some NvfbcCapture), ((''NvFBCToCudaSetUp'', 0), None)] :: setup_call list"
  have ab: "acquired ?a = [NvfbcLibrary, NvfbcHandle]" "acquired ?b = [NvfbcCapture]"
    by (simp_all add: acquired_def List.map_filter_def)
  obtain ra ea where a: "run_setup ok ?a = (ra, ea)" by fastforce
  obtain rb eb where b: "run_setup ok ?b = (rb, eb)" by fastforce
  obtain rs where rs: "follow cuda_objects ea = Some (rev rs @ cuda_objects)" "set rs \<subseteq> {NvfbcLibrary, NvfbcHandle}"
    "ra \<longrightarrow> rs = [NvfbcLibrary, NvfbcHandle]"
    using setup_piece [OF a, of cuda_objects "[NvfbcHandle, NvfbcLibrary] @ cuda_objects"]
    by (auto simp: ab cuda_objects_def)
  obtain bs where bs: "follow ([NvfbcHandle, NvfbcLibrary] @ cuda_objects) eb =
      Some (rev bs @ [NvfbcHandle, NvfbcLibrary] @ cuda_objects)" "set bs \<subseteq> {NvfbcCapture}" "rb \<longrightarrow> bs = [NvfbcCapture]"
    using setup_piece [OF b, of "[NvfbcHandle, NvfbcLibrary] @ cuda_objects"
        "NvfbcCapture # [NvfbcHandle, NvfbcLibrary] @ cuda_objects"]
    by (auto simp: ab cuda_objects_def)
  show ?thesis
  proof (cases "ra \<and> find (\<lambda>x. out_name x = wanted) outputs \<noteq> None")
    case True
    then have "es = ea @ eb" "r \<noteq> None \<longrightarrow> rb" and rs2: "rs = [NvfbcLibrary, NvfbcHandle]"
      using assms rs(3) unfolding initialize_nvfbc_def a b by (auto split: if_splits)
    then show ?thesis
      using rs(1) bs by (intro exI [of _ "rev bs @ [NvfbcHandle, NvfbcLibrary]"])
        (auto simp: follow_append capture_objects_def)
  next
    case False
    then have "es = ea" "r = None"
      using assms unfolding initialize_nvfbc_def a b by (auto split: bool.splits option.splits)
    then show ?thesis using rs(1,2) by (intro exI [of _ "rev rs"]) (auto simp: capture_objects_def)
  qed
qed

lemma setup_follow:
  assumes "encode_setup ok m10 m8 outputs wanted = (r, es)" and "no_test_leak ok"
  shows "\<exists>held. follow [] es = Some held \<and> set held \<subseteq> set release_order \<and>
    (r \<noteq> None \<longrightarrow> held = encoder_objects @ capture_objects @ cuda_objects)"
proof -
  note objects = cuda_objects_def capture_objects_def encoder_objects_def release_order_def
  obtain r1 e1 where c: "run_setup ok initialize_cuda = (r1, e1)" by fastforce
  obtain r2 e2 where t: "self_test_conversion ok m10 m8 = (r2, e2)" by fastforce
  obtain r3 e3 where f: "initialize_nvfbc ok outputs wanted = (r3, e3)" by fastforce
  obtain r4 e4 where n: "run_setup ok initialize_nvenc = (r4, e4)" by fastforce
  obtain h1 where h1: "follow [] e1 = Some (rev h1)" "set h1 \<subseteq> set cuda_objects" "r1 \<longrightarrow> rev h1 = cuda_objects"
    using setup_piece [OF c, of "[]" cuda_objects] by (auto simp: acquired_objects cuda_objects_def)
  note h2 = self_test_follow [OF t assms(2)]
  obtain h3 where h3: "follow cuda_objects e3 = Some (h3 @ cuda_objects)" "set h3 \<subseteq> set capture_objects"
    "r3 \<noteq> None \<longrightarrow> h3 = capture_objects"
    using nvfbc_follow [OF f] by blast
  obtain h4 where h4: "follow (capture_objects @ cuda_objects) e4 = Some (rev h4 @ capture_objects @ cuda_objects)"
    "set h4 \<subseteq> set encoder_objects" "r4 \<longrightarrow> rev h4 = encoder_objects"
    using setup_piece [OF n, of "capture_objects @ cuda_objects" "encoder_objects @ capture_objects @ cuda_objects"]
    by (auto simp: acquired_objects objects)
  consider "\<not> r1" "es = e1" "r = None" | "r1" "\<not> r2" "es = e1 @ e2" "r = None"
    | "r1" "r2" "r3 = None" "es = e1 @ e2 @ e3" "r = None"
    | "r1" "r2" "r3 \<noteq> None" "es = e1 @ e2 @ e3 @ e4" "r \<noteq> None \<longrightarrow> r4"
    using assms(1) unfolding encode_setup_def c t f n
    by (cases r1; cases r2; cases r3) (auto split: if_splits)
  then show ?thesis
  proof cases
    case 1
    then show ?thesis using h1(1,2) by (auto simp: objects)
  next
    case 2
    then show ?thesis using h1 h2 by (auto simp: follow_append objects)
  next
    case 3
    then show ?thesis using h1 h2 h3(1,2) by (auto simp: follow_append objects)
  next
    case 4
    then have "follow [] es = Some (rev h4 @ capture_objects @ cuda_objects)"
      using h1 h2 h3 h4(1) by (auto simp: follow_append)
    moreover have "set (rev h4 @ capture_objects @ cuda_objects) \<subseteq> set release_order"
      using h4(2) by (auto simp: objects)
    ultimately show ?thesis using 4(5) h4(3) by auto
  qed
qed

end
