(* ===== verification/Encode_Pipeline.thy ===== *)
theory Encode_Pipeline
  imports Encode_Resources Bounded_Queue
begin

text \<open>
  The frame loop of \<^verbatim>\<open>probes/video/plank-probe-video-pipeline.cpp\<close>: a frame is captured, converted and
  submitted in one of two slots; the slot is drained at once (queue depth 0) or by a worker thread (queue depth 1).

  Clock readings and the success of driver calls are arguments. \<open>encoded n\<close> are the bytes the encoder makes of the
  picture with time stamp \<open>n\<close>: it is configured without reordering, so a slot's bitstream buffer holds the picture
  last submitted with it. Times are nanoseconds; the counters stay below the 36000 frames of the command line.
\<close>

section \<open>State\<close>

record encode_timings =
  capture_us :: "int list"
  conversion_us :: "int list"
  resource_map_us :: "int list"
  picture_setup_us :: "int list"
  encode_submit_us :: "int list"
  output_dispatch_us :: "int list"
  bitstream_lock_wait_us :: "int list"
  bitstream_write_us :: "int list"
  resource_release_us :: "int list"
  encode_us :: "int list"
  pipeline_us :: "int list"
  slot_lifetime_us :: "int list"

record pipeline_slot =
  es_mapped :: bool
  es_locked :: bool
  es_picture :: nat
  es_pipeline_started_at :: int
  es_converted_at :: int
  es_submitted_at :: int

record encode_state =
  ep_slots :: "pipeline_slot list"
  slot_in_use :: "bool list"
  pending_slots :: "nat list"
  input_done :: bool
  worker_error :: bool
  bitstream_file :: bytes
  reference_bitstream_file :: bytes
  new_frames :: nat
  deadline_misses :: nat
  bitstream_frames_written :: nat
  bitstream_frames_dropped :: nat
  reference_invalidation_called :: bool
  forced_idr_submitted :: bool
  encoded_bytes :: nat
  ep_timings :: encode_timings
  ep_log :: "resource_event list"

definition blank_slot :: pipeline_slot where
  "blank_slot = \<lparr>es_mapped = False, es_locked = False, es_picture = 0, es_pipeline_started_at = 0, es_converted_at = 0,
     es_submitted_at = 0\<rparr>"

definition blank_encode_timings :: encode_timings where
  "blank_encode_timings = \<lparr>capture_us = [], conversion_us = [], resource_map_us = [], picture_setup_us = [],
     encode_submit_us = [], output_dispatch_us = [], bitstream_lock_wait_us = [], bitstream_write_us = [],
     resource_release_us = [], encode_us = [], pipeline_us = [], slot_lifetime_us = []\<rparr>"

definition encode_init :: encode_state where
  "encode_init = \<lparr>ep_slots = [blank_slot, blank_slot], slot_in_use = [False, False], pending_slots = [],
     input_done = False, worker_error = False, bitstream_file = [], reference_bitstream_file = [], new_frames = 0,
     deadline_misses = 0, bitstream_frames_written = 0, bitstream_frames_dropped = 0,
     reference_invalidation_called = False, forced_idr_submitted = False, encoded_bytes = 0,
     ep_timings = blank_encode_timings, ep_log = []\<rparr>"

text \<open>\<^verbatim>\<open>duration_cast\<close> to microseconds truncates.\<close>

definition duration_us :: "int \<Rightarrow> int \<Rightarrow> int" where
  "duration_us later earlier =
     (let d = later - earlier in if d \<ge> 0 then d div 1000 else - ((- d) div 1000))"

section \<open>Submitting a frame\<close>

record frame_env =
  fe_pipeline_started :: int
  fe_invalidates :: bool
  fe_grabs :: bool
  fe_geometry :: "u32 \<times> u32"
  fe_new :: bool
  fe_captured :: int
  fe_converts :: bool
  fe_converted :: int
  fe_map_started :: int
  fe_maps :: bool
  fe_mapped :: int
  fe_submit_started :: int
  fe_encodes :: bool
  fe_submitted :: int

definition loss_reported :: "encode_options \<Rightarrow> nat \<Rightarrow> bool" where
  "loss_reported o' frame_id \<longleftrightarrow> simulate_loss_frame o' \<noteq> 0 \<and> reference_invalidation_enabled o' \<and>
     frame_id = unat (simulate_loss_frame o') + unat (invalidate_delay_frames o')"

definition set_slot :: "nat \<Rightarrow> (pipeline_slot \<Rightarrow> pipeline_slot) \<Rightarrow> encode_state \<Rightarrow> encode_state" where
  "set_slot i f st = st\<lparr>ep_slots := (ep_slots st)[i := f (ep_slots st ! i)]\<rparr>"

text \<open>From the invalidation of references to the converted picture; \<open>False\<close> is an exception.\<close>

definition capture_frame ::
    "encode_options \<Rightarrow> u32 \<times> u32 \<Rightarrow> nat \<Rightarrow> frame_env \<Rightarrow> encode_state \<Rightarrow> bool \<times> encode_state" where
  "capture_frame o' geometry frame env st =
     (if loss_reported o' (frame + 1) \<and> \<not> fe_invalidates env then (False, st)
      else
        let st = (if loss_reported o' (frame + 1) then st\<lparr>reference_invalidation_called := True\<rparr> else st)
        in if \<not> fe_grabs env \<or> fe_geometry env \<noteq> geometry then (False, st)
           else
             let st = st\<lparr>new_frames := new_frames st + (if fe_new env then 1 else 0)\<rparr>
             in if \<not> fe_converts env then (False, st)
                else (True, set_slot (frame mod 2) (\<lambda>s. s\<lparr>es_pipeline_started_at := fe_pipeline_started env,
                       es_converted_at := fe_converted env\<rparr>) st))"

text \<open>Mapping the surface and submitting the picture.\<close>

definition submit_frame :: "encode_options \<Rightarrow> nat \<Rightarrow> frame_env \<Rightarrow> encode_state \<Rightarrow> bool \<times> encode_state" where
  "submit_frame o' frame env st =
     (let frame_id = frame + 1; i = frame mod 2
      in if \<not> fe_maps env then (False, st)
         else
           let st = set_slot i (\<lambda>s. s\<lparr>es_mapped := True\<rparr>) (st\<lparr>ep_log := ep_log st @ [Acquire (Mapped i)]\<rparr>);
               st = (if frame_id = unat (force_idr_frame o') then st\<lparr>forced_idr_submitted := True\<rparr> else st)
           in if \<not> fe_encodes env then (False, st)
              else
                let t = ep_timings st
                in (True, set_slot i (\<lambda>s. s\<lparr>es_picture := frame_id, es_submitted_at := fe_submitted env\<rparr>)
                     (st\<lparr>ep_timings :=
                        t\<lparr>capture_us := capture_us t @ [duration_us (fe_captured env) (fe_pipeline_started env)],
                          conversion_us := conversion_us t @ [duration_us (fe_converted env) (fe_captured env)],
                          resource_map_us := resource_map_us t @ [duration_us (fe_mapped env) (fe_map_started env)],
                          picture_setup_us := picture_setup_us t @ [duration_us (fe_submit_started env) (fe_mapped env)],
                          encode_submit_us := encode_submit_us t @ [duration_us (fe_submitted env) (fe_submit_started env)]\<rparr>\<rparr>)))"

definition encode_frame ::
    "encode_options \<Rightarrow> u32 \<times> u32 \<Rightarrow> nat \<Rightarrow> frame_env \<Rightarrow> encode_state \<Rightarrow> bool \<times> encode_state" where
  "encode_frame o' geometry frame env st =
     (case capture_frame o' geometry frame env st of
        (False, st) \<Rightarrow> (False, st)
      | (True, st) \<Rightarrow> submit_frame o' frame env st)"

section \<open>Draining a slot\<close>

record drain_env =
  dr_lock_started :: int
  dr_locks :: bool
  dr_encoded :: int
  dr_writes_reference :: bool
  dr_writes :: bool
  dr_written :: int
  dr_unlocks :: bool
  dr_unmaps :: bool
  dr_released :: int

text \<open>The locked buffer is written to the files; the lost frame only to the reference.\<close>

definition write_frame :: "encode_options \<Rightarrow> nat \<Rightarrow> bytes \<Rightarrow> drain_env \<Rightarrow> encode_state \<Rightarrow> bool \<times> encode_state" where
  "write_frame o' time_stamp data env st =
     (let reference = (reference_bitstream_path o' \<noteq> [])
      in if reference \<and> \<not> dr_writes_reference env then (False, st)
         else
           let st = (if reference then st\<lparr>reference_bitstream_file := reference_bitstream_file st @ data\<rparr> else st)
           in if simulate_loss_frame o' \<noteq> 0 \<and> time_stamp = unat (simulate_loss_frame o')
              then (True, st\<lparr>bitstream_frames_dropped := bitstream_frames_dropped st + 1\<rparr>)
              else if \<not> dr_writes env then (False, st)
              else (True, st\<lparr>bitstream_file := bitstream_file st @ data,
                     bitstream_frames_written := bitstream_frames_written st + 1,
                     encoded_bytes := encoded_bytes st + length data\<rparr>))"

definition drain_slot ::
    "encode_options \<Rightarrow> (nat \<Rightarrow> bytes) \<Rightarrow> nat \<Rightarrow> drain_env \<Rightarrow> encode_state \<Rightarrow> bool \<times> encode_state" where
  "drain_slot o' encoded i env st =
     (if \<not> dr_locks env then (False, st)
      else
        let st = set_slot i (\<lambda>s. s\<lparr>es_locked := True\<rparr>) (st\<lparr>ep_log := ep_log st @ [Acquire (Locked i)]\<rparr>);
            picture = es_picture (ep_slots st ! i)
        in case write_frame o' picture (encoded picture) env st of
             (False, st) \<Rightarrow> (False, st)
           | (True, st) \<Rightarrow>
               if \<not> dr_unlocks env then (False, st)
               else
                 let st = set_slot i (\<lambda>s. s\<lparr>es_locked := False\<rparr>) (st\<lparr>ep_log := ep_log st @ [Release (Locked i)]\<rparr>)
                 in if \<not> dr_unmaps env then (False, st)
                    else
                      let st = set_slot i (\<lambda>s. s\<lparr>es_mapped := False\<rparr>) (st\<lparr>ep_log := ep_log st @ [Release (Mapped i)]\<rparr>);
                          s = ep_slots st ! i; t = ep_timings st
                      in (True, st\<lparr>ep_timings :=
                            t\<lparr>output_dispatch_us := output_dispatch_us t @ [duration_us (dr_lock_started env) (es_submitted_at s)],
                              bitstream_lock_wait_us := bitstream_lock_wait_us t @ [duration_us (dr_encoded env) (dr_lock_started env)],
                              bitstream_write_us := bitstream_write_us t @ [duration_us (dr_written env) (dr_encoded env)],
                              resource_release_us := resource_release_us t @ [duration_us (dr_released env) (dr_written env)],
                              encode_us := encode_us t @ [duration_us (dr_encoded env) (es_converted_at s)],
                              pipeline_us := pipeline_us t @ [duration_us (dr_encoded env) (es_pipeline_started_at s)],
                              slot_lifetime_us := slot_lifetime_us t @ [duration_us (dr_released env) (es_pipeline_started_at s)]\<rparr>\<rparr>))"

section \<open>Without a worker\<close>

definition frame_period :: "encode_options \<Rightarrow> int" where
  "frame_period o' = 1000000000 div int (unat (frame_rate o'))"

definition check_deadline :: "encode_options \<Rightarrow> int \<Rightarrow> nat \<Rightarrow> int \<Rightarrow> encode_state \<Rightarrow> encode_state" where
  "check_deadline o' run_started frame now st =
     (if now > run_started + frame_period o' * (int frame + 1) then st\<lparr>deadline_misses := deadline_misses st + 1\<rparr> else st)"

text \<open>The frames with their environments, the time of the deadline check last.\<close>

fun blocking_frames ::
    "encode_options \<Rightarrow> u32 \<times> u32 \<Rightarrow> (nat \<Rightarrow> bytes) \<Rightarrow> int \<Rightarrow> nat \<Rightarrow> (frame_env \<times> drain_env \<times> int) list \<Rightarrow>
     encode_state \<Rightarrow> bool \<times> encode_state" where
  "blocking_frames o' geometry encoded run_started frame [] st = (True, st)"
| "blocking_frames o' geometry encoded run_started frame ((fe, de, now) # envs) st =
     (case encode_frame o' geometry frame fe st of
        (False, st) \<Rightarrow> (False, st)
      | (True, st) \<Rightarrow>
          (case drain_slot o' encoded (frame mod 2) de st of
             (False, st) \<Rightarrow> (False, st)
           | (True, st) \<Rightarrow>
               blocking_frames o' geometry encoded run_started (frame + 1) envs (check_deadline o' run_started frame now st)))"

section \<open>With a worker\<close>

datatype main_phase = MIdle nat | MEncode nat | MPublish nat | MFailed | MJoining | MAborting | MDone | MThrown
datatype worker_phase = WWaiting | WHolding nat | WDrained nat | WEnded

record encode_system =
  e_shared :: encode_state
  e_main :: main_phase
  e_worker :: worker_phase

inductive encode_step ::
    "encode_options \<Rightarrow> u32 \<times> u32 \<Rightarrow> (nat \<Rightarrow> bytes) \<Rightarrow> encode_system \<Rightarrow> (nat, nat) queue_event \<Rightarrow> encode_system \<Rightarrow> bool"
  for o' geometry encoded where
  begin_frame: "e_main c = MIdle f \<Longrightarrow> f < unat (frame_count o') \<Longrightarrow>
    \<not> slot_in_use (e_shared c) ! (f mod 2) \<or> worker_error (e_shared c) \<Longrightarrow>
    encode_step o' geometry encoded c Silent
      (c\<lparr>e_main := if worker_error (e_shared c) then MFailed else MEncode f\<rparr>)"
| submit: "e_main c = MEncode f \<Longrightarrow> encode_frame o' geometry f env (e_shared c) = (ok, st) \<Longrightarrow>
    encode_step o' geometry encoded c Silent (c\<lparr>e_shared := st, e_main := if ok then MPublish f else MFailed\<rparr>)"
| publish: "e_main c = MPublish f \<Longrightarrow>
    st = (e_shared c)\<lparr>slot_in_use := (slot_in_use (e_shared c))[f mod 2 := True],
      pending_slots := pending_slots (e_shared c) @ [f mod 2]\<rparr> \<Longrightarrow>
    encode_step o' geometry encoded c (Published (es_picture (ep_slots (e_shared c) ! (f mod 2))))
      (c\<lparr>e_shared := check_deadline o' run_started f now st, e_main := MIdle (Suc f)\<rparr>)"
| finish: "e_main c = MIdle f \<Longrightarrow> \<not> f < unat (frame_count o') \<Longrightarrow>
    encode_step o' geometry encoded c Silent (c\<lparr>e_shared := (e_shared c)\<lparr>input_done := True\<rparr>, e_main := MJoining\<rparr>)"
| join: "e_main c = MJoining \<Longrightarrow> e_worker c = WEnded \<Longrightarrow>
    encode_step o' geometry encoded c Silent (c\<lparr>e_main := if worker_error (e_shared c) then MThrown else MDone\<rparr>)"
| abort: "e_main c = MFailed \<Longrightarrow>
    encode_step o' geometry encoded c Silent (c\<lparr>e_shared := (e_shared c)\<lparr>input_done := True\<rparr>, e_main := MAborting\<rparr>)"
| abort_join: "e_main c = MAborting \<Longrightarrow> e_worker c = WEnded \<Longrightarrow>
    encode_step o' geometry encoded c Silent (c\<lparr>e_main := MThrown\<rparr>)"
| ended: "e_worker c = WWaiting \<Longrightarrow> input_done (e_shared c) \<Longrightarrow> pending_slots (e_shared c) = [] \<Longrightarrow>
    encode_step o' geometry encoded c Silent (c\<lparr>e_worker := WEnded\<rparr>)"
| wake: "e_worker c = WWaiting \<Longrightarrow> pending_slots (e_shared c) = i # rest \<Longrightarrow>
    encode_step o' geometry encoded c (Taken (es_picture (ep_slots (e_shared c) ! i)))
      (c\<lparr>e_shared := (e_shared c)\<lparr>pending_slots := rest\<rparr>, e_worker := WHolding i\<rparr>)"
| drain: "e_worker c = WHolding i \<Longrightarrow> drain_slot o' encoded i env (e_shared c) = (True, st) \<Longrightarrow>
    encode_step o' geometry encoded c Silent (c\<lparr>e_shared := st, e_worker := WDrained i\<rparr>)"
| drain_failed: "e_worker c = WHolding i \<Longrightarrow> drain_slot o' encoded i env (e_shared c) = (False, st) \<Longrightarrow>
    encode_step o' geometry encoded c Silent
      (c\<lparr>e_shared := st\<lparr>worker_error := True, input_done := True\<rparr>, e_worker := WEnded\<rparr>)"
| release: "e_worker c = WDrained i \<Longrightarrow>
    encode_step o' geometry encoded c Silent
      (c\<lparr>e_shared := (e_shared c)\<lparr>slot_in_use := (slot_in_use (e_shared c))[i := False]\<rparr>, e_worker := WWaiting\<rparr>)"

definition encode_start :: encode_system where
  "encode_start = \<lparr>e_shared = encode_init, e_main = MIdle 0, e_worker = WWaiting\<rparr>"

section \<open>What a frame changes\<close>

text \<open>The parts of the state that only the hand-over between the threads touches.\<close>

definition same_queue :: "encode_state \<Rightarrow> encode_state \<Rightarrow> bool" where
  "same_queue st st' \<longleftrightarrow> slot_in_use st' = slot_in_use st \<and> pending_slots st' = pending_slots st \<and>
     input_done st' = input_done st \<and> worker_error st' = worker_error st"

text \<open>The parts only a drain touches.\<close>

definition same_output :: "encode_state \<Rightarrow> encode_state \<Rightarrow> bool" where
  "same_output st st' \<longleftrightarrow> bitstream_file st' = bitstream_file st \<and>
     reference_bitstream_file st' = reference_bitstream_file st \<and>
     bitstream_frames_written st' = bitstream_frames_written st \<and>
     bitstream_frames_dropped st' = bitstream_frames_dropped st \<and> encoded_bytes st' = encoded_bytes st"

definition other_slots :: "nat \<Rightarrow> encode_state \<Rightarrow> encode_state \<Rightarrow> bool" where
  "other_slots i st st' \<longleftrightarrow> length (ep_slots st') = length (ep_slots st) \<and>
     (\<forall>j. j \<noteq> i \<longrightarrow> ep_slots st' ! j = ep_slots st ! j) \<and> es_locked (ep_slots st' ! i) = es_locked (ep_slots st ! i)"

lemmas frame_frame = same_queue_def same_output_def other_slots_def

lemma capture_frame_effect:
  assumes "capture_frame o' geometry f env st = (ok, st')" and "f mod 2 < length (ep_slots st)"
  shows "same_queue st st' \<and> same_output st st' \<and> other_slots (f mod 2) st st' \<and> ep_log st' = ep_log st \<and>
    es_mapped (ep_slots st' ! (f mod 2)) = es_mapped (ep_slots st ! (f mod 2))"
  using assms unfolding capture_frame_def Let_def set_slot_def frame_frame by (auto split: if_splits)

lemma submit_frame_effect:
  assumes "submit_frame o' f env st = (ok, st')" and "f mod 2 < length (ep_slots st)"
  shows "same_queue st st' \<and> same_output st st' \<and> other_slots (f mod 2) st st' \<and>
    (ok \<longrightarrow> es_picture (ep_slots st' ! (f mod 2)) = f + 1) \<and>
    (if fe_maps env then es_mapped (ep_slots st' ! (f mod 2)) \<and> ep_log st' = ep_log st @ [Acquire (Mapped (f mod 2))]
     else \<not> ok \<and> st' = st)"
  using assms unfolding submit_frame_def Let_def set_slot_def frame_frame by (auto split: if_splits)

lemma encode_frame_effect:
  assumes "encode_frame o' geometry f env st = (ok, st')" and "f mod 2 < length (ep_slots st)"
  shows "same_queue st st'" "same_output st st'" "other_slots (f mod 2) st st'"
    "ok \<Longrightarrow> es_picture (ep_slots st' ! (f mod 2)) = f + 1"
    "(es_mapped (ep_slots st' ! (f mod 2)) \<and> ep_log st' = ep_log st @ [Acquire (Mapped (f mod 2))]) \<or>
     (\<not> ok \<and> es_mapped (ep_slots st' ! (f mod 2)) = es_mapped (ep_slots st ! (f mod 2)) \<and> ep_log st' = ep_log st)"
proof -
  obtain ok1 st1 where c: "capture_frame o' geometry f env st = (ok1, st1)" by fastforce
  note e1 = capture_frame_effect [OF c assms(2)]
  then have len: "f mod 2 < length (ep_slots st1)" using assms(2) by (simp add: other_slots_def)
  have "same_queue st1 st' \<and> same_output st1 st' \<and> other_slots (f mod 2) st1 st' \<and>
    (ok \<longrightarrow> es_picture (ep_slots st' ! (f mod 2)) = f + 1) \<and>
    ((es_mapped (ep_slots st' ! (f mod 2)) \<and> ep_log st' = ep_log st1 @ [Acquire (Mapped (f mod 2))]) \<or>
     (\<not> ok \<and> es_mapped (ep_slots st' ! (f mod 2)) = es_mapped (ep_slots st1 ! (f mod 2)) \<and> ep_log st' = ep_log st1))"
  proof (cases ok1)
    case True
    then have "submit_frame o' f env st1 = (ok, st')" using assms(1) by (simp add: encode_frame_def c)
    from submit_frame_effect [OF this len] show ?thesis by (cases "fe_maps env") (simp_all add: frame_frame)
  next
    case False
    then have "\<not> ok" "st' = st1" using assms(1) by (simp_all add: encode_frame_def c)
    then show ?thesis by (simp add: frame_frame)
  qed
  then show "same_queue st st'" "same_output st st'" "other_slots (f mod 2) st st'"
    "ok \<Longrightarrow> es_picture (ep_slots st' ! (f mod 2)) = f + 1"
    "(es_mapped (ep_slots st' ! (f mod 2)) \<and> ep_log st' = ep_log st @ [Acquire (Mapped (f mod 2))]) \<or>
     (\<not> ok \<and> es_mapped (ep_slots st' ! (f mod 2)) = es_mapped (ep_slots st ! (f mod 2)) \<and> ep_log st' = ep_log st)"
    using e1 by (simp_all add: frame_frame)
qed

text \<open>The frames written, as the files hold them.\<close>

definition lost :: "encode_options \<Rightarrow> nat \<Rightarrow> bool" where
  "lost o' n \<longleftrightarrow> simulate_loss_frame o' \<noteq> 0 \<and> n = unat (simulate_loss_frame o')"

definition drained_ok :: "encode_options \<Rightarrow> (nat \<Rightarrow> bytes) \<Rightarrow> nat list \<Rightarrow> encode_state \<Rightarrow> bool" where
  "drained_ok o' encoded ns st \<longleftrightarrow>
     bitstream_file st = concat (map encoded (filter (\<lambda>n. \<not> lost o' n) ns)) \<and>
     reference_bitstream_file st = (if reference_bitstream_path o' \<noteq> [] then concat (map encoded ns) else []) \<and>
     bitstream_frames_written st = length (filter (\<lambda>n. \<not> lost o' n) ns) \<and>
     bitstream_frames_dropped st = length (filter (lost o') ns) \<and> encoded_bytes st = length (bitstream_file st)"

lemma write_frame_effect:
  assumes "write_frame o' n (encoded n) env st = (ok, st')"
  shows "same_queue st st' \<and> ep_slots st' = ep_slots st \<and> ep_log st' = ep_log st \<and>
    (ok \<longrightarrow> drained_ok o' encoded ns st \<longrightarrow> drained_ok o' encoded (ns @ [n]) st')"
  using assms unfolding write_frame_def Let_def same_queue_def drained_ok_def lost_def by (auto split: if_splits)

lemma drain_slot_effect:
  assumes "drain_slot o' encoded i env st = (ok, st')" and "i < length (ep_slots st)"
  shows "same_queue st st'" "length (ep_slots st') = length (ep_slots st)" "\<And>j. j \<noteq> i \<Longrightarrow> ep_slots st' ! j = ep_slots st ! j"
    "es_picture (ep_slots st' ! i) = es_picture (ep_slots st ! i)"
    "ok \<Longrightarrow> \<not> es_mapped (ep_slots st' ! i) \<and> \<not> es_locked (ep_slots st' ! i) \<and>
       ep_log st' = ep_log st @ [Acquire (Locked i), Release (Locked i), Release (Mapped i)]"
    "ok \<Longrightarrow> drained_ok o' encoded ns st \<Longrightarrow> drained_ok o' encoded (ns @ [es_picture (ep_slots st ! i)]) st'"
    "\<not> ok \<Longrightarrow> es_mapped (ep_slots st' ! i) = es_mapped (ep_slots st ! i) \<and>
       (es_locked (ep_slots st' ! i) = es_locked (ep_slots st ! i) \<and> ep_log st' = ep_log st \<or>
        es_locked (ep_slots st' ! i) \<and> ep_log st' = ep_log st @ [Acquire (Locked i)] \<or>
        \<not> es_locked (ep_slots st' ! i) \<and> ep_log st' = ep_log st @ [Acquire (Locked i), Release (Locked i)])"
proof -
  define st1 where "st1 = set_slot i (\<lambda>s. s\<lparr>es_locked := True\<rparr>) (st\<lparr>ep_log := ep_log st @ [Acquire (Locked i)]\<rparr>)"
  define n where "n = es_picture (ep_slots st ! i)"
  have n1: "es_picture (ep_slots st1 ! i) = n" using assms(2) by (simp add: st1_def n_def set_slot_def)
  obtain ok2 st2 where w: "write_frame o' n (encoded n) env st1 = (ok2, st2)" by fastforce
  note w2 = write_frame_effect [where encoded = encoded and ns = ns, OF w]
  note d = assms(1) [unfolded drain_slot_def Let_def st1_def [symmetric] n1 w]
  have st1: "same_queue st st1" "drained_ok o' encoded ns st \<Longrightarrow> drained_ok o' encoded ns st1"
    by (simp_all add: st1_def set_slot_def same_queue_def drained_ok_def)
  have slots: "ep_slots st1 = (ep_slots st)[i := (ep_slots st ! i)\<lparr>es_locked := True\<rparr>]"
    "ep_log st1 = ep_log st @ [Acquire (Locked i)]" by (simp_all add: st1_def set_slot_def)
  show "same_queue st st'"
    using d w2 st1(1) unfolding same_queue_def by (auto simp: set_slot_def split: if_splits bool.splits)
  show "length (ep_slots st') = length (ep_slots st)" "\<And>j. j \<noteq> i \<Longrightarrow> ep_slots st' ! j = ep_slots st ! j"
    "es_picture (ep_slots st' ! i) = es_picture (ep_slots st ! i)"
    using d w2 assms(2) by (auto simp: set_slot_def slots n_def split: if_splits bool.splits)
  show "ok \<Longrightarrow> \<not> es_mapped (ep_slots st' ! i) \<and> \<not> es_locked (ep_slots st' ! i) \<and>
       ep_log st' = ep_log st @ [Acquire (Locked i), Release (Locked i), Release (Mapped i)]"
    using d w2 assms(2) by (auto simp: set_slot_def slots split: if_splits bool.splits)
  show "drained_ok o' encoded (ns @ [es_picture (ep_slots st ! i)]) st'" if "ok" "drained_ok o' encoded ns st"
  proof -
    have "drained_ok o' encoded (ns @ [n]) st2" if "ok2" using that w2 st1(2) [OF \<open>drained_ok o' encoded ns st\<close>] by simp
    then show ?thesis
      using d \<open>ok\<close> unfolding n_def [symmetric] drained_ok_def by (auto simp: set_slot_def split: if_splits bool.splits)
  qed
  show "\<not> ok \<Longrightarrow> es_mapped (ep_slots st' ! i) = es_mapped (ep_slots st ! i) \<and>
       (es_locked (ep_slots st' ! i) = es_locked (ep_slots st ! i) \<and> ep_log st' = ep_log st \<or>
        es_locked (ep_slots st' ! i) \<and> ep_log st' = ep_log st @ [Acquire (Locked i)] \<or>
        \<not> es_locked (ep_slots st' ! i) \<and> ep_log st' = ep_log st @ [Acquire (Locked i), Release (Locked i)])"
    using d w2 assms(2) by (auto simp: set_slot_def slots split: if_splits bool.splits)
qed

section \<open>The log of mappings and locks\<close>

definition setup_objects :: "resource list" where
  "setup_objects = encoder_objects @ capture_objects @ cuda_objects"

text \<open>The log is legal and what it holds beyond the set-up is what the slots say.\<close>

definition log_ok :: "resource_event list \<Rightarrow> nat set \<Rightarrow> nat set \<Rightarrow> bool" where
  "log_ok es mapped locked \<longleftrightarrow>
     (\<exists>held. follow setup_objects es = Some held \<and> distinct held \<and>
        set held = set setup_objects \<union> Mapped ` mapped \<union> Locked ` locked)"

lemma setup_objects_simps:
  "i < 2 \<Longrightarrow> Registered i \<in> set setup_objects" "i < 2 \<Longrightarrow> Bitstream i \<in> set setup_objects"
  "Mapped i \<notin> set setup_objects" "Locked i \<notin> set setup_objects" "distinct setup_objects"
  by (auto simp: setup_objects_def encoder_objects_def capture_objects_def cuda_objects_def less_2_cases_iff)

lemma no_children: "Mapped i \<notin> set (parents c)" "Locked i \<notin> set (parents c)"
  by (cases c; simp)+

lemma log_ok_Nil: "log_ok [] {} {}"
  by (simp add: log_ok_def setup_objects_simps)

lemma log_ok_map:
  assumes "log_ok es mapped locked" and "i < 2" and "i \<notin> mapped"
  shows "log_ok (es @ [Acquire (Mapped i)]) (insert i mapped) locked"
  using assms by (auto simp: log_ok_def follow_append setup_objects_simps)

lemma log_ok_lock:
  assumes "log_ok es mapped locked" and "i < 2" and "i \<notin> locked"
  shows "log_ok (es @ [Acquire (Locked i)]) mapped (insert i locked)"
  using assms by (auto simp: log_ok_def follow_append setup_objects_simps)

lemma log_ok_release:
  assumes "log_ok es mapped locked"
  shows "i \<in> mapped \<Longrightarrow> log_ok (es @ [Release (Mapped i)]) (mapped - {i}) locked"
    "i \<in> locked \<Longrightarrow> log_ok (es @ [Release (Locked i)]) mapped (locked - {i})"
proof -
  obtain held where h: "follow setup_objects es = Some held" "distinct held"
    "set held = set setup_objects \<union> Mapped ` mapped \<union> Locked ` locked"
    using assms by (auto simp: log_ok_def)
  have c: "\<not> list_ex (\<lambda>c. Mapped i \<in> set (parents c)) held" "\<not> list_ex (\<lambda>c. Locked i \<in> set (parents c)) held"
    by (simp_all add: list_ex_iff no_children)
  show "log_ok (es @ [Release (Mapped i)]) (mapped - {i}) locked" if "i \<in> mapped"
    unfolding log_ok_def
    by (rule exI [of _ "remove1 (Mapped i) held"])
      (use h c that in \<open>auto simp: follow_append set_remove1_eq setup_objects_simps\<close>)
  show "log_ok (es @ [Release (Locked i)]) mapped (locked - {i})" if "i \<in> locked"
    unfolding log_ok_def
    by (rule exI [of _ "remove1 (Locked i) held"])
      (use h c that in \<open>auto simp: follow_append set_remove1_eq setup_objects_simps\<close>)
qed

definition mapped_slots :: "encode_state \<Rightarrow> nat set" where
  "mapped_slots st = {i. i < 2 \<and> es_mapped (ep_slots st ! i)}"

definition locked_slots :: "encode_state \<Rightarrow> nat set" where
  "locked_slots st = {i. i < 2 \<and> es_locked (ep_slots st ! i)}"

definition held_ok :: "encode_state \<Rightarrow> bool" where
  "held_ok st \<longleftrightarrow> length (ep_slots st) = 2 \<and> log_ok (ep_log st) (mapped_slots st) (locked_slots st)"

lemma encode_frame_held:
  assumes "encode_frame o' geometry f env st = (ok, st')" and "held_ok st" and "\<not> es_mapped (ep_slots st ! (f mod 2))"
  shows "held_ok st'"
proof -
  let ?i = "f mod 2"
  have len: "length (ep_slots st) = 2" "?i < 2" using assms(2) by (simp_all add: held_ok_def)
  then have i: "?i < length (ep_slots st)" by simp
  note e = encode_frame_effect [OF assms(1) i]
  have o: "length (ep_slots st') = 2" "\<And>j. j \<noteq> ?i \<Longrightarrow> ep_slots st' ! j = ep_slots st ! j"
    "es_locked (ep_slots st' ! ?i) = es_locked (ep_slots st ! ?i)"
    using e(3) len by (simp_all add: other_slots_def)
  then have l: "locked_slots st' = locked_slots st" unfolding locked_slots_def by (metis (no_types, opaque_lifting))
  show ?thesis
  proof (cases "es_mapped (ep_slots st' ! ?i) \<and> ep_log st' = ep_log st @ [Acquire (Mapped ?i)]")
    case True
    then have "mapped_slots st' = insert ?i (mapped_slots st)"
      using o(2) len(2) unfolding mapped_slots_def by auto metis+
    moreover have "?i \<notin> mapped_slots st" using assms(3) by (simp add: mapped_slots_def)
    ultimately show ?thesis using True log_ok_map assms(2) len(2) o(1) l by (simp add: held_ok_def)
  next
    case False
    then have m: "es_mapped (ep_slots st' ! ?i) = es_mapped (ep_slots st ! ?i)" "ep_log st' = ep_log st" using e(5) by auto
    then have "mapped_slots st' = mapped_slots st" unfolding mapped_slots_def using o(2) by (metis (no_types, opaque_lifting))
    then show ?thesis using assms(2) o(1) l m(2) by (simp add: held_ok_def)
  qed
qed

lemma drain_slot_held:
  assumes "drain_slot o' encoded i env st = (ok, st')" and "held_ok st" and "i < 2"
    and "es_mapped (ep_slots st ! i)" and "\<not> es_locked (ep_slots st ! i)"
  shows "held_ok st'"
proof -
  have i: "i < length (ep_slots st)" and log: "log_ok (ep_log st) (mapped_slots st) (locked_slots st)"
    using assms(2,3) by (simp_all add: held_ok_def)
  note d = drain_slot_effect [OF assms(1) i]
  have len: "length (ep_slots st') = 2" using d(2) assms(2) by (simp add: held_ok_def)
  have il: "i \<in> mapped_slots st" "i \<notin> locked_slots st" using assms(3-5) by (simp_all add: mapped_slots_def locked_slots_def)
  have sets: "mapped_slots st' = (if es_mapped (ep_slots st' ! i) then insert i (mapped_slots st) else mapped_slots st - {i})"
    "locked_slots st' = (if es_locked (ep_slots st' ! i) then insert i (locked_slots st) else locked_slots st - {i})"
    using d(3) assms(3) unfolding mapped_slots_def locked_slots_def by auto metis+
  have l1: "log_ok (ep_log st @ [Acquire (Locked i)]) (mapped_slots st) (insert i (locked_slots st))"
    using log_ok_lock [OF log assms(3) il(2)] .
  have l2: "log_ok (ep_log st @ [Acquire (Locked i), Release (Locked i)]) (mapped_slots st) (locked_slots st)"
    using log_ok_release(2) [OF l1, of i] il(2) by simp
  have l3: "log_ok (ep_log st @ [Acquire (Locked i), Release (Locked i), Release (Mapped i)]) (mapped_slots st - {i}) (locked_slots st)"
    using log_ok_release(1) [OF l2 il(1)] by simp
  show ?thesis
  proof (cases ok)
    case True
    then show ?thesis using d(5) sets l3 len il by (simp add: held_ok_def)
  next
    case False
    then show ?thesis using d(7) sets l1 l2 log len il assms(4,5) by (auto simp: held_ok_def insert_absorb)
  qed
qed

end
