(* ===== verification/Encode_Run.thy ===== *)
theory Encode_Run
  imports Encode_Pipeline
begin

text \<open>
  The runs of the two threads of the video pipeline probe: who owns a slot, the order of the frames, that a run
  ends and never gets stuck, and that every driver object is released.
\<close>

section \<open>Ownership of the slots\<close>

definition main_over :: "main_phase \<Rightarrow> bool" where
  "main_over m \<longleftrightarrow> m \<in> {MJoining, MAborting, MDone, MThrown}"

definition main_failed :: "main_phase \<Rightarrow> bool" where
  "main_failed m \<longleftrightarrow> m \<in> {MFailed, MAborting, MThrown}"

text \<open>Waiting slots are in use, mapped and unlocked, and so is the one the worker holds.\<close>

definition pending_ok :: "encode_system \<Rightarrow> bool" where
  "pending_ok c \<longleftrightarrow>
     (let st = e_shared c in
      length (slot_in_use st) = 2 \<and> distinct (pending_slots st) \<and>
      (\<forall>i \<in> set (pending_slots st). i < 2 \<and> slot_in_use st ! i \<and> i \<in> mapped_slots st \<and> i \<notin> locked_slots st) \<and>
      (\<forall>i. e_worker c = WHolding i \<longrightarrow> i < 2 \<and> i \<notin> set (pending_slots st) \<and> slot_in_use st ! i \<and>
         i \<in> mapped_slots st \<and> i \<notin> locked_slots st) \<and>
      (\<forall>i. e_worker c = WDrained i \<longrightarrow> i < 2 \<and> i \<notin> set (pending_slots st) \<and> slot_in_use st ! i \<and>
         i \<notin> mapped_slots st \<and> i \<notin> locked_slots st))"

text \<open>The main thread works on a slot nobody else uses.\<close>

definition main_ok :: "encode_system \<Rightarrow> bool" where
  "main_ok c \<longleftrightarrow>
     (let st = e_shared c in
      (\<forall>f. e_main c = MEncode f \<longrightarrow> \<not> slot_in_use st ! (f mod 2) \<and> f mod 2 \<notin> mapped_slots st) \<and>
      (\<forall>f. e_main c = MPublish f \<longrightarrow> \<not> slot_in_use st ! (f mod 2) \<and> f mod 2 \<in> mapped_slots st \<and> f mod 2 \<notin> locked_slots st) \<and>
      (\<forall>i < 2. i \<in> mapped_slots st \<longrightarrow>
         slot_in_use st ! i \<or> main_failed (e_main c) \<or> (\<exists>f. e_main c = MPublish f \<and> i = f mod 2)) \<and>
      locked_slots st \<subseteq> mapped_slots st \<and> (locked_slots st = {} \<or> worker_error st))"

text \<open>The ends: the worker stops after an error or when everything is drained and no more comes.\<close>

definition ends_ok :: "encode_system \<Rightarrow> bool" where
  "ends_ok c \<longleftrightarrow>
     (let st = e_shared c in
      (worker_error st \<longrightarrow> e_worker c = WEnded) \<and>
      (e_worker c = WEnded \<longrightarrow> worker_error st \<or> input_done st \<and> pending_slots st = []) \<and>
      (input_done st \<longrightarrow> worker_error st \<or> main_over (e_main c)) \<and>
      (main_over (e_main c) \<longrightarrow> input_done st) \<and>
      (e_main c \<in> {MDone, MThrown} \<longrightarrow> e_worker c = WEnded) \<and> (e_main c = MDone \<longrightarrow> \<not> worker_error st) \<and>
      (\<forall>i < 2. slot_in_use st ! i \<longrightarrow>
         worker_error st \<or> i \<in> set (pending_slots st) \<or> e_worker c = WHolding i \<or> e_worker c = WDrained i))"

definition encode_inv :: "encode_system \<Rightarrow> bool" where
  "encode_inv c \<longleftrightarrow> held_ok (e_shared c) \<and> pending_ok c \<and> main_ok c \<and> ends_ok c"

lemma start_ok: "held_ok encode_init" "mapped_slots encode_init = {}" "locked_slots encode_init = {}"
  by (simp_all add: held_ok_def encode_init_def mapped_slots_def locked_slots_def blank_slot_def less_2_cases_iff log_ok_Nil
      Collect_conv_if nth_Cons' conj_disj_distribL cong: conj_cong)

lemma encode_inv_start: "encode_inv encode_start"
  by (simp add: encode_inv_def held_ok_def pending_ok_def main_ok_def ends_ok_def encode_start_def encode_init_def
      mapped_slots_def locked_slots_def blank_slot_def main_over_def less_2_cases_iff log_ok_Nil
      Collect_conv_if nth_Cons' conj_disj_distribL cong: conj_cong)

text \<open>A submission changes its own slot only.\<close>

lemma encode_frame_sets:
  assumes "encode_frame o' geometry f env st = (ok, st')" and "held_ok st"
  shows "same_queue st st'" "locked_slots st' = locked_slots st"
    "mapped_slots st \<subseteq> mapped_slots st'" "mapped_slots st' \<subseteq> insert (f mod 2) (mapped_slots st)"
    "ok \<Longrightarrow> f mod 2 \<in> mapped_slots st'" "\<And>j. j \<noteq> f mod 2 \<Longrightarrow> ep_slots st' ! j = ep_slots st ! j"
    "ok \<Longrightarrow> es_picture (ep_slots st' ! (f mod 2)) = f + 1" "same_output st st'"
proof -
  let ?i = "f mod 2"
  have i: "?i < length (ep_slots st)" using assms(2) by (simp add: held_ok_def)
  note e = encode_frame_effect [OF assms(1) i]
  show "same_queue st st'" "same_output st st'" using e(1,2) by simp_all
  show j: "\<And>j. j \<noteq> ?i \<Longrightarrow> ep_slots st' ! j = ep_slots st ! j" using e(3) by (simp add: other_slots_def)
  have "es_locked (ep_slots st' ! ?i) = es_locked (ep_slots st ! ?i)" using e(3) by (simp add: other_slots_def)
  then show "locked_slots st' = locked_slots st" unfolding locked_slots_def using j by (metis (no_types, opaque_lifting))
  show "mapped_slots st \<subseteq> mapped_slots st'" "mapped_slots st' \<subseteq> insert ?i (mapped_slots st)"
    unfolding mapped_slots_def using j e(5) by auto metis+
  show "ok \<Longrightarrow> ?i \<in> mapped_slots st'" using e(5) by (auto simp: mapped_slots_def)
  show "ok \<Longrightarrow> es_picture (ep_slots st' ! ?i) = f + 1" using e(4) .
qed

lemma drain_slot_sets:
  assumes "drain_slot o' encoded i env st = (ok, st')" and "held_ok st" and "i < 2"
  shows "same_queue st st'" "\<And>j. j \<noteq> i \<Longrightarrow> ep_slots st' ! j = ep_slots st ! j"
    "ok \<Longrightarrow> mapped_slots st' = mapped_slots st - {i}" "ok \<Longrightarrow> locked_slots st' = locked_slots st - {i}"
    "\<not> ok \<Longrightarrow> mapped_slots st' = mapped_slots st" "locked_slots st' \<subseteq> insert i (locked_slots st)"
    "\<And>j. j \<noteq> i \<Longrightarrow> j \<in> locked_slots st' \<longleftrightarrow> j \<in> locked_slots st"
    "es_picture (ep_slots st' ! i) = es_picture (ep_slots st ! i)"
proof -
  have i: "i < length (ep_slots st)" using assms(2,3) by (simp add: held_ok_def)
  note d = drain_slot_effect [OF assms(1) i]
  show "same_queue st st'" "\<And>j. j \<noteq> i \<Longrightarrow> ep_slots st' ! j = ep_slots st ! j"
    "es_picture (ep_slots st' ! i) = es_picture (ep_slots st ! i)" using d(1,3,4) by simp_all
  have sets: "mapped_slots st' = (if es_mapped (ep_slots st' ! i) then insert i (mapped_slots st) else mapped_slots st - {i})"
    "locked_slots st' = (if es_locked (ep_slots st' ! i) then insert i (locked_slots st) else locked_slots st - {i})"
    using d(3) assms(3) unfolding mapped_slots_def locked_slots_def by auto metis+
  show "ok \<Longrightarrow> mapped_slots st' = mapped_slots st - {i}" "ok \<Longrightarrow> locked_slots st' = locked_slots st - {i}"
    using sets d(5) by simp_all
  show "\<not> ok \<Longrightarrow> mapped_slots st' = mapped_slots st"
    using sets(1) d(7) assms(3) by (auto simp: mapped_slots_def)
  show "locked_slots st' \<subseteq> insert i (locked_slots st)" "\<And>j. j \<noteq> i \<Longrightarrow> j \<in> locked_slots st' \<longleftrightarrow> j \<in> locked_slots st"
    using sets(2) by (auto split: if_splits)
qed

section \<open>Every step keeps the invariant\<close>

lemma slots_update [simp]:
  "mapped_slots (st\<lparr>slot_in_use := u\<rparr>) = mapped_slots st" "locked_slots (st\<lparr>slot_in_use := u\<rparr>) = locked_slots st"
  "mapped_slots (st\<lparr>pending_slots := p\<rparr>) = mapped_slots st" "locked_slots (st\<lparr>pending_slots := p\<rparr>) = locked_slots st"
  "mapped_slots (st\<lparr>input_done := b\<rparr>) = mapped_slots st" "locked_slots (st\<lparr>input_done := b\<rparr>) = locked_slots st"
  "mapped_slots (st\<lparr>worker_error := b\<rparr>) = mapped_slots st" "locked_slots (st\<lparr>worker_error := b\<rparr>) = locked_slots st"
  "held_ok (st\<lparr>slot_in_use := u\<rparr>) = held_ok st" "held_ok (st\<lparr>pending_slots := p\<rparr>) = held_ok st"
  "held_ok (st\<lparr>input_done := b\<rparr>) = held_ok st" "held_ok (st\<lparr>worker_error := b\<rparr>) = held_ok st"
  by (simp_all add: mapped_slots_def locked_slots_def held_ok_def)

lemma check_deadline_simps [simp]:
  "mapped_slots (check_deadline o' r f now st) = mapped_slots st"
  "locked_slots (check_deadline o' r f now st) = locked_slots st"
  "held_ok (check_deadline o' r f now st) = held_ok st"
  "slot_in_use (check_deadline o' r f now st) = slot_in_use st"
  "pending_slots (check_deadline o' r f now st) = pending_slots st"
  "input_done (check_deadline o' r f now st) = input_done st"
  "worker_error (check_deadline o' r f now st) = worker_error st"
  "ep_slots (check_deadline o' r f now st) = ep_slots st"
  "same_output st' (check_deadline o' r f now st) = same_output st' st"
  by (simp_all add: check_deadline_def mapped_slots_def locked_slots_def held_ok_def same_output_def)

lemmas inv_defs = encode_inv_def pending_ok_def main_ok_def ends_ok_def main_over_def main_failed_def Let_def

lemma submit_inv:
  assumes inv: "encode_inv c" and m: "e_main c = MEncode f"
    and st: "encode_frame o' geometry f env (e_shared c) = (ok, st)"
  shows "encode_inv (c\<lparr>e_shared := st, e_main := if ok then MPublish f else MFailed\<rparr>)"
proof -
  have h: "held_ok (e_shared c)" using inv by (simp add: encode_inv_def)
  note s = encode_frame_sets [OF st h]
  have nm: "\<not> es_mapped (ep_slots (e_shared c) ! (f mod 2))"
    using inv m by (auto simp: inv_defs mapped_slots_def)
  have "held_ok st" using encode_frame_held [OF st h nm] .
  then show ?thesis
    using inv m s(1-5) unfolding inv_defs same_queue_def
    by (cases ok) (simp_all, blast+)
qed

lemma drain_inv:
  assumes inv: "encode_inv c" and w: "e_worker c = WHolding i"
    and st: "drain_slot o' encoded i env (e_shared c) = (ok, st)"
  shows "encode_inv (c\<lparr>e_shared := if ok then st else st\<lparr>worker_error := True, input_done := True\<rparr>,
    e_worker := if ok then WDrained i else WEnded\<rparr>)"
proof -
  have h: "held_ok (e_shared c)" and i: "i < 2" "i \<in> mapped_slots (e_shared c)" "i \<notin> locked_slots (e_shared c)"
    using inv w by (auto simp: inv_defs)
  note s = drain_slot_sets [OF st h i(1)]
  have "held_ok st"
    using drain_slot_held [OF st h i(1)] i(2,3) by (auto simp: mapped_slots_def locked_slots_def)
  then show ?thesis
    using inv w i s(1,3-7) unfolding inv_defs same_queue_def
    by (cases ok) (simp_all, blast+)
qed

lemma publish_inv:
  assumes inv: "encode_inv c" and m: "e_main c = MPublish f"
  shows "encode_inv (c\<lparr>e_shared := check_deadline o' r f now ((e_shared c)\<lparr>slot_in_use := (slot_in_use (e_shared c))[f mod 2 := True],
      pending_slots := pending_slots (e_shared c) @ [f mod 2]\<rparr>), e_main := MIdle (Suc f)\<rparr>)"
proof -
  have len: "length (slot_in_use (e_shared c)) = 2" and i: "f mod 2 < 2" using inv by (simp_all add: inv_defs)
  have free: "\<not> slot_in_use (e_shared c) ! (f mod 2)"
    using inv m by (simp add: encode_inv_def main_ok_def Let_def)
  have n: "f mod 2 \<notin> set (pending_slots (e_shared c))" "e_worker c \<noteq> WHolding (f mod 2)" "e_worker c \<noteq> WDrained (f mod 2)"
    using inv free by (auto simp: encode_inv_def pending_ok_def Let_def)
  have u: "(slot_in_use (e_shared c))[f mod 2 := True] ! j \<longleftrightarrow> j = f mod 2 \<or> slot_in_use (e_shared c) ! j" if "j < 2" for j
    using len that by (auto simp: nth_list_update)
  let ?c = "c\<lparr>e_shared := check_deadline o' r f now ((e_shared c)\<lparr>slot_in_use := (slot_in_use (e_shared c))[f mod 2 := True],
      pending_slots := pending_slots (e_shared c) @ [f mod 2]\<rparr>), e_main := MIdle (Suc f)\<rparr>"
  have mine: "f mod 2 \<in> mapped_slots (e_shared c)" "f mod 2 \<notin> locked_slots (e_shared c)"
    using inv m by (simp_all add: encode_inv_def main_ok_def Let_def)
  have "pending_ok ?c"
    using inv len i n mine by (auto simp: encode_inv_def pending_ok_def Let_def u)
  moreover have "main_ok ?c"
    using inv m i by (auto simp: encode_inv_def main_ok_def Let_def u main_failed_def)
  moreover have "ends_ok ?c"
    using inv m by (auto simp: encode_inv_def ends_ok_def Let_def u main_over_def)
  ultimately show ?thesis using inv by (simp add: encode_inv_def)
qed

lemma release_inv:
  assumes inv: "encode_inv c" and w: "e_worker c = WDrained i"
  shows "encode_inv (c\<lparr>e_shared := (e_shared c)\<lparr>slot_in_use := (slot_in_use (e_shared c))[i := False]\<rparr>, e_worker := WWaiting\<rparr>)"
proof -
  have len: "length (slot_in_use (e_shared c)) = 2" and i: "i < 2" "i \<notin> mapped_slots (e_shared c)"
    "i \<notin> set (pending_slots (e_shared c))" "\<not> worker_error (e_shared c)"
    using inv w by (auto simp: inv_defs)
  have u: "(slot_in_use (e_shared c))[i := False] ! j \<longleftrightarrow> j \<noteq> i \<and> slot_in_use (e_shared c) ! j" if "j < 2" for j
    using len that i(1) by (cases "j = i") simp_all
  let ?c = "c\<lparr>e_shared := (e_shared c)\<lparr>slot_in_use := (slot_in_use (e_shared c))[i := False]\<rparr>, e_worker := WWaiting\<rparr>"
  have m: "f mod 2 < 2" for f :: nat by simp
  have "pending_ok ?c"
    using inv len i by (auto simp: encode_inv_def pending_ok_def Let_def u)
  moreover have "main_ok ?c"
    using inv i by (auto simp: encode_inv_def main_ok_def Let_def u)
  moreover have "ends_ok ?c"
    using inv w i by (auto simp: encode_inv_def ends_ok_def Let_def u)
  ultimately show ?thesis using inv by (simp add: encode_inv_def)
qed

text \<open>The main thread's own steps leave the queue and the worker alone.\<close>

lemma main_only:
  assumes "encode_inv c" and "main_ok (c\<lparr>e_main := m\<rparr>)" and "ends_ok (c\<lparr>e_main := m\<rparr>)"
  shows "encode_inv (c\<lparr>e_main := m\<rparr>)"
  using assms by (simp add: encode_inv_def pending_ok_def)

lemma begin_inv:
  assumes inv: "encode_inv c" and m: "e_main c = MIdle f"
    and w: "\<not> slot_in_use (e_shared c) ! (f mod 2) \<or> worker_error (e_shared c)"
  shows "encode_inv (c\<lparr>e_main := if worker_error (e_shared c) then MFailed else MEncode f\<rparr>)"
proof (rule main_only [OF inv])
  have ok: "main_ok c" "ends_ok c" using inv by (simp_all add: encode_inv_def)
  have i: "f mod 2 < 2" by simp
  have owned: "i \<in> mapped_slots (e_shared c) \<Longrightarrow> i < 2 \<Longrightarrow> slot_in_use (e_shared c) ! i" for i
    using ok(1) m by (auto simp: main_ok_def Let_def main_failed_def)
  show "main_ok (c\<lparr>e_main := if worker_error (e_shared c) then MFailed else MEncode f\<rparr>)"
  proof (cases "worker_error (e_shared c)")
    case True
    then show ?thesis using ok(1) by (simp add: main_ok_def Let_def main_failed_def)
  next
    case False
    then have "f mod 2 \<notin> mapped_slots (e_shared c)" using w owned i by blast
    then show ?thesis using False w ok(1) owned by (simp add: main_ok_def Let_def)
  qed
  show "ends_ok (c\<lparr>e_main := if worker_error (e_shared c) then MFailed else MEncode f\<rparr>)"
    using ok(2) m unfolding ends_ok_def Let_def main_over_def
    by (cases "worker_error (e_shared c)") auto
qed

lemma finish_inv:
  assumes inv: "encode_inv c" and m: "e_main c = MIdle f \<and> m = MJoining \<or> e_main c = MFailed \<and> m = MAborting"
  shows "encode_inv (c\<lparr>e_shared := (e_shared c)\<lparr>input_done := True\<rparr>, e_main := m\<rparr>)"
proof -
  let ?c = "c\<lparr>e_shared := (e_shared c)\<lparr>input_done := True\<rparr>, e_main := m\<rparr>"
  have ok: "main_ok c" "ends_ok c" "pending_ok c" using inv by (simp_all add: encode_inv_def)
  have "main_ok ?c" using m ok(1) by (elim disjE) (auto simp: main_ok_def Let_def main_failed_def)
  moreover have "ends_ok ?c" using m ok(2) by (elim disjE) (auto simp: ends_ok_def Let_def main_over_def)
  moreover have "pending_ok ?c" using ok(3) by (simp add: pending_ok_def Let_def)
  ultimately show ?thesis using inv by (simp add: encode_inv_def)
qed

lemma join_inv:
  assumes inv: "encode_inv c" and w: "e_worker c = WEnded"
    and m: "e_main c = MJoining \<and> m = (if worker_error (e_shared c) then MThrown else MDone) \<or>
      e_main c = MAborting \<and> m = MThrown"
  shows "encode_inv (c\<lparr>e_main := m\<rparr>)"
proof (rule main_only [OF inv])
  have ok: "main_ok c" "ends_ok c" using inv by (simp_all add: encode_inv_def)
  show "main_ok (c\<lparr>e_main := m\<rparr>)"
    using m ok(1) by (elim disjE; cases "worker_error (e_shared c)") (auto simp: main_ok_def Let_def main_failed_def)
  show "ends_ok (c\<lparr>e_main := m\<rparr>)"
    using m w ok(2) by (elim disjE; cases "worker_error (e_shared c)") (simp_all add: ends_ok_def Let_def main_over_def)
qed

text \<open>The worker takes a slot, or ends when there is none left.\<close>

lemma worker_inv:
  assumes inv: "encode_inv c" and w: "e_worker c = WWaiting"
    and p: "pending_slots (e_shared c) = i # rest \<and> q = rest \<and> w' = WHolding i \<or>
      pending_slots (e_shared c) = [] \<and> input_done (e_shared c) \<and> q = [] \<and> w' = WEnded"
  shows "encode_inv (c\<lparr>e_shared := (e_shared c)\<lparr>pending_slots := q\<rparr>, e_worker := w'\<rparr>)"
proof -
  let ?c = "c\<lparr>e_shared := (e_shared c)\<lparr>pending_slots := q\<rparr>, e_worker := w'\<rparr>"
  have ok: "main_ok c" "ends_ok c" "pending_ok c" using inv by (simp_all add: encode_inv_def)
  have "main_ok ?c" using ok(1) by (simp add: main_ok_def Let_def)
  moreover have "ends_ok ?c" using p w ok(2) by (elim disjE) (auto simp: ends_ok_def Let_def)
  moreover have "pending_ok ?c" using p ok(3) by (elim disjE) (auto simp: pending_ok_def Let_def)
  ultimately show ?thesis using inv by (simp add: encode_inv_def)
qed

lemma encode_inv_step:
  assumes "encode_inv c" and "encode_step o' geometry encoded c e c'"
  shows "encode_inv c'"
  using assms(2)
proof cases
  case (begin_frame f)
  then show ?thesis using begin_inv [OF assms(1)] by simp
next
  case (submit f env ok st)
  then show ?thesis using submit_inv [OF assms(1)] by simp
next
  case (publish f st r now)
  then show ?thesis using publish_inv [OF assms(1)] by simp
next
  case (finish f)
  then show ?thesis using finish_inv [OF assms(1)] by simp
next
  case join
  then show ?thesis using join_inv [OF assms(1)] by simp
next
  case abort
  then show ?thesis using finish_inv [OF assms(1)] by simp
next
  case abort_join
  then show ?thesis using join_inv [OF assms(1)] by simp
next
  case ended
  then have eq: "c\<lparr>e_shared := (e_shared c)\<lparr>pending_slots := []\<rparr>, e_worker := WEnded\<rparr> = c'" by simp
  show ?thesis
    unfolding eq [symmetric] by (rule worker_inv [OF assms(1)]) (use ended in simp_all)
next
  case (wake i rest)
  then show ?thesis using worker_inv [OF assms(1), where q = rest and w' = "WHolding i"] by simp
next
  case (drain i env st)
  then show ?thesis using drain_inv [OF assms(1)] by fastforce
next
  case (drain_failed i env st)
  then show ?thesis using drain_inv [OF assms(1)] by fastforce
next
  case (release i)
  then show ?thesis using release_inv [OF assms(1)] by simp
qed

section \<open>Frames stay in order\<close>

abbreviation waiting_pictures :: "encode_system \<Rightarrow> nat list" where
  "waiting_pictures c \<equiv> map (\<lambda>i. es_picture (ep_slots (e_shared c) ! i)) (pending_slots (e_shared c))"

lemma pending_room:
  assumes "encode_inv c" and "e_main c = MPublish f"
  shows "length (pending_slots (e_shared c)) < 2"
proof -
  have p: "pending_ok c" and f: "\<not> slot_in_use (e_shared c) ! (f mod 2)"
    using assms by (simp_all add: encode_inv_def main_ok_def Let_def)
  then have s: "f mod 2 \<notin> set (pending_slots (e_shared c))" "\<forall>i \<in> set (pending_slots (e_shared c)). i < 2"
    "distinct (pending_slots (e_shared c))"
    by (auto simp: pending_ok_def Let_def)
  obtain i where i: "i = f mod 2" "i < 2" by simp
  have "set (pending_slots (e_shared c)) \<subseteq> {0, 1}" using s(2) by (auto simp: less_2_cases_iff)
  moreover have "i \<in> {0, 1}" using i(2) by auto
  ultimately have "set (pending_slots (e_shared c)) \<subset> {0, 1}" using s(1) unfolding i(1) [symmetric] by blast
  then have "card (set (pending_slots (e_shared c))) < card {0::nat, 1}" by (intro psubset_card_mono) simp_all
  then show ?thesis using s(3) by (simp add: distinct_card)
qed

text \<open>Steps inside a frame leave the waiting pictures alone.\<close>

lemma submit_waiting:
  assumes "encode_inv c" and "e_main c = MEncode f" and "encode_frame o' geometry f env (e_shared c) = (ok, st)"
  shows "waiting_pictures (c\<lparr>e_shared := st, e_main := m\<rparr>) = waiting_pictures c"
proof -
  have ok: "pending_ok c" "held_ok (e_shared c)" "\<not> slot_in_use (e_shared c) ! (f mod 2)"
    using assms(1,2) by (simp_all add: encode_inv_def main_ok_def Let_def)
  then have "f mod 2 \<notin> set (pending_slots (e_shared c))" by (auto simp: pending_ok_def Let_def)
  then have "es_picture (ep_slots st ! i) = es_picture (ep_slots (e_shared c) ! i)" if "i \<in> set (pending_slots (e_shared c))" for i
    using encode_frame_sets(6) [OF assms(3) ok(2)] that by metis
  then show ?thesis
    using encode_frame_sets(1) [OF assms(3) ok(2)] by (simp add: same_queue_def)
qed

lemma drain_waiting:
  assumes "encode_inv c" and "e_worker c = WHolding i" and "drain_slot o' encoded i env (e_shared c) = (ok, st)"
  shows "map (\<lambda>i. es_picture (ep_slots st ! i)) (pending_slots st) = waiting_pictures c"
proof -
  have ok: "held_ok (e_shared c)" "i < 2"
    using assms(1,2) by (simp_all add: encode_inv_def pending_ok_def Let_def)
  note d = drain_slot_sets(1,2,8) [OF assms(3) ok]
  then have "es_picture (ep_slots st ! j) = es_picture (ep_slots (e_shared c) ! j)" for j by (cases "j = i") simp_all
  then show ?thesis using d(1) by (simp add: same_queue_def)
qed

lemma waiting_step:
  assumes "encode_inv c" and "encode_step o' geometry encoded c e c'"
  shows "queue_step 2 (waiting_pictures c) e (waiting_pictures c')"
  using assms(2)
proof cases
  case (submit f env ok st)
  then show ?thesis using submit_waiting [OF assms(1)] by (simp add: queue_step.silent)
next
  case (publish f st r now)
  then show ?thesis using pending_room [OF assms(1)] by (simp add: queue_step.published)
next
  case (drain i env st)
  then show ?thesis using drain_waiting [OF assms(1)] by (simp add: queue_step.silent)
next
  case (drain_failed i env st)
  then show ?thesis using drain_waiting [OF assms(1)] by (simp add: queue_step.silent)
qed (simp_all add: queue_step.silent queue_step.taken)

interpretation output_queue: bounded_queue 2 "encode_step o' geometry encoded" encode_inv waiting_pictures
  by unfold_locales (assumption | rule encode_inv_step waiting_step)+

text \<open>How many frames have been published when the main thread is where it is.\<close>

definition main_count :: "nat \<Rightarrow> main_phase \<Rightarrow> nat \<Rightarrow> bool" where
  "main_count count m k \<longleftrightarrow> k \<le> count \<and>
     (case m of MIdle f \<Rightarrow> k = f | MEncode f \<Rightarrow> k = f \<and> f < count | MPublish f \<Rightarrow> k = f \<and> f < count
      | MJoining \<Rightarrow> k = count | MDone \<Rightarrow> k = count | _ \<Rightarrow> True)"

definition worker_pictures :: "encode_system \<Rightarrow> nat list" where
  "worker_pictures c = (case e_worker c of WHolding i \<Rightarrow> [es_picture (ep_slots (e_shared c) ! i)] | _ \<Rightarrow> [])"

definition encode_trace ::
    "encode_options \<Rightarrow> (nat \<Rightarrow> bytes) \<Rightarrow> (nat, nat) queue_event list \<Rightarrow> encode_system \<Rightarrow> bool" where
  "encode_trace o' encoded t c \<longleftrightarrow>
     (\<exists>k. main_count (unat (frame_count o')) (e_main c) k \<and> added t = [1..<Suc k]) \<and>
     (\<forall>f. e_main c = MPublish f \<longrightarrow> es_picture (ep_slots (e_shared c) ! (f mod 2)) = Suc f) \<and>
     (\<not> worker_error (e_shared c) \<longrightarrow>
        (\<exists>ns. removed t = ns @ worker_pictures c \<and> drained_ok o' encoded ns (e_shared c)))"

lemma worker_pictures_simps [simp]:
  "worker_pictures (c\<lparr>e_main := m\<rparr>) = worker_pictures c"
  "ep_slots st = ep_slots (e_shared c) \<Longrightarrow> worker_pictures (c\<lparr>e_shared := st\<rparr>) = worker_pictures c"
  "worker_pictures (c\<lparr>e_worker := WWaiting\<rparr>) = []" "worker_pictures (c\<lparr>e_worker := WEnded\<rparr>) = []"
  "worker_pictures (c\<lparr>e_worker := WDrained i\<rparr>) = []"
  "worker_pictures (c\<lparr>e_worker := WHolding i\<rparr>) = [es_picture (ep_slots (e_shared c) ! i)]"
  "e_worker c = WWaiting \<Longrightarrow> worker_pictures c = []" "e_worker c = WDrained i \<Longrightarrow> worker_pictures c = []"
  "e_worker c = WHolding i \<Longrightarrow> worker_pictures c = [es_picture (ep_slots (e_shared c) ! i)]"
  by (simp_all add: worker_pictures_def split: worker_phase.splits)

lemma encode_trace_start: "encode_trace o' encoded [] encode_start"
  by (simp add: encode_trace_def encode_start_def main_count_def worker_pictures_def drained_ok_def encode_init_def)

lemma drained_ok_same:
  "same_output st st' \<Longrightarrow> drained_ok o' encoded ns st \<Longrightarrow> drained_ok o' encoded ns st'"
  by (simp add: drained_ok_def same_output_def)

lemma drained_ok_update [simp]:
  "drained_ok o' encoded ns (st\<lparr>slot_in_use := u\<rparr>) = drained_ok o' encoded ns st"
  "drained_ok o' encoded ns (st\<lparr>pending_slots := q\<rparr>) = drained_ok o' encoded ns st"
  "drained_ok o' encoded ns (st\<lparr>input_done := b\<rparr>) = drained_ok o' encoded ns st"
  "drained_ok o' encoded ns (check_deadline o'' r f now st) = drained_ok o' encoded ns st"
  by (simp_all add: drained_ok_def check_deadline_def)

lemma encode_trace_step:
  assumes inv: "encode_inv c" and tr: "encode_trace o' encoded t c" and step: "encode_step o' geometry encoded c e c'"
  shows "encode_trace o' encoded (t @ [e]) c'"
  using step
proof cases
  case (begin_frame f)
  have "added t = [1..<Suc f]" "main_count (unat (frame_count o')) (e_main c') f"
    using tr begin_frame by (auto simp: encode_trace_def main_count_def simp del: upt_Suc)
  then show ?thesis using tr begin_frame(1,2) by (auto simp: encode_trace_def simp del: upt_Suc)
next
  case (submit f env ok st)
  have h: "held_ok (e_shared c)" "\<not> slot_in_use (e_shared c) ! (f mod 2)" and p: "pending_ok c"
    using inv submit(3) by (simp_all add: encode_inv_def main_ok_def Let_def)
  note s = encode_frame_sets [OF submit(4) h(1)]
  have "e_worker c = WHolding i \<Longrightarrow> i \<noteq> f mod 2" for i using p h(2) by (auto simp: pending_ok_def Let_def)
  then have "worker_pictures c' = worker_pictures c"
    using submit(2) s(6) by (simp add: worker_pictures_def split: worker_phase.splits)
  moreover have "\<exists>k. main_count (unat (frame_count o')) (e_main c') k \<and> added t = [1..<Suc k]"
    using tr submit(2,3) by (cases ok) (auto simp: encode_trace_def main_count_def simp del: upt_Suc)
  moreover have "e_main c' = MPublish g \<Longrightarrow> es_picture (ep_slots st ! (g mod 2)) = Suc g" for g
    using submit(2) s(7) by (cases ok) auto
  ultimately show ?thesis
    using tr submit(1,2) s(1) drained_ok_same [OF s(8)]
    by (auto simp: encode_trace_def same_queue_def simp del: upt_Suc)
next
  case (publish f st r now)
  have "added (t @ [e]) = [1..<Suc (Suc f)]" "main_count (unat (frame_count o')) (e_main c') (Suc f)"
    using tr publish by (auto simp: encode_trace_def main_count_def)
  then show ?thesis using tr publish by (auto simp: encode_trace_def simp del: upt_Suc)
next
  case (drain i env st)
  have h: "held_ok (e_shared c)" "i < length (ep_slots (e_shared c))" "slot_in_use (e_shared c) ! i"
    using inv drain(3) by (auto simp: encode_inv_def pending_ok_def held_ok_def Let_def)
  have f: "e_main c = MPublish f \<Longrightarrow> f mod 2 \<noteq> i" for f
    using inv h(3) by (auto simp: encode_inv_def main_ok_def Let_def)
  note d = drain_slot_effect [OF drain(4) h(2)]
  have "drained_ok o' encoded (removed t) st" if "\<not> worker_error (e_shared c)"
    using tr that drain(3) d(6) by (auto simp: encode_trace_def)
  then show ?thesis
    using tr drain(1-3) d(1,3) f by (simp add: encode_trace_def same_queue_def del: upt_Suc)
next
  case (drain_failed i env st)
  have h: "held_ok (e_shared c)" "i < length (ep_slots (e_shared c))" "slot_in_use (e_shared c) ! i"
    using inv drain_failed(3) by (auto simp: encode_inv_def pending_ok_def held_ok_def Let_def)
  have f: "e_main c = MPublish f \<Longrightarrow> f mod 2 \<noteq> i" for f
    using inv h(3) by (auto simp: encode_inv_def main_ok_def Let_def)
  note d = drain_slot_effect [OF drain_failed(4) h(2)]
  show ?thesis using tr drain_failed(1-3) d(3) f by (simp add: encode_trace_def del: upt_Suc)
qed (use tr in \<open>auto simp: encode_trace_def main_count_def simp del: upt_Suc\<close>)

lemma encode_run_trace:
  "trace_run (encode_step o' geometry encoded) encode_start t c \<Longrightarrow> encode_inv c \<and> encode_trace o' encoded t c"
  by (induction rule: trace_run.induct)
    (auto intro: encode_inv_start encode_trace_start encode_inv_step encode_trace_step)

lemma filter_lost:
  "filter (lost o') [1..<Suc count] =
     (if 1 \<le> unat (simulate_loss_frame o') \<and> unat (simulate_loss_frame o') \<le> count
      then [unat (simulate_loss_frame o')] else [])"
proof -
  have "filter (lost o') [1..<Suc count] = filter (\<lambda>n. n = unat (simulate_loss_frame o')) [1..<Suc count]"
    by (rule filter_cong) (auto simp: lost_def unat_eq_0)
  also have "\<dots> = (if 1 \<le> unat (simulate_loss_frame o') \<and> unat (simulate_loss_frame o') \<le> count
      then [unat (simulate_loss_frame o')] else [])"
    by (induction count) auto
  finally show ?thesis .
qed

section \<open>A run ends\<close>

fun main_cost :: "nat \<Rightarrow> main_phase \<Rightarrow> nat" where
  "main_cost count (MIdle f) = 6 * (count - f) + 4"
| "main_cost count (MEncode f) = 6 * (count - f) + 3"
| "main_cost count (MPublish f) = 6 * (count - f) + 2"
| "main_cost count MFailed = 3"
| "main_cost count MJoining = 2"
| "main_cost count MAborting = 2"
| "main_cost count MDone = 0"
| "main_cost count MThrown = 0"

fun worker_cost :: "worker_phase \<Rightarrow> nat" where
  "worker_cost WWaiting = 1"
| "worker_cost (WHolding i) = 3"
| "worker_cost (WDrained i) = 2"
| "worker_cost WEnded = 0"

definition steps_left :: "nat \<Rightarrow> encode_system \<Rightarrow> nat" where
  "steps_left count c = main_cost count (e_main c) + 3 * length (pending_slots (e_shared c)) + worker_cost (e_worker c)"

lemma steps_left_step:
  assumes inv: "encode_inv c" and k: "main_count (unat (frame_count o')) (e_main c) k"
    and step: "encode_step o' geometry encoded c e c'"
  shows "steps_left (unat (frame_count o')) c' < steps_left (unat (frame_count o')) c"
  using step
proof cases
  case (submit f env ok st)
  have "held_ok (e_shared c)" using inv by (simp add: encode_inv_def)
  from encode_frame_sets(1) [OF submit(4) this] show ?thesis
    using submit k by (cases ok) (simp_all add: steps_left_def same_queue_def main_count_def)
next
  case (publish f st r now)
  then have "f < unat (frame_count o')" using k by (simp add: main_count_def)
  then show ?thesis using publish by (simp add: steps_left_def)
next
  case (drain i env st)
  have "held_ok (e_shared c)" "i < 2" using inv drain(3) by (simp_all add: encode_inv_def pending_ok_def Let_def)
  from drain_slot_sets(1) [OF drain(4) this] show ?thesis using drain by (simp add: steps_left_def same_queue_def)
next
  case (drain_failed i env st)
  have "held_ok (e_shared c)" "i < 2" using inv drain_failed(3) by (simp_all add: encode_inv_def pending_ok_def Let_def)
  from drain_slot_sets(1) [OF drain_failed(4) this] show ?thesis
    using drain_failed by (simp add: steps_left_def same_queue_def)
qed (simp_all add: steps_left_def)

lemma steps_left_run:
  assumes "trace_run (encode_step o' geometry encoded) encode_start t c"
  shows "length t + steps_left (unat (frame_count o')) c \<le> 6 * unat (frame_count o') + 5"
  using assms
proof (induction rule: trace_run.induct)
  case start
  then show ?case by (simp add: steps_left_def encode_start_def encode_init_def)
next
  case (snoc t c e c')
  obtain k where "encode_inv c" "main_count (unat (frame_count o')) (e_main c) k"
    using encode_run_trace [OF snoc.hyps(1)] by (auto simp: encode_trace_def)
  from steps_left_step [OF this snoc.hyps(2)] show ?case using snoc.IH by simp
qed

text \<open>No thread waits for something that cannot come.\<close>

lemma worker_moves:
  assumes "encode_inv c" and "e_worker c \<noteq> WEnded"
    and "e_worker c = WWaiting \<Longrightarrow> input_done (e_shared c) \<or> pending_slots (e_shared c) \<noteq> []"
  shows "\<exists>e c'. encode_step o' geometry encoded c e c'"
proof (cases "e_worker c")
  case WWaiting
  then show ?thesis
    using assms(3) by (cases "pending_slots (e_shared c)") (blast intro: encode_step.ended encode_step.wake)+
next
  case (WHolding i)
  obtain ok st where "drain_slot o' encoded i undefined (e_shared c) = (ok, st)" by fastforce
  then show ?thesis using WHolding encode_step.drain encode_step.drain_failed by (cases ok) metis+
next
  case (WDrained i)
  then show ?thesis by (blast intro: encode_step.release)
qed (use assms(2) in simp)

lemma not_stuck:
  assumes inv: "encode_inv c" and main: "e_main c \<notin> {MDone, MThrown}"
  shows "\<exists>e c'. encode_step o' geometry encoded c e c'"
proof (cases "e_main c")
  case (MIdle f)
  have ends: "ends_ok c" and i: "f mod 2 < 2" using inv by (simp_all add: encode_inv_def)
  show ?thesis
  proof (cases "f < unat (frame_count o') \<and> slot_in_use (e_shared c) ! (f mod 2) \<and> \<not> worker_error (e_shared c)")
    case True
    then have busy: "f mod 2 \<in> set (pending_slots (e_shared c)) \<or> e_worker c = WHolding (f mod 2) \<or> e_worker c = WDrained (f mod 2)"
      using ends i by (auto simp: ends_ok_def Let_def)
    then have "e_worker c \<noteq> WEnded" using True ends by (auto simp: ends_ok_def Let_def)
    then show ?thesis using worker_moves [OF inv] busy by fastforce
  next
    case False
    then show ?thesis using MIdle by (blast intro: encode_step.begin_frame encode_step.finish)
  qed
next
  case (MEncode f)
  obtain ok st where "encode_frame o' geometry f undefined (e_shared c) = (ok, st)" by fastforce
  then show ?thesis using MEncode by (blast intro: encode_step.submit)
next
  case (MPublish f)
  then show ?thesis by (blast intro: encode_step.publish)
next
  case MFailed
  then show ?thesis by (blast intro: encode_step.abort)
next
  case MJoining
  then have "input_done (e_shared c)" using inv by (simp add: encode_inv_def ends_ok_def Let_def main_over_def)
  then show ?thesis using MJoining worker_moves [OF inv] by (cases "e_worker c = WEnded") (blast intro: encode_step.join)+
next
  case MAborting
  then have "input_done (e_shared c)" using inv by (simp add: encode_inv_def ends_ok_def Let_def main_over_def)
  then show ?thesis using MAborting worker_moves [OF inv] by (cases "e_worker c = WEnded") (blast intro: encode_step.abort_join)+
qed (use main in simp_all)


text \<open>When the loop has ended normally the worker has drained all frames in order.\<close>

lemma run_drained:
  assumes "trace_run (encode_step o' geometry encoded) encode_start t c" and "e_main c = MDone"
  shows "drained_ok o' encoded [1..<Suc (unat (frame_count o'))] (e_shared c)"
proof -
  let ?frames = "[1..<Suc (unat (frame_count o'))]" and ?st = "e_shared c"
  have inv: "encode_inv c" and tr: "encode_trace o' encoded t c" using encode_run_trace [OF assms(1)] by simp_all
  have ends: "e_worker c = WEnded" "\<not> worker_error ?st" using inv assms(2) by (simp_all add: encode_inv_def ends_ok_def Let_def)
  then have "pending_slots ?st = []" using inv by (simp add: encode_inv_def ends_ok_def Let_def)
  then have "added t = removed t"
    using output_queue.run_fifo [OF assms(1) encode_inv_start] by (simp add: encode_start_def encode_init_def)
  moreover have "added t = ?frames" using tr assms(2) by (auto simp: encode_trace_def main_count_def simp del: upt_Suc)
  ultimately show ?thesis using tr ends by (auto simp: encode_trace_def worker_pictures_def simp del: upt_Suc)
qed

text \<open>
  C10. When the frame loop ends without an exception, the bitstream file holds every frame's bytes in the order of the
  frames, less the frame whose loss is simulated; the reference file, when there is one, holds them all; and the
  counters of written and dropped frames add up to the number of frames.
\<close>

theorem encode_frames_complete:
  assumes "trace_run (encode_step o' geometry encoded) encode_start t c" and "e_main c = MDone"
  shows "let st = e_shared c; frames = [1..<Suc (unat (frame_count o'))] in
    bitstream_file st = concat (map encoded (filter (\<lambda>n. \<not> lost o' n) frames)) \<and>
    reference_bitstream_file st = (if reference_bitstream_path o' \<noteq> [] then concat (map encoded frames) else []) \<and>
    bitstream_frames_written st + bitstream_frames_dropped st = unat (frame_count o') \<and>
    bitstream_frames_dropped st =
      (if 1 \<le> unat (simulate_loss_frame o') \<and> unat (simulate_loss_frame o') \<le> unat (frame_count o') then 1 else 0) \<and>
    encoded_bytes st = length (bitstream_file st)"
  using run_drained [OF assms] sum_length_filter_compl [of "lost o'" "[1..<Suc (unat (frame_count o'))]"]
    filter_lost [of o' "unat (frame_count o')"]
  by (auto simp: drained_ok_def Let_def simp del: upt_Suc)

section \<open>Without a worker\<close>

lemma idle_slots:
  assumes "mapped_slots st = {}" "locked_slots st = {}"
  shows "\<not> es_mapped (ep_slots st ! (f mod 2))" "\<not> es_locked (ep_slots st ! (f mod 2))"
proof -
  have "f mod 2 < 2" by simp
  then show "\<not> es_mapped (ep_slots st ! (f mod 2))" "\<not> es_locked (ep_slots st ! (f mod 2))"
    using assms unfolding mapped_slots_def locked_slots_def by blast+
qed

lemma blocking_frame:
  assumes "encode_frame o' geometry f fe st = (ok, st1)" and "held_ok st" and idle: "mapped_slots st = {}" "locked_slots st = {}"
  shows "held_ok st1"
    "ok \<Longrightarrow> drain_slot o' encoded (f mod 2) de st1 = (ok2, st2) \<Longrightarrow> held_ok st2"
    "ok \<Longrightarrow> drain_slot o' encoded (f mod 2) de st1 = (True, st2) \<Longrightarrow> mapped_slots st2 = {} \<and> locked_slots st2 = {} \<and>
       (drained_ok o' encoded ns st \<longrightarrow> drained_ok o' encoded (ns @ [Suc f]) st2)"
proof -
  note s = encode_frame_sets [OF assms(1,2)]
  show h1: "held_ok st1" by (rule encode_frame_held [OF assms(1,2) idle_slots(1) [OF idle]])
  have i: "f mod 2 < 2" by simp
  then have il: "f mod 2 < length (ep_slots st1)" using h1 by (simp add: held_ok_def)
  have e: "es_mapped (ep_slots st1 ! (f mod 2))" "\<not> es_locked (ep_slots st1 ! (f mod 2))" if ok
  proof -
    show "es_mapped (ep_slots st1 ! (f mod 2))" using s(5) [OF that] by (simp add: mapped_slots_def)
    have "f mod 2 \<notin> locked_slots st1" using s(2) idle(2) by simp
    then show "\<not> es_locked (ep_slots st1 ! (f mod 2))" by (simp add: locked_slots_def)
  qed
  show "held_ok st2" if "ok" "drain_slot o' encoded (f mod 2) de st1 = (ok2, st2)"
    by (rule drain_slot_held [OF that(2) h1 i e [OF that(1)]])
  show "mapped_slots st2 = {} \<and> locked_slots st2 = {} \<and>
       (drained_ok o' encoded ns st \<longrightarrow> drained_ok o' encoded (ns @ [Suc f]) st2)"
    if "ok" and d: "drain_slot o' encoded (f mod 2) de st1 = (True, st2)"
  proof -
    have "mapped_slots st2 = mapped_slots st1 - {f mod 2}" "locked_slots st2 = locked_slots st1 - {f mod 2}"
      using drain_slot_sets(3,4) [OF d h1 i] by simp_all
    then have "mapped_slots st2 = {}" "locked_slots st2 = {}" using s(2,4) idle by auto
    moreover have "drained_ok o' encoded (ns @ [Suc f]) st2" if "drained_ok o' encoded ns st"
      using drain_slot_effect(6) [OF d il _ drained_ok_same [OF s(8) that]] s(7) [OF \<open>ok\<close>] by simp
    ultimately show ?thesis by blast
  qed
qed

lemma blocking_frames_ok:
  assumes "blocking_frames o' geometry encoded run_started f envs st = (r, st')" and "held_ok st"
    and "mapped_slots st = {}" "locked_slots st = {}"
  shows "held_ok st' \<and> (r \<longrightarrow> drained_ok o' encoded [1..<Suc f] st \<longrightarrow>
    drained_ok o' encoded [1..<Suc (f + length envs)] st')"
  using assms
proof (induction o' geometry encoded run_started f envs st rule: blocking_frames.induct)
  case (2 o' geometry encoded run_started f fe de now envs st)
  obtain ok st1 where e: "encode_frame o' geometry f fe st = (ok, st1)" by fastforce
  obtain ok2 st2 where d: "drain_slot o' encoded (f mod 2) de st1 = (ok2, st2)" by fastforce
  note b = blocking_frame [OF e 2(3-5)]
  show ?case
  proof (cases "ok \<and> ok2")
    case True
    then have rec: "blocking_frames o' geometry encoded run_started (f + 1) envs (check_deadline o' run_started f now st2) = (r, st')"
      using 2(2) e d by simp
    have "mapped_slots st2 = {}" "locked_slots st2 = {}" "held_ok st2"
      using b(2,3) [of encoded de] d True by auto
    moreover have "drained_ok o' encoded [1..<Suc (Suc f)] st2" if "drained_ok o' encoded [1..<Suc f] st"
      using b(3) [of encoded de st2 "[1..<Suc f]"] d True that by simp
    ultimately show ?thesis
      using 2(1) [OF e [symmetric] _ d [symmetric] _ rec] True by (simp del: upt_Suc)
  next
    case False
    then show ?thesis using 2(2) b(1) b(2) [of encoded de] e d by (cases ok; cases ok2) auto
  qed
qed simp

text \<open>
  C30. The depth of the queue does not change what is written: a run that hands the slots to the worker and a run that
  drains each slot at once leave the same files and the same frame and byte counts when neither throws.
\<close>

theorem queue_depth_same_output:
  assumes "trace_run (encode_step o' geometry encoded) encode_start t c" and "e_main c = MDone"
    and "blocking_frames o' geometry' encoded run_started 0 envs encode_init = (True, st)"
    and "length envs = unat (frame_count o')"
  shows "bitstream_file st = bitstream_file (e_shared c) \<and>
    reference_bitstream_file st = reference_bitstream_file (e_shared c) \<and>
    bitstream_frames_written st = bitstream_frames_written (e_shared c) \<and>
    bitstream_frames_dropped st = bitstream_frames_dropped (e_shared c) \<and>
    encoded_bytes st = encoded_bytes (e_shared c)"
proof -
  have "drained_ok o' encoded [1..<Suc (unat (frame_count o'))] st"
    using blocking_frames_ok [OF assms(3) start_ok] assms(4) by (simp add: drained_ok_def encode_init_def)
  then show ?thesis using run_drained [OF assms(1,2)] by (simp add: drained_ok_def del: upt_Suc)
qed

section \<open>Every driver object is released\<close>

text \<open>From \<^verbatim>\<open>main\<close>: the set-up, the frames when it succeeded, then the destructor of \<^verbatim>\<open>Resources\<close>.\<close>

lemma setup_objects_closed: "closed setup_objects"
  by (simp add: closed_def setup_objects_def encoder_objects_def capture_objects_def cuda_objects_def)

lemma setup_objects_released: "set setup_objects \<subseteq> set release_order"
  by (simp add: setup_objects_def encoder_objects_def capture_objects_def cuda_objects_def release_order_def)

lemma log_released:
  assumes "held_ok st"
  shows "\<exists>held. follow setup_objects (ep_log st) = Some held \<and>
    follow setup_objects (ep_log st @ destroy_resources (resources_after held)) = Some []"
proof -
  obtain held where h: "follow setup_objects (ep_log st) = Some held"
    "set held = set setup_objects \<union> Mapped ` mapped_slots st \<union> Locked ` locked_slots st"
    using assms by (auto simp: held_ok_def log_ok_def)
  have "Mapped ` mapped_slots st \<subseteq> set release_order" "Locked ` locked_slots st \<subseteq> set release_order"
    by (auto simp: mapped_slots_def locked_slots_def release_order_def less_2_cases_iff)
  then have "set held \<subseteq> set release_order" using h(2) setup_objects_released by auto
  from destructor_releases [OF follow_closed [OF h(1) setup_objects_closed] this]
  show ?thesis using h(1) by (simp add: follow_append)
qed

lemma loop_held:
  "trace_run (encode_step o' geometry encoded) encode_start t c \<Longrightarrow> held_ok (e_shared c)"
  "held_ok (snd (blocking_frames o' geometry encoded run_started 0 envs encode_init))"
proof -
  show "trace_run (encode_step o' geometry encoded) encode_start t c \<Longrightarrow> held_ok (e_shared c)"
    using encode_run_trace by (auto simp: encode_inv_def)
  obtain r st where "blocking_frames o' geometry encoded run_started 0 envs encode_init = (r, st)" by fastforce
  then show "held_ok (snd (blocking_frames o' geometry encoded run_started 0 envs encode_init))"
    using blocking_frames_ok [OF _ start_ok] by fastforce
qed


section \<open>A run of one frame\<close>

definition one_frame :: encode_options where
  "one_frame = encode_defaults\<lparr>frame_count := 1, reference_bitstream_path := ''r''\<rparr>"

definition good_frame :: frame_env where
  "good_frame = \<lparr>fe_pipeline_started = 0, fe_invalidates = True, fe_grabs = True, fe_geometry = (64, 64), fe_new = True,
     fe_captured = 1000, fe_converts = True, fe_converted = 2000, fe_map_started = 3000, fe_maps = True, fe_mapped = 4000,
     fe_submit_started = 5000, fe_encodes = True, fe_submitted = 6000\<rparr>"

definition good_drain :: drain_env where
  "good_drain = \<lparr>dr_lock_started = 7000, dr_locks = True, dr_encoded = 8000, dr_writes_reference = True, dr_writes = True,
     dr_written = 9000, dr_unlocks = True, dr_unmaps = True, dr_released = 10000\<rparr>"

definition one_byte :: "nat \<Rightarrow> bytes" where
  "one_byte n = [of_nat n]"

lemma one_frame_run:
  obtains t c where "trace_run (encode_step one_frame (64, 64) one_byte) encode_start t c" "length t = 9" "e_main c = MDone"
    "bitstream_file (e_shared c) = [1]" "ep_log (e_shared c) = [Acquire (Mapped 0), Acquire (Locked 0), Release (Locked 0), Release (Mapped 0)]"
proof -
  let ?R = "encode_step one_frame (64, 64) one_byte"
  note defs = encode_start_def encode_init_def blank_slot_def blank_encode_timings_def one_frame_def encode_defaults_def
  define c1 where "c1 = encode_start\<lparr>e_main := MEncode 0\<rparr>"
  obtain ok st2 where e: "encode_frame one_frame (64, 64) 0 good_frame (e_shared c1) = (ok, st2)" by fastforce
  have st2: "ok" "pending_slots st2 = []" "slot_in_use st2 = [False, False]" "\<not> worker_error st2" "\<not> input_done st2"
    "bitstream_file st2 = []" "es_picture (ep_slots st2 ! 0) = 1" "ep_log st2 = [Acquire (Mapped 0)]" "length (ep_slots st2) = 2"
    using e by (auto simp: c1_def defs encode_frame_def capture_frame_def submit_frame_def Let_def good_frame_def
        loss_reported_def set_slot_def)
  define c2 where "c2 = c1\<lparr>e_shared := st2, e_main := MPublish 0\<rparr>"
  define c3 where "c3 = c2\<lparr>e_shared := check_deadline one_frame 0 0 0 (st2\<lparr>slot_in_use := [True, False], pending_slots := [0]\<rparr>),
    e_main := MIdle 1\<rparr>"
  define c4 where "c4 = c3\<lparr>e_shared := (e_shared c3)\<lparr>input_done := True\<rparr>, e_main := MJoining\<rparr>"
  define c5 where "c5 = c4\<lparr>e_shared := (e_shared c4)\<lparr>pending_slots := []\<rparr>, e_worker := WHolding 0\<rparr>"
  obtain ok6 st6 where d: "drain_slot one_frame one_byte 0 good_drain (e_shared c5) = (ok6, st6)" by fastforce
  have c5: "ep_slots (e_shared c5) = ep_slots st2" "bitstream_file (e_shared c5) = []" "ep_log (e_shared c5) = [Acquire (Mapped 0)]"
    "pending_slots (e_shared c5) = []" "input_done (e_shared c5)" "\<not> worker_error (e_shared c5)"
    using st2 by (simp_all add: c5_def c4_def c3_def check_deadline_def)
  have st6: "ok6" "pending_slots st6 = []" "input_done st6" "\<not> worker_error st6" "bitstream_file st6 = [1]"
    "ep_log st6 = [Acquire (Mapped 0), Acquire (Locked 0), Release (Locked 0), Release (Mapped 0)]"
    using d c5 st2(7,9) by (auto simp: drain_slot_def write_frame_def Let_def good_drain_def one_byte_def set_slot_def
        one_frame_def encode_defaults_def)
  define c6 where "c6 = c5\<lparr>e_shared := st6, e_worker := WDrained 0\<rparr>"
  define c7 where "c7 = c6\<lparr>e_shared := (e_shared c6)\<lparr>slot_in_use := (slot_in_use (e_shared c6))[0 := False]\<rparr>, e_worker := WWaiting\<rparr>"
  define c8 where "c8 = c7\<lparr>e_worker := WEnded\<rparr>"
  define c9 where "c9 = c8\<lparr>e_main := MDone\<rparr>"
  have "?R encode_start Silent c1"
    using encode_step.begin_frame [of encode_start 0 one_frame "(64, 64)" one_byte] by (simp add: c1_def defs)
  moreover have "?R c1 Silent c2" using encode_step.submit [OF _ e] st2(1) by (simp add: c1_def c2_def)
  moreover have "?R c2 (Published 1) c3"
    using encode_step.publish [of c2 0 _ one_frame "(64, 64)" one_byte 0 0] st2 by (simp add: c2_def c3_def)
  moreover have "?R c3 Silent c4"
    using encode_step.finish [of c3 1 one_frame "(64, 64)" one_byte] by (simp add: c3_def c4_def one_frame_def)
  moreover have "?R c4 (Taken 1) c5"
    using encode_step.wake [of c4 0 "[]" one_frame "(64, 64)" one_byte] st2
    by (simp add: c5_def c4_def c3_def c2_def c1_def encode_start_def)
  moreover have "?R c5 Silent c6" using encode_step.drain [of c5 0] d st6(1) by (simp add: c5_def c6_def)
  moreover have "?R c6 Silent c7" using encode_step.release [of c6 0] by (simp add: c6_def c7_def)
  moreover have "?R c7 Silent c8" using encode_step.ended [of c7] st6 by (simp add: c6_def c7_def c8_def)
  moreover have "?R c8 Silent c9"
    using encode_step.join [of c8 one_frame "(64, 64)" one_byte] st6 by (simp add: c4_def c5_def c6_def c7_def c8_def c9_def)
  ultimately have "trace_run ?R encode_start
      ([] @ [Silent] @ [Silent] @ [Published 1] @ [Silent] @ [Taken 1] @ [Silent] @ [Silent] @ [Silent] @ [Silent]) c9"
    unfolding append_assoc [symmetric] by (intro trace_run.snoc) (assumption | rule trace_run.start)+
  from that [OF this] show thesis using st6 by (simp add: c9_def c8_def c7_def c6_def)
qed


theorem encode_frames_complete_witness:
  "\<exists>t c. trace_run (encode_step one_frame (64, 64) one_byte) encode_start t c \<and> e_main c = MDone \<and>
     reference_bitstream_file (e_shared c) = [1] \<and> bitstream_frames_written (e_shared c) = 1"
proof -
  obtain t c where r: "trace_run (encode_step one_frame (64, 64) one_byte) encode_start t c" "e_main c = MDone"
    by (rule one_frame_run)
  have o: "unat (frame_count one_frame) = 1" "simulate_loss_frame one_frame = 0" "reference_bitstream_path one_frame \<noteq> []"
    by (simp_all add: one_frame_def encode_defaults_def)
  have "reference_bitstream_file (e_shared c) = [1]" "bitstream_frames_written (e_shared c) = 1"
    using encode_frames_complete [OF r] o by (simp_all add: one_byte_def Let_def)
  then show ?thesis using r by blast
qed

theorem queue_depth_same_output_witness:
  "\<exists>t c st. trace_run (encode_step one_frame (64, 64) one_byte) encode_start t c \<and> e_main c = MDone \<and>
     blocking_frames one_frame (64, 64) one_byte 0 0 [(good_frame, good_drain, 0)] encode_init = (True, st) \<and>
     bitstream_file st = bitstream_file (e_shared c) \<and> bitstream_file st = [1]"
proof -
  obtain t c where r: "trace_run (encode_step one_frame (64, 64) one_byte) encode_start t c" "e_main c = MDone"
    "bitstream_file (e_shared c) = [1]"
    by (rule one_frame_run)
  obtain ok st where b: "blocking_frames one_frame (64, 64) one_byte 0 0 [(good_frame, good_drain, 0)] encode_init = (ok, st)"
    by fastforce
  have ok: "ok"
    using b by (auto simp: encode_init_def blank_slot_def blank_encode_timings_def one_frame_def encode_defaults_def
        encode_frame_def capture_frame_def submit_frame_def Let_def good_frame_def loss_reported_def set_slot_def
        drain_slot_def write_frame_def good_drain_def)
  have "length [(good_frame, good_drain, 0 :: int)] = unat (frame_count one_frame)" by (simp add: one_frame_def)
  note same = queue_depth_same_output [OF r(1,2) b [unfolded eqTrueI [OF ok]] this]
  show ?thesis
    by (rule exI [of _ t], rule exI [of _ c], rule exI [of _ st]) (use r b ok same in \<open>simp del: blocking_frames.simps\<close>)
qed


end
