(* ===== verification/Encode_Gate.thy ===== *)
theory Encode_Gate
  imports Encode_Run Ieee_Double
begin

text \<open>
  The verdict of \<^verbatim>\<open>probes/video/plank-probe-video-pipeline.cpp\<close>: percentiles and averages of the
  timings, the gates over them, and the exit status. Doubles are the rationals of \<^verbatim>\<open>Ieee_Double\<close>; the
  elapsed time in seconds is an argument.
\<close>

section \<open>Statistics\<close>

definition nearest_rank :: "nat \<Rightarrow> nat \<Rightarrow> nat" where
  "nearest_rank n percent = (n * percent + 99) div 100 - 1"

definition nearest_percentile :: "int list \<Rightarrow> nat \<Rightarrow> rat" where
  "nearest_percentile values percent =
     (if values = [] then 0 else dbl_of_i64 (sort values ! nearest_rank (length values) percent))"

definition average_us :: "int list \<Rightarrow> rat" where
  "average_us values =
     (if values = [] then 0 else dbl_div (dbl_of_i64 (sum_list values)) (rnd64 (of_nat (length values))))"

definition frame_budget_us :: "encode_options \<Rightarrow> rat" where
  "frame_budget_us o' = dbl_div 1000000 (of_nat (unat (frame_rate o')))"

definition budget_misses :: "rat \<Rightarrow> int list \<Rightarrow> nat" where
  "budget_misses budget values = length (filter (\<lambda>v. dbl_of_i64 v > budget) values)"

section \<open>Gates\<close>

definition source_activity_passed :: "encode_options \<Rightarrow> encode_state \<Rightarrow> bool" where
  "source_activity_passed o' st \<longleftrightarrow>
     \<not> require_changing_source o' \<or> new_frames st * 10 \<ge> unat (frame_count o') * 9"

definition capture_conversion_target :: "encode_state \<Rightarrow> bool" where
  "capture_conversion_target st \<longleftrightarrow>
     rnd64 (nearest_percentile (capture_us (ep_timings st)) 95 + nearest_percentile (conversion_us (ep_timings st)) 95) \<le> 3000"

definition nvenc_target :: "encode_state \<Rightarrow> bool" where
  "nvenc_target st \<longleftrightarrow> nearest_percentile (encode_us (ep_timings st)) 95 \<le> 8000"

definition local_pipeline_target :: "encode_state \<Rightarrow> bool" where
  "local_pipeline_target st \<longleftrightarrow> nearest_percentile (pipeline_us (ep_timings st)) 95 \<le> 25000"

definition allowed_deadline_misses :: "encode_options \<Rightarrow> nat" where
  "allowed_deadline_misses o' = max 1 (unat (frame_count o') div 100)"

definition achieved_fps :: "encode_options \<Rightarrow> rat \<Rightarrow> rat" where
  "achieved_fps o' elapsed_seconds = dbl_div (of_nat (unat (frame_count o'))) elapsed_seconds"

definition realtime_passed :: "encode_options \<Rightarrow> rat \<Rightarrow> encode_state \<Rightarrow> bool" where
  "realtime_passed o' elapsed_seconds st \<longleftrightarrow>
     achieved_fps o' elapsed_seconds \<ge> dbl_mul (of_nat (unat (frame_rate o'))) (rnd64 (99 / 100)) \<and>
     deadline_misses st \<le> allowed_deadline_misses o' \<and>
     nearest_percentile (pipeline_us (ep_timings st)) 95 \<le> frame_budget_us o' \<and>
     capture_conversion_target st \<and> local_pipeline_target st \<and> source_activity_passed o' st"

definition realtime_robustness_passed :: "encode_options \<Rightarrow> rat \<Rightarrow> encode_state \<Rightarrow> bool" where
  "realtime_robustness_passed o' elapsed_seconds st \<longleftrightarrow>
     realtime_passed o' elapsed_seconds st \<and>
     nearest_percentile (pipeline_us (ep_timings st)) 99 \<le> frame_budget_us o' \<and> deadline_misses st = 0"

definition component_targets_passed :: "encode_state \<Rightarrow> bool" where
  "component_targets_passed st \<longleftrightarrow> capture_conversion_target st \<and> nvenc_target st \<and> local_pipeline_target st"

definition bitstream_loss_passed :: "encode_options \<Rightarrow> encode_state \<Rightarrow> bool" where
  "bitstream_loss_passed o' st \<longleftrightarrow> simulate_loss_frame o' = 0 \<or> bitstream_frames_dropped st = 1"

definition reference_invalidation_passed :: "encode_options \<Rightarrow> encode_state \<Rightarrow> bool" where
  "reference_invalidation_passed o' st \<longleftrightarrow>
     \<not> (simulate_loss_frame o' \<noteq> 0 \<and> reference_invalidation_enabled o') \<or> reference_invalidation_called st"

definition forced_idr_passed :: "encode_options \<Rightarrow> encode_state \<Rightarrow> bool" where
  "forced_idr_passed o' st \<longleftrightarrow> force_idr_frame o' = 0 \<or> forced_idr_submitted st"

definition requested_gates_passed :: "encode_options \<Rightarrow> encode_state \<Rightarrow> bool" where
  "requested_gates_passed o' st \<longleftrightarrow>
     bitstream_loss_passed o' st \<and> reference_invalidation_passed o' st \<and> forced_idr_passed o' st"

definition encode_status :: "encode_options \<Rightarrow> rat \<Rightarrow> encode_state \<Rightarrow> int" where
  "encode_status o' elapsed_seconds st =
     (if (if require_robustness o' then realtime_robustness_passed o' elapsed_seconds st
          else realtime_passed o' elapsed_seconds st) \<and> requested_gates_passed o' st
      then 0 else 1)"

text \<open>
  The program: the command line, the set-up, the files, the frames (\<open>None\<close> when they throw), the end-of-stream
  picture, the verdict. Every exception is status 3.
\<close>

definition encode_main ::
    "string list \<Rightarrow> (encode_options \<Rightarrow> randr_output option) \<Rightarrow> (encode_options \<Rightarrow> bool) \<Rightarrow>
     (encode_options \<Rightarrow> randr_output \<Rightarrow> encode_state option) \<Rightarrow> bool \<Rightarrow> rat \<Rightarrow> int" where
  "encode_main args setup opens loop eos elapsed_seconds =
     (case encode_arguments args of
        Inl status \<Rightarrow> status
      | Inr o' \<Rightarrow>
          (case setup o' of
             None \<Rightarrow> 3
           | Some x \<Rightarrow>
               if \<not> opens o' then 3
               else (case loop o' x of
                       None \<Rightarrow> 3
                     | Some st \<Rightarrow> if \<not> eos then 3 else encode_status o' elapsed_seconds st)))"

section \<open>Percentiles count misses\<close>

lemma nearest_rank_bounds:
  assumes "0 < n" and "1 \<le> p" and "p \<le> 100"
  shows "nearest_rank n p < n" "n * p \<le> 100 * Suc (nearest_rank n p)" "100 * nearest_rank n p < n * p"
proof -
  define m where "m = n * p"
  have m: "1 \<le> m" "m \<le> n * 100" using assms by (simp_all add: m_def)
  then have "1 \<le> (m + 99) div 100" by simp
  then show "nearest_rank n p < n" "n * p \<le> 100 * Suc (nearest_rank n p)" "100 * nearest_rank n p < n * p"
    using m unfolding nearest_rank_def m_def [symmetric] by auto
qed

lemma rank_le: "(m :: nat) \<le> 100 * Suc i \<Longrightarrow> 100 * i < m \<Longrightarrow> Suc i \<le> k \<longleftrightarrow> m \<le> 100 * k"
  by presburger

lemma dbl_of_i64_mono: "a \<le> b \<Longrightarrow> dbl_of_i64 a \<le> dbl_of_i64 b"
  unfolding dbl_of_i64_def by (rule rnd64_le) simp

text \<open>A nearest-rank percentile passes a bound exactly when at most the remaining share of the samples does not.\<close>

lemma rank_share:
  fixes samples :: "'a::linorder list"
  assumes "samples \<noteq> []" and "1 \<le> percent" and "percent \<le> 100" and down: "\<And>u v. u \<le> v \<Longrightarrow> ok v \<Longrightarrow> ok u"
  shows "nearest_rank (length samples) percent < length samples"
    and "ok (sort samples ! nearest_rank (length samples) percent) \<longleftrightarrow>
      100 * length (filter (\<lambda>v. \<not> ok v) samples) \<le> (100 - percent) * length samples"
proof -
  let ?n = "length samples" and ?s = "sort samples"
  let ?i = "nearest_rank ?n percent"
  have n: "0 < ?n" using assms(1) by simp
  note r = nearest_rank_bounds [OF n assms(2,3)]
  show "?i < ?n" by (rule r(1))
  have il: "?i < length ?s" using r(1) by simp
  have "ok (?s ! ?i) \<longleftrightarrow> Suc ?i \<le> length (filter ok ?s)" by (rule sorted_rank_iff [OF sorted_sort il down])
  also have "\<dots> \<longleftrightarrow> Suc ?i \<le> length (filter ok samples)" by (simp add: length_filter_sort)
  also have "\<dots> \<longleftrightarrow> 100 * length (filter (\<lambda>v. \<not> ok v) samples) \<le> (100 - percent) * ?n"
  proof -
    have "(100 - percent) * ?n + ?n * percent = 100 * ?n"
      by (metis add_mult_distrib le_add_diff_inverse2 mult.commute assms(3))
    then have "?n * percent \<le> 100 * length (filter ok samples) \<longleftrightarrow>
        100 * length (filter (\<lambda>v. \<not> ok v) samples) \<le> (100 - percent) * ?n"
      using sum_length_filter_compl [of ok samples] by (intro iffI) linarith+
    then show ?thesis using rank_le [OF r(2,3)] by blast
  qed
  finally show "ok (?s ! ?i) \<longleftrightarrow> 100 * length (filter (\<lambda>v. \<not> ok v) samples) \<le> (100 - percent) * ?n" .
qed

lemma percentile_within:
  assumes "values \<noteq> []" and "1 \<le> percent" and "percent \<le> 100"
  shows "nearest_rank (length values) percent < length values \<and>
    (nearest_percentile values percent \<le> budget \<longleftrightarrow>
       100 * budget_misses budget values \<le> (100 - percent) * length values)"
proof -
  have down: "u \<le> v \<Longrightarrow> dbl_of_i64 v \<le> budget \<Longrightarrow> dbl_of_i64 u \<le> budget" for u v
    using dbl_of_i64_mono by (meson order_trans)
  show ?thesis
    using rank_share [OF assms, of "\<lambda>v. dbl_of_i64 v \<le> budget", OF down] assms(1)
    by (simp add: nearest_percentile_def budget_misses_def not_le)
qed

text \<open>
  A nearest-rank percentile is within a budget exactly when at most the remaining share of the samples misses the
  budget: the percentiles of the gates and the miss counts the probe prints agree. The rank is always inside the vector.
\<close>

theorem percentile_counts_misses:
  assumes "values \<noteq> []" and "1 \<le> percent" and "percent \<le> 100"
  shows "nearest_rank (length values) percent < length values \<and>
    (nearest_percentile values percent \<le> budget \<longleftrightarrow>
       100 * budget_misses budget values \<le> (100 - percent) * length values)"
  by (rule percentile_within [OF assms])

section \<open>What a finished loop has recorded\<close>

definition submit_lengths :: "encode_timings \<Rightarrow> nat list" where
  "submit_lengths t = [length (capture_us t), length (conversion_us t), length (resource_map_us t),
     length (picture_setup_us t), length (encode_submit_us t)]"

definition drain_lengths :: "encode_timings \<Rightarrow> nat list" where
  "drain_lengths t = [length (output_dispatch_us t), length (bitstream_lock_wait_us t), length (bitstream_write_us t),
     length (resource_release_us t), length (encode_us t), length (pipeline_us t), length (slot_lifetime_us t)]"

text \<open>After \<open>n\<close> submissions: as many samples, and the invalidation and the forced picture if they were due.\<close>

definition submitted_ok :: "encode_options \<Rightarrow> nat \<Rightarrow> encode_state \<Rightarrow> bool" where
  "submitted_ok o' n st \<longleftrightarrow> submit_lengths (ep_timings st) = [n, n, n, n, n] \<and>
     (\<forall>k. 1 \<le> k \<and> k \<le> n \<and> loss_reported o' k \<longrightarrow> reference_invalidation_called st) \<and>
     (1 \<le> unat (force_idr_frame o') \<and> unat (force_idr_frame o') \<le> n \<longrightarrow> forced_idr_submitted st)"

definition drained_times :: "encode_state \<Rightarrow> bool" where
  "drained_times st \<longleftrightarrow>
     drain_lengths (ep_timings st) = replicate 7 (bitstream_frames_written st + bitstream_frames_dropped st)"

lemma capture_frame_times:
  assumes "capture_frame o' geometry f env st = (ok, st')"
  shows "ep_timings st' = ep_timings st \<and> bitstream_frames_written st' = bitstream_frames_written st \<and>
    bitstream_frames_dropped st' = bitstream_frames_dropped st \<and> worker_error st' = worker_error st \<and>
    forced_idr_submitted st' = forced_idr_submitted st \<and>
    (ok \<longrightarrow> reference_invalidation_called st' = (loss_reported o' (Suc f) \<or> reference_invalidation_called st))"
  using assms unfolding capture_frame_def Let_def set_slot_def by (auto split: if_splits)

lemma submit_frame_times:
  assumes "submit_frame o' f env st = (ok, st')"
  shows "drain_lengths (ep_timings st') = drain_lengths (ep_timings st) \<and>
    bitstream_frames_written st' = bitstream_frames_written st \<and>
    bitstream_frames_dropped st' = bitstream_frames_dropped st \<and> worker_error st' = worker_error st \<and>
    reference_invalidation_called st' = reference_invalidation_called st \<and>
    (ok \<longrightarrow> submit_lengths (ep_timings st') = map Suc (submit_lengths (ep_timings st)) \<and>
      forced_idr_submitted st' = (Suc f = unat (force_idr_frame o') \<or> forced_idr_submitted st))"
  using assms unfolding submit_frame_def Let_def set_slot_def drain_lengths_def submit_lengths_def by (auto split: if_splits)

lemma encode_frame_times:
  assumes "encode_frame o' geometry f env st = (ok, st')"
  shows "ok \<Longrightarrow> submitted_ok o' f st \<Longrightarrow> submitted_ok o' (Suc f) st'" "drained_times st' = drained_times st"
    "worker_error st' = worker_error st"
proof -
  obtain ok1 st1 where c: "capture_frame o' geometry f env st = (ok1, st1)" by fastforce
  obtain ok2 st2 where u: "submit_frame o' f env st1 = (ok2, st2)" by fastforce
  note t = capture_frame_times [OF c] submit_frame_times [OF u]
  have r: "st' = (if ok1 then st2 else st1)" "ok = (ok1 \<and> ok2)"
    using assms c u by (cases ok1; simp add: encode_frame_def)+
  show "drained_times st' = drained_times st" "worker_error st' = worker_error st"
    using t r(1) by (simp_all add: drained_times_def)
  show "submitted_ok o' (Suc f) st'" if ok: "ok" "submitted_ok o' f st"
  proof -
    have e: "submit_lengths (ep_timings st') = map Suc (submit_lengths (ep_timings st))"
      "reference_invalidation_called st' = (loss_reported o' (Suc f) \<or> reference_invalidation_called st)"
      "forced_idr_submitted st' = (Suc f = unat (force_idr_frame o') \<or> forced_idr_submitted st)"
      using t r ok(1) by simp_all
    show ?thesis
      unfolding submitted_ok_def
    proof (intro conjI allI impI)
      show "submit_lengths (ep_timings st') = [Suc f, Suc f, Suc f, Suc f, Suc f]"
        using e(1) ok(2) by (simp add: submitted_ok_def)
      show "reference_invalidation_called st'" if "1 \<le> k \<and> k \<le> Suc f \<and> loss_reported o' k" for k
        using e(2) ok(2) that unfolding submitted_ok_def by (cases "k = Suc f") auto
      show "forced_idr_submitted st'" if "1 \<le> unat (force_idr_frame o') \<and> unat (force_idr_frame o') \<le> Suc f"
      proof (cases "Suc f = unat (force_idr_frame o')")
        case True
        then show ?thesis using e(3) by blast
      next
        case False
        then have "1 \<le> unat (force_idr_frame o') \<and> unat (force_idr_frame o') \<le> f" using that by linarith
        then have "forced_idr_submitted st"
          using conjunct2 [OF conjunct2 [OF ok(2) [unfolded submitted_ok_def]]] by (rule mp [rotated])
        then show ?thesis using e(3) by blast
      qed
    qed
  qed
qed

lemma drain_slot_times:
  assumes "drain_slot o' encoded i env st = (ok, st')"
  shows "ok \<Longrightarrow> drained_times st \<Longrightarrow> drained_times st'" "submitted_ok o'' n st' = submitted_ok o'' n st"
    "worker_error st' = worker_error st"
proof -
  define st1 where "st1 = set_slot i (\<lambda>s. s\<lparr>es_locked := True\<rparr>) (st\<lparr>ep_log := ep_log st @ [Acquire (Locked i)]\<rparr>)"
  define m where "m = es_picture (ep_slots st1 ! i)"
  obtain ok2 st2 where w: "write_frame o' m (encoded m) env st1 = (ok2, st2)" by fastforce
  note d = assms [unfolded drain_slot_def Let_def st1_def [symmetric] m_def [symmetric] w]
  have st2: "ep_timings st2 = ep_timings st" "reference_invalidation_called st2 = reference_invalidation_called st"
    "forced_idr_submitted st2 = forced_idr_submitted st" "worker_error st2 = worker_error st"
    "ok2 \<Longrightarrow> bitstream_frames_written st2 + bitstream_frames_dropped st2 =
       Suc (bitstream_frames_written st + bitstream_frames_dropped st)"
    using w by (auto simp: write_frame_def Let_def st1_def set_slot_def split: if_splits)
  have st1: "ep_timings st1 = ep_timings st" "reference_invalidation_called st1 = reference_invalidation_called st"
    "forced_idr_submitted st1 = forced_idr_submitted st" "worker_error st1 = worker_error st"
    by (simp_all add: st1_def set_slot_def)
  have same: "submit_lengths (ep_timings st') = submit_lengths (ep_timings st)" "worker_error st' = worker_error st"
    "reference_invalidation_called st' = reference_invalidation_called st" "forced_idr_submitted st' = forced_idr_submitted st"
    using d st1 st2(1-4) by (auto simp: set_slot_def submit_lengths_def split: if_splits bool.splits)
  then show "worker_error st' = worker_error st" "submitted_ok o'' n st' = submitted_ok o'' n st"
    by (simp_all only: submitted_ok_def)
  show "drained_times st'" if "ok" "drained_times st"
    using d that st2(1,5) by (auto simp: set_slot_def drained_times_def drain_lengths_def numeral_nat split: if_splits bool.splits)
qed

definition times_inv :: "encode_options \<Rightarrow> encode_system \<Rightarrow> bool" where
  "times_inv o' c \<longleftrightarrow> (\<not> worker_error (e_shared c) \<longrightarrow> drained_times (e_shared c)) \<and>
     (case e_main c of
        MIdle f \<Rightarrow> submitted_ok o' f (e_shared c) | MEncode f \<Rightarrow> submitted_ok o' f (e_shared c)
      | MPublish f \<Rightarrow> submitted_ok o' (Suc f) (e_shared c)
      | MJoining \<Rightarrow> submitted_ok o' (unat (frame_count o')) (e_shared c)
      | MDone \<Rightarrow> submitted_ok o' (unat (frame_count o')) (e_shared c) | _ \<Rightarrow> True)"

lemma times_update [simp]:
  "drained_times (st\<lparr>slot_in_use := u\<rparr>) = drained_times st" "submitted_ok o' n (st\<lparr>slot_in_use := u\<rparr>) = submitted_ok o' n st"
  "drained_times (st\<lparr>pending_slots := q\<rparr>) = drained_times st" "submitted_ok o' n (st\<lparr>pending_slots := q\<rparr>) = submitted_ok o' n st"
  "drained_times (st\<lparr>input_done := b\<rparr>) = drained_times st" "submitted_ok o' n (st\<lparr>input_done := b\<rparr>) = submitted_ok o' n st"
  "submitted_ok o' n (st\<lparr>worker_error := b\<rparr>) = submitted_ok o' n st"
  "drained_times (check_deadline o'' r f now st) = drained_times st"
  "submitted_ok o' n (check_deadline o'' r f now st) = submitted_ok o' n st"
  by (simp_all add: drained_times_def submitted_ok_def check_deadline_def)

lemma times_start: "drained_times encode_init" "submitted_ok o' 0 encode_init"
  by (simp_all add: drained_times_def submitted_ok_def encode_init_def blank_encode_timings_def drain_lengths_def
      submit_lengths_def numeral_nat)

lemma times_inv_step:
  assumes "times_inv o' c" and "main_count (unat (frame_count o')) (e_main c) k" and "encode_step o' geometry encoded c e c'"
  shows "times_inv o' c'"
  using assms(3)
proof cases
  case (submit f env ok st)
  then show ?thesis using assms(1) encode_frame_times [OF submit(4)] by (cases ok) (simp_all add: times_inv_def)
next
  case (finish f)
  then have "f = unat (frame_count o')" using assms(2) by (simp add: main_count_def)
  then show ?thesis using finish assms(1) by (simp add: times_inv_def)
next
  case (drain i env st)
  then show ?thesis using assms(1) drain_slot_times [OF drain(4)] by (simp add: times_inv_def split: main_phase.splits)
next
  case (drain_failed i env st)
  then show ?thesis using assms(1) drain_slot_times [OF drain_failed(4)] by (simp add: times_inv_def split: main_phase.splits)
qed (use assms(1) in \<open>simp_all add: times_inv_def split: main_phase.splits\<close>)

lemma times_run:
  assumes "trace_run (encode_step o' geometry encoded) encode_start t c"
  shows "times_inv o' c"
  using assms
proof (induction rule: trace_run.induct)
  case start
  then show ?case by (simp add: times_inv_def encode_start_def times_start)
next
  case (snoc t c e c')
  obtain k where "main_count (unat (frame_count o')) (e_main c) k"
    using encode_run_trace [OF snoc.hyps(1)] by (auto simp: encode_trace_def)
  from times_inv_step [OF snoc.IH this snoc.hyps(2)] show ?case .
qed

lemma times_blocking:
  assumes "blocking_frames o' geometry encoded run_started f envs st = (True, st')" and "drained_times st" and "submitted_ok o' f st"
  shows "drained_times st' \<and> submitted_ok o' (f + length envs) st'"
  using assms
proof (induction o' geometry encoded run_started f envs st rule: blocking_frames.induct)
  case (2 o' geometry encoded run_started f fe de now envs st)
  obtain ok st1 where e: "encode_frame o' geometry f fe st = (ok, st1)" by fastforce
  obtain ok2 st2 where d: "drain_slot o' encoded (f mod 2) de st1 = (ok2, st2)" by fastforce
  have ok: "ok" "ok2" using 2(2) e d by (auto split: bool.splits)
  then have rec: "blocking_frames o' geometry encoded run_started (f + 1) envs (check_deadline o' run_started f now st2) = (True, st')"
    using 2(2) e d by simp
  show ?case
    using 2(1) [OF e [symmetric] eqTrueI [OF ok(1)] d [symmetric] eqTrueI [OF ok(2)] rec] encode_frame_times [OF e] drain_slot_times [OF d] ok 2(3,4)
    by simp
qed simp

text \<open>The loop has returned, in either mode.\<close>

definition loop_result :: "encode_options \<Rightarrow> u32 \<times> u32 \<Rightarrow> (nat \<Rightarrow> bytes) \<Rightarrow> encode_state \<Rightarrow> bool" where
  "loop_result o' geometry encoded st \<longleftrightarrow>
     (if queue_depth o' = 1
      then \<exists>t c. trace_run (encode_step o' geometry encoded) encode_start t c \<and> e_main c = MDone \<and> st = e_shared c
      else \<exists>run_started envs. length envs = unat (frame_count o') \<and>
        blocking_frames o' geometry encoded run_started 0 envs encode_init = (True, st))"

lemma loop_result_ok:
  assumes "loop_result o' geometry encoded st"
  shows "drained_ok o' encoded [1..<Suc (unat (frame_count o'))] st" "drained_times st"
    "submitted_ok o' (unat (frame_count o')) st"
proof -
  have "drained_ok o' encoded [1..<Suc (unat (frame_count o'))] st \<and> drained_times st \<and>
    submitted_ok o' (unat (frame_count o')) st"
  proof (cases "queue_depth o' = 1")
    case True
    then obtain t c where r: "trace_run (encode_step o' geometry encoded) encode_start t c" "e_main c = MDone" "st = e_shared c"
      using assms by (auto simp: loop_result_def)
    have "\<not> worker_error st"
      using encode_run_trace [OF r(1)] r(2,3) by (simp add: encode_inv_def ends_ok_def Let_def)
    then show ?thesis using times_run [OF r(1)] run_drained [OF r(1,2)] r(2,3) by (simp add: times_inv_def)
  next
    case False
    then obtain run_started envs where b: "length envs = unat (frame_count o')"
      "blocking_frames o' geometry encoded run_started 0 envs encode_init = (True, st)"
      using assms by (auto simp: loop_result_def)
    have "drained_ok o' encoded [1..<Suc (0 + length envs)] st"
      using blocking_frames_ok [OF b(2) start_ok] by (simp add: drained_ok_def encode_init_def)
    then show ?thesis using times_blocking [OF b(2) times_start] b(1) by simp
  qed
  then show "drained_ok o' encoded [1..<Suc (unat (frame_count o'))] st" "drained_times st"
    "submitted_ok o' (unat (frame_count o')) st" by simp_all
qed

section \<open>The verdict\<close>


text \<open>
  The exit status is 0 only when at most five frames in a hundred took longer than the frame budget or than 25 ms
  from capture to bitstream, deadlines were missed at most once or in one frame of a hundred and, where robustness is
  required, no deadline was missed and at most one frame in a hundred exceeded the budget.
\<close>

theorem encode_status_sound:
  assumes "encode_arguments args = Inr o'" and "loop_result o' geometry encoded st" and "encode_status o' elapsed_seconds st = 0"
  shows "let misses = (\<lambda>budget. 100 * budget_misses budget (pipeline_us (ep_timings st))); count = unat (frame_count o') in
    misses (frame_budget_us o') \<le> 5 * count \<and> misses 25000 \<le> 5 * count \<and> deadline_misses st \<le> max 1 (count div 100) \<and>
    (require_robustness o' \<longrightarrow> misses (frame_budget_us o') \<le> count \<and> deadline_misses st = 0)"
proof -
  let ?p = "pipeline_us (ep_timings st)"
  have "0 < unat (frame_count o')" using accepted_bounds [OF assms(1)] by (simp add: word_less_nat_alt)
  moreover have "bitstream_frames_written st + bitstream_frames_dropped st = unat (frame_count o')"
    using loop_result_ok(1) [OF assms(2)] sum_length_filter_compl [of "lost o'" "[1..<Suc (unat (frame_count o'))]"]
    by (simp add: drained_ok_def del: upt_Suc)
  ultimately have len: "length ?p = unat (frame_count o')" "?p \<noteq> []"
    using loop_result_ok(2) [OF assms(2)] by (auto simp: drained_times_def drain_lengths_def numeral_nat)
  have real: "realtime_passed o' elapsed_seconds st" "require_robustness o' \<longrightarrow> realtime_robustness_passed o' elapsed_seconds st"
    using assms(3) by (auto simp: encode_status_def realtime_robustness_passed_def split: if_splits)
  have p95: "nearest_percentile ?p 95 \<le> budget \<longleftrightarrow> 100 * budget_misses budget ?p \<le> 5 * length ?p" for budget
    using percentile_within [OF len(2), of 95 budget] by simp
  have p99: "nearest_percentile ?p 99 \<le> budget \<longleftrightarrow> 100 * budget_misses budget ?p \<le> length ?p" for budget
    using percentile_within [OF len(2), of 99 budget] by simp
  show ?thesis
    using real unfolding Let_def realtime_passed_def local_pipeline_target_def realtime_robustness_passed_def p95 p99 len(1)
      allowed_deadline_misses_def by blast
qed

section \<open>One frame from the command line\<close>

theorem percentile_counts_misses_witness:
  "nearest_rank 3 95 < 3 \<and>
     (nearest_percentile [700, 900, 30000] 95 \<le> 25000 \<longleftrightarrow> 100 * budget_misses 25000 [700, 900, 30000] \<le> 5 * 3)"
  using percentile_counts_misses [of "[700, 900, 30000]" 95 25000] by (simp add: numeral_3_eq_3)

definition one_frame_args :: "string list" where
  "one_frame_args = [''--frames'', ''1'', ''--queue-depth'', ''0'']"

definition one_frame_options :: encode_options where
  "one_frame_options =
     encode_defaults\<lparr>frame_count := 1, queue_depth := 0, intra_refresh_period := 60, intra_refresh_count := 30\<rparr>"

lemma one_frame_arguments: "encode_arguments one_frame_args = Inr one_frame_options"
proof -
  have n: "stoul ''1'' = Some 1" "stoul ''0'' = Some 0"
    by (simp_all add: stoul_def c_integer_def c_isspace_def is_digit_def digit_value_def)
  have "parse_encode one_frame_args encode_defaults = Inr (encode_defaults\<lparr>frame_count := 1, queue_depth := 0\<rparr>)"
    by (simp add: one_frame_args_def flag_argument_def value_argument_def numeric_argument_def queue_argument_def n)
  moreover have "check_encode (encode_defaults\<lparr>frame_count := 1, queue_depth := 0\<rparr>) = Inr one_frame_options"
    by (simp add: check_encode_def encode_defaults_def one_frame_options_def)
  ultimately show ?thesis by (simp add: encode_arguments_def)
qed

lemma one_frame_loop:
  obtains st where "loop_result one_frame_options (64, 64) one_byte st"
    "capture_us (ep_timings st) = [1]" "conversion_us (ep_timings st) = [1]" "pipeline_us (ep_timings st) = [8]"
    "deadline_misses st = 0"
proof -
  obtain ok st where b: "blocking_frames one_frame_options (64, 64) one_byte 0 0 [(good_frame, good_drain, 0)] encode_init = (ok, st)"
    by fastforce
  have st: "ok" "capture_us (ep_timings st) = [1]" "conversion_us (ep_timings st) = [1]" "pipeline_us (ep_timings st) = [8]"
    "deadline_misses st = 0"
    using b by (auto simp: encode_init_def blank_slot_def blank_encode_timings_def one_frame_options_def encode_defaults_def
        encode_frame_def capture_frame_def submit_frame_def Let_def good_frame_def loss_reported_def set_slot_def
        drain_slot_def write_frame_def good_drain_def check_deadline_def frame_period_def duration_us_def)
  have "loop_result one_frame_options (64, 64) one_byte st"
  proof -
    have "\<not> queue_depth one_frame_options = 1" "length [(good_frame, good_drain, 0 :: int)] = unat (frame_count one_frame_options)"
      by (simp_all add: one_frame_options_def)
    moreover have "blocking_frames one_frame_options (64, 64) one_byte 0 0 [(good_frame, good_drain, 0)] encode_init = (True, st)"
      using b st(1) by simp
    ultimately show ?thesis unfolding loop_result_def by metis
  qed
  from that [OF this st(2-5)] show thesis .
qed


lemma rnd64_small: "rnd64 1 = 1" "rnd64 2 = 2" "rnd64 8 = 8" "rnd64 60 = 60" "rnd64 128 = 128"
  using rnd64_nat [of 1] rnd64_nat [of 2] rnd64_nat [of 8] rnd64_nat [of 60] rnd64_nat [of 128] by simp_all

lemma frame_in_eight_ms: "dbl_mul 60 (rnd64 (99 / 100)) \<le> dbl_div 1 (1 / 128)"
proof -
  have "60 * rnd64 (99 / 100) \<le> 60" using rnd64_le [of "99 / 100" 1] by (simp add: rnd64_small)
  then have "rnd64 (60 * rnd64 (99 / 100)) \<le> 60" using rnd64_le [of "60 * rnd64 (99 / 100)" 60] by (simp add: rnd64_small)
  then show ?thesis by (simp add: dbl_mul_def dbl_div_def rnd64_small)
qed

theorem encode_status_sound_witness:
  "\<exists>st. loop_result one_frame_options (64, 64) one_byte st \<and> encode_status one_frame_options (1 / 128) st = 0 \<and>
     100 * budget_misses 25000 (pipeline_us (ep_timings st)) \<le> 5"
proof -
  obtain st where st: "loop_result one_frame_options (64, 64) one_byte st"
    "capture_us (ep_timings st) = [1]" "conversion_us (ep_timings st) = [1]" "pipeline_us (ep_timings st) = [8]"
    "deadline_misses st = 0" by (rule one_frame_loop)
  have o: "unat (frame_count one_frame_options) = 1" "unat (frame_rate one_frame_options) = 60"
    "\<not> require_robustness one_frame_options" "\<not> require_changing_source one_frame_options"
    by (simp_all add: one_frame_options_def encode_defaults_def)
  have pct: "nearest_percentile [n] 95 = rnd64 (of_int n)" for n
    by (simp add: nearest_percentile_def nearest_rank_def dbl_of_i64_def)
  have budget: "8 \<le> frame_budget_us one_frame_options"
    using rnd64_le [of 8 "1000000 / 60"] by (simp add: frame_budget_us_def dbl_div_def o rnd64_small)
  have fps: "dbl_mul 60 (rnd64 (99 / 100)) \<le> achieved_fps one_frame_options (1 / 128)"
    using frame_in_eight_ms by (simp add: achieved_fps_def o)
  have real: "realtime_passed one_frame_options (1 / 128) st"
    unfolding realtime_passed_def using budget fps
    by (simp add: st o pct rnd64_small capture_conversion_target_def local_pipeline_target_def source_activity_passed_def
        allowed_deadline_misses_def)
  have req: "requested_gates_passed one_frame_options st"
    by (simp add: requested_gates_passed_def bitstream_loss_passed_def reference_invalidation_passed_def forced_idr_passed_def
        one_frame_options_def encode_defaults_def)
  have status: "encode_status one_frame_options (1 / 128) st = 0" using real req o(3) by (simp add: encode_status_def)
  show ?thesis
    using encode_status_sound [OF one_frame_arguments st(1) status] st(1) status o(1) by (auto simp: Let_def)
qed

end
