(* ===== verification/Nvfbc_Probe.thy ===== *)
theory Nvfbc_Probe
  imports Encode_Gate C_Strings
begin

text \<open>
  The capture probe \<^verbatim>\<open>probes/nvfbc/plank-probe-nvfbc.cpp\<close>: its arguments, the set-up with a result for each
  failure, the loop over forced captures with the statistics of frame times and time stamps, the two gates, the
  exit status and the clean-up every path runs.

  What the driver answers and when are arguments. Times of the steady clock are nanoseconds, results of calls are
  named as in \<^verbatim>\<open>Encode_Resources\<close>.
\<close>

section \<open>Arguments\<close>

record nvfbc_options =
  nv_frame_count :: u32
  nv_target_fps :: u32
  nv_status_only :: bool

definition nvfbc_defaults :: nvfbc_options where
  "nvfbc_defaults = \<lparr>nv_frame_count = 120, nv_target_fps = 60, nv_status_only = False\<rparr>"

text \<open>The version and the two pixel formats are constants of the vendor's header.\<close>

record nvfbc_header =
  version_major :: nat
  version_minor :: nat
  format_bgra :: nat
  format_argb :: nat

definition nvfbc_self_test :: "nvfbc_header \<Rightarrow> int" where
  "nvfbc_self_test hdr =
     (if version_major hdr = 1 \<and> version_minor hdr \<ge> 9 \<and> format_bgra hdr \<noteq> format_argb hdr then 0 else 1)"

text \<open>A count: the number is cut to 32 bits before its range is checked.\<close>

definition nvfbc_count :: "u32 \<Rightarrow> string \<Rightarrow> u32 option" where
  "nvfbc_count limit v =
     (case stoul v of
        None \<Rightarrow> None
      | Some n \<Rightarrow> let c = of_nat n :: u32 in if c = 0 \<or> c > limit then None else Some c)"

text \<open>\<open>Inl\<close> is an exit status.\<close>

fun nvfbc_parse :: "nvfbc_header \<Rightarrow> string list \<Rightarrow> nvfbc_options \<Rightarrow> int + nvfbc_options" where
  "nvfbc_parse hdr [] o' = Inr o'"
| "nvfbc_parse hdr (a # rest) o' =
     (if a = ''--self-test'' then Inl (nvfbc_self_test hdr)
      else if a = ''--status-only'' then nvfbc_parse hdr rest (o'\<lparr>nv_status_only := True\<rparr>)
      else (case rest of
        [] \<Rightarrow> Inl 2
      | v # rest' \<Rightarrow>
          if a = ''--frames'' then
            (case nvfbc_count 600 v of None \<Rightarrow> Inl 2 | Some c \<Rightarrow> nvfbc_parse hdr rest' (o'\<lparr>nv_frame_count := c\<rparr>))
          else if a = ''--fps'' then
            (case nvfbc_count 240 v of None \<Rightarrow> Inl 2 | Some c \<Rightarrow> nvfbc_parse hdr rest' (o'\<lparr>nv_target_fps := c\<rparr>))
          else Inl 2))"

section \<open>Set-up\<close>

text \<open>The calls in order, what each acquires, and the result of the program if it fails.\<close>

type_synonym coded_call = "(string \<times> nat) \<times> resource option \<times> int"

fun run_coded :: "api \<Rightarrow> coded_call list \<Rightarrow> int option \<times> resource_event list" where
  "run_coded ok [] = (None, [])"
| "run_coded ok ((call, got, code) # later) =
     (if \<not> ok call then (Some code, [])
      else (fst (run_coded ok later), (case got of None \<Rightarrow> [] | Some r \<Rightarrow> [Acquire r]) @ snd (run_coded ok later)))"

definition nvfbc_status_setup :: "coded_call list" where
  "nvfbc_status_setup =
     [((''cuda_load_functions'', 0), Some CudaFunctions, 3), ((''cuInit'', 0), None, 3), ((''cuDeviceGet'', 0), None, 4),
      ((''cuDeviceGetName'', 0), None, 4), ((''cuCtxCreate'', 0), Some CudaContext, 4),
      ((''dlopen'', 0), Some NvfbcLibrary, 5), ((''dlsym'', 0), None, 6), ((''NvFBCCreateInstance'', 0), None, 7),
      ((''NvFBCCreateHandle'', 0), Some NvfbcHandle, 8), ((''NvFBCGetStatus'', 0), None, 9),
      ((''bIsCapturePossible'', 0), None, 10), ((''bCanCreateNow'', 0), None, 10)]"

definition nvfbc_capture_setup :: "coded_call list" where
  "nvfbc_capture_setup =
     [((''NvFBCCreateCaptureSession'', 0), Some NvfbcCapture, 11), ((''NvFBCToCudaSetUp'', 0), None, 12)]"

text \<open>The code behind the label \<^verbatim>\<open>cleanup\<close>, with the objects the variables hold.\<close>

definition nvfbc_cleanup :: "resource list \<Rightarrow> resource_event list" where
  "nvfbc_cleanup held =
     release_if (NvfbcCapture \<in> set held) NvfbcCapture @ release_if (NvfbcHandle \<in> set held) NvfbcHandle @
     release_if (NvfbcLibrary \<in> set held) NvfbcLibrary @
     release_if (CudaContext \<in> set held \<and> CudaFunctions \<in> set held) CudaContext @
     release_if (CudaFunctions \<in> set held) CudaFunctions"

section \<open>The capture loop\<close>

record nvfbc_grab =
  g_success :: bool
  g_buffer :: bool
  g_width :: u32
  g_height :: u32
  g_new_frame :: bool
  g_missed :: u32
  g_timestamp :: u64
  g_started :: int
  g_finished :: int

record nvfbc_stats =
  nv_times :: "int list"
  nv_ages :: "int list"
  nv_new_frames :: nat
  nv_driver_missed :: u64
  nv_zero :: nat
  nv_future :: nat
  nv_nonmonotonic :: nat
  nv_misses :: nat
  nv_previous :: u64

definition nvfbc_start :: nvfbc_stats where
  "nvfbc_start = \<lparr>nv_times = [], nv_ages = [], nv_new_frames = 0, nv_driver_missed = 0, nv_zero = 0, nv_future = 0,
     nv_nonmonotonic = 0, nv_misses = 0, nv_previous = 0\<rparr>"

definition frame_age :: "nvfbc_grab \<Rightarrow> int" where
  "frame_age g = g_finished g div 1000 - sint (g_timestamp g)"

text \<open>The time stamp of a new frame.\<close>

definition note_timestamp :: "nvfbc_grab \<Rightarrow> nvfbc_stats \<Rightarrow> nvfbc_stats" where
  "note_timestamp g st =
     (if g_timestamp g = 0 then st\<lparr>nv_zero := Suc (nv_zero st)\<rparr>
      else st\<lparr>nv_future := (if frame_age g < 0 then Suc (nv_future st) else nv_future st),
              nv_ages := nv_ages st @ [frame_age g],
              nv_nonmonotonic := (if nv_previous st \<noteq> 0 \<and> g_timestamp g < nv_previous st
                 then Suc (nv_nonmonotonic st) else nv_nonmonotonic st),
              nv_previous := g_timestamp g\<rparr>)"

definition frame_deadline :: "u32 \<Rightarrow> int \<Rightarrow> nat \<Rightarrow> int" where
  "frame_deadline fps run_started frame = run_started + 1000000000 div uint fps * int (frame + 1)"

definition note_frame :: "u32 \<Rightarrow> int \<Rightarrow> nat \<Rightarrow> nvfbc_grab \<Rightarrow> nvfbc_stats \<Rightarrow> nvfbc_stats" where
  "note_frame fps run_started frame g st =
     (let st = st\<lparr>nv_times := nv_times st @ [(g_finished g - g_started g) div 1000],
                 nv_new_frames := nv_new_frames st + (if g_new_frame g then 1 else 0),
                 nv_driver_missed := nv_driver_missed st + ucast (g_missed g)\<rparr>;
          st = (if g_new_frame g then note_timestamp g st else st)
      in st\<lparr>nv_misses := (if g_finished g > frame_deadline fps run_started frame then Suc (nv_misses st) else nv_misses st)\<rparr>)"

text \<open>The remaining frames; \<open>Inl\<close> is a result of the program.\<close>

fun nvfbc_loop :: "u32 \<Rightarrow> int \<Rightarrow> (nat \<Rightarrow> nvfbc_grab) \<Rightarrow> nat \<Rightarrow> nat \<Rightarrow> nvfbc_stats \<Rightarrow> int + nvfbc_stats" where
  "nvfbc_loop fps run_started grab frame 0 st = Inr st"
| "nvfbc_loop fps run_started grab frame (Suc n) st =
     (if \<not> g_success (grab frame) then Inl 13
      else if \<not> g_buffer (grab frame) \<or> g_width (grab frame) = 0 \<or> g_height (grab frame) = 0 then Inl 14
      else nvfbc_loop fps run_started grab (Suc frame) n (note_frame fps run_started frame (grab frame) st))"

section \<open>The gates\<close>

definition performance_pass :: "nvfbc_options \<Rightarrow> rat \<Rightarrow> nvfbc_stats \<Rightarrow> bool" where
  "performance_pass o' elapsed_seconds st \<longleftrightarrow>
     dbl_div (of_nat (unat (nv_frame_count o'))) elapsed_seconds \<ge>
       dbl_mul (of_nat (unat (nv_target_fps o'))) (rnd64 (99 / 100)) \<and>
     sort (nv_times st) ! nearest_rank (length (nv_times st)) 95 \<le> 1000000 div uint (nv_target_fps o') \<and>
     nv_misses st \<le> max 1 (unat (nv_frame_count o') div 100)"

definition timestamp_pass :: "nvfbc_stats \<Rightarrow> bool" where
  "timestamp_pass st \<longleftrightarrow>
     nv_ages st \<noteq> [] \<and> length (nv_ages st) = nv_new_frames st \<and> hd (sort (nv_ages st)) \<ge> 0 \<and>
     last (sort (nv_ages st)) \<le> 1000000 \<and> nv_future st = 0 \<and> nv_nonmonotonic st = 0"

definition nvfbc_verdict :: "nvfbc_options \<Rightarrow> rat \<Rightarrow> nvfbc_stats \<Rightarrow> int" where
  "nvfbc_verdict o' elapsed_seconds st =
     (if \<not> performance_pass o' elapsed_seconds st then 15 else if \<not> timestamp_pass st then 16 else 0)"

section \<open>The program\<close>

text \<open>The result, and what was acquired when the clean-up starts.\<close>

definition nvfbc_body ::
    "api \<Rightarrow> int \<Rightarrow> (nat \<Rightarrow> nvfbc_grab) \<Rightarrow> rat \<Rightarrow> nvfbc_options \<Rightarrow> int \<times> resource_event list" where
  "nvfbc_body ok run_started grab elapsed_seconds o' =
     (case run_coded ok nvfbc_status_setup of
        (Some code, es) \<Rightarrow> (code, es)
      | (None, es) \<Rightarrow>
          if nv_status_only o' then (0, es)
          else (case run_coded ok nvfbc_capture_setup of
             (Some code, es') \<Rightarrow> (code, es @ es')
           | (None, es') \<Rightarrow>
               (case nvfbc_loop (nv_target_fps o') run_started grab 0 (unat (nv_frame_count o')) nvfbc_start of
                  Inl code \<Rightarrow> code
                | Inr st \<Rightarrow> nvfbc_verdict o' elapsed_seconds st,
                es @ es')))"

definition held_objects :: "resource_event list \<Rightarrow> resource list" where
  "held_objects es = (case follow [] es of None \<Rightarrow> [] | Some held \<Rightarrow> held)"

definition nvfbc_main ::
    "nvfbc_header \<Rightarrow> api \<Rightarrow> int \<Rightarrow> (nat \<Rightarrow> nvfbc_grab) \<Rightarrow> rat \<Rightarrow> string list \<Rightarrow> int \<times> resource_event list" where
  "nvfbc_main hdr ok run_started grab elapsed_seconds args =
     (case nvfbc_parse hdr args nvfbc_defaults of
        Inl status \<Rightarrow> (status, [])
      | Inr o' \<Rightarrow>
          (case nvfbc_body ok run_started grab elapsed_seconds o' of
             (r, es) \<Rightarrow> (r, es @ nvfbc_cleanup (held_objects es))))"

section \<open>Accepted arguments\<close>

definition nvfbc_options_ok :: "nvfbc_options \<Rightarrow> bool" where
  "nvfbc_options_ok o' \<longleftrightarrow>
     1 \<le> nv_frame_count o' \<and> nv_frame_count o' \<le> 600 \<and> 1 \<le> nv_target_fps o' \<and> nv_target_fps o' \<le> 240"

lemma nvfbc_count_range: "nvfbc_count limit v = Some c \<Longrightarrow> 1 \<le> c \<and> c \<le> limit"
  by (auto simp: nvfbc_count_def Let_def not_less word_le_nat_alt unat_gt_0 Suc_le_eq split: option.split_asm if_splits)

lemma nvfbc_parse_ok:
  "nvfbc_parse hdr args o' = Inr o'' \<Longrightarrow> nvfbc_options_ok o' \<Longrightarrow> nvfbc_options_ok o''"
proof (induction hdr args o' rule: nvfbc_parse.induct)
  case (2 hdr a rest o')
  show ?case
  proof (cases "a = ''--status-only''")
    case True
    then have "nvfbc_parse hdr rest (o'\<lparr>nv_status_only := True\<rparr>) = Inr o''" using 2(4) by simp
    moreover have "nvfbc_options_ok (o'\<lparr>nv_status_only := True\<rparr>)" using 2(5) by (simp add: nvfbc_options_ok_def)
    ultimately show ?thesis using 2(1) True by simp
  next
    case False
    then obtain v rest' where r: "rest = v # rest'" "a \<noteq> ''--self-test''" using 2(4) by (auto split: list.split_asm if_splits)
    show ?thesis
    proof (cases "a = ''--frames''")
      case True
      then obtain c where c: "nvfbc_count 600 v = Some c" "nvfbc_parse hdr rest' (o'\<lparr>nv_frame_count := c\<rparr>) = Inr o''"
        using 2(4) r by (auto split: option.split_asm)
      have "nvfbc_options_ok (o'\<lparr>nv_frame_count := c\<rparr>)"
        using 2(5) nvfbc_count_range [OF c(1)] by (simp add: nvfbc_options_ok_def)
      then show ?thesis using 2(2) False True r c by simp
    next
      case nf: False
      then obtain c where c: "nvfbc_count 240 v = Some c" "nvfbc_parse hdr rest' (o'\<lparr>nv_target_fps := c\<rparr>) = Inr o''"
        "a = ''--fps''" using 2(4) r False by (auto split: option.split_asm if_splits)
      have "nvfbc_options_ok (o'\<lparr>nv_target_fps := c\<rparr>)"
        using 2(5) nvfbc_count_range [OF c(1)] by (simp add: nvfbc_options_ok_def)
      then show ?thesis using 2(3) False nf r c by simp
    qed
  qed
qed simp

section \<open>What is acquired is released\<close>

definition coded_objects :: "coded_call list \<Rightarrow> resource list" where
  "coded_objects c = List.map_filter (fst \<circ> snd) c"

lemma run_coded_prefix:
  "run_coded ok c = (r, es) \<Longrightarrow>
     \<exists>rs. es = map Acquire rs \<and> prefix rs (coded_objects c) \<and> (r = None \<longrightarrow> rs = coded_objects c)"
proof (induction ok c arbitrary: r es rule: run_coded.induct)
  case (2 ok call got code later)
  show ?case
  proof (cases "ok call")
    case True
    obtain r' es' where rs: "run_coded ok later = (r', es')" by fastforce
    from 2(1) [OF _ this] True obtain rs where
      "es' = map Acquire rs" "prefix rs (coded_objects later)" "r' = None \<longrightarrow> rs = coded_objects later" by auto
    then show ?thesis
      using "2.prems" True rs
      by (intro exI [of _ "(case got of None \<Rightarrow> [] | Some x \<Rightarrow> [x]) @ rs"], cases got)
        (auto simp: coded_objects_def List.map_filter_def)
  qed (use "2.prems" in auto)
qed (simp add: coded_objects_def List.map_filter_def)

definition nvfbc_objects :: "resource list" where
  "nvfbc_objects = [CudaFunctions, CudaContext, NvfbcLibrary, NvfbcHandle, NvfbcCapture]"

lemma nvfbc_setup_objects:
  "coded_objects nvfbc_status_setup @ coded_objects nvfbc_capture_setup = nvfbc_objects"
  by (simp add: coded_objects_def nvfbc_status_setup_def nvfbc_capture_setup_def nvfbc_objects_def List.map_filter_def)

lemma nvfbc_body_prefix:
  assumes "nvfbc_body ok run_started grab secs o' = (r, es)"
  shows "\<exists>rs. es = map Acquire rs \<and> prefix rs nvfbc_objects"
proof -
  obtain r1 e1 where c1: "run_coded ok nvfbc_status_setup = (r1, e1)" by fastforce
  obtain r2 e2 where c2: "run_coded ok nvfbc_capture_setup = (r2, e2)" by fastforce
  obtain a where a: "e1 = map Acquire a" "prefix a (coded_objects nvfbc_status_setup)"
    "r1 = None \<longrightarrow> a = coded_objects nvfbc_status_setup" using run_coded_prefix [OF c1] by blast
  obtain b where b: "e2 = map Acquire b" "prefix b (coded_objects nvfbc_capture_setup)"
    using run_coded_prefix [OF c2] by blast
  have "es = map Acquire a \<or> r1 = None \<and> es = map Acquire (a @ b)"
    using assms a(1) b(1) by (auto simp: nvfbc_body_def c1 c2 split: option.split_asm if_splits)
  then show ?thesis
    unfolding nvfbc_setup_objects [symmetric]
    using a(2,3) b(2) by (elim disjE conjE) (rule exI [of _ a], simp, rule exI [of _ "a @ b"], simp)
qed

lemma cleanup_releases:
  assumes "prefix rs nvfbc_objects"
  shows "follow [] (map Acquire rs @ nvfbc_cleanup (held_objects (map Acquire rs))) = Some []"
proof -
  have "rs \<in> {[], [CudaFunctions], [CudaFunctions, CudaContext], [CudaFunctions, CudaContext, NvfbcLibrary],
      [CudaFunctions, CudaContext, NvfbcLibrary, NvfbcHandle], nvfbc_objects}"
    using assms by (auto simp: nvfbc_objects_def prefix_Cons)
  then show ?thesis
    by (auto simp: nvfbc_objects_def nvfbc_cleanup_def held_objects_def release_if_def)
qed

section \<open>What the loop counts\<close>

definition stamped :: "(nat \<Rightarrow> nvfbc_grab) \<Rightarrow> nat \<Rightarrow> nvfbc_grab list" where
  "stamped grab n = filter (\<lambda>g. g_new_frame g \<and> g_timestamp g \<noteq> 0) (map grab [0..<n])"

definition stats_match :: "u32 \<Rightarrow> int \<Rightarrow> (nat \<Rightarrow> nvfbc_grab) \<Rightarrow> nat \<Rightarrow> nvfbc_stats \<Rightarrow> bool" where
  "stats_match fps run_started grab n st \<longleftrightarrow>
     nv_times st = map (\<lambda>f. (g_finished (grab f) - g_started (grab f)) div 1000) [0..<n] \<and>
     nv_new_frames st = length (filter (\<lambda>f. g_new_frame (grab f)) [0..<n]) \<and>
     nv_zero st = length (filter (\<lambda>f. g_new_frame (grab f) \<and> g_timestamp (grab f) = 0) [0..<n]) \<and>
     nv_ages st = map frame_age (stamped grab n) \<and>
     nv_future st = length (filter (\<lambda>g. frame_age g < 0) (stamped grab n)) \<and>
     nv_misses st = length (filter (\<lambda>f. g_finished (grab f) > frame_deadline fps run_started f) [0..<n]) \<and>
     nv_previous st = (if stamped grab n = [] then 0 else g_timestamp (last (stamped grab n))) \<and>
     (nv_nonmonotonic st = 0 \<longleftrightarrow> sorted (map g_timestamp (stamped grab n)))"

lemma stamped_Suc:
  "stamped grab (Suc n) = stamped grab n @ (if g_new_frame (grab n) \<and> g_timestamp (grab n) \<noteq> 0 then [grab n] else [])"
  by (simp add: stamped_def)

lemma sorted_snoc_last: "sorted (xs @ [y]) \<longleftrightarrow> sorted xs \<and> (xs = [] \<or> last xs \<le> y)"
proof (cases xs rule: rev_cases)
  case (snoc ys z)
  then show ?thesis by (auto simp: sorted_append)
qed simp

lemma stamped_nonzero: "g \<in> set (stamped grab n) \<Longrightarrow> g_timestamp g \<noteq> 0"
  by (auto simp: stamped_def)

lemma note_frame_match:
  assumes "stats_match fps run_started grab n st"
  shows "stats_match fps run_started grab (Suc n) (note_frame fps run_started n (grab n) st)"
proof -
  have l: "stamped grab n \<noteq> [] \<Longrightarrow> g_timestamp (last (stamped grab n)) \<noteq> 0"
    using stamped_nonzero [of "last (stamped grab n)" grab n] by simp
  have s: "sorted (map g_timestamp (stamped grab n) @ [t]) \<longleftrightarrow>
      sorted (map g_timestamp (stamped grab n)) \<and> (stamped grab n = [] \<or> g_timestamp (last (stamped grab n)) \<le> t)" for t
    by (cases "stamped grab n = []") (simp_all add: sorted_snoc_last last_map)
  show ?thesis
    using assms l
    by (cases "g_new_frame (grab n)"; cases "g_timestamp (grab n) = 0"; cases "stamped grab n = []")
      (auto simp: stats_match_def note_frame_def note_timestamp_def Let_def stamped_Suc s not_less)
qed

lemma nvfbc_loop_match:
  "nvfbc_loop fps run_started grab frame n st = Inr st' \<Longrightarrow> stats_match fps run_started grab frame st \<Longrightarrow>
     stats_match fps run_started grab (frame + n) st'"
proof (induction fps run_started grab frame n st rule: nvfbc_loop.induct)
  case (2 fps run_started grab frame n st)
  then show ?case using note_frame_match [of fps run_started grab frame st] by (auto split: if_splits)
qed simp

lemma nvfbc_start_match: "stats_match fps run_started grab 0 nvfbc_start"
  by (simp add: stats_match_def nvfbc_start_def stamped_def)

text \<open>A number above 32 bits is accepted as its remainder.\<close>

lemma nvfbc_count_truncates: "nvfbc_count 600 ''4294967297'' = Some 1"
  by (simp add: nvfbc_count_def stoul_def c_integer_def c_isspace_def is_digit_def digit_value_def)

section \<open>What a pass means\<close>

lemma order_in_filter:
  assumes "sorted_wrt R (filter P [0..<n])" and "f < f'" and "f' < n" and "P f" and "P f'"
  shows "R f f'"
proof -
  let ?xs = "filter P [0..<n]"
  have strict: "sorted_wrt (<) ?xs" by (intro sorted_wrt_filter) (simp add: strict_sorted_iff)
  have "f \<in> set ?xs" "f' \<in> set ?xs" using assms by auto
  then obtain a b where ab: "a < length ?xs" "b < length ?xs" "?xs ! a = f" "?xs ! b = f'" by (metis in_set_conv_nth)
  have "a < b"
  proof (rule ccontr)
    assume "\<not> a < b"
    then have "?xs ! b \<le> ?xs ! a"
      using strict ab by (metis le_less less_imp_le linorder_neqE_nat sorted_wrt_nth_less)
    then show False using ab assms(2) by simp
  qed
  then show ?thesis using sorted_wrt_nth_less [OF assms(1)] ab by metis
qed

lemma timestamps_sound:
  assumes "stats_match fps run_started grab n st" and "timestamp_pass st"
  shows "\<exists>f<n. g_new_frame (grab f)"
    and "f < n \<Longrightarrow> g_new_frame (grab f) \<Longrightarrow>
      g_timestamp (grab f) \<noteq> 0 \<and> 0 \<le> frame_age (grab f) \<and> frame_age (grab f) \<le> 1000000"
    and "f < f' \<Longrightarrow> f' < n \<Longrightarrow> g_new_frame (grab f) \<Longrightarrow> g_new_frame (grab f') \<Longrightarrow>
      g_timestamp (grab f) \<le> g_timestamp (grab f')"
proof -
  let ?new = "\<lambda>f. g_new_frame (grab f)" and ?zero = "\<lambda>f. g_new_frame (grab f) \<and> g_timestamp (grab f) = 0"
  let ?P = "\<lambda>f. g_new_frame (grab f) \<and> g_timestamp (grab f) \<noteq> 0"
  have st: "stamped grab n = map grab (filter ?P [0..<n])" by (simp add: stamped_def filter_map comp_def)
  have "length (filter ?new xs) = length (filter ?P xs) + length (filter ?zero xs)" for xs by (induction xs) auto
  moreover have "length (filter ?P [0..<n]) = length (filter ?new [0..<n])"
    using assms by (auto simp: stats_match_def timestamp_pass_def st)
  ultimately have "length (filter ?zero [0..<n]) = 0" by simp
  then have nz: "g_timestamp (grab f) \<noteq> 0" if "f < n" "?new f" for f
    using that by (auto simp: filter_empty_conv)
  have ages: "nv_ages st = map (frame_age \<circ> grab) (filter ?P [0..<n])" "nv_ages st \<noteq> []"
    using assms by (simp_all add: stats_match_def timestamp_pass_def st comp_def)
  then show "\<exists>f<n. ?new f" by (auto simp: filter_empty_conv)
  show "g_timestamp (grab f) \<noteq> 0 \<and> 0 \<le> frame_age (grab f) \<and> frame_age (grab f) \<le> 1000000" if f: "f < n" "?new f"
  proof -
    have m: "frame_age (grab f) \<in> set (sort (nv_ages st))" using nz [OF f] f by (auto simp: ages(1))
    then obtain k where k: "k < length (sort (nv_ages st))" "sort (nv_ages st) ! k = frame_age (grab f)"
      by (metis in_set_conv_nth)
    have ne: "sort (nv_ages st) \<noteq> []" using k(1) by (cases "sort (nv_ages st)") simp_all
    have "hd (sort (nv_ages st)) \<le> frame_age (grab f)"
      using sorted_nth_mono [OF sorted_sort, of 0 k "nv_ages st"] k ne by (simp add: hd_conv_nth)
    moreover have "frame_age (grab f) \<le> last (sort (nv_ages st))"
      using sorted_nth_mono [OF sorted_sort, of k "length (sort (nv_ages st)) - 1" "nv_ages st"] k ne
      by (simp add: last_conv_nth)
    ultimately show ?thesis using assms(2) nz [OF f] by (simp add: timestamp_pass_def)
  qed
  have "sorted_wrt (\<lambda>f f'. g_timestamp (grab f) \<le> g_timestamp (grab f')) (filter ?P [0..<n])"
    using assms by (simp add: stats_match_def timestamp_pass_def st sorted_map)
  then show "g_timestamp (grab f) \<le> g_timestamp (grab f')" if "f < f'" "f' < n" "?new f" "?new f'"
    using order_in_filter [OF _ that(1,2), of _ ?P] nz [of f] nz [of f'] that by simp
qed

lemma captures_sound:
  assumes "stats_match (nv_target_fps o') run_started grab n st" and "performance_pass o' secs st" and "0 < n"
  shows "100 * length (filter (\<lambda>f. (g_finished (grab f) - g_started (grab f)) div 1000 > 1000000 div uint (nv_target_fps o'))
      [0..<n]) \<le> 5 * n"
    and "length (filter (\<lambda>f. g_finished (grab f) > frame_deadline (nv_target_fps o') run_started f) [0..<n]) \<le>
      max 1 (unat (nv_frame_count o') div 100)"
proof -
  let ?b = "1000000 div uint (nv_target_fps o')"
  have t: "nv_times st = map (\<lambda>f. (g_finished (grab f) - g_started (grab f)) div 1000) [0..<n]"
    using assms(1) by (simp add: stats_match_def)
  have "sort (nv_times st) ! nearest_rank (length (nv_times st)) 95 \<le> ?b" using assms(2) by (simp add: performance_pass_def)
  then have "100 * length (filter (\<lambda>v. \<not> v \<le> ?b) (nv_times st)) \<le> (100 - 95) * length (nv_times st)"
    using rank_share(2) [of "nv_times st" 95 "\<lambda>v. v \<le> ?b"] assms(3) by (simp add: t)
  then show "100 * length (filter (\<lambda>f. (g_finished (grab f) - g_started (grab f)) div 1000 > ?b) [0..<n]) \<le> 5 * n"
    by (simp add: t filter_map comp_def not_le)
  show "length (filter (\<lambda>f. g_finished (grab f) > frame_deadline (nv_target_fps o') run_started f) [0..<n]) \<le>
      max 1 (unat (nv_frame_count o') div 100)"
    using assms(1,2) by (simp add: stats_match_def performance_pass_def)
qed

lemma coded_failure: "fst (run_coded ok c) = Some code \<Longrightarrow> code \<in> (snd \<circ> snd) ` set c"
  by (induction ok c rule: run_coded.induct) (auto split: if_splits)

lemma nvfbc_loop_failure: "nvfbc_loop fps run_started grab frame n st = Inl code \<Longrightarrow> code \<in> {13, 14}"
  by (induction fps run_started grab frame n st rule: nvfbc_loop.induct) (auto split: if_splits)

text \<open>Result 0 of a capture run comes from the verdict.\<close>

lemma nvfbc_zero:
  assumes "fst (nvfbc_body ok run_started grab secs o') = 0" and "\<not> nv_status_only o'"
  obtains st where
    "nvfbc_loop (nv_target_fps o') run_started grab 0 (unat (nv_frame_count o')) nvfbc_start = Inr st"
    "performance_pass o' secs st" "timestamp_pass st"
proof -
  obtain r1 e1 where c1: "run_coded ok nvfbc_status_setup = (r1, e1)" by fastforce
  obtain r2 e2 where c2: "run_coded ok nvfbc_capture_setup = (r2, e2)" by fastforce
  have "r1 \<noteq> Some 0" "r2 \<noteq> Some 0"
    using coded_failure [of ok nvfbc_status_setup 0] coded_failure [of ok nvfbc_capture_setup 0] c1 c2
    by (auto simp: nvfbc_status_setup_def nvfbc_capture_setup_def)
  then have z: "r1 = None" "r2 = None" using assms by (auto simp: nvfbc_body_def c1 c2 split: option.split_asm)
  show ?thesis
  proof (cases "nvfbc_loop (nv_target_fps o') run_started grab 0 (unat (nv_frame_count o')) nvfbc_start")
    case (Inl code)
    then show ?thesis using assms z nvfbc_loop_failure [OF Inl] by (auto simp: nvfbc_body_def c1 c2)
  next
    case (Inr st)
    then show ?thesis
      using assms z that by (auto simp: nvfbc_body_def c1 c2 nvfbc_verdict_def split: if_splits)
  qed
qed

section \<open>Properties\<close>

text \<open>
  C18. Result 0 of a capture run of the NvFBC probe: between 1 and 600 frames were captured at a rate of 1 to 240;
  there was a new frame, every new frame has a time stamp, none in the future, more than a second old or before
  the one of an earlier frame; at most five in a hundred captures took longer than the frame time, and at most one
  or one in a hundred ended after its deadline.
\<close>

theorem nvfbc_pass_sound:
  assumes "nvfbc_parse hdr args nvfbc_defaults = Inr o'" and "\<not> nv_status_only o'"
    and "fst (nvfbc_main hdr ok run_started grab secs args) = 0"
  shows "let n = unat (nv_frame_count o') in
    1 \<le> n \<and> n \<le> 600 \<and> 1 \<le> unat (nv_target_fps o') \<and> unat (nv_target_fps o') \<le> 240 \<and>
    (\<exists>f<n. g_new_frame (grab f)) \<and>
    (\<forall>f<n. g_new_frame (grab f) \<longrightarrow>
       g_timestamp (grab f) \<noteq> 0 \<and> 0 \<le> frame_age (grab f) \<and> frame_age (grab f) \<le> 1000000) \<and>
    (\<forall>f f'. f < f' \<and> f' < n \<and> g_new_frame (grab f) \<and> g_new_frame (grab f') \<longrightarrow>
       g_timestamp (grab f) \<le> g_timestamp (grab f')) \<and>
    100 * length (filter (\<lambda>f. (g_finished (grab f) - g_started (grab f)) div 1000 >
        1000000 div uint (nv_target_fps o')) [0..<n]) \<le> 5 * n \<and>
    length (filter (\<lambda>f. g_finished (grab f) > frame_deadline (nv_target_fps o') run_started f) [0..<n]) \<le> max 1 (n div 100)"
proof -
  have "nvfbc_options_ok nvfbc_defaults" by (simp add: nvfbc_options_ok_def nvfbc_defaults_def)
  from nvfbc_parse_ok [OF assms(1) this]
  have o: "1 \<le> unat (nv_frame_count o')" "unat (nv_frame_count o') \<le> 600"
    "1 \<le> unat (nv_target_fps o')" "unat (nv_target_fps o') \<le> 240"
    by (simp_all add: nvfbc_options_ok_def word_le_nat_alt)
  have "fst (nvfbc_body ok run_started grab secs o') = 0"
    using assms(1,3) by (simp add: nvfbc_main_def split: prod.split_asm)
  from nvfbc_zero [OF this assms(2)] obtain st where
    l: "nvfbc_loop (nv_target_fps o') run_started grab 0 (unat (nv_frame_count o')) nvfbc_start = Inr st"
      "performance_pass o' secs st" "timestamp_pass st" by blast
  have m: "stats_match (nv_target_fps o') run_started grab (unat (nv_frame_count o')) st"
    using nvfbc_loop_match [OF l(1) nvfbc_start_match] by simp
  show ?thesis
    unfolding Let_def using o timestamps_sound [OF m l(3)] captures_sound [OF m l(2)] by auto
qed

text \<open>
  Whatever call of the set-up or frame of the NvFBC probe fails, the code behind the clean-up label releases
  every driver object acquired so far exactly once, and none before what was made from it.
\<close>

theorem nvfbc_objects_released: "follow [] (snd (nvfbc_main hdr ok run_started grab secs args)) = Some []"
proof (cases "nvfbc_parse hdr args nvfbc_defaults")
  case (Inr o')
  obtain r es where b: "nvfbc_body ok run_started grab secs o' = (r, es)" by fastforce
  then obtain rs where "es = map Acquire rs" "prefix rs nvfbc_objects" using nvfbc_body_prefix by blast
  then show ?thesis using Inr b cleanup_releases by (simp add: nvfbc_main_def)
qed (simp add: nvfbc_main_def)

text \<open>One frame, stamped 5 microseconds before the call returned.\<close>

definition example_grab :: nvfbc_grab where
  "example_grab = \<lparr>g_success = True, g_buffer = True, g_width = 8, g_height = 8, g_new_frame = True, g_missed = 0,
     g_timestamp = 10, g_started = 0, g_finished = 15000\<rparr>"

definition example_header :: nvfbc_header where
  "example_header = \<lparr>version_major = 1, version_minor = 9, format_bgra = 1, format_argb = 0\<rparr>"

theorem nvfbc_pass_sound_witness:
  "fst (nvfbc_main example_header (\<lambda>c. True) 0 (\<lambda>f. example_grab) (1 / 128) [''--frames'', ''1'']) = 0 \<and>
   frame_age example_grab = 5 \<and> g_timestamp example_grab \<noteq> 0"
proof -
  let ?o = "\<lparr>nv_frame_count = 1, nv_target_fps = 60, nv_status_only = False\<rparr>"
  have p: "nvfbc_parse example_header [''--frames'', ''1''] nvfbc_defaults = Inr ?o"
    by (simp add: nvfbc_count_def stoul_def c_integer_def c_isspace_def is_digit_def digit_value_def nvfbc_defaults_def)
  obtain st where st: "nvfbc_loop 60 0 (\<lambda>f. example_grab) 0 1 nvfbc_start = Inr st"
    "nv_times st = [15]" "nv_ages st = [5]" "nv_new_frames st = 1" "nv_future st = 0" "nv_nonmonotonic st = 0" "nv_misses st = 0"
    by (simp add: numeral_eq_Suc [of "num.One"] example_grab_def nvfbc_start_def note_frame_def note_timestamp_def
        frame_age_def frame_deadline_def Let_def)
  have "performance_pass ?o (1 / 128) st"
    using frame_in_eight_ms by (simp add: performance_pass_def st nearest_rank_def)
  then have v: "nvfbc_verdict ?o (1 / 128) st = 0" by (simp add: nvfbc_verdict_def timestamp_pass_def st)
  have "fst (nvfbc_body (\<lambda>c. True) 0 (\<lambda>f. example_grab) (1 / 128) ?o) = 0"
    using st(1) v by (simp add: nvfbc_body_def nvfbc_status_setup_def nvfbc_capture_setup_def)
  then have z: "fst (nvfbc_main example_header (\<lambda>c. True) 0 (\<lambda>f. example_grab) (1 / 128) [''--frames'', ''1'']) = 0"
    unfolding nvfbc_main_def p by (auto split: prod.split)
  from nvfbc_pass_sound [OF p _ z] show ?thesis using z by (simp add: example_grab_def frame_age_def)
qed

end
