(* ===== verification/Nvfbc_Raw.thy ===== *)
theory Nvfbc_Raw
  imports Encode_Resources Pixel_Kernel C_Strings
begin

text \<open>
  The raw capture program \<^verbatim>\<open>probes/nvfbc/plank-capture-nvfbc-raw.cpp\<close>: its arguments, the two conversion
  kernels, the driver objects with their destructor, and the loop that captures, converts, copies and writes each
  frame to the standard output.

  What the driver answers is an argument, by the names of \<^verbatim>\<open>Encode_Resources\<close>; the memory of the device at each
  frame and the order in which the threads of a launch run are arguments too.
\<close>

section \<open>Arguments\<close>

datatype OutputFormat = kBgra | kGbrIdentity8 | kGbrIdentity10

definition output_format_name :: "OutputFormat \<Rightarrow> string" where
  "output_format_name f =
     (case f of kBgra \<Rightarrow> ''bgra'' | kGbrIdentity8 \<Rightarrow> ''yuv444p-gbr-identity'' | kGbrIdentity10 \<Rightarrow> ''yuv444p10le-gbr-identity'')"

record raw_options =
  raw_output :: string
  raw_frame_count :: u32
  raw_frame_rate :: u32
  raw_format :: OutputFormat

definition raw_defaults :: raw_options where
  "raw_defaults = \<lparr>raw_output = ''DP-2'', raw_frame_count = 600, raw_frame_rate = 60, raw_format = kBgra\<rparr>"

text \<open>
  An exception thrown while the arguments are read is not caught, as the \<^verbatim>\<open>try\<close> block starts after them: the program
  is terminated without an exit status of its own.
\<close>

datatype raw_exit = ExitStatus int | Terminated

definition raw_parse_unsigned :: "string \<Rightarrow> nat \<Rightarrow> u32 option" where
  "raw_parse_unsigned v maximum =
     (case stoul v of None \<Rightarrow> None | Some n \<Rightarrow> if n = 0 \<or> n > maximum then None else Some (of_nat n))"

definition raw_parse_format :: "string \<Rightarrow> OutputFormat option" where
  "raw_parse_format v =
     (if v = ''bgra'' then Some kBgra else if v = ''gbr-identity8'' then Some kGbrIdentity8
      else if v = ''gbr-identity10'' then Some kGbrIdentity10 else None)"

definition raw_value_argument :: "string \<Rightarrow> string \<Rightarrow> raw_options \<Rightarrow> raw_exit + raw_options" where
  "raw_value_argument a v o' =
     (if a = ''--output'' then Inr (o'\<lparr>raw_output := v\<rparr>)
      else if a = ''--frames'' then
        (case raw_parse_unsigned v 36000 of None \<Rightarrow> Inl Terminated | Some n \<Rightarrow> Inr (o'\<lparr>raw_frame_count := n\<rparr>))
      else if a = ''--fps'' then
        (case raw_parse_unsigned v 240 of None \<Rightarrow> Inl Terminated | Some n \<Rightarrow> Inr (o'\<lparr>raw_frame_rate := n\<rparr>))
      else if a = ''--format'' then
        (case raw_parse_format v of None \<Rightarrow> Inl Terminated | Some f \<Rightarrow> Inr (o'\<lparr>raw_format := f\<rparr>))
      else Inl (ExitStatus 2))"

fun raw_parse :: "string list \<Rightarrow> raw_options \<Rightarrow> raw_exit + raw_options" where
  "raw_parse [] o' = Inr o'"
| "raw_parse [a] o' = Inl (ExitStatus 2)"
| "raw_parse (a # v # rest) o' =
     (case raw_value_argument a v o' of Inl e \<Rightarrow> Inl e | Inr o'' \<Rightarrow> raw_parse rest o'')"

section \<open>The kernels\<close>

record raw_kernel_params =
  rk_source :: u64
  rk_destination :: u64
  rk_pixel_count :: u32

text \<open>The expansion to ten bits, in the low bits of the sample.\<close>

definition ptx_expand_low :: "u32 \<Rightarrow> u32" where
  "ptx_expand_low r6 =
     (let r9 = push_bit 2 r6;
          r9 = r9 + (if r6 \<ge> 43 then 1 else 0);
          r9 = r9 + (if r6 \<ge> 128 then 1 else 0);
          r9 = r9 + (if r6 \<ge> 213 then 1 else 0)
      in r9)"

definition raw_bgra8_to_gbr8 :: "raw_kernel_params \<Rightarrow> u32 \<Rightarrow> u32 \<times> u32 \<Rightarrow> memory \<Rightarrow> memory" where
  "raw_bgra8_to_gbr8 p ntid t m =
     (let r5 = fst t * ntid + snd t
      in if r5 \<ge> rk_pixel_count p then m
         else
           let rd4 = rk_source p + ucast r5 * 4;
               r6 = m rd4; r7 = m (rd4 + 1); r8 = m (rd4 + 2);
               rd6 = ucast (rk_pixel_count p);
               rd7 = rk_destination p + ucast r5; rd8 = rd7 + rd6; rd9 = rd8 + rd6
           in st_bytes rd9 [r8] (st_bytes rd8 [r6] (st_bytes rd7 [r7] m)))"

definition raw_bgra8_to_gbr10 :: "raw_kernel_params \<Rightarrow> u32 \<Rightarrow> u32 \<times> u32 \<Rightarrow> memory \<Rightarrow> memory" where
  "raw_bgra8_to_gbr10 p ntid t m =
     (let r5 = fst t * ntid + snd t
      in if r5 \<ge> rk_pixel_count p then m
         else
           let rd4 = rk_source p + ucast r5 * 4;
               r6 = ucast (m rd4); r7 = ucast (m (rd4 + 1)); r8 = ucast (m (rd4 + 2));
               r9 = ptx_expand_low r6; r10 = ptx_expand_low r7; r11 = ptx_expand_low r8;
               rd5 = ucast r5 * 2; rd7 = push_bit 1 (ucast (rk_pixel_count p));
               rd8 = rk_destination p + rd5; rd9 = rd8 + rd7; rd10 = rd9 + rd7
           in st_bytes rd10 (u16_bytes (ucast r11)) (st_bytes rd9 (u16_bytes (ucast r9))
                (st_bytes rd8 (u16_bytes (ucast r10)) m)))"

text \<open>The launch: 256 threads in a block, the number of blocks in 32 bits.\<close>

definition raw_blocks :: "u32 \<Rightarrow> u32" where
  "raw_blocks pixel_count = (pixel_count + 256 - 1) div 256"

definition raw_grid :: "u32 \<Rightarrow> (u32 \<times> u32) list" where
  "raw_grid pixel_count =
     concat (map (\<lambda>b. map (\<lambda>t. (of_nat b, of_nat t)) [0..<256]) [0..<unat (raw_blocks pixel_count)])"

definition raw_launch :: "OutputFormat \<Rightarrow> raw_kernel_params \<Rightarrow> (u32 \<times> u32) list \<Rightarrow> memory \<Rightarrow> memory" where
  "raw_launch f p order m =
     fold ((if f = kGbrIdentity8 then raw_bgra8_to_gbr8 else raw_bgra8_to_gbr10) p 256) order m"

section \<open>Set-up and destructor\<close>

definition raw_cuda_setup :: "OutputFormat \<Rightarrow> setup_call list" where
  "raw_cuda_setup f =
     [((''cuda_load_functions'', 0), Some CudaFunctions), ((''cuInit'', 0), None), ((''cuDeviceGet'', 0), None),
      ((''cuCtxCreate'', 0), Some CudaContext)] @
     (if f \<noteq> kBgra then [((''cuModuleLoadData'', 0), Some CudaModule), ((''cuModuleGetFunction'', 0), None)] else [])"

definition raw_setup :: "api \<Rightarrow> randr_output list \<Rightarrow> raw_options \<Rightarrow> bool \<times> resource_event list" where
  "raw_setup ok outputs o' =
     (case run_setup ok (raw_cuda_setup (raw_format o')) of
        (False, es) \<Rightarrow> (False, es)
      | (True, es) \<Rightarrow>
          (case initialize_nvfbc ok outputs (raw_output o') of
             (None, es') \<Rightarrow> (False, es @ es')
           | (Some x, es') \<Rightarrow> (True, es @ es')))"

definition raw_destroy :: "resource list \<Rightarrow> resource_event list" where
  "raw_destroy held =
     release_if (ConvertedBuffer \<in> set held \<and> CudaFunctions \<in> set held) ConvertedBuffer @
     release_if (HostBuffer \<in> set held \<and> CudaFunctions \<in> set held) HostBuffer @
     release_if (NvfbcCapture \<in> set held) NvfbcCapture @ release_if (NvfbcHandle \<in> set held) NvfbcHandle @
     release_if (NvfbcLibrary \<in> set held) NvfbcLibrary @
     release_if (CudaModule \<in> set held \<and> CudaFunctions \<in> set held) CudaModule @
     release_if (CudaContext \<in> set held \<and> CudaFunctions \<in> set held) CudaContext @
     release_if (CudaFunctions \<in> set held) CudaFunctions"

section \<open>The frame loop\<close>

record raw_grab =
  rg_success :: bool
  rg_device_buffer :: u64
  rg_width :: u32
  rg_height :: u32
  rg_byte_size :: u32
  rg_alloc_converted :: "u64 option" \<comment> \<open>the address of the allocation, or a failure\<close>
  rg_alloc_host :: bool
  rg_launched :: bool
  rg_copied :: bool
  rg_written :: bool
  rg_memory :: memory
  rg_order :: "(u32 \<times> u32) list"

record raw_state =
  rs_width :: u32
  rs_height :: u32
  rs_capture_bytes :: u32
  rs_output_bytes :: u64
  rs_host :: bool
  rs_converted :: u64
  rs_stdout :: bytes
  rs_log :: "resource_event list"

definition raw_start :: raw_state where
  "raw_start = \<lparr>rs_width = 0, rs_height = 0, rs_capture_bytes = 0, rs_output_bytes = 0, rs_host = False, rs_converted = 0,
     rs_stdout = [], rs_log = []\<rparr>"

definition raw_output_bytes :: "OutputFormat \<Rightarrow> raw_grab \<Rightarrow> u64" where
  "raw_output_bytes f g =
     (if f = kBgra then ucast (rg_byte_size g)
      else ucast (rg_width g) * ucast (rg_height g) * (if f = kGbrIdentity8 then 3 else 6))"

text \<open>The first frame sets the geometry and allocates; a failure leaves what was allocated before it.\<close>

definition raw_prepare :: "OutputFormat \<Rightarrow> raw_grab \<Rightarrow> raw_state \<Rightarrow> bool \<times> raw_state" where
  "raw_prepare f g st =
     (if rs_host st
      then (rg_width g = rs_width st \<and> rg_height g = rs_height st \<and> rg_byte_size g = rs_capture_bytes st, st)
      else
        let st = st\<lparr>rs_width := rg_width g, rs_height := rg_height g, rs_capture_bytes := rg_byte_size g,
                   rs_output_bytes := raw_output_bytes f g\<rparr>
        in if f \<noteq> kBgra \<and> rg_alloc_converted g = None then (False, st)
        else let st = (if f \<noteq> kBgra
               then st\<lparr>rs_converted := the (rg_alloc_converted g), rs_log := rs_log st @ [Acquire ConvertedBuffer]\<rparr> else st)
        in if \<not> rg_alloc_host g then (False, st)
        else (True, st\<lparr>rs_host := True, rs_log := rs_log st @ [Acquire HostBuffer]\<rparr>))"

definition read_bytes :: "memory \<Rightarrow> u64 \<Rightarrow> nat \<Rightarrow> bytes" where
  "read_bytes m a n = map (\<lambda>k. m (a + of_nat k)) [0..<n]"

definition raw_params :: "raw_grab \<Rightarrow> raw_state \<Rightarrow> raw_kernel_params" where
  "raw_params g st =
     \<lparr>rk_source = rg_device_buffer g, rk_destination = rs_converted st, rk_pixel_count = rs_width st * rs_height st\<rparr>"

text \<open>The bytes of a frame that are written.\<close>

definition raw_frame_bytes :: "OutputFormat \<Rightarrow> raw_grab \<Rightarrow> raw_state \<Rightarrow> bytes" where
  "raw_frame_bytes f g st =
     (if f = kBgra then read_bytes (rg_memory g) (rg_device_buffer g) (unat (rs_output_bytes st))
      else read_bytes (raw_launch f (raw_params g st) (rg_order g) (rg_memory g)) (rs_converted st)
        (unat (rs_output_bytes st)))"

definition raw_frame :: "OutputFormat \<Rightarrow> raw_grab \<Rightarrow> raw_state \<Rightarrow> bool \<times> raw_state" where
  "raw_frame f g st =
     (if \<not> rg_success g \<or> rg_device_buffer g = 0 \<or> rg_byte_size g = 0 then (False, st)
      else case raw_prepare f g st of
        (False, st) \<Rightarrow> (False, st)
      | (True, st) \<Rightarrow>
          if f \<noteq> kBgra \<and> \<not> rg_launched g then (False, st)
          else if \<not> rg_copied g then (False, st)
          else if \<not> rg_written g then (False, st)
          else (True, st\<lparr>rs_stdout := rs_stdout st @ raw_frame_bytes f g st\<rparr>))"

fun raw_loop :: "OutputFormat \<Rightarrow> (nat \<Rightarrow> raw_grab) \<Rightarrow> nat \<Rightarrow> nat \<Rightarrow> raw_state \<Rightarrow> bool \<times> raw_state" where
  "raw_loop f grab frame 0 st = (True, st)"
| "raw_loop f grab frame (Suc n) st =
     (case raw_frame f (grab frame) st of
        (False, st) \<Rightarrow> (False, st)
      | (True, st) \<Rightarrow> raw_loop f grab (Suc frame) n st)"

section \<open>The program\<close>

text \<open>The exit status, the bytes written and the log with the destructor of \<^verbatim>\<open>Resources\<close>.\<close>

definition raw_body ::
    "api \<Rightarrow> randr_output list \<Rightarrow> (nat \<Rightarrow> raw_grab) \<Rightarrow> raw_options \<Rightarrow> int \<times> bytes \<times> resource_event list" where
  "raw_body ok outputs grab o' =
     (case raw_setup ok outputs o' of
        (False, es) \<Rightarrow> (1, [], es)
      | (True, es) \<Rightarrow>
          (case raw_loop (raw_format o') grab 0 (unat (raw_frame_count o')) raw_start of
             (r, st) \<Rightarrow> (if r then 0 else 1, rs_stdout st, es @ rs_log st)))"

definition raw_main ::
    "api \<Rightarrow> randr_output list \<Rightarrow> (nat \<Rightarrow> raw_grab) \<Rightarrow> string list \<Rightarrow> raw_exit \<times> bytes \<times> resource_event list" where
  "raw_main ok outputs grab args =
     (case raw_parse args raw_defaults of
        Inl e \<Rightarrow> (e, [], [])
      | Inr o' \<Rightarrow>
          (case raw_body ok outputs grab o' of
             (status, out, es) \<Rightarrow>
               (ExitStatus status, out, es @ raw_destroy (case follow [] es of None \<Rightarrow> [] | Some held \<Rightarrow> held))))"

section \<open>The kernels as kernels of the pipeline\<close>

text \<open>A raw picture is a picture of one row without padding.\<close>

definition packed :: "nat \<Rightarrow> raw_kernel_params \<Rightarrow> kernel_params" where
  "packed sz p = \<lparr>source_ptr = rk_source p, destination_ptr = rk_destination p, width = rk_pixel_count p, height = 1,
     destination_pitch = of_nat sz * ucast (rk_pixel_count p)\<rparr>"

lemma raw_gbr8_packed: "raw_bgra8_to_gbr8 p ntid t m = bgra8_to_gbr8 (packed 1 p) ntid t m"
  by (simp add: raw_bgra8_to_gbr8_def bgra8_to_gbr8_def packed_def Let_def)

text \<open>The ten-bit kernel for any picture.\<close>

definition low_kernel :: "kernel_params \<Rightarrow> u32 \<Rightarrow> u32 \<times> u32 \<Rightarrow> memory \<Rightarrow> memory" where
  "low_kernel p ntid t m =
     (let i = fst t * ntid + snd t; plane = destination_pitch p * ucast (height p);
          a = destination_ptr p + ucast i * 2; c = source_ptr p + ucast i * 4;
          sample = \<lambda>v. u16_bytes (ucast (ptx_expand_low (ucast v)))
      in if i \<ge> width p * height p then m
         else st_bytes (a + plane + plane) (sample (m (c + 2)))
                (st_bytes (a + plane) (sample (m c)) (st_bytes a (sample (m (c + 1))) m)))"

interpretation low10: pixel_kernel 2 "\<lambda>v. u16_bytes (ucast (ptx_expand_low (ucast v)))" low_kernel
  by unfold_locales (simp_all add: low_kernel_def Let_def, simp add: u16_bytes_def)

lemma raw_gbr10_packed: "raw_bgra8_to_gbr10 p ntid t m = low_kernel (packed 2 p) ntid t m"
  by (simp add: raw_bgra8_to_gbr10_def low_kernel_def packed_def Let_def push_bit_eq_mult mult.commute)

lemma ptx_expand_low: "ptx_expand v = push_bit 6 (ptx_expand_low v)"
  by (simp add: ptx_expand_def ptx_expand_low_def Let_def)

section \<open>The converted frame\<close>

definition raw_sample :: "OutputFormat \<Rightarrow> u8 \<Rightarrow> bytes" where
  "raw_sample f v = (if f = kGbrIdentity8 then [v] else u16_bytes (of_nat ((unat v * 1023 + 127) div 255)))"

definition raw_sample_size :: "OutputFormat \<Rightarrow> nat" where
  "raw_sample_size f = (if f = kGbrIdentity8 then 1 else 2)"

lemma low_reference: "ucast (ptx_expand_low (ucast v)) = (of_nat ((unat v * 1023 + 127) div 255) :: u16)" for v :: u8
proof -
  let ?r = "ucast v :: u32"
  have v: "unat ?r = unat v" by (simp add: unat_ucast_up)
  have b: "unat v < 256" using unat_bound [of v] by simp
  have le: "(43 \<le> ?r) = (43 \<le> unat v)" "(128 \<le> ?r) = (128 \<le> unat v)" "(213 \<le> ?r) = (213 \<le> unat v)"
    by (simp_all add: word_le_nat_alt v)
  have "unat (ptx_expand_low ?r) = (unat v * 1023 + 127) div 255"
    unfolding expansion_steps [OF b] ptx_expand_low_def Let_def push_bit_eq_mult
    using v b by (auto simp: le unat_word_ariths)
  then have "of_nat (unat (ptx_expand_low ?r)) = (of_nat ((unat v * 1023 + 127) div 255) :: u16)" by (rule arg_cong)
  then show ?thesis by (simp only: of_nat_unat)
qed

lemma length_raw_sample: "length (raw_sample f v) = raw_sample_size f"
  by (simp add: raw_sample_def raw_sample_size_def u16_bytes_def)

lemma raw_grid_launch:
  assumes "unat n \<le> 2 ^ 32 - 256"
  shows "raw_grid n = launch_grid n 1"
proof -
  have "n + 256 - 1 = n + 255" "(ucast n * ucast (1 :: u32) + ucast (256 :: u32) - 1 :: u64) = ucast n + 255" by simp_all
  moreover have "unat (n + 255) = unat n + 255" using assms by (simp add: unat_word_ariths)
  moreover have "unat (ucast n + 255 :: u64) = unat n + 255" using assms by (simp add: unat_word_ariths unat_ucast_up)
  moreover have "(unat n + 255) div 256 < 2 ^ 32" using assms by simp
  ultimately have "unat (launch_blocks n 1) = unat (raw_blocks n)"
    unfolding launch_blocks_def launch_threads_def raw_blocks_def Let_def
    by (simp only: unsigned_ucast_eq unat_div) (simp add: take_bit_nat_eq_self)
  then show ?thesis by (simp add: raw_grid_def launch_grid_def launch_threads_def)
qed

text \<open>Room for a conversion: the places of the source and of the planes do not wrap or overlap.\<close>

definition raw_room :: "OutputFormat \<Rightarrow> raw_kernel_params \<Rightarrow> bool" where
  "raw_room f p \<longleftrightarrow>
     (let n = unat (rk_pixel_count p); source = unat (rk_source p); destination = unat (rk_destination p);
          sz = raw_sample_size f
      in n \<le> 2 ^ 32 - 256 \<and> source + 4 * n \<le> 2 ^ 64 \<and> destination + 3 * (sz * n) \<le> 2 ^ 64 \<and>
         (source + 4 * n \<le> destination \<or> destination + 3 * (sz * n) \<le> source))"

lemma packed_pitch:
  assumes "sz \<le> 2"
  shows "unat (destination_pitch (packed sz p)) = sz * unat (rk_pixel_count p)"
proof -
  have "unat (rk_pixel_count p) < 2 ^ 32" using unat_bound [of "rk_pixel_count p"] by simp
  then have "sz * unat (rk_pixel_count p) \<le> 2 * 2 ^ 32" using assms by (intro mult_le_mono) simp_all
  then have b: "sz * unat (rk_pixel_count p) < 2 ^ 64" by simp
  have "destination_pitch (packed sz p) = of_nat (sz * unat (rk_pixel_count p))" by (simp add: packed_def)
  then show ?thesis using b by (simp add: unat_of_nat_eq del: of_nat_mult)
qed

lemma packed_sel [simp]:
  "width (packed sz p) = rk_pixel_count p" "height (packed sz p) = 1" "source_ptr (packed sz p) = rk_source p"
  "destination_ptr (packed sz p) = rk_destination p"
  by (simp_all add: packed_def)

lemma raw_room_packed: "raw_room f p \<Longrightarrow> conversion_room (raw_sample_size f) (packed (raw_sample_size f) p)"
  by (simp add: raw_room_def conversion_room_def Let_def pixels_of_def packed_pitch raw_sample_size_def)

lemma raw_launch_sample:
  assumes "raw_room f p" and "f \<noteq> kBgra" and "set order = set (raw_grid (rk_pixel_count p))"
    and "plane < 3" and "i < unat (rk_pixel_count p)" and "k < raw_sample_size f"
  shows "raw_launch f p order m
      (of_nat (unat (rk_destination p) + plane * (raw_sample_size f * unat (rk_pixel_count p)) + raw_sample_size f * i + k)) =
    raw_sample f (m (of_nat (unat (rk_source p) + 4 * i + [1, 0, 2] ! plane))) ! k"
proof -
  let ?sz = "raw_sample_size f"
  note room = raw_room_packed [OF assms(1)]
  have n: "unat (rk_pixel_count p) \<le> 2 ^ 32 - 256" using assms(1) by (simp add: raw_room_def Let_def)
  have g: "set order = set (launch_grid (width (packed ?sz p)) (height (packed ?sz p)))"
    using assms(3) raw_grid_launch [OF n] by simp
  have i: "i < pixels_of (packed ?sz p)" using assms(5) by (simp add: pixels_of_def)
  have a: "sample_address (packed ?sz p) ?sz plane i = unat (rk_destination p) + plane * (?sz * unat (rk_pixel_count p)) + ?sz * i"
    by (simp add: sample_address_def packed_pitch raw_sample_size_def)
  have c: "channel_address (packed ?sz p) plane i = unat (rk_source p) + 4 * i + [1, 0, 2] ! plane"
    by (simp add: channel_address_def)
  show ?thesis
  proof (cases "f = kGbrIdentity8")
    case True
    then have sz: "?sz = 1" and k: "k < 1" using assms(6) by (simp_all add: raw_sample_size_def)
    have "raw_launch f p order m = fold (bgra8_to_gbr8 (packed 1 p) launch_threads) order m"
      by (simp add: raw_launch_def True raw_gbr8_packed [abs_def] launch_threads_def)
    then show ?thesis
      using gbr8.launch_samples [OF room [unfolded sz] g [unfolded sz] assms(4) i [unfolded sz] k, of m]
      unfolding sz a [unfolded sz] c [unfolded sz] by (simp add: raw_sample_def True del: of_nat_add)
  next
    case False
    then have sz: "?sz = 2" and k: "k < 2" using assms(6) by (simp_all add: raw_sample_size_def)
    have "raw_launch f p order m = fold (low_kernel (packed 2 p) launch_threads) order m"
      by (simp add: raw_launch_def False raw_gbr10_packed [abs_def] launch_threads_def)
    then show ?thesis
      using low10.launch_samples [OF room [unfolded sz] g [unfolded sz] assms(4) i [unfolded sz] k, of m]
      unfolding sz a [unfolded sz] c [unfolded sz] by (simp add: raw_sample_def False low_reference del: of_nat_add)
  qed
qed

lemma read_bytes_append: "read_bytes m a (x + y) = read_bytes m a x @ read_bytes m (a + of_nat x) y"
  by (rule nth_equalityI) (auto simp: read_bytes_def nth_append)

lemma read_bytes_chunks:
  "read_bytes m a (sz * n) = concat (map (\<lambda>i. read_bytes m (a + of_nat (sz * i)) sz) [0..<n])"
proof (induction n)
  case (Suc n)
  have "read_bytes m a (sz * n + sz) = read_bytes m a (sz * n) @ read_bytes m (a + of_nat (sz * n)) sz"
    by (rule read_bytes_append)
  then show ?case using Suc by (simp add: add.commute)
qed (simp add: read_bytes_def)

definition planar_frame :: "OutputFormat \<Rightarrow> memory \<Rightarrow> nat \<Rightarrow> nat \<Rightarrow> bytes" where
  "planar_frame f m source n =
     concat (map (\<lambda>plane. concat (map (\<lambda>i. raw_sample f (m (of_nat (source + 4 * i + [1, 0, 2] ! plane)))) [0..<n])) [0..<3])"

lemma read_planar:
  assumes "raw_room f p" and "f \<noteq> kBgra" and "set order = set (raw_grid (rk_pixel_count p))"
  shows "read_bytes (raw_launch f p order m) (rk_destination p) (raw_sample_size f * unat (rk_pixel_count p) * 3) =
    planar_frame f m (unat (rk_source p)) (unat (rk_pixel_count p))"
proof -
  let ?sz = "raw_sample_size f" and ?n = "unat (rk_pixel_count p)" and ?m = "raw_launch f p order m"
  have chunk: "read_bytes ?m (rk_destination p + of_nat (?sz * ?n * plane) + of_nat (?sz * i)) ?sz =
      raw_sample f (m (of_nat (unat (rk_source p) + 4 * i + [1, 0, 2] ! plane)))" if "plane < 3" "i < ?n" for plane i
  proof (rule nth_equalityI)
    fix k assume "k < length (read_bytes ?m (rk_destination p + of_nat (?sz * ?n * plane) + of_nat (?sz * i)) ?sz)"
    then have k: "k < ?sz" by (simp add: read_bytes_def)
    have "rk_destination p + of_nat (?sz * ?n * plane) + of_nat (?sz * i) + of_nat k =
        of_nat (unat (rk_destination p) + plane * (?sz * ?n) + ?sz * i + k)"
      by (simp add: mult.commute mult.left_commute)
    then show "read_bytes ?m (rk_destination p + of_nat (?sz * ?n * plane) + of_nat (?sz * i)) ?sz ! k =
        raw_sample f (m (of_nat (unat (rk_source p) + 4 * i + [1, 0, 2] ! plane))) ! k"
      using raw_launch_sample [OF assms that k, of m] k by (simp add: read_bytes_def del: of_nat_add of_nat_mult)
  qed (simp add: read_bytes_def length_raw_sample)
  show ?thesis
    unfolding planar_frame_def read_bytes_chunks [of _ _ "?sz * ?n" 3]
    by (intro arg_cong [where f = concat] map_cong refl, unfold read_bytes_chunks [of _ _ ?sz ?n])
      (intro arg_cong [where f = concat] map_cong refl chunk, simp_all)
qed

section \<open>The loop\<close>

definition raw_buffers :: "OutputFormat \<Rightarrow> resource list" where
  "raw_buffers f = (if f \<noteq> kBgra then [ConvertedBuffer, HostBuffer] else [HostBuffer])"

text \<open>The state the first frame leaves, apart from the output.\<close>

definition raw_settled :: "OutputFormat \<Rightarrow> raw_grab \<Rightarrow> raw_state" where
  "raw_settled f g = \<lparr>rs_width = rg_width g, rs_height = rg_height g, rs_capture_bytes = rg_byte_size g,
     rs_output_bytes = raw_output_bytes f g, rs_host = True,
     rs_converted = (if f \<noteq> kBgra then the (rg_alloc_converted g) else 0), rs_stdout = [],
     rs_log = map Acquire (raw_buffers f)\<rparr>"

lemma raw_frame_bytes_out [simp]: "raw_frame_bytes f g (st\<lparr>rs_stdout := x\<rparr>) = raw_frame_bytes f g st"
  by (simp add: raw_frame_bytes_def raw_params_def)

lemma raw_settled_out [simp]: "rs_stdout (raw_settled f g) = []"
  by (simp add: raw_settled_def)

lemma raw_frame_True:
  assumes "raw_frame f g st = (True, st')"
  shows "\<exists>sp. raw_prepare f g st = (True, sp) \<and> st' = sp\<lparr>rs_stdout := rs_stdout sp @ raw_frame_bytes f g sp\<rparr>"
  using assms by (auto simp: raw_frame_def split: if_splits prod.split_asm bool.split_asm)

lemma raw_first_frame:
  assumes "raw_frame f g raw_start = (True, st)"
  shows "st = (raw_settled f g)\<lparr>rs_stdout := raw_frame_bytes f g (raw_settled f g)\<rparr>"
proof -
  obtain sp where sp: "raw_prepare f g raw_start = (True, sp)" "st = sp\<lparr>rs_stdout := rs_stdout sp @ raw_frame_bytes f g sp\<rparr>"
    using raw_frame_True [OF assms] by blast
  have "sp = raw_settled f g"
    using sp(1) by (auto simp: raw_prepare_def raw_start_def raw_settled_def raw_buffers_def Let_def split: if_splits)
  then show ?thesis using sp(2) by simp
qed

lemma raw_later_frame:
  assumes "raw_frame f g st = (True, st')" and "rs_host st"
  shows "st' = st\<lparr>rs_stdout := rs_stdout st @ raw_frame_bytes f g st\<rparr>"
    and "rg_width g = rs_width st" "rg_height g = rs_height st" "rg_byte_size g = rs_capture_bytes st"
  using raw_frame_True [OF assms(1)] assms(2) by (auto simp: raw_prepare_def)

definition raw_so_far :: "OutputFormat \<Rightarrow> (nat \<Rightarrow> raw_grab) \<Rightarrow> nat \<Rightarrow> raw_state" where
  "raw_so_far f grab n = (raw_settled f (grab 0))\<lparr>rs_stdout :=
     concat (map (\<lambda>i. raw_frame_bytes f (grab i) (raw_settled f (grab 0))) [0..<n])\<rparr>"

lemma raw_loop_output:
  "raw_loop f grab frame n (raw_so_far f grab frame) = (True, st) \<Longrightarrow>
     st = raw_so_far f grab (frame + n) \<and>
     (\<forall>i. frame \<le> i \<and> i < frame + n \<longrightarrow> rg_width (grab i) = rg_width (grab 0) \<and> rg_height (grab i) = rg_height (grab 0) \<and>
        rg_byte_size (grab i) = rg_byte_size (grab 0))"
proof (induction n arbitrary: frame)
  case (Suc n)
  let ?s = "raw_so_far f grab frame"
  obtain st1 where s1: "raw_frame f (grab frame) ?s = (True, st1)" "raw_loop f grab (Suc frame) n st1 = (True, st)"
    using Suc.prems by (auto split: prod.split_asm bool.split_asm)
  have h: "rs_host ?s" by (simp add: raw_so_far_def raw_settled_def)
  note l = raw_later_frame [OF s1(1) h]
  have "st1 = raw_so_far f grab (Suc frame)" unfolding l(1) by (simp add: raw_so_far_def)
  then have ih: "st = raw_so_far f grab (Suc frame + n)"
    "\<forall>i. Suc frame \<le> i \<and> i < Suc frame + n \<longrightarrow> rg_width (grab i) = rg_width (grab 0) \<and>
       rg_height (grab i) = rg_height (grab 0) \<and> rg_byte_size (grab i) = rg_byte_size (grab 0)"
    using Suc.IH s1(2) by blast+
  have "rg_width (grab frame) = rg_width (grab 0)" "rg_height (grab frame) = rg_height (grab 0)"
    "rg_byte_size (grab frame) = rg_byte_size (grab 0)"
    using l(2-4) by (simp_all add: raw_so_far_def raw_settled_def)
  then show ?case using ih by (metis add_Suc_right add_Suc le_eq_less_or_eq Suc_le_eq)
qed auto

lemma raw_loop_all:
  assumes "raw_loop f grab 0 n raw_start = (True, st)" and "0 < n"
  shows "rs_stdout st = concat (map (\<lambda>i. raw_frame_bytes f (grab i) (raw_settled f (grab 0))) [0..<n])"
    and "i < n \<Longrightarrow> rg_width (grab i) = rg_width (grab 0) \<and> rg_height (grab i) = rg_height (grab 0) \<and>
      rg_byte_size (grab i) = rg_byte_size (grab 0)"
proof -
  obtain k where n: "n = Suc k" using assms(2) by (cases n) auto
  obtain st1 where s1: "raw_frame f (grab 0) raw_start = (True, st1)" "raw_loop f grab (Suc 0) k st1 = (True, st)"
    using assms(1) unfolding n by (auto split: prod.split_asm bool.split_asm)
  have "st1 = raw_so_far f grab (Suc 0)" using raw_first_frame [OF s1(1)] by (simp add: raw_so_far_def)
  with raw_loop_output s1(2) have o: "st = raw_so_far f grab n"
    "\<forall>i. Suc 0 \<le> i \<and> i < n \<longrightarrow> rg_width (grab i) = rg_width (grab 0) \<and> rg_height (grab i) = rg_height (grab 0) \<and>
       rg_byte_size (grab i) = rg_byte_size (grab 0)" unfolding n by fastforce+
  then show "rs_stdout st = concat (map (\<lambda>i. raw_frame_bytes f (grab i) (raw_settled f (grab 0))) [0..<n])"
    by (simp add: raw_so_far_def)
  show "i < n \<Longrightarrow> rg_width (grab i) = rg_width (grab 0) \<and> rg_height (grab i) = rg_height (grab 0) \<and>
      rg_byte_size (grab i) = rg_byte_size (grab 0)"
    using o(2) by (cases i) auto
qed

section \<open>What is acquired\<close>

definition raw_log_ok :: "OutputFormat \<Rightarrow> raw_state \<Rightarrow> bool" where
  "raw_log_ok f st \<longleftrightarrow> rs_log st = (if rs_host st then map Acquire (raw_buffers f) else [])"

lemma raw_frame_log:
  assumes "raw_log_ok f st"
  shows "raw_frame f g st = (True, st') \<Longrightarrow> raw_log_ok f st'"
    and "raw_frame f g st = (False, st') \<Longrightarrow> \<exists>rs. rs_log st' = map Acquire rs \<and> prefix rs (raw_buffers f)"
proof -
  obtain r sp where p: "raw_prepare f g st = (r, sp)" by fastforce
  have a: "r \<Longrightarrow> raw_log_ok f sp" "\<not> r \<Longrightarrow> rs_log sp \<in> {[], map Acquire (raw_buffers f), [Acquire ConvertedBuffer]} \<and>
      (rs_log sp = [Acquire ConvertedBuffer] \<longrightarrow> f \<noteq> kBgra)"
    using p assms by (auto simp: raw_prepare_def raw_log_ok_def raw_buffers_def Let_def split: if_splits)
  have st': "raw_frame f g st = (b, s) \<Longrightarrow> s = st \<and> \<not> b \<or> rs_log s = rs_log sp \<and> rs_host s = rs_host sp \<and> (b \<longrightarrow> r)" for b s
    using p by (cases r) (auto simp: raw_frame_def split: if_splits)
  show "raw_frame f g st = (True, st') \<Longrightarrow> raw_log_ok f st'"
    using st' [of True st'] a(1) by (auto simp: raw_log_ok_def)
  assume "raw_frame f g st = (False, st')"
  then have "st' = st \<or> rs_log st' = rs_log sp" using st' [of False st'] by blast
  then consider "rs_log st' = []" | "rs_log st' = map Acquire (raw_buffers f)"
    | "rs_log st' = [Acquire ConvertedBuffer]" "f \<noteq> kBgra"
    using a assms by (cases r) (auto simp: raw_log_ok_def split: if_splits)
  then show "\<exists>rs. rs_log st' = map Acquire rs \<and> prefix rs (raw_buffers f)"
  proof cases
    case 3
    then show ?thesis by (intro exI [of _ "[ConvertedBuffer]"]) (simp add: raw_buffers_def)
  qed auto
qed

lemma raw_loop_log:
  "raw_log_ok f st \<Longrightarrow> raw_loop f grab frame n st = (r, st') \<Longrightarrow>
     \<exists>rs. rs_log st' = map Acquire rs \<and> prefix rs (raw_buffers f)"
proof (induction n arbitrary: frame st)
  case 0
  then show ?case
    by (intro exI [of _ "if rs_host st then raw_buffers f else []"]) (auto simp: raw_log_ok_def)
next
  case (Suc n)
  obtain b s where f1: "raw_frame f (grab frame) st = (b, s)" by fastforce
  then show ?case
    using Suc raw_frame_log [OF Suc.prems(1), of "grab frame" s] by (cases b) auto
qed

lemma initialize_prefix:
  assumes "initialize_nvfbc ok outputs wanted = (r, es)"
  shows "\<exists>rs. es = map Acquire rs \<and> prefix rs [NvfbcLibrary, NvfbcHandle, NvfbcCapture] \<and>
    (r \<noteq> None \<longrightarrow> rs = [NvfbcLibrary, NvfbcHandle, NvfbcCapture])"
proof -
  let ?a = "[((''dlopen'', 0), Some NvfbcLibrary), ((''dlsym'', 0), None), ((''NvFBCCreateInstance'', 0), None),
      ((''NvFBCCreateHandle'', 0), Some NvfbcHandle), ((''NvFBCGetStatus'', 0), None), ((''bCanCreateNow'', 0), None)]
      :: setup_call list"
  let ?b = "[((''NvFBCCreateCaptureSession'', 0), Some NvfbcCapture), ((''NvFBCToCudaSetUp'', 0), None)] :: setup_call list"
  have ab: "acquired ?a = [NvfbcLibrary, NvfbcHandle]" "acquired ?b = [NvfbcCapture]"
    by (simp_all add: acquired_def List.map_filter_def)
  obtain ra ea rb eb where c: "run_setup ok ?a = (ra, ea)" "run_setup ok ?b = (rb, eb)" by fastforce
  obtain x where x: "ea = map Acquire x" "prefix x [NvfbcLibrary, NvfbcHandle]" "ra \<longrightarrow> x = [NvfbcLibrary, NvfbcHandle]"
    using run_setup_prefix [OF c(1)] unfolding ab by blast
  obtain y where y: "eb = map Acquire y" "prefix y [NvfbcCapture]" "rb \<longrightarrow> y = [NvfbcCapture]"
    using run_setup_prefix [OF c(2)] unfolding ab by blast
  have "es = ea \<and> r = None \<or> ra \<and> es = ea @ eb \<and> (r \<noteq> None \<longrightarrow> rb)"
    using assms unfolding initialize_nvfbc_def c by (auto split: bool.split_asm option.split_asm if_splits)
  then show ?thesis
  proof (elim disjE conjE)
    assume "es = ea" "r = None"
    then show ?thesis using x(1) prefix_prefix [OF x(2), of "[NvfbcCapture]"] by (intro exI [of _ x]) simp
  next
    assume "ra" "es = ea @ eb" "r \<noteq> None \<longrightarrow> rb"
    then show ?thesis using x y by (intro exI [of _ "[NvfbcLibrary, NvfbcHandle] @ y"]) auto
  qed
qed

definition raw_objects :: "OutputFormat \<Rightarrow> resource list" where
  "raw_objects f =
     [CudaFunctions, CudaContext] @ (if f \<noteq> kBgra then [CudaModule] else []) @
     [NvfbcLibrary, NvfbcHandle, NvfbcCapture] @ raw_buffers f"

lemma raw_body_prefix:
  assumes "raw_body ok outputs grab o' = (status, out, es)"
  shows "\<exists>rs. es = map Acquire rs \<and> prefix rs (raw_objects (raw_format o'))"
proof -
  let ?f = "raw_format o'"
  let ?c = "[CudaFunctions, CudaContext] @ (if ?f \<noteq> kBgra then [CudaModule] else [])"
  let ?v = "[NvfbcLibrary, NvfbcHandle, NvfbcCapture]"
  have ac: "acquired (raw_cuda_setup ?f) = ?c" by (simp add: acquired_def raw_cuda_setup_def List.map_filter_def)
  obtain r1 e1 r2 e2 where c: "run_setup ok (raw_cuda_setup ?f) = (r1, e1)" "initialize_nvfbc ok outputs (raw_output o') = (r2, e2)"
    by fastforce
  obtain r3 st where l: "raw_loop ?f grab 0 (unat (raw_frame_count o')) raw_start = (r3, st)" by fastforce
  obtain x where x: "e1 = map Acquire x" "prefix x ?c" "r1 \<longrightarrow> x = ?c"
    using run_setup_prefix [OF c(1)] unfolding ac by blast
  obtain y where y: "e2 = map Acquire y" "prefix y ?v" "r2 \<noteq> None \<longrightarrow> y = ?v" using initialize_prefix [OF c(2)] by blast
  have "raw_log_ok ?f raw_start" by (simp add: raw_log_ok_def raw_start_def)
  from raw_loop_log [OF this l] obtain z where z: "rs_log st = map Acquire z" "prefix z (raw_buffers ?f)" by blast
  have o: "raw_objects ?f = ?c @ ?v @ raw_buffers ?f" by (simp add: raw_objects_def)
  consider "es = map Acquire x" | "r1" "es = map Acquire (x @ y)" | "r1" "r2 \<noteq> None" "es = map Acquire (x @ y @ z)"
    using assms x(1) y(1) z(1)
    by (auto simp: raw_body_def raw_setup_def c l split: bool.split_asm option.split_asm)
  then show ?thesis
  proof cases
    case 1
    then show ?thesis unfolding o using prefix_prefix [OF x(2)] by blast
  next
    case 2
    then have "prefix (x @ y) (?c @ ?v @ raw_buffers ?f)" using x(3) prefix_prefix [OF y(2)] by (simp only: same_prefix_prefix)
    then show ?thesis unfolding o using 2(2) by blast
  next
    case 3
    then have "x = ?c" "y = ?v" using x(3) y(3) by blast+
    then have "prefix (x @ y @ z) (?c @ ?v @ raw_buffers ?f)" using z(2) by (simp only: same_prefix_prefix)
    then show ?thesis unfolding o using 3(3) by blast
  qed
qed

definition raw_release_order :: "resource list" where
  "raw_release_order = [ConvertedBuffer, HostBuffer, NvfbcCapture, NvfbcHandle, NvfbcLibrary, CudaModule, CudaContext, CudaFunctions]"

lemma raw_destroy_in_order:
  assumes "held \<noteq> [] \<Longrightarrow> CudaFunctions \<in> set held"
  shows "raw_destroy held = map Release (filter (\<lambda>r. r \<in> set held) raw_release_order)"
proof (cases "held = []")
  case False
  then show ?thesis using assms by (simp add: raw_destroy_def raw_release_order_def release_if_def)
qed (simp add: raw_destroy_def release_if_def)

lemma raw_destroy_releases:
  assumes "prefix rs (raw_objects f)"
  shows "follow [] (map Acquire rs @ raw_destroy (case follow [] (map Acquire rs) of None \<Rightarrow> [] | Some held \<Rightarrow> held)) = Some []"
proof -
  obtain later where later: "raw_objects f = rs @ later" using assms by (auto elim: prefixE)
  have d: "distinct (raw_objects f)" "set (raw_objects f) \<subseteq> set raw_release_order"
    by (auto simp: raw_objects_def raw_buffers_def raw_release_order_def)
  have "follow [] (map Acquire (raw_objects f)) = Some (rev (raw_objects f))"
    by (simp add: raw_objects_def raw_buffers_def)
  from follow_acquire_prefix [OF this assms] have f: "follow [] (map Acquire rs) = Some (rev rs)" by simp
  have in_order: "raw_destroy (rev rs) = map Release (filter (\<lambda>r. r \<in> set (rev rs)) raw_release_order)"
    by (rule raw_destroy_in_order) (use later in \<open>cases rs; auto simp: raw_objects_def\<close>)
  have "follow (rev rs) (map Release (filter (\<lambda>r. r \<in> set (rev rs)) raw_release_order)) = Some []"
    by (rule follow_release_all) (use d later in \<open>auto simp: raw_release_order_def\<close>)
  then show ?thesis by (simp only: follow_append f option.case in_order)
qed

section \<open>Accepted arguments\<close>

definition raw_options_ok :: "raw_options \<Rightarrow> bool" where
  "raw_options_ok o' \<longleftrightarrow>
     1 \<le> unat (raw_frame_count o') \<and> unat (raw_frame_count o') \<le> 36000 \<and>
     1 \<le> unat (raw_frame_rate o') \<and> unat (raw_frame_rate o') \<le> 240"

lemma raw_parse_unsigned_range:
  "raw_parse_unsigned v maximum = Some n \<Longrightarrow> maximum < 2 ^ 32 \<Longrightarrow> 1 \<le> unat n \<and> unat n \<le> maximum"
  by (auto simp: raw_parse_unsigned_def unat_of_nat_eq split: option.split_asm if_splits)

lemma raw_value_ok: "raw_value_argument a v o' = Inr o'' \<Longrightarrow> raw_options_ok o' \<Longrightarrow> raw_options_ok o''"
  using raw_parse_unsigned_range [of v 36000] raw_parse_unsigned_range [of v 240]
  by (fastforce simp: raw_value_argument_def raw_options_ok_def split: if_splits option.split_asm)

lemma raw_parse_ok: "raw_parse args o' = Inr o'' \<Longrightarrow> raw_options_ok o' \<Longrightarrow> raw_options_ok o''"
  by (induction args o' rule: raw_parse.induct) (auto split: sum.split_asm dest: raw_value_ok)

text \<open>A value that is not accepted ends the program without an exit status.\<close>

lemma raw_zero_frames: "raw_parse [''--frames'', ''0''] raw_defaults = Inl Terminated"
  by (simp add: raw_value_argument_def raw_parse_unsigned_def stoul_def c_integer_def c_isspace_def is_digit_def digit_value_def)

section \<open>Properties\<close>


text \<open>
  Whatever set-up call or frame of the raw capture fails, the destructor of its resources releases every driver
  object acquired so far exactly once, and none before what was made from it.
\<close>

theorem raw_objects_released: "follow [] (snd (snd (raw_main ok outputs grab args))) = Some []"
proof (cases "raw_parse args raw_defaults")
  case (Inr o')
  obtain status out es where b: "raw_body ok outputs grab o' = (status, out, es)" by (metis surj_pair)
  obtain rs where "es = map Acquire rs" "prefix rs (raw_objects (raw_format o'))" using raw_body_prefix [OF b] by blast
  then show ?thesis using Inr b raw_destroy_releases by (simp add: raw_main_def)
qed (simp add: raw_main_def)

text \<open>One frame of one pixel.\<close>

definition example_raw :: raw_grab where
  "example_raw = \<lparr>rg_success = True, rg_device_buffer = 4096, rg_width = 1, rg_height = 1, rg_byte_size = 4,
     rg_alloc_converted = Some 8192, rg_alloc_host = True, rg_launched = True, rg_copied = True, rg_written = True,
     rg_memory = (\<lambda>a. ucast a), rg_order = raw_grid 1\<rparr>"

definition example_args :: "string list" where
  "example_args = [''--frames'', ''1'', ''--format'', ''gbr-identity8'']"


end
