(* ===== verification/Spec2Isabelle.thy ===== *)
theory Spec2Isabelle
  imports Transport_Control Transport_Event Transport_Setup Transport_Input Account_Policy
    Boot_Sign_In Native_Video Tap_Buffer Host_Media Display_Probe Wacom_Bridge Client_Gate Client_Schedule
    Kms_Run Kms_Scanout Uhid_Probe X264_Run X11_Run Nvfbc_Probe Nvfbc_Raw
begin

text \<open>
  PLANK is a remote workstation. A host captures, encodes and sends a desktop; a client decodes and
  presents it and sends input, including a pen tablet's reports, back. The two talk over a transport written in
  Rust behind a C interface. The repository holds the macOS host (\<^verbatim>\<open>apps/host/macos\<close>), the packet
  formats (\<^verbatim>\<open>protocol/plank-transport/include\<close>) and the probes that qualify a client's display path and
  a tablet path (\<^verbatim>\<open>probes\<close>). Paths below are relative to \<^verbatim>\<open>src\<close>.

  \<^bold>\<open>Packets.\<close> \<^verbatim>\<open>Transport_Wire\<close> states big-endian field access as the locale \<open>be_wire\<close>; each header
  interprets it with its own read and write functions. \<^verbatim>\<open>Transport_Control\<close>, \<^verbatim>\<open>Transport_Event\<close> and
  \<^verbatim>\<open>Transport_Setup\<close> are \<^verbatim>\<open>plank_transport_control.h\<close>, \<^verbatim>\<open>_event.h\<close> and \<^verbatim>\<open>_setup.h\<close>: encoders,
  decoders, and that a packet is accepted exactly when it is the frame of a valid message, so that encoding and
  decoding are inverse. A pointer argument is an option, a buffer a list of bytes, \<^verbatim>\<open>size_t\<close> a 64-bit word that
  wraps. \<^verbatim>\<open>Transport_Input\<close> is \<^verbatim>\<open>plank_transport_input.h\<close>. This theory adds that the three protocols
  exclude each other.

  \<^bold>\<open>Host policies.\<close> \<^verbatim>\<open>Account_Policy\<close> is \<^verbatim>\<open>auth/account-policy.h\<close>, who may attach to a session;
  \<^verbatim>\<open>Boot_Sign_In\<close> is \<^verbatim>\<open>auth/boot-sign-in.h\<close> and \<^verbatim>\<open>probes/macos/session-boundary.h\<close>, what the
  operating system's session records show; \<^verbatim>\<open>Host_Media\<close> is the audio gains, the tapped processes, the
  readiness test and the timing trace of \<^verbatim>\<open>media\<close> and \<^verbatim>\<open>session\<close>. Answers of the operating system are
  arguments.

  \<^bold>\<open>Video sender.\<close> \<^verbatim>\<open>Native_Video\<close> is \<^verbatim>\<open>media/native-video.m\<close> with \<^verbatim>\<open>video-recovery.h\<close>: the
  conversion of a sample to Annex B and the sender's state machine. Runs are sequences of operations with the
  transport's answers; delta frames follow an accepted key frame, frame numbers and times increase.
  \<^verbatim>\<open>Display_Probe\<close> is the probe's writer, shown to write what the sender sends, and the guarded creation of a
  virtual display.

  \<^bold>\<open>Queues.\<close> \<^verbatim>\<open>Bounded_Queue\<close> states a bounded first-in first-out queue as the locale
  \<open>bounded_queue\<close> over labelled steps, with the order of what is added and taken proved once. It is
  interpreted by the audio ring (\<^verbatim>\<open>Tap_Buffer\<close>, \<^verbatim>\<open>media/audio-tap-buffer.h\<close>, stepped at each atomic
  access with 32-bit indices that wrap), by the ready slot of the Wayland client and by that of the direct-KMS
  client, by the output queue of the encoding probe and by the input slots of the x264 benchmark.

  \<^bold>\<open>Tablet bridge.\<close> \<^verbatim>\<open>Wacom_Wire\<close>, \<^verbatim>\<open>Wacom_Host\<close>, \<^verbatim>\<open>Wacom_Client\<close> are
  \<^verbatim>\<open>probes/wacom/plank-wacom-raw-bridge.cpp\<close>: framing over short reads and writes, the two event loops, uhid
  and hidraw. \<^verbatim>\<open>Wacom_Bridge\<close> composes both ends. A socket is a list of what each call transfers; a loop
  over it ends because the list does, and enough transfer is the hypothesis of the delivery theorem.
  \<^verbatim>\<open>Uhid_Probe\<close> is \<^verbatim>\<open>plank-probe-uhid.cpp\<close> and the recognition of tablets of
  \<^verbatim>\<open>plank-probe-wacom.cpp\<close>.

  \<^bold>\<open>Display clients.\<close> \<^verbatim>\<open>C_Strings\<close> (number parsing of the C library), \<^verbatim>\<open>Ieee_Double\<close> (rounding
  to binary64 and percentiles) and \<^verbatim>\<open>Refresh_Grid\<close> (the wake-up time on the refresh grid, in 64-bit words) are
  shared. \<^verbatim>\<open>Client_Graphics\<close>, \<^verbatim>\<open>Client_Pipeline\<close>, \<^verbatim>\<open>Client_Schedule\<close> and \<^verbatim>\<open>Client_Gate\<close>
  are \<^verbatim>\<open>probes/video/plank-probe-client-pipeline.cpp\<close>: initialisation, the threads as the step relation
  \<open>pipeline_step\<close>, presentation targets, and the pass criterion. \<^verbatim>\<open>Kms_Modes\<close>, \<^verbatim>\<open>Kms_Client\<close> and
  \<^verbatim>\<open>Kms_Run\<close> are \<^verbatim>\<open>plank-probe-client-kms.cpp\<close>: the choice of an output (locale \<open>mode_ranking\<close>,
  interpreted for both programs that choose one), the framebuffer cache, the threads as \<open>kms_step\<close>.
  \<^verbatim>\<open>Kms_Scanout\<close> is \<^verbatim>\<open>probes/kms\<close>. Times are 64-bit words, statistics rational numbers rounded as
  doubles are; overflow to infinity is out of reach of the times involved.

  \<^bold>\<open>Encoding probes.\<close> \<^verbatim>\<open>Pixel_Kernel\<close>, \<^verbatim>\<open>Encode_Options\<close>, \<^verbatim>\<open>Encode_Resources\<close>,
  \<^verbatim>\<open>Encode_Pipeline\<close>, \<^verbatim>\<open>Encode_Run\<close> and \<^verbatim>\<open>Encode_Gate\<close> are
  \<^verbatim>\<open>probes/video/plank-probe-video-pipeline.cpp\<close>: the two CUDA kernels instruction by instruction (locale
  \<open>pixel_kernel\<close>, threads in any order), the command line, the driver objects as a log that is followed (an
  object is acquired after its parents and released before them), the frame loop without and with the worker thread
  (\<open>blocking_frames\<close>, \<open>encode_step\<close>), and the verdict. Shown are the complete conversion of a packed picture, the
  ranges of accepted options, the files a run leaves, that it ends and is never stuck, that everything acquired is
  released, that both modes write the same, and what exit status 0 means. \<^verbatim>\<open>X264_Benchmark\<close> and
  \<^verbatim>\<open>X264_Run\<close> are \<^verbatim>\<open>plank-benchmark-x264.cpp\<close>: options, frame layout, exact reads, the reader and encoder
  threads (\<open>x264_step\<close>), the preloaded run, the flush. Whether a driver call succeeds, its times and the encoder's
  output are arguments; what the encoder makes of a picture is a function of its time stamp.

  \<^bold>\<open>Capture probes.\<close> \<^verbatim>\<open>X11_Channels\<close>, \<^verbatim>\<open>X11_Unpack\<close>, \<^verbatim>\<open>X11_Surfaces\<close> and
  \<^verbatim>\<open>X11_Run\<close> are \<^verbatim>\<open>probes/x11/plank-probe-x11-native10.cpp\<close>: the loops over a channel mask, codes
  packed into pixels and read back, the sampling and the fingerprint of an image, the unpacking of a frame by one
  thread and by workers that share its rows (a schedule names the worker of each store; locale \<open>race_free\<close>), the
  shared-memory image with its constructor and clean-up, both round trips, and the program with its gates, loops
  and exit status. Phases of the program are composed by \<open>x_then\<close> and log the objects they obtain and dispose of.
  \<^verbatim>\<open>Nvfbc_Probe\<close> is \<^verbatim>\<open>probes/nvfbc/plank-probe-nvfbc.cpp\<close> and \<^verbatim>\<open>Nvfbc_Raw\<close> is
  \<^verbatim>\<open>plank-capture-nvfbc-raw.cpp\<close>, over the driver objects of \<^verbatim>\<open>Encode_Resources\<close>; the raw kernels are shown to
  be kernels of a one-row picture and interpret \<open>pixel_kernel\<close>. Shown are when the round trip of all codes can
  succeed, that every interleaving of the workers leaves the planes of one thread, what the counts of a report
  count, what a pass of either probe means, the bytes a raw capture writes, and that every object is released once.

  \<^bold>\<open>Steps and fuel.\<close> A blocking wait is a guard of a step. A loop that asks the operating system again
  takes the list of answers and returns \<open>None\<close> when the list ends first, so no property holds only because a
  loop did not return. No definition uses fuel.

  \<^bold>\<open>Not modelled.\<close> The Rust transport (its answers are arguments of the sender); set-up of GStreamer,
  EGL and VA-API objects, which are sequences of library calls whose meaning is outside the repository, and
  with it the VA-API, Wayland surface and NVENC probes; the parameter block of x264; report lines; the
  Objective-C of the host beside the sender; packaging, scripts and vendored code. Weak memory is not modelled:
  an atomic access is one step, in program order.
\<close>

section \<open>The three packet protocols\<close>

text \<open>C25. No bytes are a packet of two of the control, event and setup protocols: whatever the decoders
  are given, at most one of them accepts it, and a decoder that does not accept answers -1 and leaves its
  result as it was.\<close>

theorem packet_of_one_protocol:
  "let control = plank_transport_control_decode p n dc; event = plank_transport_event_decode p n de;
       setup = plank_transport_setup_decode p n ds
   in \<not> (fst control = 0 \<and> fst event = 0) \<and> \<not> (fst control = 0 \<and> fst setup = 0) \<and>
      \<not> (fst event = 0 \<and> fst setup = 0) \<and>
      (fst control = 0 \<or> control = (- 1, dc)) \<and> (fst event = 0 \<or> event = (- 1, de)) \<and>
      (fst setup = 0 \<or> setup = (- 1, ds))"
proof -
  let ?magic = "plank_transport_control_read_u32 (the p) 0"
  have reads: "plank_transport_event_read_u32 = plank_transport_control_read_u32"
    "plank_transport_setup_read_u32 = plank_transport_control_read_u32"
    by (simp_all add: fun_eq_iff plank_transport_control_read_u32_def plank_transport_event_read_u32_def
        plank_transport_setup_read_u32_def)
  have c: "plank_transport_control_decode p n dc = (- 1, dc) \<or>
      fst (plank_transport_control_decode p n dc) = 0 \<and> ?magic = PLANK_TRANSPORT_CONTROL_MAGIC"
    by (simp add: plank_transport_control_decode_def Let_def)
  have e: "plank_transport_event_decode p n de = (- 1, de) \<or>
      fst (plank_transport_event_decode p n de) = 0 \<and> ?magic = PLANK_TRANSPORT_EVENT_MAGIC"
    by (simp add: plank_transport_event_decode_def Let_def reads)
  have s: "plank_transport_setup_decode p n ds = (- 1, ds) \<or>
      fst (plank_transport_setup_decode p n ds) = 0 \<and> ?magic = PLANK_TRANSPORT_SETUP_MAGIC"
    by (simp add: plank_transport_setup_decode_def Let_def reads)
  have "PLANK_TRANSPORT_CONTROL_MAGIC \<noteq> PLANK_TRANSPORT_EVENT_MAGIC"
    "PLANK_TRANSPORT_CONTROL_MAGIC \<noteq> PLANK_TRANSPORT_SETUP_MAGIC"
    "PLANK_TRANSPORT_EVENT_MAGIC \<noteq> PLANK_TRANSPORT_SETUP_MAGIC"
    by (simp_all add: PLANK_TRANSPORT_CONTROL_MAGIC_def PLANK_TRANSPORT_EVENT_MAGIC_def PLANK_TRANSPORT_SETUP_MAGIC_def)
  then show ?thesis using c e s unfolding Let_def by fastforce
qed

end
